(* ===== verification/Gateway_Prelude.thy ===== *)
theory Gateway_Prelude
  imports Complex_Main "HOL-Library.AList" "HOL-Library.Char_ord" "HOL-Library.List_Lexorder"
begin

text \<open>
  What every component of the gateway model shares: JSON values as Python dicts and lists hold
  them, the dict operations (lookup with a default, assignment, merging, comprehension), the
  truth value and the equality of Python, results of operations that can raise, and the generic
  lemmas on lists and association lists that the component proofs use.

  Strings are HOL strings; a HOL character stands for one Python code point below 256.
\<close>

section \<open>Collections of rewrite rules\<close>

named_theorems dict_simps \<open>lookup after each dict operation\<close>
named_theorems wf_intros \<open>operations that keep a dict's keys distinct\<close>

section \<open>Results of operations that can raise\<close>

text \<open>\<open>Inl e\<close> is a raised exception, \<open>Inr x\<close> a returned value.\<close>

definition rbind :: "'e + 'a \<Rightarrow> ('a \<Rightarrow> 'e + 'b) \<Rightarrow> 'e + 'b" where
  "rbind m f = (case m of Inl e \<Rightarrow> Inl e | Inr x \<Rightarrow> f x)"

lemma rbind_simps [simp]:
  "rbind (Inl e) f = Inl e"
  "rbind (Inr x) f = f x"
  by (simp_all add: rbind_def)

lemma rbind_eq_Inr [simp]: "rbind m f = Inr y \<longleftrightarrow> (\<exists>x. m = Inr x \<and> f x = Inr y)"
  by (cases m) auto

lemma rbind_eq_Inl: "rbind m f = Inl e \<longleftrightarrow> m = Inl e \<or> (\<exists>x. m = Inr x \<and> f x = Inl e)"
  by (cases m) auto

lemma rbind_assoc: "rbind (rbind m f) g = rbind m (\<lambda>x. rbind (f x) g)"
  by (cases m) simp_all

lemma rbind_cong [fundef_cong]:
  "m = m' \<Longrightarrow> (\<And>x. m' = Inr x \<Longrightarrow> f x = f' x) \<Longrightarrow> rbind m f = rbind m' f'"
  by (cases m') auto

text \<open>A loop whose body may raise: the first failing element decides.\<close>

fun each :: "('a \<Rightarrow> 'e + unit) \<Rightarrow> 'a list \<Rightarrow> 'e + unit" where
  "each f [] = Inr ()"
| "each f (x # xs) = rbind (f x) (\<lambda>_. each f xs)"

lemma each_Inr [simp]: "each f xs = Inr u \<longleftrightarrow> (\<forall>x \<in> set xs. f x = Inr ())"
  by (induction xs) auto

lemma each_Inl: "each f xs = Inl e \<Longrightarrow> \<exists>x \<in> set xs. f x = Inl e"
  by (induction xs) (auto simp: rbind_eq_Inl)

fun rmap :: "('a \<Rightarrow> 'e + 'b) \<Rightarrow> 'a list \<Rightarrow> 'e + 'b list" where
  "rmap f [] = Inr []"
| "rmap f (x # xs) = rbind (f x) (\<lambda>y. rbind (rmap f xs) (\<lambda>ys. Inr (y # ys)))"

lemma rmap_Inr_length: "rmap f xs = Inr ys \<Longrightarrow> length ys = length xs"
  by (induction xs arbitrary: ys) auto

lemma rmap_Inr_set: "rmap f xs = Inr ys \<Longrightarrow> y \<in> set ys \<Longrightarrow> \<exists>x \<in> set xs. f x = Inr y"
  by (induction xs arbitrary: ys) auto

section \<open>Lists\<close>

text \<open>Python's \<open>sorted(set(xs))\<close> and \<open>next((x for x in xs if p x), None)\<close>.\<close>

definition sorted_set :: "'a::linorder list \<Rightarrow> 'a list" where
  "sorted_set xs = sort (remdups xs)"

lemma sorted_set_props [simp]:
  "sorted (sorted_set xs)" "distinct (sorted_set xs)" "set (sorted_set xs) = set xs"
  by (simp_all add: sorted_set_def)

lemma sorted_set_Nil_iff [simp]: "sorted_set xs = [] \<longleftrightarrow> xs = []"
proof -
  have "sorted_set xs = [] \<longleftrightarrow> set (sorted_set xs) = {}" by (simp only: set_empty)
  then show ?thesis by simp
qed

lemma find_Some_props: "find P xs = Some x \<Longrightarrow> x \<in> set xs \<and> P x"
  by (auto simp: find_Some_iff)

lemma find_None_props: "find P xs = None \<longleftrightarrow> (\<forall>x \<in> set xs. \<not> P x)"
  by (auto simp: find_None_iff)

lemma sum_list_nonneg_rat: "(\<And>x. x \<in> set xs \<Longrightarrow> (0::rat) \<le> x) \<Longrightarrow> 0 \<le> sum_list xs"
  by (rule sum_list_nonneg)

text \<open>\<open>enumerate(xs)\<close> with indices as Python ints.\<close>

definition enumerate_py :: "'a list \<Rightarrow> (nat \<times> 'a) list" where
  "enumerate_py xs = List.enumerate 0 xs"

lemma set_enumerate_py: "(i, x) \<in> set (enumerate_py xs) \<longleftrightarrow> i < length xs \<and> xs ! i = x"
  by (auto simp: enumerate_py_def in_set_enumerate_eq)

section \<open>Dicts\<close>

type_synonym ('k, 'v) dict = "('k \<times> 'v) list"

abbreviation has_key :: "('k, 'v) dict \<Rightarrow> 'k \<Rightarrow> bool" where
  "has_key d k \<equiv> map_of d k \<noteq> None"

definition wf_dict :: "('k, 'v) dict \<Rightarrow> bool" where
  "wf_dict d \<longleftrightarrow> distinct (map fst d)"

text \<open>\<open>d[k] = v\<close>: in place when the key is there, at the end otherwise.\<close>

abbreviation dict_put :: "'k \<Rightarrow> 'v \<Rightarrow> ('k, 'v) dict \<Rightarrow> ('k, 'v) dict" where
  "dict_put k v d \<equiv> AList.update k v d"

text \<open>\<open>d.pop(k, None)\<close>.\<close>

abbreviation dict_del :: "'k \<Rightarrow> ('k, 'v) dict \<Rightarrow> ('k, 'v) dict" where
  "dict_del k d \<equiv> AList.delete k d"

text \<open>\<open>{**a, **b}\<close>.\<close>

fun dict_merge :: "('k, 'v) dict \<Rightarrow> ('k, 'v) dict \<Rightarrow> ('k, 'v) dict" where
  "dict_merge a [] = a"
| "dict_merge a ((k, v) # b) = dict_merge (dict_put k v a) b"

text \<open>\<open>{k: v for k, v in d.items() if p k v}\<close>.\<close>

definition dict_filter :: "('k \<Rightarrow> 'v \<Rightarrow> bool) \<Rightarrow> ('k, 'v) dict \<Rightarrow> ('k, 'v) dict" where
  "dict_filter p d = filter (\<lambda>(k, v). p k v) d"

lemma map_of_dict_put [dict_simps]: "map_of (dict_put k v d) = (map_of d)(k \<mapsto> v)"
  by (rule ext) (simp add: update_conv')

lemma map_of_dict_del [dict_simps]: "map_of (dict_del k d) = (map_of d)(k := None)"
  by (rule ext) (simp add: delete_conv')

lemma wf_dict_Nil [simp, wf_intros]: "wf_dict []"
  by (simp add: wf_dict_def)

lemma wf_dict_Cons: "wf_dict ((k, v) # d) \<longleftrightarrow> k \<notin> fst ` set d \<and> wf_dict d"
  by (auto simp: wf_dict_def)

lemma wf_dict_put [wf_intros]: "wf_dict d \<Longrightarrow> wf_dict (dict_put k v d)"
  by (simp add: wf_dict_def distinct_update)

lemma wf_dict_del [wf_intros]: "wf_dict d \<Longrightarrow> wf_dict (dict_del k d)"
  by (simp add: wf_dict_def distinct_delete)

lemma wf_dict_filter [wf_intros]: "wf_dict d \<Longrightarrow> wf_dict (dict_filter p d)"
  by (induction d) (auto simp: wf_dict_def dict_filter_def)

lemma wf_dict_merge [wf_intros]: "wf_dict a \<Longrightarrow> wf_dict (dict_merge a b)"
  by (induction a b rule: dict_merge.induct) (auto intro: wf_intros)

lemma map_of_dict_merge [dict_simps]:
  "wf_dict b \<Longrightarrow> map_of (dict_merge a b) = map_of a ++ map_of b"
proof (induction a b rule: dict_merge.induct)
  case (1 a)
  then show ?case by simp
next
  case (2 a k v b)
  then have "map_of b k = None" by (simp add: wf_dict_Cons map_of_eq_None_iff)
  with 2 show ?case
    by (auto simp: wf_dict_Cons dict_simps map_add_def fun_eq_iff split: option.splits)
qed

lemma map_of_dict_filter [dict_simps]:
  assumes "wf_dict d"
  shows "map_of (dict_filter p d) k =
    (case map_of d k of Some v \<Rightarrow> if p k v then Some v else None | None \<Rightarrow> None)"
  using assms
proof (induction d)
  case Nil
  then show ?case by (simp add: dict_filter_def)
next
  case (Cons kv d)
  obtain k' v where kv: "kv = (k', v)" by (cases kv)
  with Cons have "map_of d k' = None" by (simp add: wf_dict_Cons map_of_eq_None_iff)
  with Cons kv show ?case by (auto simp: wf_dict_Cons dict_filter_def split: option.splits)
qed

lemma map_of_dict_filter_key [dict_simps]:
  "map_of (dict_filter (\<lambda>k v. P k) d) k = (if P k then map_of d k else None)"
  by (induction d) (auto simp: dict_filter_def)

lemma dict_filter_keys: "fst ` set (dict_filter p d) \<subseteq> fst ` set d"
  by (auto simp: dict_filter_def)

section \<open>JSON values\<close>

text \<open>
  A decoded JSON body. Python keeps \<open>bool\<close> a subclass of \<open>int\<close>; the constructors are kept
  apart and \<open>is_int\<close> is \<open>isinstance(v, int)\<close>, which holds of both.
\<close>

datatype json =
    JNull
  | JBool bool
  | JInt int
  | JFloat rat
  | JStr string
  | JList "json list"
  | JObj "(string \<times> json) list"

type_synonym body = "(string, json) dict"

fun is_str :: "json \<Rightarrow> bool" where
  "is_str (JStr s) = True" | "is_str v = False"

fun is_bool :: "json \<Rightarrow> bool" where
  "is_bool (JBool b) = True" | "is_bool v = False"

fun is_list :: "json \<Rightarrow> bool" where
  "is_list (JList xs) = True" | "is_list v = False"

fun is_obj :: "json \<Rightarrow> bool" where
  "is_obj (JObj d) = True" | "is_obj v = False"

fun is_int :: "json \<Rightarrow> bool" where
  "is_int (JInt i) = True" | "is_int (JBool b) = True" | "is_int v = False"

text \<open>\<open>isinstance(v, int) and not isinstance(v, bool)\<close>.\<close>

fun as_int :: "json \<Rightarrow> int option" where
  "as_int (JInt i) = Some i" | "as_int v = None"

fun as_str :: "json \<Rightarrow> string option" where
  "as_str (JStr s) = Some s" | "as_str v = None"

fun as_list :: "json \<Rightarrow> json list option" where
  "as_list (JList xs) = Some xs" | "as_list v = None"

fun as_obj :: "json \<Rightarrow> body option" where
  "as_obj (JObj d) = Some d" | "as_obj v = None"

text \<open>\<open>bool(v)\<close>.\<close>

fun truthy :: "json \<Rightarrow> bool" where
  "truthy JNull = False"
| "truthy (JBool b) = b"
| "truthy (JInt i) = (i \<noteq> 0)"
| "truthy (JFloat r) = (r \<noteq> 0)"
| "truthy (JStr s) = (s \<noteq> [])"
| "truthy (JList xs) = (xs \<noteq> [])"
| "truthy (JObj d) = (d \<noteq> [])"

text \<open>\<open>v in (None, False)\<close>: equality with \<open>False\<close> also holds of the numbers equal to zero.\<close>

fun none_or_false :: "json \<Rightarrow> bool" where
  "none_or_false JNull = True"
| "none_or_false (JBool b) = (\<not> b)"
| "none_or_false (JInt i) = (i = 0)"
| "none_or_false (JFloat r) = (r = 0)"
| "none_or_false v = False"

text \<open>\<open>d.get(k)\<close>, \<open>d.get(k, dflt)\<close>, and \<open>v or dflt\<close>.\<close>

definition dget :: "body \<Rightarrow> string \<Rightarrow> json" where
  "dget d k = (case map_of d k of Some v \<Rightarrow> v | None \<Rightarrow> JNull)"

definition dget_or :: "body \<Rightarrow> string \<Rightarrow> json \<Rightarrow> json" where
  "dget_or d k v0 = (case map_of d k of Some v \<Rightarrow> v | None \<Rightarrow> v0)"

definition py_or :: "json \<Rightarrow> json \<Rightarrow> json" where
  "py_or v v0 = (if truthy v then v else v0)"

text \<open>\<open>v.get(k) if isinstance(v, dict) else None\<close>, a lookup in a value that may be no dict.\<close>

definition oget :: "json \<Rightarrow> string \<Rightarrow> json" where
  "oget v k = (case v of JObj d \<Rightarrow> dget d k | _ \<Rightarrow> JNull)"

text \<open>\<open>for x in v or []\<close> where the value is a list, and iteration of a non-list elsewhere.\<close>

definition list_or_empty :: "json \<Rightarrow> json list" where
  "list_or_empty v = (case v of JList xs \<Rightarrow> xs | _ \<Rightarrow> [])"

lemma is_int_as_int: "as_int v = Some i \<Longrightarrow> is_int v"
  by (cases v) auto

lemma as_iff [simp]:
  "as_int v = Some i \<longleftrightarrow> v = JInt i" "as_str v = Some s \<longleftrightarrow> v = JStr s"
  "as_list v = Some xs \<longleftrightarrow> v = JList xs" "as_obj v = Some d \<longleftrightarrow> v = JObj d"
  by (cases v; auto)+

lemma is_iff:
  "is_str v \<longleftrightarrow> (\<exists>s. v = JStr s)" "is_list v \<longleftrightarrow> (\<exists>xs. v = JList xs)"
  "is_obj v \<longleftrightarrow> (\<exists>d. v = JObj d)" "is_bool v \<longleftrightarrow> (\<exists>b. v = JBool b)"
  by (cases v; simp)+

lemma dget_put [dict_simps]: "dget (dict_put k v d) k' = (if k' = k then v else dget d k')"
  by (simp add: dget_def dict_simps)

lemma dget_merge [dict_simps]:
  "wf_dict b \<Longrightarrow> dget (dict_merge a b) k = (if has_key b k then dget b k else dget a k)"
  by (auto simp: dget_def dict_simps map_add_def split: option.splits)

section \<open>Text\<close>

definition starts_with :: "string \<Rightarrow> string \<Rightarrow> bool" where
  "starts_with p s \<longleftrightarrow> take (length p) s = p"

fun join :: "string \<Rightarrow> string list \<Rightarrow> string" where
  "join sep [] = []"
| "join sep [s] = s"
| "join sep (s # t # ss) = s @ sep @ join sep (t # ss)"

definition is_space :: "char \<Rightarrow> bool" where
  "is_space c \<longleftrightarrow> (let n = of_char c :: nat in
     9 \<le> n \<and> n \<le> 13 \<or> 28 \<le> n \<and> n \<le> 32 \<or> n = 133 \<or> n = 160)"

text \<open>\<open>s.strip()\<close>.\<close>

definition strip :: "string \<Rightarrow> string" where
  "strip s = rev (dropWhile is_space (rev (dropWhile is_space s)))"

lemma strip_Nil_iff: "strip s = [] \<longleftrightarrow> (\<forall>c \<in> set s. is_space c)"
proof
  assume "strip s = []"
  then have "\<forall>c \<in> set (dropWhile is_space s). is_space c"
    by (simp add: strip_def)
  then have "dropWhile is_space s = []"
    by (metis dropWhile_eq_Nil_conv hd_dropWhile list.set_sel(1))
  then show "\<forall>c \<in> set s. is_space c" by simp
next
  assume "\<forall>c \<in> set s. is_space c"
  then show "strip s = []" by (auto simp: strip_def dest: set_dropWhileD)
qed

lemma join_Nil_iff: "(\<forall>s \<in> set ss. s \<noteq> []) \<Longrightarrow> join sep ss = [] \<longleftrightarrow> ss = []"
  by (induction sep ss rule: join.induct) auto

end
