(* ===== verification/Python_Floats.thy ===== *)
theory Python_Floats
  imports Gateway_Prelude "HOL-Library.Log_Nat"
begin

text \<open>
  Python's \<open>float\<close>: IEEE-754 binary64 with round-to-nearest-even. A finite float is the
  rational it denotes; each operation is the exact rational operation followed by \<open>rnd\<close>, the
  rounding to 53 significant bits. Overflow to infinity, subnormals and NaN are outside the
  model: the values the gateway computes with (seconds, dollars, scores) are finite and far from
  both ends of the exponent range.
\<close>

section \<open>Rounding\<close>

text \<open>The exponent \<open>e\<close> with \<open>2^e \<le> |x| < 2^(e+1)\<close>.\<close>

definition fl_exp :: "rat \<Rightarrow> int" where
  "fl_exp x = (let (n, d) = quotient_of \<bar>x\<bar>; e = bitlen n - bitlen d
     in if 2 powi e \<le> \<bar>x\<bar> then e else e - 1)"

definition round_half_even :: "rat \<Rightarrow> int" where
  "round_half_even y = (let f = \<lfloor>y\<rfloor>; r = y - of_int f
     in if r < 1/2 then f else if 1/2 < r then f + 1 else if even f then f else f + 1)"

definition rnd :: "rat \<Rightarrow> rat" where
  "rnd x = (if x = 0 then 0
     else let u = 2 powi (fl_exp x - 52) in of_int (round_half_even (x / u)) * u)"

lemma fl_exp_bounds:
  assumes "x \<noteq> 0"
  shows "2 powi (fl_exp x) \<le> \<bar>x\<bar>" "\<bar>x\<bar> < 2 powi (fl_exp x + 1)"
proof -
  obtain n d where q: "quotient_of \<bar>x\<bar> = (n, d)" by (cases "quotient_of \<bar>x\<bar>")
  then have d: "0 < d" and x: "\<bar>x\<bar> = of_int n / of_int d"
    by (simp_all add: quotient_of_denom_pos quotient_of_div)
  with assms have n: "0 < n"
    by (metis abs_ge_zero abs_eq_0 divide_eq_0_iff less_le of_int_0_le_iff of_int_pos
        of_int_0 zero_le_divide_iff not_less)
  define e where "e = bitlen n - bitlen d"
  have pow: "(2::rat) ^ nat k = 2 powi k" if "0 \<le> k" for k :: int
    using that by (simp add: power_int_def)
  have bl: "1 \<le> bitlen n" "1 \<le> bitlen d"
    using n d by (simp_all add: bitlen_ge_iff_power)
  have nb: "2 powi (bitlen n - 1) \<le> (of_int n :: rat)" "(of_int n :: rat) < 2 powi (bitlen n)"
  proof -
    have "(2::int) ^ nat (bitlen n - 1) \<le> n" "n < 2 ^ nat (bitlen n)"
      using bitlen_bounds [OF n] by simp_all
    then have "(of_int (2 ^ nat (bitlen n - 1)) :: rat) \<le> of_int n"
      "(of_int n :: rat) < of_int (2 ^ nat (bitlen n))"
      by (simp_all only: of_int_le_iff of_int_less_iff)
    then show "2 powi (bitlen n - 1) \<le> (of_int n :: rat)" "(of_int n :: rat) < 2 powi (bitlen n)"
      using bl by (simp_all add: pow)
  qed
  have db: "2 powi (bitlen d - 1) \<le> (of_int d :: rat)" "(of_int d :: rat) < 2 powi (bitlen d)"
  proof -
    have "(2::int) ^ nat (bitlen d - 1) \<le> d" "d < 2 ^ nat (bitlen d)"
      using bitlen_bounds [OF d] by simp_all
    then have "(of_int (2 ^ nat (bitlen d - 1)) :: rat) \<le> of_int d"
      "(of_int d :: rat) < of_int (2 ^ nat (bitlen d))"
      by (simp_all only: of_int_le_iff of_int_less_iff)
    then show "2 powi (bitlen d - 1) \<le> (of_int d :: rat)" "(of_int d :: rat) < 2 powi (bitlen d)"
      using bl by (simp_all add: pow)
  qed
  have lo: "2 powi (e - 1) < \<bar>x\<bar>"
  proof -
    have "2 powi (e - 1) = (2 powi (bitlen n - 1) :: rat) / 2 powi (bitlen d)"
      by (simp add: e_def power_int_diff)
    also have "\<dots> \<le> of_int n / 2 powi (bitlen d)"
      using nb(1) by (simp add: divide_right_mono)
    also have "\<dots> < of_int n / of_int d"
      using db(2) n d by (simp add: divide_strict_left_mono)
    finally show ?thesis by (simp add: x)
  qed
  have hi: "\<bar>x\<bar> < 2 powi (e + 1)"
  proof -
    have "of_int n / of_int d < (2 powi (bitlen n) :: rat) / of_int d"
      using nb(2) d by (simp add: divide_strict_right_mono)
    also have "\<dots> \<le> 2 powi (bitlen n) / 2 powi (bitlen d - 1)"
      using db(1) d by (intro divide_left_mono) auto
    also have "\<dots> = 2 powi (e + 1)"
      by (simp add: e_def power_int_diff power_int_add)
    finally show ?thesis by (simp add: x)
  qed
  have fe: "fl_exp x = (if 2 powi e \<le> \<bar>x\<bar> then e else e - 1)"
    by (simp add: fl_exp_def q e_def)
  show "2 powi (fl_exp x) \<le> \<bar>x\<bar>" "\<bar>x\<bar> < 2 powi (fl_exp x + 1)"
    using lo hi by (auto simp: fe)
qed

lemma powi2_less: "(2::rat) powi a < 2 powi b \<longleftrightarrow> a < b"
proof
  show "(2::rat) powi a < 2 powi b \<Longrightarrow> a < b"
    using power_int_increasing [of b a "2::rat"] by (meson not_le one_le_numeral)
  show "a < b \<Longrightarrow> (2::rat) powi a < 2 powi b"
    by (rule power_int_strict_increasing) simp_all
qed

lemma fl_exp_mono:
  assumes "0 < x" "x \<le> y"
  shows "fl_exp x \<le> fl_exp y"
proof -
  have "2 powi (fl_exp x) < (2 powi (fl_exp y + 1) :: rat)"
    using fl_exp_bounds(1) [of x] fl_exp_bounds(2) [of y] assms by simp
  then show ?thesis by (simp add: powi2_less)
qed

lemma round_half_even_mono: "x \<le> y \<Longrightarrow> round_half_even x \<le> round_half_even y"
proof -
  assume le: "x \<le> y"
  have f: "\<lfloor>x\<rfloor> \<le> \<lfloor>y\<rfloor>" using le by (rule floor_mono)
  have b: "\<lfloor>x\<rfloor> \<le> round_half_even x" "round_half_even x \<le> \<lfloor>x\<rfloor> + 1" "\<lfloor>y\<rfloor> \<le> round_half_even y"
    by (simp_all add: round_half_even_def Let_def)
  show ?thesis
  proof (cases "\<lfloor>x\<rfloor> = \<lfloor>y\<rfloor>")
    case True
    with le show ?thesis by (auto simp: round_half_even_def Let_def)
  next
    case False
    with f b show ?thesis by linarith
  qed
qed

lemma round_half_even_int [simp]: "round_half_even (of_int k) = k"
  by (simp add: round_half_even_def)

lemma round_half_even_numeral [simp]: "round_half_even (numeral k) = numeral k"
  using round_half_even_int [of "numeral k"] by simp

lemma round_half_even_near: "\<bar>of_int (round_half_even y) - y\<bar> \<le> 1/2"
proof -
  have "of_int \<lfloor>y\<rfloor> \<le> y" "y < of_int \<lfloor>y\<rfloor> + 1" by linarith+
  then show ?thesis
    by (simp add: round_half_even_def Let_def abs_if split del: if_split) (simp split: if_split; linarith)
qed

lemma rnd_0 [simp]: "rnd 0 = 0"
  by (simp add: rnd_def)

lemma rnd_pos_bounds:
  assumes "0 < x"
  shows "2 powi (fl_exp x) \<le> rnd x" "rnd x \<le> 2 powi (fl_exp x + 1)"
proof -
  define u :: rat where "u = 2 powi (fl_exp x - 52)"
  have u: "0 < u" by (simp add: u_def)
  have r: "rnd x = of_int (round_half_even (x / u)) * u"
    using assms by (simp add: rnd_def u_def Let_def)
  have lo: "of_int (2 ^ 52) \<le> x / u"
    using fl_exp_bounds(1) [of x] assms u
    by (simp add: u_def power_int_diff field_simps)
  have hi: "x / u \<le> of_int (2 ^ 53)"
    using fl_exp_bounds(2) [of x] assms u
    by (simp add: u_def power_int_diff power_int_add field_simps)
  have "(2 ^ 52 :: int) \<le> round_half_even (x / u)" "round_half_even (x / u) \<le> 2 ^ 53"
    using round_half_even_mono [OF lo] round_half_even_mono [OF hi]
    by (simp_all only: round_half_even_int)
  then have "of_int (2 ^ 52) * u \<le> rnd x" "rnd x \<le> of_int (2 ^ 53) * u"
    using u unfolding r by (metis of_int_le_iff less_imp_le mult_right_mono)+
  moreover have "of_int (2 ^ 52) * u = 2 powi (fl_exp x)" "of_int (2 ^ 53) * u = 2 powi (fl_exp x + 1)"
    by (simp_all add: u_def power_int_diff power_int_add)
  ultimately show "2 powi (fl_exp x) \<le> rnd x" "rnd x \<le> 2 powi (fl_exp x + 1)"
    by simp_all
qed

lemma rnd_pos: "0 < x \<Longrightarrow> 0 < rnd x"
  using rnd_pos_bounds(1) [of x] by (meson less_le_trans zero_less_power_int zero_less_numeral)

lemma rnd_mono_pos:
  assumes "0 < x" "x \<le> y"
  shows "rnd x \<le> rnd y"
proof (cases "fl_exp x = fl_exp y")
  case True
  have "x / 2 powi (fl_exp y - 52) \<le> y / 2 powi (fl_exp y - 52)"
    using assms(2) by (simp add: divide_right_mono)
  with assms True show ?thesis
    by (simp add: rnd_def Let_def round_half_even_mono mult_right_mono)
next
  case False
  with fl_exp_mono [OF assms] have "fl_exp x + 1 \<le> fl_exp y" by simp
  then have "(2::rat) powi (fl_exp x + 1) \<le> 2 powi (fl_exp y)"
    by (simp add: power_int_increasing)
  with rnd_pos_bounds(2) [OF assms(1)] rnd_pos_bounds(1) [of y] assms show ?thesis
    by simp
qed

lemma fl_exp_minus [simp]: "fl_exp (- x) = fl_exp x"
  by (simp add: fl_exp_def)

lemma round_half_even_minus: "round_half_even (- y) = - round_half_even y"
proof (cases "of_int \<lfloor>y\<rfloor> = y")
  case True
  then obtain k where "y = of_int k" by metis
  then show ?thesis by (metis of_int_minus round_half_even_int)
next
  case False
  then have "\<lfloor>- y\<rfloor> = - \<lfloor>y\<rfloor> - 1"
    by (smt (verit) ceiling_def floor_unique minus_minus of_int_diff of_int_minus of_int_1
        ceiling_diff_floor_le_1 floor_le_ceiling ceiling_altdef)
  with False show ?thesis by (auto simp: round_half_even_def Let_def)
qed

lemma rnd_minus: "rnd (- x) = - rnd x"
  by (simp add: rnd_def Let_def round_half_even_minus)

lemma rnd_neg: "x < 0 \<Longrightarrow> rnd x < 0"
  using rnd_pos [of "- x"] by (simp add: rnd_minus)

lemma rnd_mono: "x \<le> y \<Longrightarrow> rnd x \<le> rnd y"
proof -
  assume le: "x \<le> y"
  consider "0 < x" | "x \<le> 0" "0 \<le> y" | "y < 0" using le by linarith
  then show ?thesis
  proof cases
    case 1
    then show ?thesis using le by (rule rnd_mono_pos)
  next
    case 2
    then show ?thesis using rnd_pos [of y] rnd_neg [of x] by (cases "x = 0"; cases "y = 0") auto
  next
    case 3
    then show ?thesis using rnd_mono_pos [of "- y" "- x"] le by (simp add: rnd_minus)
  qed
qed

lemma rnd_nonneg: "0 \<le> x \<Longrightarrow> 0 \<le> rnd x"
  using rnd_mono [of 0 x] by simp

lemma rnd_int_pos:
  assumes "0 < k" "k \<le> 2 ^ 53"
  shows "rnd (of_int k) = of_int k"
proof (cases "k = 2 ^ 53")
  case True
  have "fl_exp (of_int k) = 53"
  proof -
    have "2 powi (fl_exp (of_int k)) < (2 powi 54 :: rat)" "(2::rat) powi 53 < 2 powi (fl_exp (of_int k) + 1)"
      using fl_exp_bounds [of "of_int k"] True by (simp_all add: power_int_add)
    then show ?thesis unfolding powi2_less by simp
  qed
  moreover have "(of_int k :: rat) / 2 powi 1 = of_int (2 ^ 52)" by (simp add: True)
  ultimately show ?thesis
    using True by (simp add: rnd_def Let_def del: of_int_power)
next
  case False
  define e where "e = fl_exp (of_int k)"
  have ne: "(of_int k :: rat) \<noteq> 0" using assms by simp
  have "(2::rat) powi 0 < 2 powi (e + 1)"
    using fl_exp_bounds(2) [OF ne] assms by (simp add: e_def del: of_int_0 of_int_power)
  moreover have "(2::rat) powi e < 2 powi 53"
  proof -
    have "(of_int k :: rat) < of_int (2 ^ 53)"
      using assms False by (simp only: of_int_less_iff)
    then show ?thesis using fl_exp_bounds(1) [OF ne] assms by (simp add: e_def)
  qed
  ultimately have e: "0 \<le> e" "e \<le> 52"
    unfolding powi2_less by (simp_all only: zless_add1_eq) linarith+
  define m where "m = nat (52 - e)"
  have u: "(2::rat) powi (fl_exp (of_int k) - 52) = 1 / 2 ^ m"
  proof -
    have "fl_exp (of_int k) - 52 = - int m" using e by (simp add: m_def e_def)
    then show ?thesis by (simp only: power_int_minus power_int_of_nat inverse_eq_divide)
  qed
  have "(of_int k :: rat) / (1 / 2 ^ m) = of_int (k * 2 ^ m)" by simp
  then have "rnd (of_int k) = of_int (round_half_even (of_int (k * 2 ^ m))) * (1 / 2 ^ m)"
    unfolding rnd_def Let_def u using ne by metis
  then show ?thesis by (simp only: round_half_even_int) simp
qed

text \<open>Integers up to \<open>2^53\<close> are floats: counts, seconds and window boundaries are exact.\<close>

lemma rnd_int: "\<bar>k\<bar> \<le> 2 ^ 53 \<Longrightarrow> rnd (of_int k) = of_int k"
proof -
  assume k: "\<bar>k\<bar> \<le> 2 ^ 53"
  consider "0 < k" | "k = 0" | "k < 0" by linarith
  then show ?thesis
  proof cases
    case 3
    then have "rnd (of_int (- k)) = of_int (- k)" using k by (intro rnd_int_pos) auto
    then show ?thesis by (simp add: rnd_minus)
  qed (use k rnd_int_pos [of k] in auto)
qed

section \<open>Arithmetic\<close>

type_synonym float_py = rat

definition fadd :: "float_py \<Rightarrow> float_py \<Rightarrow> float_py" where
  "fadd x y = rnd (x + y)"

definition fmul :: "float_py \<Rightarrow> float_py \<Rightarrow> float_py" where
  "fmul x y = rnd (x * y)"

definition fdiv :: "float_py \<Rightarrow> float_py \<Rightarrow> float_py" where
  "fdiv x y = rnd (x / y)"

text \<open>\<open>float(n)\<close> of an int.\<close>

definition float_of_int :: "int \<Rightarrow> float_py" where
  "float_of_int n = rnd (of_int n)"

text \<open>\<open>int(x)\<close> truncates towards zero.\<close>

definition int_of_float :: "float_py \<Rightarrow> int" where
  "int_of_float x = (if 0 \<le> x then \<lfloor>x\<rfloor> else \<lceil>x\<rceil>)"

definition fsub :: "float_py \<Rightarrow> float_py \<Rightarrow> float_py" where
  "fsub x y = rnd (x - y)"

lemma fadd_mono: "a \<le> b \<Longrightarrow> c \<le> d \<Longrightarrow> fadd a c \<le> fadd b d"
  by (simp add: fadd_def rnd_mono)

lemma fadd_nonneg: "0 \<le> a \<Longrightarrow> 0 \<le> b \<Longrightarrow> 0 \<le> fadd a b"
  by (simp add: fadd_def rnd_nonneg)

lemma fmul_nonneg: "0 \<le> a \<Longrightarrow> 0 \<le> b \<Longrightarrow> 0 \<le> fmul a b"
  by (simp add: fmul_def rnd_nonneg)

lemma foldl_fadd_nonneg: "0 \<le> a \<Longrightarrow> (\<forall>x \<in> set xs. 0 \<le> x) \<Longrightarrow> 0 \<le> foldl fadd a xs"
  by (induction xs arbitrary: a) (auto intro: fadd_nonneg)

text \<open>The relative error of one rounding.\<close>

lemma rnd_error: "\<bar>rnd x - x\<bar> \<le> \<bar>x\<bar> / 2 ^ 53"
proof (cases "x = 0")
  case True
  then show ?thesis by simp
next
  case False
  define u :: rat where "u = 2 powi (fl_exp x - 52)"
  have u: "0 < u" by (simp add: u_def)
  have r: "rnd x = of_int (round_half_even (x / u)) * u"
    using False by (simp add: rnd_def u_def Let_def)
  have "rnd x - x = (of_int (round_half_even (x / u)) - x / u) * u"
    using u by (simp add: r algebra_simps)
  then have "\<bar>rnd x - x\<bar> \<le> 1/2 * u"
    using u round_half_even_near [of "x / u"] by (simp only: abs_mult abs_of_pos mult_right_mono less_imp_le)
  also have "1/2 * u * 2 ^ 53 = 2 powi fl_exp x"
    by (simp add: u_def power_int_diff)
  then have "1/2 * u = 2 powi fl_exp x / 2 ^ 53" by (simp add: field_simps)
  also have "\<dots> \<le> \<bar>x\<bar> / 2 ^ 53"
    using fl_exp_bounds(1) [OF False] by (intro divide_right_mono) simp_all
  finally show ?thesis .
qed

text \<open>Rounding commutes with powers of two, so a rounded value is a float: it rounds to itself.\<close>

lemma fl_exp_unique:
  assumes "2 powi e \<le> \<bar>x\<bar>" "\<bar>x\<bar> < 2 powi (e + 1)"
  shows "fl_exp x = e"
proof -
  have "0 < \<bar>x\<bar>" by (rule less_le_trans [OF _ assms(1)]) simp
  then have "x \<noteq> 0" by simp
  then have "(2::rat) powi (fl_exp x) < 2 powi (e + 1)" "(2::rat) powi e < 2 powi (fl_exp x + 1)"
    using fl_exp_bounds [of x] assms by (meson le_less_trans)+
  then show ?thesis unfolding powi2_less by simp
qed

lemma rnd_scale: "rnd (x * 2 powi j) = rnd x * 2 powi j"
proof (cases "x = 0")
  case False
  define p :: rat where "p = 2 powi j"
  have p: "0 < p" by (simp add: p_def)
  have "fl_exp (x * p) = fl_exp x + j"
  proof (rule fl_exp_unique)
    have "2 powi fl_exp x * p \<le> \<bar>x\<bar> * p" "\<bar>x\<bar> * p < 2 powi (fl_exp x + 1) * p"
      using fl_exp_bounds [OF False] p by (simp_all add: mult_right_mono)
    then show "2 powi (fl_exp x + j) \<le> \<bar>x * p\<bar>" "\<bar>x * p\<bar> < 2 powi (fl_exp x + j + 1)"
      using p by (simp_all add: abs_mult p_def power_int_add)
  qed
  moreover have "(2::rat) powi (fl_exp x + j - 52) = 2 powi (fl_exp x - 52) * p"
    by (simp add: p_def power_int_add power_int_diff)
  ultimately show ?thesis
    using False p unfolding p_def [symmetric] by (simp add: rnd_def Let_def)
qed simp

lemma rnd_idem_pos: "0 < x \<Longrightarrow> rnd (rnd x) = rnd x"
proof -
  assume x: "0 < x"
  define q where "q = round_half_even (x / 2 powi (fl_exp x - 52))"
  have r: "rnd x = of_int q * 2 powi (fl_exp x - 52)" using x by (simp add: rnd_def Let_def q_def)
  have "x / 2 powi (fl_exp x - 52) \<le> of_int (2 ^ 53)"
    using fl_exp_bounds(2) [of x] x by (simp add: power_int_diff power_int_add field_simps)
  then have "q \<le> 2 ^ 53" unfolding q_def using round_half_even_mono round_half_even_int by metis
  moreover have "0 \<le> q"
  proof -
    have "(0::rat) < 2 powi (fl_exp x - 52)" by simp
    then show ?thesis using rnd_nonneg [of x] x unfolding r by (simp add: zero_le_mult_iff not_le [symmetric])
  qed
  ultimately have "rnd (of_int q) = of_int q" by (intro rnd_int) simp
  then show ?thesis by (simp add: r rnd_scale)
qed

lemma rnd_idem [simp]: "rnd (rnd x) = rnd x"
proof -
  consider "0 < x" | "x = 0" | "0 < - x" by linarith
  then show ?thesis
  proof cases
    case 3
    then have "rnd (rnd (- x)) = rnd (- x)" by (rule rnd_idem_pos)
    then show ?thesis by (simp add: rnd_minus)
  qed (simp_all add: rnd_idem_pos)
qed

lemma fadd_ge: "rnd a = a \<Longrightarrow> 0 \<le> x \<Longrightarrow> a \<le> fadd a x"
  using rnd_mono [of a "a + x"] by (simp add: fadd_def)

lemma rnd_fadd [simp]: "rnd (fadd a b) = fadd a b"
  by (simp add: fadd_def)

end
