(* ===== verification/Domain_Errors.thy ===== *)
theory Domain_Errors
  imports Gateway_Prelude
begin

text \<open>
  The exception classes of \<open>domain/exceptions.py\<close> with their hierarchy, the exceptions the model's
  operations raise, the HTTP status mapping of
  \<open>infrastructure/web/exception_handlers.py\<close> and the failover classification of
  \<open>domain/failover.py\<close>.
\<close>

section \<open>Classes\<close>

text \<open>
  One constructor per class of the source; the constructors are grouped by the part of the
  gateway that raises them, in the order of the file.
\<close>

datatype identity_error =
    InvalidAPIKey | APIKeyNotFound | InvalidInvite | InvalidPasswordReset
  | EmailAlreadyRegistered | MasterKeyMissing | InvalidCredentials | WeakPassword
  | PermissionDenied | UserNotFound | UserHasReferences | InvalidScimToken
  | ScimTokenNotFound | SSOIdentityConflict | SSOEmailNotVerified | SSOExchangeError
  | SSONotConfigured | InvalidSsoSettings

datatype tenancy_error =
    OrganizationNotFound | OrganizationNotEmpty | TeamNotFound | TeamNotEmpty
  | TeamNotSoftDeleted | AlreadyMember | MembershipNotFound | LastTeamAdmin
  | ServicePrincipalNotFound | InvalidServicePrincipal | ManagementScopeRequiresServicePrincipal | InvalidKeyScope
  | InvalidKeyExpiry

datatype catalog_error =
    CredentialNotFound | CredentialNameExists | CredentialInUse | SaltKeyMissing
  | CredentialMisconfigured | ModelNotFound | ModelNameExists | ModelShared
  | ProviderMismatch | ModelDisabled | ModelTypeMismatch | InvalidModelPricing
  | InvalidModelCapabilities

datatype routing_error =
    RouterNotFound | RouterNameExists | RouterShared | RouterGrantNotFound
  | RouterRevisionConflict | InvalidRouterConfig | InvalidPlaygroundRequest | NoRoutableCandidate

datatype request_error =
    UnsupportedOperation | UnsupportedNativeField | BudgetExceeded | RateLimited
  | BudgetNotFound | InvalidBudget | GuardrailBlocked | InvalidGuardrailRule
  | GuardrailRuleNotFound | InvalidUsageQuery

datatype upstream_error =
    UpstreamError | UpstreamRateLimited | UpstreamAuthFailed | UpstreamRequestRejected
  | UpstreamUnavailable | UpstreamResponseInvalid | UpstreamTimeout

datatype exc_class =
    DomainError
  | Identity identity_error
  | Tenancy tenancy_error
  | Catalog catalog_error
  | Routing routing_error
  | Request request_error
  | Upstream upstream_error

text \<open>The base class in each class statement; \<open>None\<close> is \<open>Exception\<close>.\<close>

fun parent_class :: "exc_class \<Rightarrow> exc_class option" where
  "parent_class DomainError = None"
| "parent_class (Upstream UpstreamError) = Some DomainError"
| "parent_class (Upstream UpstreamResponseInvalid) = Some (Upstream UpstreamUnavailable)"
| "parent_class (Upstream _) = Some (Upstream UpstreamError)"
| "parent_class _ = Some DomainError"

text \<open>\<open>isinstance(exc, d)\<close> walks the bases: a class has at most three below \<open>Exception\<close>.\<close>

fun ancestors :: "nat \<Rightarrow> exc_class \<Rightarrow> exc_class list" where
  "ancestors 0 c = [c]"
| "ancestors (Suc n) c = c # (case parent_class c of None \<Rightarrow> [] | Some p \<Rightarrow> ancestors n p)"

definition isinstance :: "exc_class \<Rightarrow> exc_class \<Rightarrow> bool" where
  "isinstance c d \<longleftrightarrow> d \<in> set (ancestors 3 c)"

section \<open>Raised exceptions\<close>

text \<open>
  A domain error carries the variable parts of its message, the \<open>retry_after\<close> of the two
  rate-limit classes and the \<open>billable_response\<close> of \<open>UpstreamResponseInvalid\<close>. The built-in
  exceptions are those the modelled operations can raise.
\<close>

datatype retry_after = NoRetry | RetrySeconds int | RetryHeader string

datatype py_exc =
    TypeError | ValueError | KeyError | AttributeError | IndexError | AssertionError
  | InvalidOperation | DivisionByZero | OtherException string

datatype exc =
    Domain (exc_cls: exc_class) (exc_info: "string list") (exc_retry: retry_after)
      (exc_billable: "body option")
  | Builtin py_exc

abbreviation raise_exc :: "exc_class \<Rightarrow> string list \<Rightarrow> exc + 'a" where
  "raise_exc c info \<equiv> Inl (Domain c info NoRetry None)"

abbreviation raise_py :: "py_exc \<Rightarrow> exc + 'a" where
  "raise_py e \<equiv> Inl (Builtin e)"

definition exc_isinstance :: "exc \<Rightarrow> exc_class \<Rightarrow> bool" where
  "exc_isinstance e d = (case e of Domain c _ _ _ \<Rightarrow> isinstance c d | Builtin _ \<Rightarrow> False)"

section \<open>HTTP status\<close>

text \<open>\<open>_STATUS\<close>, in the order of the source: the first matching entry decides.\<close>

definition status_table :: "(exc_class \<times> int) list" where
  "status_table =
    [(Identity PermissionDenied, 403), (Tenancy OrganizationNotFound, 404),
     (Tenancy TeamNotFound, 404), (Identity UserNotFound, 404),
     (Tenancy MembershipNotFound, 404), (Identity APIKeyNotFound, 404),
     (Request BudgetNotFound, 404), (Request GuardrailRuleNotFound, 404),
     (Tenancy ServicePrincipalNotFound, 404), (Identity ScimTokenNotFound, 404),
     (Identity SSONotConfigured, 404), (Request BudgetExceeded, 402),
     (Request RateLimited, 429), (Catalog CredentialNotFound, 404),
     (Catalog ModelNotFound, 404), (Routing RouterNotFound, 404),
     (Routing RouterGrantNotFound, 404), (Tenancy AlreadyMember, 409),
     (Identity UserHasReferences, 409), (Tenancy OrganizationNotEmpty, 409),
     (Tenancy TeamNotEmpty, 409), (Tenancy TeamNotSoftDeleted, 409),
     (Tenancy LastTeamAdmin, 409), (Identity EmailAlreadyRegistered, 409),
     (Catalog CredentialNameExists, 409), (Catalog CredentialInUse, 409),
     (Catalog ModelNameExists, 409), (Catalog ModelShared, 409),
     (Routing RouterNameExists, 409), (Routing RouterShared, 409),
     (Routing RouterRevisionConflict, 409), (Catalog ModelDisabled, 409),
     (Identity InvalidCredentials, 401), (Identity InvalidAPIKey, 401),
     (Identity InvalidScimToken, 401), (Identity SSOEmailNotVerified, 401),
     (Identity SSOIdentityConflict, 401), (Identity SSOExchangeError, 401),
     (Identity InvalidInvite, 400), (Identity InvalidPasswordReset, 400),
     (Identity WeakPassword, 400), (Catalog ProviderMismatch, 400),
     (Catalog ModelTypeMismatch, 400), (Request InvalidGuardrailRule, 400),
     (Catalog InvalidModelPricing, 400), (Request GuardrailBlocked, 422),
     (Tenancy ManagementScopeRequiresServicePrincipal, 400), (Tenancy InvalidServicePrincipal, 400),
     (Routing InvalidRouterConfig, 400), (Routing InvalidPlaygroundRequest, 400),
     (Routing NoRoutableCandidate, 400), (Catalog CredentialMisconfigured, 400),
     (Identity InvalidSsoSettings, 400), (Request InvalidUsageQuery, 400),
     (Request UnsupportedNativeField, 400), (Request UnsupportedOperation, 501),
     (Catalog SaltKeyMissing, 503), (Upstream UpstreamRateLimited, 429),
     (Upstream UpstreamTimeout, 504), (Upstream UpstreamUnavailable, 502),
     (Upstream UpstreamAuthFailed, 502), (Upstream UpstreamRequestRejected, 400)]"

definition status_for :: "exc_class \<Rightarrow> int" where
  "status_for c = (case find (\<lambda>(d, code). isinstance c d) status_table of
     Some (_, code) \<Rightarrow> code | None \<Rightarrow> 400)"

definition openai_error_table :: "(int \<times> string) list" where
  "openai_error_table =
    [(400, ''invalid_request_error''), (401, ''authentication_error''),
     (402, ''insufficient_quota''), (403, ''permission_error''), (404, ''not_found_error''),
     (429, ''rate_limit_error'')]"

definition openai_error_type :: "int \<Rightarrow> string" where
  "openai_error_type status = (case map_of openai_error_table status of
     Some t \<Rightarrow> t
   | None \<Rightarrow> if 500 \<le> status then ''server_error'' else ''invalid_request_error'')"

section \<open>Failover eligibility\<close>

definition eligible_upstream_errors :: "exc_class list" where
  "eligible_upstream_errors =
    [Upstream UpstreamTimeout, Upstream UpstreamRateLimited, Upstream UpstreamUnavailable,
     Upstream UpstreamAuthFailed]"

definition is_failover_eligible :: "exc_class \<Rightarrow> bool" where
  "is_failover_eligible c \<longleftrightarrow> (\<exists>d \<in> set eligible_upstream_errors. isinstance c d)"

section \<open>Properties\<close>

lemma isinstance_iff:
  "isinstance c d \<longleftrightarrow> d = c \<or> d = DomainError \<or>
     d = Upstream UpstreamError \<and> (\<exists>u. c = Upstream u) \<or>
     d = Upstream UpstreamUnavailable \<and> c = Upstream UpstreamResponseInvalid"
  by (cases c rule: parent_class.cases) (auto simp: isinstance_def numeral_3_eq_3)

text \<open>The walk of three steps is a walk to the end: more steps find no further base.\<close>

lemma ancestors_enough: "ancestors (n + 3) c = ancestors 3 c"
  by (cases c rule: parent_class.cases; cases n) (simp_all add: numeral_3_eq_3)

lemma isinstance_trans: "isinstance a b \<Longrightarrow> isinstance b c \<Longrightarrow> isinstance a c"
  by (auto simp: isinstance_iff)

lemma status_table_distinct: "distinct (map fst status_table)"
  by (simp add: status_table_def)

lemma status_for_listed: "\<forall>(c, code) \<in> set status_table. status_for c = code"
  by code_simp

lemma status_for_upstream:
  "status_for (Upstream UpstreamTimeout) = 504" "status_for (Upstream UpstreamRateLimited) = 429"
  "status_for (Upstream UpstreamUnavailable) = 502"
  "status_for (Upstream UpstreamResponseInvalid) = 502"
  "status_for (Upstream UpstreamAuthFailed) = 502"
  by code_simp+

lemma status_for_unlisted:
  assumes "\<forall>d \<in> set (map fst status_table). \<not> isinstance c d"
  shows "status_for c = 400"
proof -
  have "find (\<lambda>(d, code). isinstance c d) status_table = None"
    using assms by (auto simp: find_None_iff)
  then show ?thesis by (simp add: status_for_def)
qed

lemma is_failover_eligible_iff:
  "is_failover_eligible c \<longleftrightarrow> c \<in> {Upstream UpstreamTimeout, Upstream UpstreamRateLimited,
     Upstream UpstreamUnavailable, Upstream UpstreamResponseInvalid, Upstream UpstreamAuthFailed}"
  by (auto simp: is_failover_eligible_def eligible_upstream_errors_def isinstance_iff)

text \<open>
  A failed attempt may move to the next candidate exactly for the five provider-side classes
  (a malformed payload included, a rejected request and every client-facing error excluded), and
  each of them reaches a client as 429, 502 or 504: a failover never hides a client error.
\<close>

theorem failover_only_upstream:
  "(is_failover_eligible c \<longleftrightarrow>
      isinstance c (Upstream UpstreamError) \<and>
      c \<notin> {Upstream UpstreamError, Upstream UpstreamRequestRejected}) \<and>
   (is_failover_eligible c \<longrightarrow> status_for c \<in> {429, 502, 504})"
proof -
  have "is_failover_eligible c \<Longrightarrow> status_for c \<in> {429, 502, 504}"
    by (auto simp: is_failover_eligible_iff status_for_upstream)
  moreover have "is_failover_eligible c \<longleftrightarrow> isinstance c (Upstream UpstreamError) \<and>
      c \<notin> {Upstream UpstreamError, Upstream UpstreamRequestRejected}"
    unfolding is_failover_eligible_iff isinstance_iff
    using upstream_error.exhaust by auto
  ultimately show ?thesis by blast
qed

theorem failover_only_upstream_witness:
  "status_for (Upstream UpstreamResponseInvalid) \<in> {429, 502, 504}"
  using failover_only_upstream [of "Upstream UpstreamResponseInvalid"] by (simp add: is_failover_eligible_iff)

end
