(* ===== verification/Python_Decimal.thy ===== *)
theory Python_Decimal
  imports Python_Floats Domain_Errors
begin

text \<open>
  Python's \<open>decimal.Decimal\<close> in its default context: precision 28, results rounded half to even,
  \<open>InvalidOperation\<close> trapped. A finite decimal is a coefficient and an exponent; the exponent
  matters because the context counts the digits of the coefficient. Emax and Emin (999999) are
  far from any price and are not modelled.
\<close>

section \<open>Values\<close>

datatype dec = Dec (coeff: int) (expo: int)

definition dval :: "dec \<Rightarrow> rat" where
  "dval d = of_int (coeff d) * 10 powi expo d"

text \<open>A decimal, or one of the special values.\<close>

datatype pydec = Finite dec | Infinite | NotANumber

definition dec_prec :: nat where
  "dec_prec = 28"

text \<open>\<open>len(str(n))\<close>.\<close>

fun ndigits :: "nat \<Rightarrow> nat" where
  "ndigits n = (if n < 10 then 1 else Suc (ndigits (n div 10)))"

declare ndigits.simps [simp del]

lemma ndigits_le_iff: "1 \<le> k \<Longrightarrow> ndigits n \<le> k \<longleftrightarrow> n < 10 ^ k"
proof (induction n arbitrary: k rule: ndigits.induct)
  case (1 n)
  show ?case
  proof (cases "n < 10")
    case True
    then have "n < 10 ^ k" using 1(2) by (metis One_nat_def less_le_trans nat_power_eq_Suc_0_iff
        power_increasing_iff one_less_numeral_iff power_one_right semiring_norm(76))
    with True 1(2) show ?thesis by (simp add: ndigits.simps [of n])
  next
    case False
    show ?thesis
    proof (cases "k = 1")
      case True
      with False show ?thesis
        using ndigits.simps [of n] ndigits.simps [of "n div 10"] by auto
    next
      case False': False
      then obtain j where k: "k = Suc j" "1 \<le> j" using 1(2) by (cases k) auto
      have "ndigits n \<le> k \<longleftrightarrow> n div 10 < 10 ^ j"
        using False k 1(1) [OF False k(2)] by (simp add: ndigits.simps [of n])
      also have "\<dots> \<longleftrightarrow> n < 10 ^ k"
        by (simp add: k div_less_iff_less_mult mult.commute)
      finally show ?thesis .
    qed
  qed
qed

section \<open>Context rounding\<close>

definition dec_fix :: "dec \<Rightarrow> dec" where
  "dec_fix d = (let c = coeff d; e = expo d; k = ndigits (nat \<bar>c\<bar>) in
     if k \<le> dec_prec then d
     else let s = k - dec_prec; q = round_half_even (of_int \<bar>c\<bar> / 10 ^ s) in
       if ndigits (nat q) \<le> dec_prec then Dec (sgn c * q) (e + int s)
       else Dec (sgn c * (q div 10)) (e + int s + 1))"

definition dec_mul :: "dec \<Rightarrow> dec \<Rightarrow> dec" where
  "dec_mul a b = dec_fix (Dec (coeff a * coeff b) (expo a + expo b))"

definition dec_add :: "dec \<Rightarrow> dec \<Rightarrow> dec" where
  "dec_add a b = (let e = min (expo a) (expo b) in
     dec_fix (Dec (coeff a * 10 ^ nat (expo a - e) + coeff b * 10 ^ nat (expo b - e)) e))"

definition dec_of_int :: "int \<Rightarrow> dec" where
  "dec_of_int n = Dec n 0"

text \<open>
  Division, as the decimal module does it: enough digits of the quotient of the coefficients,
  with a last digit moved off 0 and 5 when the division leaves a remainder, then the context
  rounding. (An exact quotient is also stripped of trailing zeros; its value is the same.)
\<close>

definition dec_div :: "dec \<Rightarrow> dec \<Rightarrow> exc + dec" where
  "dec_div a b =
    (if coeff b = 0 then raise_py DivisionByZero
     else if coeff a = 0 then Inr (Dec 0 (expo a - expo b))
     else let ca = \<bar>coeff a\<bar>; cb = \<bar>coeff b\<bar>;
         sh = int (ndigits (nat cb)) - int (ndigits (nat ca)) + int dec_prec + 1;
         e = expo a - expo b - sh;
         n = (if 0 \<le> sh then ca * 10 ^ nat sh else ca);
         m = (if 0 \<le> sh then cb else cb * 10 ^ nat (- sh));
         q = n div m;
         q' = (if n mod m \<noteq> 0 \<and> q mod 5 = 0 then q + 1 else q)
       in Inr (dec_fix (Dec (sgn (coeff a) * sgn (coeff b) * q') e)))"

text \<open>Comparison is exact.\<close>

definition dec_le :: "dec \<Rightarrow> dec \<Rightarrow> bool" where
  "dec_le a b \<longleftrightarrow> dval a \<le> dval b"

text \<open>\<open>d or ZERO\<close>: a decimal is false when it is zero.\<close>

definition dec_zero :: dec where
  "dec_zero = Dec 0 0"

definition or_zero :: "dec option \<Rightarrow> dec" where
  "or_zero r = (case r of None \<Rightarrow> dec_zero | Some d \<Rightarrow> if coeff d = 0 then dec_zero else d)"

text \<open>\<open>d.quantize(Decimal(10) ** t, rounding=ROUND_HALF_UP)\<close>.\<close>

definition round_half_up :: "rat \<Rightarrow> int" where
  "round_half_up y = (if 0 \<le> y then \<lfloor>y + 1/2\<rfloor> else - \<lfloor>- y + 1/2\<rfloor>)"

definition quantize :: "int \<Rightarrow> dec \<Rightarrow> exc + dec" where
  "quantize t d = (let c = coeff d; e = expo d;
       q = (if t \<le> e then c * 10 ^ nat (e - t)
            else sgn c * round_half_up (of_int \<bar>c\<bar> / 10 ^ nat (t - e)))
     in if ndigits (nat \<bar>q\<bar>) \<le> dec_prec then Inr (Dec q t) else raise_py InvalidOperation)"

text \<open>\<open>float(d)\<close> rounds correctly.\<close>

definition dec_to_float :: "dec \<Rightarrow> float_py" where
  "dec_to_float d = rnd (dval d)"

section \<open>Exactness within 28 digits\<close>

definition in_prec :: "int \<Rightarrow> bool" where
  "in_prec c \<longleftrightarrow> \<bar>c\<bar> < 10 ^ 28"

lemma ndigits_prec: "ndigits (nat \<bar>c\<bar>) \<le> dec_prec \<longleftrightarrow> in_prec c"
proof -
  have "nat \<bar>c\<bar> < 10 ^ 28 \<longleftrightarrow> \<bar>c\<bar> < 10 ^ 28"
    by (subst nat_less_iff) simp_all
  then show ?thesis by (simp add: dec_prec_def ndigits_le_iff in_prec_def)
qed

lemma dec_fix_id: "in_prec (coeff d) \<Longrightarrow> dec_fix d = d"
  by (simp add: dec_fix_def Let_def ndigits_prec)

text \<open>Evaluation compares with \<open>10^28\<close> instead of counting digits.\<close>

lemma dec_fix_code [code]:
  "dec_fix d = (if in_prec (coeff d) then d
     else let c = coeff d; e = expo d; s = ndigits (nat \<bar>c\<bar>) - dec_prec;
         q = round_half_even (of_int \<bar>c\<bar> / 10 ^ s) in
       if in_prec q then Dec (sgn c * q) (e + int s)
       else Dec (sgn c * (q div 10)) (e + int s + 1))"
proof -
  have "ndigits (nat (round_half_even (of_int \<bar>c\<bar> / 10 ^ s))) \<le> dec_prec \<longleftrightarrow>
      in_prec (round_half_even (of_int \<bar>c\<bar> / 10 ^ s))" for c :: int and s :: nat
  proof -
    have "0 \<le> round_half_even (of_int \<bar>c\<bar> / 10 ^ s)"
      using round_half_even_mono [of "of_int 0" "of_int \<bar>c\<bar> / 10 ^ s"] round_half_even_int [of 0]
      by simp
    then show ?thesis
      using ndigits_prec [of "round_half_even (of_int \<bar>c\<bar> / 10 ^ s)"] by simp
  qed
  then show ?thesis by (simp add: dec_fix_def Let_def ndigits_prec)
qed

lemma quantize_code [code]:
  "quantize t d = (let c = coeff d; e = expo d;
       q = (if t \<le> e then c * 10 ^ nat (e - t)
            else sgn c * round_half_up (of_int \<bar>c\<bar> / 10 ^ nat (t - e)))
     in if in_prec q then Inr (Dec q t) else raise_py InvalidOperation)"
  by (simp add: quantize_def Let_def ndigits_prec)

lemma powi10_split: "t \<le> e \<Longrightarrow> (10::rat) ^ nat (e - t) * 10 powi t = 10 powi e"
proof -
  assume "t \<le> e"
  then have "(10::rat) ^ nat (e - t) = 10 powi (e - t)" by (simp add: power_int_def)
  then show ?thesis by (simp add: power_int_diff)
qed

lemma dval_mul:
  assumes "in_prec (coeff a * coeff b)"
  shows "dval (dec_mul a b) = dval a * dval b"
  using assms by (simp add: dec_mul_def dec_fix_id dval_def power_int_add)

lemma dval_add:
  assumes "in_prec (coeff a * 10 ^ nat (expo a - min (expo a) (expo b)) +
     coeff b * 10 ^ nat (expo b - min (expo a) (expo b)))"
  shows "dval (dec_add a b) = dval a + dval b"
  using assms powi10_split [of "min (expo a) (expo b)" "expo a"]
    powi10_split [of "min (expo a) (expo b)" "expo b"]
  by (simp add: dec_add_def dec_fix_id dval_def Let_def algebra_simps)

lemma dval_nonneg_iff: "0 \<le> dval d \<longleftrightarrow> 0 \<le> coeff d"
proof -
  have "(0::rat) < 10 powi expo d" by simp
  then show ?thesis by (simp add: dval_def zero_le_mult_iff not_le [symmetric])
qed

lemma dval_zero_iff: "dval d = 0 \<longleftrightarrow> coeff d = 0"
  by (simp add: dval_def)

lemma dval_or_zero [simp]: "dval (or_zero (Some d)) = dval d" "dval (or_zero None) = 0"
  by (simp_all add: or_zero_def dval_def dec_zero_def)

lemma round_half_even_nonneg: "0 \<le> y \<Longrightarrow> 0 \<le> round_half_even y"
  using round_half_even_mono [of "of_int 0" y] round_half_even_int [of 0] by simp

lemma coeff_fix_nonneg: "0 \<le> coeff d \<Longrightarrow> 0 \<le> coeff (dec_fix d)"
  by (auto simp: dec_fix_def Let_def round_half_even_nonneg pos_imp_zdiv_nonneg_iff sgn_if
      intro!: mult_nonneg_nonneg)

lemma coeff_mul_nonneg: "0 \<le> coeff a \<Longrightarrow> 0 \<le> coeff b \<Longrightarrow> 0 \<le> coeff (dec_mul a b)"
  by (simp add: dec_mul_def coeff_fix_nonneg)

lemma coeff_add_nonneg: "0 \<le> coeff a \<Longrightarrow> 0 \<le> coeff b \<Longrightarrow> 0 \<le> coeff (dec_add a b)"
  by (simp add: dec_add_def coeff_fix_nonneg Let_def)

lemma coeff_or_zero_nonneg: "pred_option (\<lambda>d. 0 \<le> coeff d) r \<Longrightarrow> 0 \<le> coeff (or_zero r)"
  by (cases r) (simp_all add: or_zero_def dec_zero_def)

section \<open>Rounding half up\<close>

lemma floor_half [simp]: "\<lfloor>1 / 2 :: rat\<rfloor> = 0"
  by (simp add: floor_eq_iff)

lemma round_half_up_int [simp]: "round_half_up (of_int k) = k"
proof (cases "0 \<le> k")
  case True
  have "\<lfloor>of_int k + 1 / 2 :: rat\<rfloor> = k" by linarith
  with True show ?thesis by (simp add: round_half_up_def)
next
  case False
  have "\<lfloor>of_int (- k) + 1 / 2 :: rat\<rfloor> = - k" by linarith
  with False show ?thesis by (simp add: round_half_up_def)
qed

lemma round_half_up_minus: "round_half_up (- y) = - round_half_up y"
proof (cases "y = 0")
  case True
  then show ?thesis by (simp add: round_half_up_def)
next
  case False
  then show ?thesis by (auto simp: round_half_up_def)
qed

lemma round_half_up_nonneg: "0 \<le> y \<Longrightarrow> 0 \<le> round_half_up y"
  by (simp add: round_half_up_def)

lemma round_half_up_mono: "x \<le> y \<Longrightarrow> round_half_up x \<le> round_half_up y"
proof -
  assume le: "x \<le> y"
  consider "0 \<le> x" | "x < 0" "0 \<le> y" | "y < 0" using le by linarith
  then show ?thesis
  proof cases
    case 1
    with le show ?thesis by (simp add: round_half_up_def floor_mono)
  next
    case 2
    then have "round_half_up x \<le> 0" using round_half_up_nonneg [of "- x"]
      by (simp add: round_half_up_minus)
    with 2 round_half_up_nonneg [of y] show ?thesis by simp
  next
    case 3
    with le have "\<lfloor>- y + 1 / 2\<rfloor> \<le> \<lfloor>- x + 1 / 2\<rfloor>" by (intro floor_mono) simp
    with 3 le show ?thesis by (simp add: round_half_up_def)
  qed
qed

lemma round_half_up_near: "\<bar>of_int (round_half_up y) - y\<bar> \<le> 1/2"
proof -
  have near: "\<bar>of_int \<lfloor>z + 1/2\<rfloor> - z\<bar> \<le> 1/2" for z :: rat
    by (rule abs_leI) linarith+
  show ?thesis
    using near [of y] near [of "- y"] by (simp add: round_half_up_def abs_minus_commute add.commute)
qed

section \<open>Quantizing\<close>

lemma sgn_round_half_up:
  assumes "0 < k"
  shows "sgn c * round_half_up (of_int \<bar>c\<bar> / k) = round_half_up (of_int c / k)"
proof (cases "0 \<le> c")
  case True
  then show ?thesis by (cases "c = 0") (simp_all add: round_half_up_def)
next
  case False
  then have "of_int c / k = - (of_int \<bar>c\<bar> / k)" by simp
  then have "round_half_up (of_int c / k) = - round_half_up (of_int \<bar>c\<bar> / k)"
    by (simp only: round_half_up_minus)
  with False show ?thesis by simp
qed

lemma quantize_units:
  "(if t \<le> expo d then coeff d * 10 ^ nat (expo d - t)
    else sgn (coeff d) * round_half_up (of_int \<bar>coeff d\<bar> / 10 ^ nat (t - expo d))) =
   round_half_up (dval d / 10 powi t)"
proof (cases "t \<le> expo d")
  case True
  have "dval d / 10 powi t = of_int (coeff d * 10 ^ nat (expo d - t))"
    using powi10_split [OF True] by (simp add: dval_def field_simps)
  with True show ?thesis by (simp only: round_half_up_int if_True)
next
  case False
  have "(10::rat) ^ nat (t - expo d) * 10 powi expo d = 10 powi t"
    using False by (intro powi10_split) simp
  then have "dval d / 10 powi t = of_int (coeff d) / 10 ^ nat (t - expo d)"
    by (simp add: dval_def field_simps)
  moreover have "(0::rat) < 10 ^ nat (t - expo d)" by simp
  ultimately show ?thesis using False by (simp only: sgn_round_half_up if_False)
qed

text \<open>The whole meaning of \<open>quantize\<close>: the nearest multiple, or too many digits.\<close>

lemma quantize_eq:
  "quantize t d = (let q = round_half_up (dval d / 10 powi t)
     in if in_prec q then Inr (Dec q t) else raise_py InvalidOperation)"
  by (simp add: quantize_def Let_def quantize_units ndigits_prec)

lemma quantize_Inr:
  "quantize t d = Inr r \<longleftrightarrow>
     r = Dec (round_half_up (dval d / 10 powi t)) t \<and> in_prec (round_half_up (dval d / 10 powi t))"
  by (auto simp: quantize_eq Let_def)

lemma quantize_mono:
  assumes "quantize t a = Inr x" "quantize t b = Inr y" "dval a \<le> dval b"
  shows "dval x \<le> dval y"
proof -
  have "dval a / 10 powi t \<le> dval b / 10 powi t" using assms(3) by (simp add: divide_right_mono)
  then have "round_half_up (dval a / 10 powi t) \<le> round_half_up (dval b / 10 powi t)"
    by (rule round_half_up_mono)
  then show ?thesis using assms(1,2) by (auto simp: quantize_Inr dval_def mult_right_mono)
qed

lemma quantize_nonneg: "quantize t d = Inr r \<Longrightarrow> 0 \<le> coeff d \<Longrightarrow> 0 \<le> coeff r"
  by (auto simp: quantize_Inr intro!: round_half_up_nonneg)
    (simp add: dval_nonneg_iff [symmetric] divide_nonneg_pos)

lemma quantize_near:
  assumes "quantize t d = Inr r"
  shows "\<bar>dval r - dval d\<bar> \<le> 10 powi t / 2"
proof -
  define y where "y = dval d / 10 powi t"
  have p: "(0::rat) < 10 powi t" by simp
  have "\<bar>(of_int (round_half_up y) - y) * 10 powi t\<bar> \<le> 1/2 * 10 powi t"
    using round_half_up_near [of y] p by (simp add: abs_mult)
  moreover have "(of_int (round_half_up y) - y) * 10 powi t = dval r - dval d"
    using assms by (simp add: quantize_Inr y_def dval_def algebra_simps)
  ultimately show ?thesis by simp
qed

lemma quantize_idem:
  assumes "quantize t d = Inr r"
  shows "quantize t r = Inr r"
proof -
  have "dval r / 10 powi t = of_int (round_half_up (dval d / 10 powi t))"
    using assms by (simp add: quantize_Inr dval_def)
  then have "round_half_up (dval r / 10 powi t) = round_half_up (dval d / 10 powi t)"
    by (simp only: round_half_up_int)
  then show ?thesis using assms by (simp add: quantize_Inr)
qed

section \<open>How far context rounding moves a value\<close>

lemma ndigits_ge: "1 \<le> k \<Longrightarrow> k < ndigits n \<longleftrightarrow> 10 ^ k \<le> n"
  using ndigits_le_iff [of k n] by (simp add: not_le [symmetric])

lemma ndigits_bounds:
  assumes "0 < c"
  shows "10 ^ (ndigits (nat c) - 1) \<le> c" "c < 10 ^ ndigits (nat c)"
proof -
  have pos: "1 \<le> ndigits (nat c)" by (simp add: ndigits.simps [of "nat c"])
  then have "nat c < 10 ^ ndigits (nat c)"
    using ndigits_le_iff [of "ndigits (nat c)" "nat c"] by simp
  then have "int (nat c) < int (10 ^ ndigits (nat c))" by (simp only: of_nat_less_iff)
  then show "c < 10 ^ ndigits (nat c)" using assms by simp
  have "10 ^ (ndigits (nat c) - 1) \<le> nat c"
  proof (cases "ndigits (nat c) = 1")
    case True
    with assms show ?thesis by simp
  next
    case False
    with pos show ?thesis using ndigits_ge [of "ndigits (nat c) - 1" "nat c"] by simp
  qed
  then have "int (10 ^ (ndigits (nat c) - 1)) \<le> int (nat c)" by (simp only: of_nat_le_iff)
  then show "10 ^ (ndigits (nat c) - 1) \<le> c" using assms by simp
qed

text \<open>The rounding of a positive coefficient with too many digits.\<close>

lemma dec_fix_cases:
  assumes "0 < c" "\<not> in_prec c"
  obtains s q where "s = ndigits (nat c) - dec_prec" "q = round_half_even (of_int c / 10 ^ s)"
    "10 ^ (s + 27) \<le> c" "c < 10 ^ (s + 28)" "q \<le> 10 ^ 28" "0 \<le> q"
    "dval (dec_fix (Dec c e)) = of_int q * 10 powi (e + int s)"
    "in_prec (coeff (dec_fix (Dec c e)))"
proof -
  define s where "s = ndigits (nat c) - dec_prec"
  define q where "q = round_half_even (of_int c / 10 ^ s)"
  have k: "dec_prec < ndigits (nat c)" using assms ndigits_prec [of c] by simp
  have nd: "ndigits (nat c) = s + 28" using k by (simp add: s_def dec_prec_def)
  have lo: "10 ^ (s + 27) \<le> c" and hi: "c < 10 ^ (s + 28)"
    using ndigits_bounds [OF assms(1)] nd by (simp_all add: add.commute)
  have "(of_int c :: rat) \<le> of_int (10 ^ (s + 28))" using hi by (simp only: of_int_le_iff)
  then have "(of_int c :: rat) / 10 ^ s \<le> of_int (10 ^ 28)" by (simp add: power_add field_simps)
  then have q28: "q \<le> 10 ^ 28"
    unfolding q_def using round_half_even_mono round_half_even_int by metis
  have q0: "0 \<le> q" unfolding q_def using assms(1) by (simp add: round_half_even_nonneg)
  have fx: "dec_fix (Dec c e) = (if in_prec q then Dec q (e + int s) else Dec (q div 10) (e + int s + 1))"
    using assms by (simp add: dec_fix_code Let_def s_def [symmetric] q_def [symmetric])
  have "dval (dec_fix (Dec c e)) = of_int q * 10 powi (e + int s) \<and> in_prec (coeff (dec_fix (Dec c e)))"
  proof (cases "in_prec q")
    case True
    then show ?thesis by (simp add: fx dval_def)
  next
    case False
    then have "q = 10 ^ 28" using q28 q0 by (simp add: in_prec_def)
    then show ?thesis by (simp add: fx dval_def in_prec_def power_int_add)
  qed
  then show thesis using that [OF s_def q_def lo hi q28 q0] by blast
qed

lemma dec_fix_in_prec: "0 \<le> coeff d \<Longrightarrow> in_prec (coeff (dec_fix d))"
proof (cases "in_prec (coeff d)")
  case True
  then show ?thesis by (simp add: dec_fix_id)
next
  case False
  moreover assume "0 \<le> coeff d"
  ultimately have "0 < coeff d" by (cases "coeff d = 0") (simp_all add: in_prec_def)
  then show ?thesis using dec_fix_cases [OF _ False, of "expo d"] by (metis dec.collapse)
qed

text \<open>A coefficient with enough trailing zeros is not changed.\<close>

lemma dec_fix_trailing:
  assumes "0 \<le> c" "10 ^ j dvd c" "c < 10 ^ (j + 28)"
  shows "dval (dec_fix (Dec c e)) = dval (Dec c e)"
proof (cases "in_prec c")
  case True
  then show ?thesis by (simp add: dec_fix_id)
next
  case False
  with assms(1) have "0 < c" by (cases "c = 0") (simp_all add: in_prec_def)
  then obtain s q where s: "q = round_half_even (of_int c / 10 ^ s)" "10 ^ (s + 27) \<le> c"
    "dval (dec_fix (Dec c e)) = of_int q * 10 powi (e + int s)"
    using dec_fix_cases [OF _ False, of e] by metis
  from s(2) assms(3) have "(10::int) ^ (s + 27) < 10 ^ (j + 28)" by linarith
  then have "s \<le> j" by (simp add: power_strict_increasing_iff)
  then have "10 ^ s dvd c" using assms(2) by (meson dvd_trans le_imp_power_dvd)
  then obtain m where m: "c = 10 ^ s * m" by (rule dvdE)
  then have "of_int c / 10 ^ s = (of_int m :: rat)" by simp
  then have "q = m" using s(1) by (simp only: round_half_even_int)
  then show ?thesis using s(3) m by (simp add: dval_def power_int_add)
qed

lemma dec_fix_error:
  assumes "0 \<le> c"
  shows "\<bar>dval (dec_fix (Dec c e)) - dval (Dec c e)\<bar> \<le> dval (Dec c e) / 10 ^ 27"
proof (cases "in_prec c")
  case True
  then show ?thesis using assms by (simp add: dec_fix_id dval_nonneg_iff)
next
  case False
  with assms have "0 < c" by (cases "c = 0") (simp_all add: in_prec_def)
  then obtain s q where s: "q = round_half_even (of_int c / 10 ^ s)" "10 ^ (s + 27) \<le> c"
    "dval (dec_fix (Dec c e)) = of_int q * 10 powi (e + int s)"
    using dec_fix_cases [OF _ False, of e] by metis
  define u :: rat where "u = 10 powi (e + int s)"
  have u: "0 < u" by (simp add: u_def)
  define y :: rat where "y = of_int c / 10 ^ s"
  have dv: "dval (Dec c e) = y * u" by (simp add: dval_def y_def u_def power_int_add)
  have "\<bar>of_int q - y\<bar> \<le> 1/2" unfolding s(1) y_def by (rule round_half_even_near)
  then have "\<bar>of_int q - y\<bar> * u \<le> 1/2 * u" using u by (simp add: mult_right_mono)
  moreover have "\<bar>of_int q - y\<bar> * u = \<bar>dval (dec_fix (Dec c e)) - dval (Dec c e)\<bar>"
    using u by (simp add: s(3) dv u_def [symmetric] abs_mult left_diff_distrib [symmetric])
  moreover have "1/2 * u \<le> y * u / 10 ^ 27"
  proof -
    have "(of_int (10 ^ (s + 27)) :: rat) \<le> of_int c" using s(2) by (simp only: of_int_le_iff)
    then have "10 ^ 27 \<le> y" by (simp add: y_def power_add field_simps)
    then have "10 ^ 27 * u \<le> y * u" using u by (intro mult_right_mono) simp_all
    then show ?thesis using u by (simp add: field_simps)
  qed
  ultimately show ?thesis by (simp add: dv)
qed

text \<open>Multiplying by one hundred never rounds.\<close>

lemma dval_times_hundred:
  assumes "in_prec (coeff d)" "0 \<le> coeff d"
  shows "dval (dec_mul d (Dec 100 0)) = dval d * 100"
proof -
  have "dval (dec_fix (Dec (coeff d * 100) (expo d))) = dval (Dec (coeff d * 100) (expo d))"
    using assms by (intro dec_fix_trailing [where j = 2]) (simp_all add: in_prec_def)
  then show ?thesis by (simp add: dec_mul_def dval_def)
qed

end
