(* ===== verification/Pricing.thy ===== *)
theory Pricing
  imports Python_Decimal
begin

text \<open>
  \<open>domain/money.py\<close> and \<open>domain/pricing.py\<close>: the two scales, the one rounding step, the rate card,
  its validation, and \<open>compute_cost\<close>, the calculation shared by the budget reservation and the
  settlement. The lemmas show that a validated card never produces a credit, that within the
  stated bounds the computed cost is the exact sum rounded once half up at six decimals, and that
  it grows with the usage.
\<close>

section \<open>Money\<close>

text \<open>
  A number on its way into \<open>to_rate\<close> or \<open>to_cost\<close>. A float is represented by the decimal its
  \<open>repr\<close> prints (\<open>Decimal(str(x))\<close> reads exactly that), a string by the decimal it parses to.
  Non-finite floats are refused by \<open>validate_rate_card\<close> below and are not inputs here.
\<close>

datatype money_in = MInt int | MFloat dec | MStr "dec option" | MDec dec

definition rate_scale :: int where
  "rate_scale = -10"

definition cost_scale :: int where
  "cost_scale = -6"

fun exact :: "money_in \<Rightarrow> exc + dec" where
  "exact (MDec d) = Inr d"
| "exact (MInt n) = Inr (dec_of_int n)"
| "exact (MFloat d) = Inr d"
| "exact (MStr (Some d)) = Inr d"
| "exact (MStr None) = raise_py InvalidOperation"

definition to_rate :: "money_in option \<Rightarrow> exc + dec option" where
  "to_rate value = (case value of None \<Rightarrow> Inr None
     | Some v \<Rightarrow> rbind (exact v) (\<lambda>d. rbind (quantize rate_scale d) (\<lambda>r. Inr (Some r))))"

definition to_cost :: "money_in \<Rightarrow> exc + dec" where
  "to_cost v = rbind (exact v) (quantize cost_scale)"

definition quantize_cost :: "dec \<Rightarrow> exc + dec" where
  "quantize_cost d = quantize cost_scale d"

definition as_float :: "dec option \<Rightarrow> float_py option" where
  "as_float d = map_option dec_to_float d"

section \<open>Rate cards and usage\<close>

record ('r, 'p) rate_card =
  input_cost_per_token :: 'r
  output_cost_per_token :: 'r
  cache_write_cost_per_token :: 'r
  cache_read_cost_per_token :: 'r
  image_cost_per_image :: 'r
  image_prices :: "(string, 'p) dict"

type_synonym rates = "(dec option, dec) rate_card"

record billable_usage =
  prompt_tokens :: int
  completion_tokens :: int
  cache_write_tokens :: int
  cache_read_tokens :: int
  image_count :: int
  image_size :: "string option"
  image_quality :: "string option"

definition no_usage :: billable_usage where
  "no_usage = \<lparr>prompt_tokens = 0, completion_tokens = 0, cache_write_tokens = 0,
     cache_read_tokens = 0, image_count = 0, image_size = None, image_quality = None\<rparr>"

definition image_price_key :: "string option \<Rightarrow> string option \<Rightarrow> string option" where
  "image_price_key sz quality = (case (sz, quality) of
     (Some s, Some q) \<Rightarrow> Some (s @ ''/'' @ q) | _ \<Rightarrow> None)"

section \<open>Validation\<close>

text \<open>What the JSON body or the column gave for one rate, before any conversion.\<close>

datatype raw_rate = RawNone | RawBool bool | RawInt int | RawFloat pydec | RawDec pydec | RawOther

fun raw_exact :: "raw_rate \<Rightarrow> pydec option" where
  "raw_exact (RawInt n) = Some (Finite (dec_of_int n))"
| "raw_exact (RawFloat d) = Some d"
| "raw_exact (RawDec d) = Some d"
| "raw_exact _ = None"

definition validate_rate :: "string \<Rightarrow> raw_rate \<Rightarrow> bool \<Rightarrow> exc + unit" where
  "validate_rate name value optional =
    (if value = RawNone \<and> optional then Inr ()
     else case raw_exact value of
       None \<Rightarrow> raise_exc (Catalog InvalidModelPricing) [name, ''must be a number'']
     | Some Infinite \<Rightarrow> raise_exc (Catalog InvalidModelPricing) [name, ''must be a finite number'']
     | Some NotANumber \<Rightarrow> raise_exc (Catalog InvalidModelPricing) [name, ''must be a finite number'']
     | Some (Finite d) \<Rightarrow>
         if dval d < 0 then raise_exc (Catalog InvalidModelPricing) [name, ''must be zero or positive'']
         else Inr ())"

definition rate_fields :: "(string \<times> ((raw_rate, raw_rate) rate_card \<Rightarrow> raw_rate)) list" where
  "rate_fields =
    [(''input_cost_per_token'', input_cost_per_token),
     (''output_cost_per_token'', output_cost_per_token),
     (''cache_write_cost_per_token'', cache_write_cost_per_token),
     (''cache_read_cost_per_token'', cache_read_cost_per_token),
     (''image_cost_per_image'', image_cost_per_image)]"

definition validate_rate_card :: "(raw_rate, raw_rate) rate_card \<Rightarrow> exc + unit" where
  "validate_rate_card rates =
    rbind (each (\<lambda>(name, get). validate_rate name (get rates) True) rate_fields)
      (\<lambda>_. each (\<lambda>(key, value). validate_rate (''image_prices['' @ key @ '']'') value False)
        (image_prices rates))"

section \<open>Building a card\<close>

fun convert_prices :: "(string, money_in option) dict \<Rightarrow> exc + (string, dec) dict" where
  "convert_prices [] = Inr []"
| "convert_prices ((key, value) # ps) = rbind (to_rate value) (\<lambda>r.
     rbind (convert_prices ps) (\<lambda>qs. Inr (case r of Some d \<Rightarrow> (key, d) # qs | None \<Rightarrow> qs)))"

definition rate_card :: "(money_in option, money_in option) rate_card \<Rightarrow> exc + rates" where
  "rate_card m =
    rbind (to_rate (input_cost_per_token m)) (\<lambda>i.
    rbind (to_rate (output_cost_per_token m)) (\<lambda>out.
    rbind (to_rate (cache_write_cost_per_token m)) (\<lambda>cw.
    rbind (to_rate (cache_read_cost_per_token m)) (\<lambda>cr.
    rbind (to_rate (image_cost_per_image m)) (\<lambda>img.
    rbind (convert_prices (image_prices m)) (\<lambda>ps.
      Inr \<lparr>input_cost_per_token = i, output_cost_per_token = out,
        cache_write_cost_per_token = cw, cache_read_cost_per_token = cr,
        image_cost_per_image = img, image_prices = ps\<rparr>))))))"

section \<open>The cost of a call\<close>

definition image_unit_price :: "rates \<Rightarrow> string option \<Rightarrow> string option \<Rightarrow> dec" where
  "image_unit_price r sz quality = (case image_price_key sz quality of
     None \<Rightarrow> or_zero (image_cost_per_image r)
   | Some key \<Rightarrow> (case map_of (image_prices r) key of
       Some d \<Rightarrow> d | None \<Rightarrow> or_zero (image_cost_per_image r)))"

text \<open>\<open>n * rate\<close> of an int and a decimal.\<close>

definition times :: "int \<Rightarrow> dec \<Rightarrow> dec" where
  "times n d = dec_mul (dec_of_int n) d"

definition cost_sum :: "billable_usage \<Rightarrow> rates \<Rightarrow> dec" where
  "cost_sum u r =
    dec_add (dec_add (dec_add (dec_add
      (times (prompt_tokens u) (or_zero (input_cost_per_token r)))
      (times (completion_tokens u) (or_zero (output_cost_per_token r))))
      (times (cache_write_tokens u) (or_zero (cache_write_cost_per_token r))))
      (times (cache_read_tokens u) (or_zero (cache_read_cost_per_token r))))
      (times (image_count u) (image_unit_price r (image_size u) (image_quality u)))"

definition compute_cost :: "billable_usage \<Rightarrow> rates \<Rightarrow> exc + dec" where
  "compute_cost u r = quantize_cost (cost_sum u r)"

section \<open>No credit\<close>

definition usage_nonneg :: "billable_usage \<Rightarrow> bool" where
  "usage_nonneg u \<longleftrightarrow> 0 \<le> prompt_tokens u \<and> 0 \<le> completion_tokens u \<and>
     0 \<le> cache_write_tokens u \<and> 0 \<le> cache_read_tokens u \<and> 0 \<le> image_count u"

definition rates_nonneg :: "rates \<Rightarrow> bool" where
  "rates_nonneg r \<longleftrightarrow>
     (\<forall>x \<in> {input_cost_per_token r, output_cost_per_token r, cache_write_cost_per_token r,
        cache_read_cost_per_token r, image_cost_per_image r}. pred_option (\<lambda>d. 0 \<le> coeff d) x) \<and>
     (\<forall>d \<in> snd ` set (image_prices r). 0 \<le> coeff d)"

lemma times_nonneg: "0 \<le> n \<Longrightarrow> 0 \<le> coeff d \<Longrightarrow> 0 \<le> coeff (times n d)"
  by (simp add: times_def coeff_mul_nonneg dec_of_int_def)

lemma image_unit_price_nonneg: "rates_nonneg r \<Longrightarrow> 0 \<le> coeff (image_unit_price r s q)"
  by (auto simp: image_unit_price_def rates_nonneg_def coeff_or_zero_nonneg
      split: option.splits dest!: map_of_SomeD)

lemma cost_sum_nonneg: "usage_nonneg u \<Longrightarrow> rates_nonneg r \<Longrightarrow> 0 \<le> coeff (cost_sum u r)"
  unfolding cost_sum_def
  by (intro coeff_add_nonneg times_nonneg image_unit_price_nonneg coeff_or_zero_nonneg)
    (auto simp: usage_nonneg_def rates_nonneg_def)

text \<open>The finite non-negative numbers the validator lets through, as \<open>rate_card\<close> reads them.\<close>

fun money_of_raw :: "raw_rate \<Rightarrow> money_in option" where
  "money_of_raw (RawInt n) = Some (MInt n)"
| "money_of_raw (RawFloat (Finite d)) = Some (MFloat d)"
| "money_of_raw (RawDec (Finite d)) = Some (MDec d)"
| "money_of_raw _ = None"

definition card_of_raw ::
  "(raw_rate, raw_rate) rate_card \<Rightarrow> (money_in option, money_in option) rate_card" where
  "card_of_raw m = \<lparr>input_cost_per_token = money_of_raw (input_cost_per_token m),
     output_cost_per_token = money_of_raw (output_cost_per_token m),
     cache_write_cost_per_token = money_of_raw (cache_write_cost_per_token m),
     cache_read_cost_per_token = money_of_raw (cache_read_cost_per_token m),
     image_cost_per_image = money_of_raw (image_cost_per_image m),
     image_prices = map (\<lambda>(k, v). (k, money_of_raw v)) (image_prices m)\<rparr>"

lemma validated_rate_nonneg:
  assumes "validate_rate name v opt = Inr ()" "to_rate (money_of_raw v) = Inr r"
  shows "pred_option (\<lambda>d. 0 \<le> coeff d) r"
proof -
  have "0 \<le> coeff x" if "money_of_raw v = Some m" "exact m = Inr x" for m x
    using assms(1) that
    by (cases v rule: money_of_raw.cases)
      (auto simp: validate_rate_def not_less dval_nonneg_iff split: if_splits)
  then show ?thesis
    using assms(2) by (auto simp: to_rate_def split: option.splits) (blast intro: quantize_nonneg)
qed

lemma convert_prices_nonneg:
  assumes "\<forall>(k, v) \<in> set ps. validate_rate (f k) v False = Inr ()"
    "convert_prices (map (\<lambda>(k, v). (k, money_of_raw v)) ps) = Inr qs"
  shows "\<forall>(k, d) \<in> set qs. 0 \<le> coeff d"
  using assms
proof (induction ps arbitrary: qs)
  case Nil
  then show ?case by simp
next
  case (Cons p ps)
  obtain k v where p: "p = (k, v)" by (cases p)
  then show ?case
    using Cons.prems Cons.IH validated_rate_nonneg [of "f k" v False]
    by (auto split: option.splits) (fastforce dest: bspec)+
qed

lemma validated_card_nonneg:
  assumes "validate_rate_card raw = Inr ()" "rate_card (card_of_raw raw) = Inr r"
  shows "rates_nonneg r"
proof -
  from assms(1) have v:
    "validate_rate ''input_cost_per_token'' (input_cost_per_token raw) True = Inr ()"
    "validate_rate ''output_cost_per_token'' (output_cost_per_token raw) True = Inr ()"
    "validate_rate ''cache_write_cost_per_token'' (cache_write_cost_per_token raw) True = Inr ()"
    "validate_rate ''cache_read_cost_per_token'' (cache_read_cost_per_token raw) True = Inr ()"
    "validate_rate ''image_cost_per_image'' (image_cost_per_image raw) True = Inr ()"
    and ps: "\<forall>(k, v) \<in> set (image_prices raw).
      validate_rate (''image_prices['' @ k @ '']'') v False = Inr ()"
    by (auto simp: validate_rate_card_def rate_fields_def)
  from assms(2) show ?thesis
    by (auto simp: rate_card_def card_of_raw_def rates_nonneg_def
        intro: validated_rate_nonneg [OF v(1)] validated_rate_nonneg [OF v(2)]
          validated_rate_nonneg [OF v(3)] validated_rate_nonneg [OF v(4)]
          validated_rate_nonneg [OF v(5)] dest!: convert_prices_nonneg [OF ps])
qed

section \<open>Exactness within bounds\<close>

text \<open>
  Rates as \<open>rate_card\<close> builds them (ten decimals) up to a million dollars per token or image, and
  counts up to a billion: far above any price list or context window, and small enough that no
  intermediate result leaves the 28 digits of the context.
\<close>

definition rate_bounded :: "dec \<Rightarrow> bool" where
  "rate_bounded d \<longleftrightarrow> expo d = rate_scale \<and> 0 \<le> coeff d \<and> coeff d \<le> 10 ^ 16"

definition rates_bounded :: "rates \<Rightarrow> bool" where
  "rates_bounded r \<longleftrightarrow>
     pred_option rate_bounded (input_cost_per_token r) \<and>
     pred_option rate_bounded (output_cost_per_token r) \<and>
     pred_option rate_bounded (cache_write_cost_per_token r) \<and>
     pred_option rate_bounded (cache_read_cost_per_token r) \<and>
     pred_option rate_bounded (image_cost_per_image r) \<and>
     (\<forall>d \<in> snd ` set (image_prices r). rate_bounded d)"

definition count_bounded :: "int \<Rightarrow> bool" where
  "count_bounded n \<longleftrightarrow> 0 \<le> n \<and> n \<le> 10 ^ 9"

definition usage_bounded :: "billable_usage \<Rightarrow> bool" where
  "usage_bounded u \<longleftrightarrow> count_bounded (prompt_tokens u) \<and> count_bounded (completion_tokens u) \<and>
     count_bounded (cache_write_tokens u) \<and> count_bounded (cache_read_tokens u) \<and>
     count_bounded (image_count u)"

text \<open>The sum over the reals, with nothing rounded.\<close>

definition exact_cost :: "billable_usage \<Rightarrow> rates \<Rightarrow> rat" where
  "exact_cost u r =
     of_int (prompt_tokens u) * dval (or_zero (input_cost_per_token r)) +
     of_int (completion_tokens u) * dval (or_zero (output_cost_per_token r)) +
     of_int (cache_write_tokens u) * dval (or_zero (cache_write_cost_per_token r)) +
     of_int (cache_read_tokens u) * dval (or_zero (cache_read_cost_per_token r)) +
     of_int (image_count u) * dval (image_unit_price r (image_size u) (image_quality u))"

text \<open>An intermediate amount: ten decimals, or the bare zero of an unpriced dimension.\<close>

definition amount :: "int \<Rightarrow> dec \<Rightarrow> bool" where
  "amount k d \<longleftrightarrow> (expo d = rate_scale \<or> expo d = 0 \<and> coeff d = 0) \<and> 0 \<le> coeff d \<and> coeff d \<le> k"

definition price :: "dec \<Rightarrow> bool" where
  "price d \<longleftrightarrow> rate_bounded d \<or> d = dec_zero"

lemma price_or_zero: "pred_option rate_bounded r \<Longrightarrow> price (or_zero r)"
  by (cases r) (auto simp: price_def or_zero_def)

lemma price_image: "rates_bounded r \<Longrightarrow> price (image_unit_price r s q)"
  by (auto simp: image_unit_price_def rates_bounded_def price_or_zero
      split: option.splits dest!: map_of_SomeD) (force simp: price_def)

lemma amount_times:
  assumes "count_bounded n" "price d"
  shows "amount (10 ^ 25) (times n d)" "dval (times n d) = of_int n * dval d"
proof -
  have n: "0 \<le> n" "n \<le> 10 ^ 9" and d: "0 \<le> coeff d" "coeff d \<le> 10 ^ 16"
    using assms by (auto simp: count_bounded_def price_def rate_bounded_def dec_zero_def)
  have b: "0 \<le> n * coeff d" "n * coeff d \<le> 10 ^ 9 * 10 ^ 16"
    using n d mult_mono [of n "10 ^ 9" "coeff d" "10 ^ 16"] by simp_all
  then have p: "in_prec (n * coeff d)" by (simp add: in_prec_def)
  then show "dval (times n d) = of_int n * dval d"
    by (simp add: times_def dval_mul dec_of_int_def) (simp add: dval_def)
  from p have "times n d = Dec (n * coeff d) (expo d)"
    by (simp add: times_def dec_mul_def dec_of_int_def dec_fix_id)
  then show "amount (10 ^ 25) (times n d)"
    using b assms(2) by (auto simp: amount_def price_def rate_bounded_def dec_zero_def)
qed

lemma amount_add:
  assumes "amount j a" "amount k b" "j + k < 10 ^ 28"
  shows "amount (j + k) (dec_add a b)" "dval (dec_add a b) = dval a + dval b"
proof -
  define e where "e = min (expo a) (expo b)"
  have sc: "coeff a * 10 ^ nat (expo a - e) = coeff a" "coeff b * 10 ^ nat (expo b - e) = coeff b"
    using assms by (auto simp: amount_def e_def rate_scale_def)
  have b: "0 \<le> coeff a + coeff b" "coeff a + coeff b \<le> j + k"
    using assms(1,2) by (auto simp: amount_def)
  with assms(3) have p: "in_prec (coeff a + coeff b)" by (simp add: in_prec_def)
  show "dval (dec_add a b) = dval a + dval b"
    using p sc by (intro dval_add) (simp only: e_def)
  have "dec_add a b = Dec (coeff a + coeff b) e"
    using p unfolding dec_add_def Let_def e_def [symmetric] sc by (simp add: dec_fix_id)
  then show "amount (j + k) (dec_add a b)"
    using b assms(1,2) by (auto simp: amount_def e_def rate_scale_def)
qed

lemma cost_sum_exact:
  assumes "usage_bounded u" "rates_bounded r"
  shows "amount (5 * 10 ^ 25) (cost_sum u r)" "dval (cost_sum u r) = exact_cost u r"
proof -
  have u: "count_bounded (prompt_tokens u)" "count_bounded (completion_tokens u)"
    "count_bounded (cache_write_tokens u)" "count_bounded (cache_read_tokens u)"
    "count_bounded (image_count u)"
    using assms(1) by (simp_all add: usage_bounded_def)
  have r: "price (or_zero (input_cost_per_token r))" "price (or_zero (output_cost_per_token r))"
    "price (or_zero (cache_write_cost_per_token r))" "price (or_zero (cache_read_cost_per_token r))"
    "price (image_unit_price r (image_size u) (image_quality u))"
    using assms(2) by (simp_all add: rates_bounded_def price_or_zero price_image)
  note t = amount_times [OF u(1) r(1)] amount_times [OF u(2) r(2)] amount_times [OF u(3) r(3)]
    amount_times [OF u(4) r(4)] amount_times [OF u(5) r(5)]
  note s1 = amount_add [OF t(1) t(3)]
  note s2 = amount_add [OF s1(1) t(5)]
  note s3 = amount_add [OF s2(1) t(7)]
  note s4 = amount_add [OF s3(1) t(9)]
  show "amount (5 * 10 ^ 25) (cost_sum u r)"
    using s4(1) by (simp add: cost_sum_def)
  show "dval (cost_sum u r) = exact_cost u r"
    using s1(2) s2(2) s3(2) s4(2) t by (simp add: cost_sum_def exact_cost_def)
qed

lemma compute_cost_eq:
  assumes "usage_bounded u" "rates_bounded r"
  shows "compute_cost u r = Inr (Dec (round_half_up (exact_cost u r * 10 ^ 6)) cost_scale)"
proof -
  note s = cost_sum_exact [OF assms]
  have v: "0 \<le> dval (cost_sum u r)" "dval (cost_sum u r) \<le> 5 * 10 ^ 15"
  proof -
    have "(of_int (coeff (cost_sum u r)) :: rat) \<le> of_int (5 * 10 ^ 25)"
      using s(1) unfolding amount_def of_int_le_iff by simp
    with s(1) show "0 \<le> dval (cost_sum u r)" "dval (cost_sum u r) \<le> 5 * 10 ^ 15"
      by (auto simp: amount_def dval_def rate_scale_def power_int_def power_one_over field_simps)
  qed
  have "dval (cost_sum u r) / 10 powi cost_scale = exact_cost u r * 10 ^ 6"
    by (simp add: s(2) cost_scale_def power_int_def power_one_over field_simps)
  moreover have "in_prec (round_half_up (exact_cost u r * 10 ^ 6))"
  proof -
    have "0 \<le> exact_cost u r * 10 ^ 6" "exact_cost u r * 10 ^ 6 \<le> of_int (5 * 10 ^ 21)"
      using v by (simp_all add: s(2))
    then have "0 \<le> round_half_up (exact_cost u r * 10 ^ 6)"
      "round_half_up (exact_cost u r * 10 ^ 6) \<le> 5 * 10 ^ 21"
      using round_half_up_mono [of "exact_cost u r * 10 ^ 6" "of_int (5 * 10 ^ 21)"]
      by (simp_all only: round_half_up_nonneg round_half_up_int)
    then show ?thesis by (simp add: in_prec_def)
  qed
  ultimately show ?thesis by (simp add: compute_cost_def quantize_cost_def quantize_Inr)
qed

lemma dval_or_zero_nonneg: "pred_option rate_bounded x \<Longrightarrow> 0 \<le> dval (or_zero x)"
  by (cases x) (auto simp: dval_nonneg_iff rate_bounded_def)

lemma price_nonneg: "price d \<Longrightarrow> 0 \<le> dval d"
  by (auto simp: price_def dval_nonneg_iff rate_bounded_def dec_zero_def)

lemma compute_cost_mono_exact:
  assumes "usage_bounded u" "usage_bounded u'" "rates_bounded r"
    "exact_cost u r \<le> exact_cost u' r" "compute_cost u r = Inr c" "compute_cost u' r = Inr c'"
  shows "dval c \<le> dval c'"
  using assms round_half_up_mono [of "exact_cost u r * 10 ^ 6" "exact_cost u' r * 10 ^ 6"]
  by (auto simp: compute_cost_eq dval_def mult_right_mono)

section \<open>Properties\<close>

definition demo_raw :: "(raw_rate, raw_rate) rate_card" where
  "demo_raw = \<lparr>input_cost_per_token = RawFloat (Finite (Dec 25 (-7))),
     output_cost_per_token = RawDec (Finite (Dec 1 (-5))), cache_write_cost_per_token = RawNone,
     cache_read_cost_per_token = RawInt 0, image_cost_per_image = RawNone,
     image_prices = [(''1024x1024/hd'', RawDec (Finite (Dec 8 (-2))))]\<rparr>"

definition demo_rates :: rates where
  "demo_rates = \<lparr>input_cost_per_token = Some (Dec 25000 (-10)),
     output_cost_per_token = Some (Dec 100000 (-10)), cache_write_cost_per_token = None,
     cache_read_cost_per_token = Some (Dec 0 (-10)), image_cost_per_image = None,
     image_prices = [(''1024x1024/hd'', Dec 800000000 (-10))]\<rparr>"

definition demo_usage :: billable_usage where
  "demo_usage = no_usage\<lparr>prompt_tokens := 1201, completion_tokens := 350\<rparr>"

lemma demo_card: "validate_rate_card demo_raw = Inr ()" "rate_card (card_of_raw demo_raw) = Inr demo_rates"
  by code_simp+

lemma demo_cost: "compute_cost demo_usage demo_rates = Inr (Dec 6503 (-6))"
  by code_simp

lemma demo_bounded: "usage_bounded demo_usage" "rates_bounded demo_rates" "usage_nonneg demo_usage"
  by (simp_all add: usage_bounded_def count_bounded_def rates_bounded_def rate_bounded_def
      demo_usage_def demo_rates_def no_usage_def rate_scale_def usage_nonneg_def)

text \<open>
  No credit: whatever rates pass the validation that every write path runs, a call with
  non-negative counts never costs less than zero, so settlement cannot hand spend back to a team.
\<close>

theorem compute_cost_no_credit:
  assumes "validate_rate_card raw = Inr ()" "rate_card (card_of_raw raw) = Inr r"
    "usage_nonneg u" "compute_cost u r = Inr c"
  shows "0 \<le> dval c"
proof -
  have "0 \<le> coeff (cost_sum u r)"
    using validated_card_nonneg [OF assms(1,2)] assms(3) by (intro cost_sum_nonneg)
  with assms(4) show ?thesis
    by (simp add: compute_cost_def quantize_cost_def dval_nonneg_iff quantize_nonneg)
qed

theorem compute_cost_no_credit_witness: "0 \<le> dval (Dec 6503 (-6))"
  by (rule compute_cost_no_credit [OF demo_card demo_bounded(3) demo_cost])

text \<open>
  C35. One rounding: for bounded counts and rates the computed cost is the exact sum of the five
  dimensions rounded once, half up, at six decimals; it differs from the exact sum by at most half
  a millionth of a dollar, whatever the number of tokens.
\<close>

theorem compute_cost_exact:
  assumes "usage_bounded u" "rates_bounded r"
  shows "compute_cost u r = Inr (Dec (round_half_up (exact_cost u r * 10 ^ 6)) cost_scale) \<and>
    \<bar>dval (Dec (round_half_up (exact_cost u r * 10 ^ 6)) cost_scale) - exact_cost u r\<bar> \<le> 1 / 2000000"
proof -
  have "\<bar>of_int (round_half_up (exact_cost u r * 10 ^ 6)) - exact_cost u r * 10 ^ 6\<bar> \<le> 1 / 2"
    by (rule round_half_up_near)
  then show ?thesis
    using compute_cost_eq [OF assms]
    by (simp add: dval_def cost_scale_def power_int_def power_one_over abs_le_iff field_simps)
qed

theorem compute_cost_exact_witness:
  "compute_cost demo_usage demo_rates =
    Inr (Dec (round_half_up (exact_cost demo_usage demo_rates * 10 ^ 6)) cost_scale)"
  using compute_cost_exact [OF demo_bounded(1,2)] by simp

text \<open>
  Opting in is explicit: on a card with no cache and no image rates, a call costs exactly what
  its input and output tokens cost, whatever cache tokens and images it also reports.
\<close>

theorem unpriced_dimensions_cost_nothing:
  assumes "usage_bounded u" "rates_bounded r"
    "cache_write_cost_per_token r = None" "cache_read_cost_per_token r = None"
    "image_cost_per_image r = None" "image_prices r = []"
  shows "compute_cost u r = compute_cost (no_usage\<lparr>prompt_tokens := prompt_tokens u,
    completion_tokens := completion_tokens u\<rparr>) r"
proof -
  let ?v = "no_usage\<lparr>prompt_tokens := prompt_tokens u, completion_tokens := completion_tokens u\<rparr>"
  have "usage_bounded ?v"
    using assms(1) by (simp add: usage_bounded_def count_bounded_def no_usage_def)
  moreover have "dval (image_unit_price r x y) = 0" for x y
    using assms(5,6) by (simp add: image_unit_price_def split: option.split)
  then have "exact_cost u r = exact_cost ?v r"
    using assms(3,4) by (simp add: exact_cost_def no_usage_def)
  ultimately show ?thesis using assms(1,2) by (simp add: compute_cost_eq)
qed

definition token_rates :: rates where
  "token_rates = \<lparr>input_cost_per_token = Some (Dec 25000 (-10)),
     output_cost_per_token = Some (Dec 100000 (-10)), cache_write_cost_per_token = None,
     cache_read_cost_per_token = None, image_cost_per_image = None, image_prices = []\<rparr>"

theorem unpriced_dimensions_cost_nothing_witness:
  "compute_cost (demo_usage\<lparr>cache_read_tokens := 900, image_count := 3\<rparr>) token_rates =
   compute_cost demo_usage token_rates"
  using unpriced_dimensions_cost_nothing
    [of "demo_usage\<lparr>cache_read_tokens := 900, image_count := 3\<rparr>" token_rates]
  by (simp add: usage_bounded_def count_bounded_def rates_bounded_def rate_bounded_def
      demo_usage_def token_rates_def no_usage_def rate_scale_def)

definition acceptable :: "raw_rate \<Rightarrow> bool" where
  "acceptable v \<longleftrightarrow> (\<exists>d. raw_exact v = Some (Finite d) \<and> 0 \<le> dval d)"

lemma validate_rate_iff:
  "validate_rate name v opt = Inr () \<longleftrightarrow> acceptable v \<or> v = RawNone \<and> opt"
  by (cases v) (auto simp: validate_rate_def acceptable_def split: pydec.splits)

text \<open>
  What the validator accepts: a card passes exactly when each of the five rates is absent or a
  finite non-negative number, and each entry of the image price table is such a number (never
  absent); booleans, strings, NaN, infinities and negative numbers are refused.
\<close>

theorem validate_rate_card_iff:
  "validate_rate_card m = Inr () \<longleftrightarrow>
    (\<forall>v \<in> {input_cost_per_token m, output_cost_per_token m, cache_write_cost_per_token m,
        cache_read_cost_per_token m, image_cost_per_image m}. v = RawNone \<or> acceptable v) \<and>
    (\<forall>(k, v) \<in> set (image_prices m). acceptable v)"
  by (auto simp: validate_rate_card_def rate_fields_def validate_rate_iff)

theorem validate_rate_card_iff_witness:
  "validate_rate_card (demo_raw\<lparr>cache_read_cost_per_token := RawFloat NotANumber\<rparr>) \<noteq> Inr ()"
  unfolding validate_rate_card_iff by (simp add: acceptable_def)

end
