(* ===== verification/Budget_Math.thy ===== *)
theory Budget_Math
  imports Python_Decimal
begin

text \<open>
  \<open>domain/budget.py\<close> with the budget window and the threshold lists it works on: the start of the
  current spend window, the validation of an alert-threshold list, and the thresholds a spend newly
  crosses. The lemmas show that the window start splits time into whole windows, what a
  validated list looks like, and that the 28-digit decimal division of \<open>crossed_thresholds\<close> never
  fires a threshold early or late for amounts the ledger can hold.
\<close>

section \<open>Dates and windows\<close>

record datetime =
  year :: int
  month :: int
  day :: int
  hour :: int
  minute :: int
  second :: int
  microsecond :: int

datatype budget_window = Monthly | Daily

text \<open>Order of the instants of one time zone, as Python compares aware datetimes of that zone.\<close>

definition dt_fields :: "datetime \<Rightarrow> int list" where
  "dt_fields t = [year t, month t, day t, hour t, minute t, second t, microsecond t]"

fun lex_le :: "int list \<Rightarrow> int list \<Rightarrow> bool" where
  "lex_le (x # xs) (y # ys) = (x < y \<or> x = y \<and> lex_le xs ys)"
| "lex_le [] ys = True"
| "lex_le (x # xs) [] = False"

definition dt_le :: "datetime \<Rightarrow> datetime \<Rightarrow> bool" where
  "dt_le a b \<longleftrightarrow> lex_le (dt_fields a) (dt_fields b)"

definition valid_dt :: "datetime \<Rightarrow> bool" where
  "valid_dt t \<longleftrightarrow> 1 \<le> month t \<and> month t \<le> 12 \<and> 1 \<le> day t \<and> day t \<le> 31 \<and>
     0 \<le> hour t \<and> hour t < 24 \<and> 0 \<le> minute t \<and> minute t < 60 \<and>
     0 \<le> second t \<and> second t < 60 \<and> 0 \<le> microsecond t \<and> microsecond t < 1000000"

definition window_start :: "budget_window \<Rightarrow> datetime \<Rightarrow> datetime" where
  "window_start window now =
    (if window = Monthly then now\<lparr>day := 1, hour := 0, minute := 0, second := 0, microsecond := 0\<rparr>
     else now\<lparr>hour := 0, minute := 0, second := 0, microsecond := 0\<rparr>)"

section \<open>Alert thresholds\<close>

definition check_threshold :: "json \<Rightarrow> exc + int" where
  "check_threshold value = (case as_int value of
     None \<Rightarrow> raise_exc (Request InvalidBudget) [''threshold must be an int'']
   | Some v \<Rightarrow> if 1 \<le> v \<and> v \<le> 100 then Inr v
       else raise_exc (Request InvalidBudget) [''threshold must be in 1..100''])"

definition validate_thresholds :: "json list \<Rightarrow> exc + int list" where
  "validate_thresholds thresholds =
    rbind (rmap check_threshold thresholds) (\<lambda>vs. Inr (sorted_set vs))"

definition crossed_thresholds :: "dec \<Rightarrow> dec \<Rightarrow> int list \<Rightarrow> int list \<Rightarrow> exc + int list" where
  "crossed_thresholds spend limit_cost thresholds fired =
    (if dval limit_cost \<le> 0 then Inr []
     else rbind (dec_div spend limit_cost) (\<lambda>q. let pct = dec_mul q (Dec 100 0) in
       Inr (filter (\<lambda>t. t \<notin> set fired \<and> of_int t \<le> dval pct) (sort thresholds))))"

section \<open>The percentage is exact enough\<close>

text \<open>
  Amounts of the ledger: a non-negative \<open>NUMERIC(20, 6)\<close>, read back at cost scale.
\<close>

definition ledger_amount :: "dec \<Rightarrow> bool" where
  "ledger_amount d \<longleftrightarrow> expo d = -6 \<and> 0 \<le> coeff d \<and> coeff d < 10 ^ 20"

lemma of_int_div_bounds:
  fixes n m :: int
  assumes "0 < m"
  shows "of_int (n div m) \<le> (of_int n / of_int m :: rat)"
    "(of_int n / of_int m :: rat) < of_int (n div m) + 1"
proof -
  have "n div m * m \<le> n" "n < (n div m + 1) * m"
    using assms by (metis div_mult_mod_eq pos_mod_sign le_add_same_cancel1)
      (metis assms div_mult_mod_eq pos_mod_bound add_less_cancel_left distrib_right mult_1)
  then have "(of_int (n div m * m) :: rat) \<le> of_int n" "(of_int n :: rat) < of_int ((n div m + 1) * m)"
    by (simp_all only: of_int_le_iff of_int_less_iff)
  with assms show "of_int (n div m) \<le> (of_int n / of_int m :: rat)"
    "(of_int n / of_int m :: rat) < of_int (n div m) + 1"
    by (simp_all add: field_simps)
qed

lemma dec_div_pos:
  assumes "0 < coeff a" "0 < coeff b" "expo a = expo b"
    and sh: "int (ndigits (nat (coeff b))) - int (ndigits (nat (coeff a))) + int dec_prec + 1 = int sh"
  shows "dec_div a b = Inr (dec_fix (Dec (let n = coeff a * 10 ^ sh; m = coeff b; q = n div m
      in if n mod m \<noteq> 0 \<and> q mod 5 = 0 then q + 1 else q) (- int sh)))"
proof -
  have 1: "\<bar>coeff a\<bar> = coeff a" "\<bar>coeff b\<bar> = coeff b" "coeff a \<noteq> 0" "coeff b \<noteq> 0"
    "sgn (coeff a) = 1" "sgn (coeff b) = 1"
    using assms(1,2) by simp_all
  show ?thesis
    by (simp only: dec_div_def Let_def 1 sh assms(3) if_False of_nat_0_le_iff if_True nat_int
        diff_self diff_0 mult_1)
qed

text \<open>
  Division of two positive ledger amounts: the quotient of the coefficients \<open>a / b\<close>, taken with 29
  or 30 digits and then rounded to 28.
\<close>

lemma dec_div_ledger:
  assumes "ledger_amount s" "ledger_amount l" "0 < coeff s" "0 < coeff l"
  obtains q sh where "10 \<le> sh" "sh \<le> 48"
    "q = (let n = coeff s * 10 ^ sh; m = coeff l; q = n div m
          in if n mod m \<noteq> 0 \<and> q mod 5 = 0 then q + 1 else q)"
    "10 ^ 28 * coeff l \<le> coeff s * 10 ^ sh"
    "dec_div s l = Inr (dec_fix (Dec q (- int sh)))"
proof -
  define ka kb where "ka = ndigits (nat (coeff s))" and "kb = ndigits (nat (coeff l))"
  have k: "1 \<le> ka" "ka \<le> 20" "1 \<le> kb" "kb \<le> 20"
    using assms by (auto simp: ka_def kb_def ndigits_le_iff ledger_amount_def nat_less_iff
        ndigits.simps [of "nat (coeff s)"] ndigits.simps [of "nat (coeff l)"])
  define sh where "sh = nat (int kb - int ka + 29)"
  have sh: "int sh = int kb - int ka + 29" "10 \<le> sh" "sh \<le> 48"
    using k by (simp_all add: sh_def)
  have "coeff l \<le> 10 ^ kb" "10 ^ (ka - 1) \<le> coeff s"
    using ndigits_bounds assms(3,4) by (simp_all add: ka_def kb_def less_imp_le)
  then have "10 ^ 28 * coeff l \<le> 10 ^ 28 * 10 ^ kb" "(10::int) ^ (ka - 1) * 10 ^ sh \<le> coeff s * 10 ^ sh"
    by (simp_all add: mult_right_mono)
  moreover have "(10::int) ^ 28 * 10 ^ kb = 10 ^ (ka - 1) * 10 ^ sh"
  proof -
    have "28 + kb = ka - 1 + sh" using sh(1) k by linarith
    then show ?thesis by (simp only: power_add [symmetric])
  qed
  ultimately have big: "10 ^ 28 * coeff l \<le> coeff s * 10 ^ sh" by linarith
  have "dec_div s l = Inr (dec_fix (Dec (let n = coeff s * 10 ^ sh; m = coeff l; q = n div m
      in if n mod m \<noteq> 0 \<and> q mod 5 = 0 then q + 1 else q) (- int sh)))"
  proof -
    have e: "expo s = expo l" using assms by (simp add: ledger_amount_def)
    have i: "int (ndigits (nat (coeff l))) - int (ndigits (nat (coeff s))) + int dec_prec + 1 = int sh"
      using sh(1) by (simp add: ka_def kb_def dec_prec_def)
    show ?thesis by (rule dec_div_pos [OF assms(3,4) e i])
  qed
  then show thesis using that [OF sh(2,3) refl big] by blast
qed

lemma percentage_exact:
  assumes "ledger_amount s" "ledger_amount l" "0 < coeff s" "0 < coeff l" "1 \<le> t" "t \<le> 100"
  obtains p where "dec_div s l = Inr p"
    "of_int t \<le> dval (dec_mul p (Dec 100 0)) \<longleftrightarrow> t * coeff l \<le> 100 * coeff s"
proof -
  obtain q sh where sh: "10 \<le> sh" "sh \<le> 48"
    and q: "q = (let n = coeff s * 10 ^ sh; m = coeff l; q = n div m
          in if n mod m \<noteq> 0 \<and> q mod 5 = 0 then q + 1 else q)"
    and big: "10 ^ 28 * coeff l \<le> coeff s * 10 ^ sh"
    and p: "dec_div s l = Inr (dec_fix (Dec q (- int sh)))"
    using dec_div_ledger [OF assms(1-4)] by metis
  define a b :: rat where "a = of_int (coeff s)" and "b = of_int (coeff l)"
  define n m where "n = coeff s * 10 ^ sh" and "m = coeff l"
  have m: "0 < m" using assms(4) by (simp add: m_def)
  have ab: "0 < a" "0 < b" using assms(3,4) by (simp_all add: a_def b_def)
  have "coeff l \<le> 10 ^ 20" using assms(2) by (simp add: ledger_amount_def)
  then have b20: "b \<le> 10 ^ 20" unfolding b_def by (rule of_int_le_numeral_power_cancel_iff [THEN iffD2])
  have "0 \<le> n" using assms(3) by (simp add: n_def)
  then have "0 \<le> n div m" using m by (simp add: pos_imp_zdiv_nonneg_iff)
  then have q0: "0 \<le> q" unfolding q Let_def n_def [symmetric] m_def [symmetric] by simp
  define P where "P = dval (dec_mul (dec_fix (Dec q (- int sh))) (Dec 100 0))"
  have P: "P = dval (dec_fix (Dec q (- int sh))) * 100"
    unfolding P_def using q0 by (intro dval_times_hundred) (simp_all add: dec_fix_in_prec coeff_fix_nonneg)
  have dv: "dval (Dec k (- int sh)) = of_int k / 10 ^ sh" for k
    by (simp add: dval_def power_int_minus divide_inverse)
  have "of_int t \<le> P \<longleftrightarrow> t * coeff l \<le> 100 * coeff s"
  proof (cases "t * coeff l = 100 * coeff s")
    case True
    \<comment> \<open>an exact percentage: nothing is lost\<close>
    have "10 ^ sh = 100 * (10::int) ^ (sh - 2)"
    proof -
      have "sh = 2 + (sh - 2)" using sh by simp
      then have "10 ^ sh = (10::int) ^ 2 * 10 ^ (sh - 2)" by (metis power_add)
      then show ?thesis by simp
    qed
    then have "n = coeff s * 100 * 10 ^ (sh - 2)" by (simp add: n_def)
    also have "coeff s * 100 = t * m" using True by (simp add: m_def)
    finally have n': "n = t * 10 ^ (sh - 2) * m" by (simp only: mult.assoc mult.commute [of m])
    then have qe: "q = t * 10 ^ (sh - 2)"
      using m by (simp add: q Let_def n_def [symmetric] m_def [symmetric])
    have "dval (dec_fix (Dec q (- int sh))) = dval (Dec q (- int sh))"
    proof (rule dec_fix_trailing [where j = "sh - 2"])
      have "t * 10 ^ (sh - 2) < 10 ^ 28 * 10 ^ (sh - 2)"
        using assms(6) by (intro mult_strict_right_mono) simp_all
      then show "q < 10 ^ (sh - 2 + 28)" by (simp add: qe power_add mult.commute)
    qed (use q0 in \<open>simp_all add: qe\<close>)
    moreover have "(10::rat) ^ sh = 100 * 10 ^ (sh - 2)"
      using \<open>10 ^ sh = 100 * (10::int) ^ (sh - 2)\<close>
      by (metis of_int_mult of_int_numeral of_int_power)
    ultimately have "P = of_int (t * 10 ^ (sh - 2)) / (100 * 10 ^ (sh - 2)) * 100"
      unfolding P dv qe by simp
    then have "P = of_int t" by simp
    with True show ?thesis by simp
  next
    case False
    define r where "r = a / b"
    have r0: "0 < r" using ab by (simp add: r_def)
    have rr: "(of_int n :: rat) / of_int m = r * 10 ^ sh" by (simp add: n_def m_def a_def b_def r_def)
    have big': "10 ^ 28 \<le> r * 10 ^ sh"
    proof -
      have "(of_int (10 ^ 28 * m) :: rat) \<le> of_int n" using big by (simp only: n_def m_def of_int_le_iff)
      then show ?thesis using m unfolding rr [symmetric] by (simp add: field_simps)
    qed
    have near: "\<bar>of_int q - r * 10 ^ sh\<bar> \<le> 1"
    proof (cases "n mod m \<noteq> 0 \<and> n div m mod 5 = 0")
      case True
      then have "q = n div m + 1" by (simp add: q Let_def n_def m_def)
      then show ?thesis using of_int_div_bounds [OF m, of n] by (simp add: rr abs_le_iff)
    next
      case False
      then have "q = n div m" by (simp add: q Let_def n_def m_def)
      then show ?thesis using of_int_div_bounds [OF m, of n] by (simp add: rr abs_le_iff)
    qed
    define v where "v = dval (Dec q (- int sh))"
    have v1: "\<bar>v - r\<bar> \<le> r / 10 ^ 28"
    proof -
      have "\<bar>v - r\<bar> = \<bar>of_int q - r * 10 ^ sh\<bar> / 10 ^ sh"
        by (simp add: v_def dv diff_divide_distrib [symmetric] field_simps abs_divide [symmetric])
      also have "\<dots> \<le> 1 / 10 ^ sh" using near by (simp add: divide_right_mono)
      also have "\<dots> \<le> r / 10 ^ 28" using big' by (simp add: field_simps)
      finally show ?thesis .
    qed
    have "r / 10 ^ 28 \<le> r" using r0 by simp
    then have v2r: "v \<le> 2 * r" using abs_le_D1 [OF v1] by linarith
    have v2: "\<bar>P / 100 - v\<bar> \<le> v / 10 ^ 27"
      using dec_fix_error [OF q0, of "- int sh"] by (simp add: P v_def)
    then have "\<bar>P / 100 - r\<bar> \<le> v / 10 ^ 27 + r / 10 ^ 28"
      using v1 by linarith
    also have "\<dots> \<le> 2 * r / 10 ^ 27 + r / 10 ^ 28"
      using v2r by (intro add_right_mono divide_right_mono) simp_all
    also have "\<dots> \<le> r / 10 ^ 26"
      using r0 by (simp add: field_simps)
    finally have err: "\<bar>P / 100 - r\<bar> \<le> r / 10 ^ 26" .
    define u where "u = r / 10 ^ 26"
    have u: "P \<le> 100 * (r + u)" "100 * (r - u) \<le> P"
      using abs_le_D1 [OF err, folded u_def] abs_le_D2 [OF err, folded u_def] by (simp_all add: algebra_simps)
    have t: "1 \<le> (of_int t :: rat)" "(of_int t :: rat) \<le> 100" using assms(5,6) by simp_all
    have "t * coeff l \<le> 100 * coeff s \<longleftrightarrow> t * coeff l < 100 * coeff s" using False by linarith
    also have "\<dots> \<longleftrightarrow> (of_int (t * coeff l) :: rat) < of_int (100 * coeff s)"
      by (simp only: of_int_less_iff)
    also have "\<dots> \<longleftrightarrow> of_int t * b < 100 * a" by (simp add: a_def b_def)
    finally have cmp: "t * coeff l \<le> 100 * coeff s \<longleftrightarrow> of_int t * b < 100 * a" .
    have gap: "1 \<le> \<bar>100 * a - of_int t * b\<bar>"
    proof -
      have "1 \<le> \<bar>100 * coeff s - t * coeff l\<bar>" using False by linarith
      then have "(of_int 1 :: rat) \<le> of_int \<bar>100 * coeff s - t * coeff l\<bar>" by (simp only: of_int_le_iff)
      then show ?thesis by (simp add: a_def b_def)
    qed
    have ge: "1 / 10 ^ 20 \<le> 1 / b" using ab b20 by (intro divide_left_mono) simp_all
    show ?thesis
    proof (cases "of_int t * b < 100 * a")
      case True
      then have g: "1 \<le> 100 * a - of_int t * b" using gap by simp
      have "1 / b \<le> 100 * r - of_int t"
        using g ab by (simp add: r_def field_simps)
      then have d: "1 / 10 ^ 20 \<le> 100 * r - of_int t" using ge by linarith
      have "of_int t \<le> 100 * (r - r / 10 ^ 26)"
      proof (cases "2 \<le> r")
        case True
        then show ?thesis using t(2) by (simp add: field_simps)
      next
        case False
        then show ?thesis using d by (simp add: field_simps)
      qed
      also have "\<dots> \<le> P" using u(2) by (simp only: u_def)
      finally show ?thesis using True cmp by simp
    next
      case False
      then have g: "1 \<le> of_int t * b - 100 * a" using gap by simp
      have "1 / b \<le> of_int t - 100 * r"
        using g ab by (simp add: r_def field_simps)
      then have d: "1 / 10 ^ 20 \<le> of_int t - 100 * r" using ge by linarith
      then have "r \<le> 1" using t(2) by (simp add: field_simps)
      have "P \<le> 100 * (r + r / 10 ^ 26)" using u(1) by (simp only: u_def)
      also have "\<dots> < of_int t" using d \<open>r \<le> 1\<close> by (simp add: field_simps)
      finally show ?thesis using False cmp by simp
    qed
  qed
  then show thesis using that [OF p] by (simp add: P_def)
qed

section \<open>Properties\<close>

lemma lex_le_refl [simp]: "lex_le xs xs"
  by (induction xs) simp_all

lemma dt_le_iff:
  "dt_le a b \<longleftrightarrow> year a < year b \<or> year a = year b \<and> (month a < month b \<or> month a = month b \<and>
    (day a < day b \<or> day a = day b \<and> (hour a < hour b \<or> hour a = hour b \<and>
    (minute a < minute b \<or> minute a = minute b \<and> (second a < second b \<or> second a = second b \<and>
    microsecond a \<le> microsecond b)))))"
  by (auto simp: dt_le_def dt_fields_def)

lemma window_start_le: "valid_dt now \<Longrightarrow> dt_le (window_start w now) now"
  by (cases "w = Monthly") (auto simp: dt_le_iff window_start_def valid_dt_def)

lemma window_start_same:
  assumes "dt_le (window_start w now) t" "dt_le t now"
  shows "window_start w t = window_start w now"
proof (cases "w = Monthly")
  case True
  with assms have "year t = year now" "month t = month now"
    by (auto simp: dt_le_iff window_start_def)
  with True show ?thesis by (simp add: window_start_def)
next
  case False
  with assms have "year t = year now" "month t = month now" "day t = day now"
    by (auto simp: dt_le_iff window_start_def)
  with False show ?thesis by (simp add: window_start_def)
qed

lemma dt_le_antisym: "dt_le a b \<Longrightarrow> dt_le b a \<Longrightarrow> a = b"
  by (auto simp: dt_le_iff)

lemma window_start_valid: "valid_dt now \<Longrightarrow> valid_dt (window_start w now)"
  by (auto simp: valid_dt_def window_start_def)

text \<open>
  The window start is a fixed point at or before \<open>now\<close>, and the instants from it up to \<open>now\<close>
  are all in the same window: time splits into windows, and spend summed from
  \<open>window_start\<close> is the spend of exactly one of them.
\<close>

theorem window_start_partitions:
  assumes "valid_dt now"
  shows "dt_le (window_start w now) now \<and> valid_dt (window_start w now) \<and>
    window_start w (window_start w now) = window_start w now \<and>
    (\<forall>t. dt_le (window_start w now) t \<and> dt_le t now \<longrightarrow> window_start w t = window_start w now)"
  using assms window_start_le window_start_same window_start_valid
  by (auto simp: window_start_def)

theorem window_start_partitions_witness:
  "window_start Monthly \<lparr>year = 2024, month = 3, day = 9, hour = 1, minute = 0, second = 0, microsecond = 0\<rparr> =
   window_start Monthly \<lparr>year = 2024, month = 3, day = 31, hour = 23, minute = 59, second = 59, microsecond = 9\<rparr>"
  using window_start_partitions [of
    "\<lparr>year = 2024, month = 3, day = 31, hour = 23, minute = 59, second = 59, microsecond = 9\<rparr>" Monthly]
  by (simp add: valid_dt_def dt_le_def dt_fields_def window_start_def)

lemma check_threshold_Inr: "check_threshold v = Inr i \<longleftrightarrow> v = JInt i \<and> 1 \<le> i \<and> i \<le> 100"
  by (cases v) (auto simp: check_threshold_def)

lemma rmap_check: "rmap check_threshold vs = Inr is \<longleftrightarrow>
    vs = map JInt is \<and> (\<forall>i \<in> set is. 1 \<le> i \<and> i \<le> 100)"
  by (induction vs arbitrary: "is") (auto simp: check_threshold_Inr Cons_eq_map_conv)

lemma check_threshold_Inl: "check_threshold v = Inl e \<Longrightarrow> \<exists>m. e = Domain (Request InvalidBudget) m NoRetry None"
  by (cases v) (auto simp: check_threshold_def split: if_splits)

lemma rmap_check_Inl:
  "rmap check_threshold vs = Inl e \<Longrightarrow> \<exists>m. e = Domain (Request InvalidBudget) m NoRetry None"
  by (induction vs) (auto simp: rbind_eq_Inl dest: check_threshold_Inl)

text \<open>
  \<open>validate_thresholds\<close> accepts a list exactly when every element is an \<open>int\<close> (no
  \<open>bool\<close>) in 1..100, and then returns its elements in strictly ascending order; otherwise
  the error is \<open>InvalidBudget\<close>.
\<close>

theorem validate_thresholds_result:
  "case validate_thresholds vs of
     Inr ts \<Rightarrow> (\<forall>v \<in> set vs. \<exists>i. v = JInt i \<and> 1 \<le> i \<and> i \<le> 100) \<and>
       JInt ` set ts = set vs \<and> sorted ts \<and> distinct ts
   | Inl e \<Rightarrow> (\<exists>v \<in> set vs. \<not> (\<exists>i. v = JInt i \<and> 1 \<le> i \<and> i \<le> 100)) \<and>
       (\<exists>m. e = Domain (Request InvalidBudget) m NoRetry None)"
proof (cases "rmap check_threshold vs")
  case (Inl e)
  then have "\<not> (\<exists>is. vs = map JInt is \<and> (\<forall>i \<in> set is. 1 \<le> i \<and> i \<le> 100))"
    by (auto simp: rmap_check [symmetric])
  moreover have "\<exists>is. vs = map JInt is \<and> (\<forall>i \<in> set is. 1 \<le> i \<and> i \<le> 100)"
    if "\<forall>v \<in> set vs. \<exists>i. v = JInt i \<and> 1 \<le> i \<and> i \<le> 100"
    using that by (induction vs) (auto, metis (full_types) list.simps(9) set_ConsD)
  ultimately show ?thesis
    using Inl rmap_check_Inl [OF Inl] by (auto simp: validate_thresholds_def)
next
  case (Inr ts)
  then have "vs = map JInt ts \<and> (\<forall>i \<in> set ts. 1 \<le> i \<and> i \<le> 100)" by (rule rmap_check [THEN iffD1])
  with Inr show ?thesis by (auto simp: validate_thresholds_def)
qed

theorem validate_thresholds_result_witness:
  "case validate_thresholds [JInt 90, JInt 50, JInt 90] of Inr ts \<Rightarrow> JInt ` set ts = {JInt 50, JInt 90} | Inl e \<Rightarrow> False"
  using validate_thresholds_result [of "[JInt 90, JInt 50, JInt 90]"]
  by (auto simp: validate_thresholds_def check_threshold_def)

lemma dval_ledger: "ledger_amount d \<Longrightarrow> dval d = of_int (coeff d) / 10 ^ 6"
proof -
  assume "ledger_amount d"
  then have e: "expo d = - int 6" by (simp add: ledger_amount_def)
  show ?thesis unfolding dval_def e by (simp only: power_int_minus power_int_of_nat divide_inverse)
qed

lemma dval_ledger_pos: "ledger_amount d \<Longrightarrow> dval d \<le> 0 \<longleftrightarrow> coeff d = 0"
  by (auto simp: dval_ledger ledger_amount_def divide_le_0_iff)

lemma dec_mul_zero: "dval (dec_mul (Dec 0 e) (Dec 100 0)) = 0"
  by (simp add: dec_mul_def dec_fix_id in_prec_def dval_def)

lemma crossed_percentage:
  assumes "ledger_amount s" "ledger_amount l" "0 < coeff l"
  obtains p where "dec_div s l = Inr p"
    "\<And>t. 1 \<le> t \<Longrightarrow> t \<le> 100 \<Longrightarrow>
      of_int t \<le> dval (dec_mul p (Dec 100 0)) \<longleftrightarrow> t * coeff l \<le> 100 * coeff s"
proof (cases "coeff s = 0")
  case True
  then have "dec_div s l = Inr (Dec 0 (expo s - expo l))" using assms(3) by (simp add: dec_div_def)
  moreover have "\<not> t * coeff l \<le> 0" if "1 \<le> t" for t
    using that assms(3) by (simp add: mult_le_0_iff)
  ultimately show thesis using that True by (simp add: dec_mul_zero)
next
  case False
  with assms(1) have "0 < coeff s" by (simp add: ledger_amount_def)
  then obtain q where q: "dec_div s l = Inr q"
    using dec_div_ledger [OF assms(1,2) _ assms(3)] by metis
  moreover have "of_int t \<le> dval (dec_mul q (Dec 100 0)) \<longleftrightarrow> t * coeff l \<le> 100 * coeff s"
    if "1 \<le> t" "t \<le> 100" for t
    using percentage_exact [OF assms(1,2) \<open>0 < coeff s\<close> assms(3) that] q by (metis sum.inject(2))
  ultimately show thesis by (rule that)
qed

text \<open>
  For ledger amounts a threshold fires exactly when it has not fired in this window and the
  spend has really reached that percentage of the limit: the 28-digit decimal division never
  fires one early or late. The list comes out ascending, and there is no error.
\<close>

theorem crossed_thresholds_exact:
  assumes "ledger_amount spend" "ledger_amount limit_cost" "\<forall>t \<in> set thresholds. 1 \<le> t \<and> t \<le> 100"
  shows "\<exists>ts. crossed_thresholds spend limit_cost thresholds fired = Inr ts \<and> sorted ts \<and>
    set ts = {t \<in> set thresholds. t \<notin> set fired \<and> 0 < dval limit_cost \<and>
      of_int t * dval limit_cost \<le> 100 * dval spend}"
proof (cases "coeff limit_cost = 0")
  case True
  then show ?thesis using assms(2) by (simp add: crossed_thresholds_def dval_ledger)
next
  case False
  then have pos: "0 < coeff limit_cost" using assms(2) by (simp add: ledger_amount_def)
  obtain p where p: "dec_div spend limit_cost = Inr p"
    "\<And>t. 1 \<le> t \<Longrightarrow> t \<le> 100 \<Longrightarrow> of_int t \<le> dval (dec_mul p (Dec 100 0)) \<longleftrightarrow>
      t * coeff limit_cost \<le> 100 * coeff spend"
    using crossed_percentage [OF assms(1,2) pos] by blast
  have eq: "of_int t * dval limit_cost \<le> 100 * dval spend \<longleftrightarrow> t * coeff limit_cost \<le> 100 * coeff spend"
    for t :: int
  proof -
    have "of_int t * dval limit_cost \<le> 100 * dval spend \<longleftrightarrow>
        (of_int (t * coeff limit_cost) :: rat) \<le> of_int (100 * coeff spend)"
      using assms(1,2) by (simp add: dval_ledger divide_right_mono field_simps)
    then show ?thesis by (simp only: of_int_le_iff)
  qed
  have "0 < dval limit_cost" using pos assms(2) by (simp add: dval_ledger)
  then show ?thesis
    using p assms(3) sorted_wrt_filter [of "(\<le>)" "sort thresholds"]
    by (auto simp: crossed_thresholds_def Let_def eq)
qed

theorem crossed_thresholds_exact_witness:
  "\<exists>ts. crossed_thresholds (Dec 80000000 (-6)) (Dec 100000000 (-6)) [50, 80, 90] [50] = Inr ts \<and> set ts = {80}"
  using crossed_thresholds_exact [of "Dec 80000000 (-6)" "Dec 100000000 (-6)" "[50, 80, 90]" "[50]"]
  by (auto simp: ledger_amount_def dval_def power_int_minus)

end
