(* ===== verification/Python_Sum.thy ===== *)
theory Python_Sum
  imports Python_Floats
begin

text \<open>
  The builtin \<open>sum\<close> on floats. Since CPython 3.12 it keeps a compensation term beside the running
  sum (Neumaier's variant of Kahan summation); the repository requires 3.14. The lemma bounds the
  distance of the result from the exact sum of non-negative values.
\<close>

definition cs_add :: "float_py \<times> float_py \<Rightarrow> float_py \<Rightarrow> float_py \<times> float_py" where
  "cs_add acc x = (let hi = fst acc; lo = snd acc; t = fadd hi x in
     (t, if \<bar>x\<bar> \<le> \<bar>hi\<bar> then fadd lo (fadd (fsub hi t) x) else fadd lo (fadd (fsub x t) hi)))"

definition fsum :: "float_py list \<Rightarrow> float_py" where
  "fsum xs = (let acc = foldl cs_add (0, 0) xs in
     if snd acc = 0 then fst acc else fadd (fst acc) (snd acc))"

lemma fsum_Nil [simp]: "fsum [] = 0"
  by (simp add: fsum_def)

section \<open>Distance from the exact sum\<close>

definition ulp1 :: rat where
  "ulp1 = 1 / 2 ^ 53"

lemma ulp1: "0 < ulp1" "ulp1 \<le> 1" "ulp1 * 2 ^ 53 = 1"
  by (simp_all add: ulp1_def)

lemma rnd_err: "\<bar>rnd x - x\<bar> \<le> ulp1 * \<bar>x\<bar>"
  using rnd_error [of x] by (simp add: ulp1_def)

lemma rnd_abs_le: "\<bar>x\<bar> \<le> b \<Longrightarrow> \<bar>rnd x\<bar> \<le> (1 + ulp1) * b"
proof -
  assume b: "\<bar>x\<bar> \<le> b"
  have "\<bar>rnd x\<bar> \<le> \<bar>x\<bar> + ulp1 * \<bar>x\<bar>" using rnd_err [of x] by linarith
  also have "\<dots> = (1 + ulp1) * \<bar>x\<bar>" by (simp add: algebra_simps)
  also have "\<dots> \<le> (1 + ulp1) * b" using b ulp1 by (intro mult_left_mono) simp_all
  finally show ?thesis .
qed

text \<open>One compensation term is no more than four units of the last place of the sum.\<close>

lemma compensation_le:
  assumes "0 \<le> p" "0 \<le> q"
  shows "\<bar>fadd (fsub p (fadd p q)) q\<bar> \<le> 4 * ulp1 * (p + q)"
proof -
  define t w u where "t = rnd (p + q)" and "w = p + q" and "u = ulp1"
  have w: "0 \<le> w" "q \<le> w" using assms by (simp_all add: w_def)
  have u: "0 < u" "u \<le> 1/2" using ulp1 by (simp_all add: u_def ulp1_def)
  have t: "\<bar>t - w\<bar> \<le> u * w" using rnd_err [of w] w by (simp add: t_def w_def u_def)
  have pt: "\<bar>p - t\<bar> \<le> w + u * w" using t assms by (simp add: w_def abs_le_iff)
  have "\<bar>rnd (p - t) - (p - t)\<bar> \<le> u * \<bar>p - t\<bar>" using rnd_err by (simp add: u_def)
  also have "\<dots> \<le> u * (w + u * w)" using pt u by (intro mult_left_mono) simp_all
  finally have "\<bar>rnd (p - t) + q\<bar> \<le> u * w + u * (w + u * w)"
    using t assms by (simp add: w_def abs_le_iff)
  then have "\<bar>rnd (rnd (p - t) + q)\<bar> \<le> (1 + u) * (u * w + u * (w + u * w))"
    unfolding u_def by (rule rnd_abs_le)
  also have "\<dots> = (2 * u + 3 * (u * u) + u * u * u) * w" by (simp add: algebra_simps)
  also have "\<dots> \<le> 4 * u * w"
  proof (rule mult_right_mono)
    have "u * u \<le> u * (1/2)" "u * u * u \<le> u * (1/2) * 1"
      using u by (intro mult_mono; simp)+
    then show "2 * u + 3 * (u * u) + u * u * u \<le> 4 * u" by simp
  qed (use w in simp)
  finally show ?thesis by (simp add: fadd_def fsub_def t_def w_def u_def)
qed

text \<open>
  After \<open>k\<close> additions the running sum is within \<open>2 k\<close> and the compensation within \<open>8 k\<close> half units
  of the exact sum.
\<close>

definition cs_bounded :: "nat \<Rightarrow> rat \<Rightarrow> float_py \<times> float_py \<Rightarrow> bool" where
  "cs_bounded k s acc \<longleftrightarrow> 0 \<le> fst acc \<and> (1 - of_nat k * ulp1) * s \<le> fst acc \<and>
     fst acc \<le> (1 + 2 * of_nat k * ulp1) * s \<and> \<bar>snd acc\<bar> \<le> 8 * of_nat k * ulp1 * s"

lemma count_ulp: "k \<le> 2 ^ 20 \<Longrightarrow> of_nat k * ulp1 \<le> 1 / 2 ^ 33"
proof -
  assume "k \<le> 2 ^ 20"
  then have "(of_nat k :: rat) \<le> of_nat (2 ^ 20)" by (simp only: of_nat_le_iff)
  then show ?thesis by (simp add: ulp1_def field_simps)
qed

lemma cs_add_bounded:
  assumes cs: "cs_bounded k s acc" and "0 \<le> x" "0 \<le> s" "k < 2 ^ 20"
  shows "cs_bounded (Suc k) (s + x) (cs_add acc x)"
proof -
  define u n hi lo where "u = ulp1" and "n = (of_nat k :: rat)" and "hi = fst acc" and "lo = snd acc"
  have u: "0 < u" "u \<le> 1 / 2 ^ 53" and n: "0 \<le> n" using ulp1 by (simp_all add: u_def n_def ulp1_def)
  have nu: "0 \<le> n * u" "n * u \<le> 1 / 2 ^ 33"
    using count_ulp [of k] assms(4) u n by (simp_all add: n_def u_def)
  have b: "0 \<le> hi" "(1 - n * u) * s \<le> hi" "hi \<le> (1 + 2 * (n * u)) * s" "\<bar>lo\<bar> \<le> 8 * (n * u) * s"
    using cs by (simp_all add: cs_bounded_def hi_def lo_def n_def u_def mult.assoc)
  define t where "t = rnd (hi + x)"
  have w: "0 \<le> hi + x" using b(1) assms(2) by simp
  have "\<bar>t - (hi + x)\<bar> \<le> u * (hi + x)" using rnd_err [of "hi + x"] w by (simp add: t_def u_def)
  then have t: "(1 - u) * (hi + x) \<le> t" "t \<le> (1 + u) * (hi + x)"
    by (simp_all add: abs_le_iff algebra_simps)
  have t0: "0 \<le> t" using w by (simp add: t_def rnd_nonneg)
  have "0 \<le> n * u * x" using nu(1) assms(2) by (rule mult_nonneg_nonneg)
  then have lower: "(1 - n * u) * (s + x) \<le> hi + x" and upper: "hi + x \<le> (1 + 2 * (n * u)) * (s + x)"
    using b(2,3) by (simp_all add: algebra_simps)
  have sx: "0 \<le> s + x" using assms by simp
  have tl: "(1 - (n + 1) * u) * (s + x) \<le> t"
  proof -
    have "0 \<le> n * u * u" using u n by (intro mult_nonneg_nonneg) simp_all
    then have "1 - (n + 1) * u \<le> (1 - u) * (1 - n * u)" by (simp add: algebra_simps)
    then have "(1 - (n + 1) * u) * (s + x) \<le> (1 - u) * ((1 - n * u) * (s + x))"
      using mult_right_mono [OF _ sx] by (simp only: mult.assoc [symmetric])
    also have "\<dots> \<le> (1 - u) * (hi + x)" using lower u by (intro mult_left_mono) simp_all
    finally show ?thesis using t(1) by linarith
  qed
  have tu: "t \<le> (1 + 2 * (n + 1) * u) * (s + x)"
  proof -
    have "2 * (n * u) * u \<le> 1 * u" using nu u by (intro mult_right_mono) simp_all
    then have "(1 + u) * (1 + 2 * (n * u)) \<le> 1 + 2 * (n + 1) * u" by (simp add: algebra_simps)
    then have "(1 + u) * ((1 + 2 * (n * u)) * (s + x)) \<le> (1 + 2 * (n + 1) * u) * (s + x)"
      using mult_right_mono [OF _ sx] by (simp only: mult.assoc [symmetric])
    moreover have "(1 + u) * (hi + x) \<le> (1 + u) * ((1 + 2 * (n * u)) * (s + x))"
      using upper u by (intro mult_left_mono) simp_all
    ultimately show ?thesis using t(2) by linarith
  qed
  define e where "e = (if \<bar>x\<bar> \<le> \<bar>hi\<bar> then fadd (fsub hi t) x else fadd (fsub x t) hi)"
  have e: "\<bar>e\<bar> \<le> 4 * u * (hi + x)"
    using compensation_le [OF b(1) assms(2)] compensation_le [OF assms(2) b(1)]
    by (simp add: e_def t_def u_def fadd_def add.commute)
  also have "\<dots> \<le> 4 * u * (5 / 4 * (s + x))"
  proof (rule mult_left_mono)
    have "(1 + 2 * (n * u)) * (s + x) \<le> 5 / 4 * (s + x)" using nu sx by (intro mult_right_mono) simp_all
    then show "hi + x \<le> 5 / 4 * (s + x)" using upper by linarith
  qed (use u in simp)
  finally have e5: "\<bar>e\<bar> \<le> 5 * u * (s + x)" by (simp add: algebra_simps)
  have "8 * (n * u) * s \<le> 8 * (n * u) * (s + x)" using nu assms(2) by (intro mult_left_mono) simp_all
  then have "\<bar>lo + e\<bar> \<le> (8 * (n * u) + 5 * u) * (s + x)"
    using b(4) e5 by (simp add: distrib_right)
  then have "\<bar>rnd (lo + e)\<bar> \<le> (1 + u) * ((8 * (n * u) + 5 * u) * (s + x))"
    unfolding u_def by (rule rnd_abs_le)
  also have "\<dots> \<le> 8 * (n + 1) * u * (s + x)"
  proof -
    have "8 * (n * u) * u \<le> 1 * u" "5 * u * u \<le> 1 * u"
      using nu u by (intro mult_right_mono; simp)+
    moreover have "(1 + u) * (8 * (n * u) + 5 * u) = 8 * (n * u) + 5 * u + (8 * (n * u) * u + 5 * u * u)"
      "8 * (n + 1) * u = 8 * (n * u) + 8 * u"
      by (simp_all add: algebra_simps)
    ultimately have "(1 + u) * (8 * (n * u) + 5 * u) \<le> 8 * (n + 1) * u" using u(1) by linarith
    then show ?thesis using mult_right_mono [OF _ sx] by (simp only: mult.assoc [symmetric])
  qed
  finally have lo': "\<bar>rnd (lo + e)\<bar> \<le> 8 * (n + 1) * u * (s + x)" .
  have "cs_add acc x = (t, rnd (lo + e))"
    by (simp add: cs_add_def Let_def e_def t_def hi_def lo_def fadd_def)
  then show ?thesis
    using t0 tl tu lo' by (simp add: cs_bounded_def n_def u_def add.commute)
qed

lemma foldl_cs_bounded:
  "\<forall>x \<in> set xs. 0 \<le> x \<Longrightarrow> k + length xs \<le> 2 ^ 20 \<Longrightarrow> 0 \<le> s \<Longrightarrow> cs_bounded k s acc \<Longrightarrow>
    cs_bounded (k + length xs) (s + sum_list xs) (foldl cs_add acc xs)"
proof (induction xs arbitrary: k s acc)
  case (Cons x xs)
  then have "cs_bounded (Suc k) (s + x) (cs_add acc x)" by (intro cs_add_bounded) simp_all
  with Cons.prems Cons.IH [of "Suc k" "s + x" "cs_add acc x"] show ?case
    by (simp add: add.assoc)
qed simp

text \<open>A sum of up to a million non-negative floats is exact to one part in \<open>2^29\<close>.\<close>

lemma fsum_error:
  assumes "\<forall>x \<in> set xs. 0 \<le> x" "length xs \<le> 2 ^ 20"
  shows "\<bar>fsum xs - sum_list xs\<bar> \<le> sum_list xs / 2 ^ 29"
proof -
  define s acc where "s = sum_list xs" and "acc = foldl cs_add (0, 0) xs"
  have s: "0 \<le> s" using assms(1) by (simp add: s_def sum_list_nonneg_rat)
  have "cs_bounded 0 0 (0, 0)" by (simp add: cs_bounded_def)
  then have cs: "cs_bounded (length xs) s acc"
    using foldl_cs_bounded [of xs 0 0 "(0, 0)"] assms by (simp add: s_def acc_def)
  define e where "e = of_nat (length xs) * ulp1"
  have e: "0 \<le> e" "e \<le> 1 / 2 ^ 33" using count_ulp [OF assms(2)] ulp1 by (simp_all add: e_def)
  have b: "(1 - e) * s \<le> fst acc" "fst acc \<le> (1 + 2 * e) * s" "\<bar>snd acc\<bar> \<le> 8 * e * s"
    using cs by (simp_all add: cs_bounded_def e_def mult.assoc)
  define y where "y = fst acc + snd acc"
  have es: "e * s \<le> 1 / 2 ^ 33 * s" using e(2) s by (rule mult_right_mono)
  define p where "p = e * s"
  have "s - p \<le> fst acc" "fst acc \<le> s + 2 * p" "snd acc \<le> 8 * p" "- snd acc \<le> 8 * p"
    using b(1,2) abs_le_D1 [OF b(3)] abs_le_D2 [OF b(3)] by (simp_all add: p_def algebra_simps)
  then have y: "\<bar>y - s\<bar> \<le> 10 * (1 / 2 ^ 33 * s)"
    using es [folded p_def] unfolding y_def by (intro abs_leI) simp_all
  have "10 * (1 / 2 ^ 33 * s) \<le> s" using s by simp
  then have "\<bar>y\<bar> \<le> 2 * s" using y s by linarith
  have "\<bar>rnd y - y\<bar> \<le> 1 / 2 ^ 53 * \<bar>y\<bar>" using rnd_error [of y] by simp
  also have "\<dots> \<le> 1 / 2 ^ 53 * (2 * s)"
    using \<open>\<bar>y\<bar> \<le> 2 * s\<close> by (intro mult_left_mono) simp_all
  also have "\<dots> \<le> 6 * (1 / 2 ^ 33 * s)" using s by simp
  finally have "\<bar>rnd y - s\<bar> \<le> 16 * (1 / 2 ^ 33 * s)" using y by linarith
  moreover have "\<bar>y - s\<bar> \<le> 16 * (1 / 2 ^ 33 * s)" using y s by linarith
  moreover have "fsum xs = (if snd acc = 0 then y else rnd y)"
    by (simp add: fsum_def Let_def acc_def y_def fadd_def)
  ultimately show ?thesis by (simp add: s_def [symmetric])
qed

lemma fsum_nonneg:
  assumes "\<forall>x \<in> set xs. 0 \<le> x" "length xs \<le> 2 ^ 20"
  shows "0 \<le> fsum xs"
proof -
  have "0 \<le> sum_list xs" using assms(1) by (simp add: sum_list_nonneg_rat)
  moreover from this have "sum_list xs / 2 ^ 29 \<le> sum_list xs" by simp
  ultimately show ?thesis using abs_le_D2 [OF fsum_error [OF assms]] by linarith
qed

end
