(* ===== verification/Reservation_Store.thy ===== *)
theory Reservation_Store
  imports Python_Sum
begin

text \<open>
  The port \<open>domain/ports/budget_reservation.py\<close>: the in-flight spend a scope has admitted but not
  settled. The locale \<open>reservation_store\<close> states what the port promises of any adapter, in terms
  of the live claims the store holds; the lemmas inside it show what a client may rely on, first of
  all that a cap is overshot by at most one reservation however the requests interleave.
\<close>

section \<open>Scopes, reservations, outcomes\<close>

type_synonym uuid = string

definition team_scope :: "uuid \<Rightarrow> string" where
  "team_scope team_id = ''team:'' @ team_id"

definition key_scope :: "uuid \<Rightarrow> string" where
  "key_scope api_key_id = ''key:'' @ api_key_id"

record reservation =
  res_id :: uuid
  res_scope :: string
  res_amount :: float_py

record reservation_outcome =
  outcome_reservation :: "reservation option"
  outcome_reserved :: float_py

definition admitted :: "reservation_outcome \<Rightarrow> bool" where
  "admitted out \<longleftrightarrow> outcome_reservation out \<noteq> None"

text \<open>\<open>Admission\<close>: every claim one admitted request holds.\<close>

type_synonym admission = "reservation list"

text \<open>The two pools share no bucket.\<close>

lemma scopes_disjoint: "team_scope t \<noteq> key_scope k"
  by (simp add: team_scope_def key_scope_def)

lemma team_scope_inj: "team_scope a = team_scope b \<longleftrightarrow> a = b"
  by (simp add: team_scope_def)

lemma key_scope_inj: "key_scope a = key_scope b \<longleftrightarrow> a = b"
  by (simp add: key_scope_def)

section \<open>Requests to a store\<close>

text \<open>
  One call of \<open>try_reserve\<close>, with the two clock readings it makes and the id it draws.
\<close>

record reserve_call =
  rc_scope :: string
  rc_amount :: float_py
  rc_spent :: float_py
  rc_limit :: float_py
  rc_ttl :: int
  rc_now :: float_py
  rc_id :: uuid
  rc_now' :: float_py

datatype store_event = Reserve reserve_call | GiveBack reservation

section \<open>Claims\<close>

text \<open>The abstract state of a store: the amount each live reservation of a scope holds.\<close>

type_synonym claims = "string \<Rightarrow> uuid \<Rightarrow> float_py option"

definition claim_total :: "claims \<Rightarrow> string \<Rightarrow> rat" where
  "claim_total c scope = (\<Sum>i\<in>dom (c scope). the (c scope i))"

definition nonneg_claims :: "claims \<Rightarrow> bool" where
  "nonneg_claims c \<longleftrightarrow> (\<forall>scope. finite (dom (c scope)) \<and> (\<forall>i a. c scope i = Some a \<longrightarrow> 0 \<le> a))"

lemma claim_total_mono:
  assumes "nonneg_claims c" "c' scope \<subseteq>\<^sub>m c scope"
  shows "claim_total c' scope \<le> claim_total c scope"
proof -
  have sub: "dom (c' scope) \<subseteq> dom (c scope)" using assms(2) by (rule map_le_implies_dom_le)
  have "claim_total c' scope = (\<Sum>i\<in>dom (c' scope). the (c scope i))"
    unfolding claim_total_def using assms(2) by (intro sum.cong) (auto simp: map_le_def)
  also have "\<dots> \<le> claim_total c scope"
    unfolding claim_total_def using assms(1) sub by (intro sum_mono2) (auto simp: nonneg_claims_def)
  finally show ?thesis .
qed

lemma claim_total_put:
  assumes "nonneg_claims c" "0 \<le> a"
  shows "claim_total (c(scope := (c scope)(i \<mapsto> a))) scope \<le> claim_total c scope + a"
proof -
  let ?d = "dom (c scope) - {i}"
  have fin: "finite (dom (c scope))" using assms(1) by (simp add: nonneg_claims_def)
  have "claim_total (c(scope := (c scope)(i \<mapsto> a))) scope =
      a + (\<Sum>j\<in>?d. the (((c scope)(i \<mapsto> a)) j))"
    unfolding claim_total_def using fin by (simp add: sum.insert_remove)
  also have "(\<Sum>j\<in>?d. the (((c scope)(i \<mapsto> a)) j)) = (\<Sum>j\<in>?d. the (c scope j))"
    by (intro sum.cong) auto
  also have "\<dots> \<le> claim_total c scope"
    unfolding claim_total_def using assms(1) by (intro sum_mono2) (auto simp: nonneg_claims_def)
  finally show ?thesis by (simp only: add.commute)
qed

lemma nonneg_claims_le: "nonneg_claims c \<Longrightarrow> (\<And>scope. c' scope \<subseteq>\<^sub>m c scope) \<Longrightarrow> nonneg_claims c'"
proof -
  assume c: "nonneg_claims c" and le: "\<And>scope. c' scope \<subseteq>\<^sub>m c scope"
  have "finite (dom (c' scope))" for scope
    using c le [of scope] by (meson finite_subset map_le_implies_dom_le nonneg_claims_def)
  moreover have "0 \<le> a" if "c' scope i = Some a" for scope i a
  proof -
    have "c scope i = Some a" using that le [of scope] by (metis domI map_le_def)
    then show ?thesis using c by (simp add: nonneg_claims_def)
  qed
  ultimately show ?thesis by (simp add: nonneg_claims_def)
qed

lemma nonneg_claims_put: "nonneg_claims c \<Longrightarrow> 0 \<le> a \<Longrightarrow> nonneg_claims (c(scope := (c scope)(i \<mapsto> a)))"
  by (auto simp: nonneg_claims_def)

text \<open>The state after one call on a store, and the clock after the last call of a run.\<close>

fun store_step :: "('st \<Rightarrow> reserve_call \<Rightarrow> reservation_outcome \<times> 'st) \<Rightarrow> ('st \<Rightarrow> reservation \<Rightarrow> 'st) \<Rightarrow>
    'st \<Rightarrow> store_event \<Rightarrow> 'st" where
  "store_step reserve release st (Reserve c) = snd (reserve st c)"
| "store_step reserve release st (GiveBack r) = release st r"

fun last_time :: "float_py \<Rightarrow> store_event list \<Rightarrow> float_py" where
  "last_time t [] = t"
| "last_time t (Reserve c # evs) = last_time (rc_now' c) evs"
| "last_time t (GiveBack r # evs) = last_time t evs"

text \<open>
  A run of calls, in any order and for any scopes, in which clock readings never go back, every
  amount is between zero and \<open>amax\<close>, every limit is a float of at most \<open>lmax\<close>, and no scope
  holds more than a million live claims.
\<close>

fun sound_run :: "('st \<Rightarrow> reserve_call \<Rightarrow> reservation_outcome \<times> 'st) \<Rightarrow> ('st \<Rightarrow> reservation \<Rightarrow> 'st) \<Rightarrow>
    ('st \<Rightarrow> float_py \<Rightarrow> claims) \<Rightarrow> rat \<Rightarrow> rat \<Rightarrow> float_py \<Rightarrow> 'st \<Rightarrow> store_event list \<Rightarrow> bool" where
  "sound_run reserve release claims lmax amax t st [] = True"
| "sound_run reserve release claims lmax amax t st (Reserve c # evs) =
    (t \<le> rc_now c \<and> rc_now c \<le> rc_now' c \<and> 0 \<le> rc_amount c \<and> rc_amount c \<le> amax \<and>
     0 \<le> rc_spent c \<and> rc_limit c \<le> lmax \<and> rnd (rc_limit c) = rc_limit c \<and>
     card (dom (claims st (rc_now c) (rc_scope c))) \<le> 2 ^ 20 \<and>
     sound_run reserve release claims lmax amax (rc_now' c) (snd (reserve st c)) evs)"
| "sound_run reserve release claims lmax amax t st (GiveBack r # evs) =
    sound_run reserve release claims lmax amax t (release st r) evs"

text \<open>A limit, one part in \<open>2^29\<close> for the rounding of the float sum, and one reservation.\<close>

definition overshoot_cap :: "rat \<Rightarrow> rat \<Rightarrow> rat" where
  "overshoot_cap lmax amax = lmax / (1 - 1 / 2 ^ 29) + amax"

section \<open>What the port promises\<close>

text \<open>
  \<open>claims st t\<close> are the reservations of \<open>st\<close> still live at \<open>t\<close>. A reserve decides on the total
  it reports, which is the live total up to float rounding; it adds exactly its own claim when it
  admits and none when it refuses. Releasing removes exactly the named claim.
\<close>

locale reservation_store =
  fixes reserve :: "'st \<Rightarrow> reserve_call \<Rightarrow> reservation_outcome \<times> 'st"
    and release :: "'st \<Rightarrow> reservation \<Rightarrow> 'st"
    and claims :: "'st \<Rightarrow> float_py \<Rightarrow> claims"
    and wf_store :: "'st \<Rightarrow> bool"
    and kept :: "float_py \<Rightarrow> float_py"
    and held_until :: "reserve_call \<Rightarrow> float_py"
  assumes wf_reserve: "wf_store st \<Longrightarrow> 0 \<le> rc_amount c \<Longrightarrow> wf_store (snd (reserve st c))"
    and wf_release: "wf_store st \<Longrightarrow> wf_store (release st r)"
    and claims_nonneg: "wf_store st \<Longrightarrow> nonneg_claims (claims st t)"
    and claims_expire: "wf_store st \<Longrightarrow> t \<le> t' \<Longrightarrow> claims st t' scope \<subseteq>\<^sub>m claims st t scope"
    and decision: "admitted (fst (reserve st c)) \<longleftrightarrow>
        fadd (rc_spent c) (outcome_reserved (fst (reserve st c))) < rc_limit c"
    and reserved_near: "wf_store st \<Longrightarrow> card (dom (claims st (rc_now c) (rc_scope c))) \<le> 2 ^ 20 \<Longrightarrow>
        \<bar>outcome_reserved (fst (reserve st c)) - claim_total (claims st (rc_now c)) (rc_scope c)\<bar>
          \<le> claim_total (claims st (rc_now c)) (rc_scope c) / 2 ^ 29"
    and admit_identity: "outcome_reservation (fst (reserve st c)) = Some r \<Longrightarrow>
        r = \<lparr>res_id = rc_id c, res_scope = rc_scope c, res_amount = rc_amount c\<rparr>"
    and admit_claims: "wf_store st \<Longrightarrow> admitted (fst (reserve st c)) \<Longrightarrow> rc_now c \<le> t \<Longrightarrow>
        claims (snd (reserve st c)) t = (claims st t)(rc_scope c := (claims st t (rc_scope c))
          (rc_id c := if t < held_until c then Some (kept (rc_amount c)) else None))"
    and refuse_claims: "wf_store st \<Longrightarrow> \<not> admitted (fst (reserve st c)) \<Longrightarrow> rc_now c \<le> t \<Longrightarrow>
        claims (snd (reserve st c)) t = claims st t"
    and release_claims: "wf_store st \<Longrightarrow> claims (release st r) t =
        (claims st t)(res_scope r := (claims st t (res_scope r))(res_id r := None))"
    and kept_nonneg: "0 \<le> a \<Longrightarrow> 0 \<le> kept a"
    and kept_mono: "a \<le> b \<Longrightarrow> kept a \<le> kept b"
begin

lemma admitted_under_limit:
  assumes "wf_store st" "admitted (fst (reserve st c))" "0 \<le> rc_spent c" "rnd (rc_limit c) = rc_limit c"
    "card (dom (claims st (rc_now c) (rc_scope c))) \<le> 2 ^ 20"
  shows "claim_total (claims st (rc_now c)) (rc_scope c) * (1 - 1 / 2 ^ 29) < rc_limit c - rc_spent c"
proof -
  let ?T = "claim_total (claims st (rc_now c)) (rc_scope c)" and ?R = "outcome_reserved (fst (reserve st c))"
  have "rnd (rc_spent c + ?R) < rc_limit c" using decision assms(2) by (simp add: fadd_def)
  then have "rc_spent c + ?R < rc_limit c"
    using rnd_mono [of "rc_limit c" "rc_spent c + ?R"] assms(4) by linarith
  moreover have "?T - ?R \<le> ?T / 2 ^ 29" using abs_le_D2 [OF reserved_near [OF assms(1,5)]] by linarith
  ultimately show ?thesis by (simp add: right_diff_distrib)
qed

lemma reserve_keeps_cap:
  assumes wf: "wf_store st" and run: "sound_run reserve release claims lmax amax t st (Reserve c # evs)"
    and cap: "\<forall>scope. claim_total (claims st t) scope \<le> overshoot_cap lmax (kept amax)"
  shows "claim_total (claims (snd (reserve st c)) (rc_now' c)) scope \<le> overshoot_cap lmax (kept amax)"
proof -
  let ?t = "rc_now' c"
  have r: "t \<le> rc_now c" "rc_now c \<le> ?t" "0 \<le> rc_amount c" "rc_amount c \<le> amax" "0 \<le> rc_spent c"
    "rc_limit c \<le> lmax" "rnd (rc_limit c) = rc_limit c"
    "card (dom (claims st (rc_now c) (rc_scope c))) \<le> 2 ^ 20"
    using run by auto
  have older: "claim_total (claims st ?t) s \<le> claim_total (claims st u) s" if "u \<le> ?t" for u s
    using claims_nonneg [OF wf] claims_expire [OF wf that] by (rule claim_total_mono)
  have old: "claim_total (claims st ?t) scope \<le> overshoot_cap lmax (kept amax)"
    using older [of t scope] r(1,2) cap [rule_format, of scope] by linarith
  show ?thesis
  proof (cases "admitted (fst (reserve st c)) \<and> scope = rc_scope c")
    case True
    have k: "0 \<le> kept (rc_amount c)" "kept (rc_amount c) \<le> kept amax"
      using r kept_nonneg kept_mono by simp_all
    have "claims (snd (reserve st c)) ?t scope \<subseteq>\<^sub>m (claims st ?t scope)(rc_id c \<mapsto> kept (rc_amount c))"
      using admit_claims [OF wf _ r(2)] True by (simp add: map_le_def)
    then have "claim_total (claims (snd (reserve st c)) ?t) scope \<le>
        claim_total ((claims st ?t)(scope := (claims st ?t scope)(rc_id c \<mapsto> kept (rc_amount c)))) scope"
      using nonneg_claims_put [OF claims_nonneg [OF wf] k(1)] by (intro claim_total_mono) simp_all
    also have "\<dots> \<le> claim_total (claims st ?t) scope + kept (rc_amount c)"
      using claims_nonneg [OF wf] k(1) by (rule claim_total_put)
    also have "claim_total (claims st ?t) scope \<le> claim_total (claims st (rc_now c)) scope"
      using older r(2) by simp
    also have "\<dots> \<le> lmax / (1 - 1 / 2 ^ 29)"
      using admitted_under_limit [OF wf _ r(5,7,8)] True r(5,6) by (simp add: field_simps)
    finally show ?thesis using k(2) by (simp add: overshoot_cap_def)
  next
    case False
    have "claims (snd (reserve st c)) ?t scope \<subseteq>\<^sub>m claims st ?t scope"
    proof (cases "admitted (fst (reserve st c))")
      case True
      with False show ?thesis using admit_claims [OF wf True r(2)] by simp
    next
      case refused: False
      show ?thesis using refuse_claims [OF wf refused r(2)] by simp
    qed
    then have "claim_total (claims (snd (reserve st c)) ?t) scope \<le> claim_total (claims st ?t) scope"
      using claims_nonneg [OF wf] by (intro claim_total_mono)
    with old show ?thesis by linarith
  qed
qed

lemma release_keeps_cap:
  assumes wf: "wf_store st" and cap: "claim_total (claims st t) scope \<le> b"
  shows "claim_total (claims (release st r) t) scope \<le> b"
proof -
  have "claims (release st r) t scope \<subseteq>\<^sub>m claims st t scope"
    by (auto simp: release_claims [OF wf] map_le_def)
  then have "claim_total (claims (release st r) t) scope \<le> claim_total (claims st t) scope"
    using claims_nonneg [OF wf] by (intro claim_total_mono)
  with cap show ?thesis by linarith
qed

text \<open>However reservations, releases and expiries interleave, the cap is overshot by one amount.\<close>

lemma run_keeps_cap:
  "wf_store st \<Longrightarrow> sound_run reserve release claims lmax amax t st evs \<Longrightarrow>
    \<forall>scope. claim_total (claims st t) scope \<le> overshoot_cap lmax (kept amax) \<Longrightarrow>
    claim_total (claims (foldl (store_step reserve release) st evs) (last_time t evs)) scope \<le> overshoot_cap lmax (kept amax)"
proof (induction evs arbitrary: t st scope)
  case (Cons ev evs)
  show ?case
  proof (cases ev)
    case (Reserve c)
    have run: "sound_run reserve release claims lmax amax t st (Reserve c # evs)"
      using Cons.prems(2) unfolding Reserve .
    then have "0 \<le> rc_amount c" by simp
    then have "wf_store (snd (reserve st c))" using Cons.prems(1) wf_reserve by simp
    moreover have "sound_run reserve release claims lmax amax (rc_now' c) (snd (reserve st c)) evs"
      using run by simp
    ultimately show ?thesis
      using Cons.IH reserve_keeps_cap [OF Cons.prems(1) run Cons.prems(3)] unfolding Reserve by simp
  next
    case (GiveBack r)
    then show ?thesis using Cons release_keeps_cap wf_release by simp
  qed
qed simp

lemma release_idem: "wf_store st \<Longrightarrow> claims (release (release st r) r) t = claims (release st r) t"
  by (simp add: release_claims wf_release fun_eq_iff)

lemma release_commute:
  "wf_store st \<Longrightarrow> claims (release (release st r) r') t = claims (release (release st r') r) t"
  by (auto simp: release_claims wf_release fun_eq_iff)

lemma release_after_reserve:
  assumes "wf_store st" "outcome_reservation (fst (reserve st c)) = Some r" "rc_now c \<le> t" "0 \<le> rc_amount c"
  shows "claims (release (snd (reserve st c)) r) t scope \<subseteq>\<^sub>m claims st t scope"
proof -
  have r: "res_id r = rc_id c" "res_scope r = rc_scope c" using admit_identity [OF assms(2)] by simp_all
  have adm: "admitted (fst (reserve st c))" using assms(2) by (simp add: admitted_def)
  show ?thesis
    using admit_claims [OF assms(1) adm assms(3)]
    by (auto simp: release_claims [OF wf_reserve [OF assms(1,4)]] r map_le_def)
qed

end

end
