(* ===== verification/Reservation_Memory.thy ===== *)
theory Reservation_Memory
  imports Reservation_Store
begin

text \<open>
  \<open>InMemoryBudgetReservationStore\<close> of \<open>infrastructure/budget_reservation.py\<close>: scope to reservation
  id to amount and expiry, swept on the way through. It is a \<open>reservation_store\<close>.
\<close>

section \<open>The store\<close>

type_synonym held = "(uuid, float_py \<times> float_py) dict"
type_synonym mem_store = "(string, held) dict"

definition live_part :: "float_py \<Rightarrow> held \<Rightarrow> held" where
  "live_part now held = dict_filter (\<lambda>_ v. now < snd v) held"

definition live_total :: "mem_store \<Rightarrow> string \<Rightarrow> float_py \<Rightarrow> float_py \<times> mem_store" where
  "live_total by_scope scope now = (case map_of by_scope scope of
     None \<Rightarrow> (0, by_scope)
   | Some held \<Rightarrow>
       if held = [] then (0, by_scope)
       else let live = live_part now held in
         (fsum (map (\<lambda>v. fst (snd v)) live),
          if live \<noteq> [] then dict_put scope live by_scope else dict_del scope by_scope))"

definition try_reserve :: "mem_store \<Rightarrow> reserve_call \<Rightarrow> reservation_outcome \<times> mem_store" where
  "try_reserve by_scope c = (case live_total by_scope (rc_scope c) (rc_now c) of (reserved, swept) \<Rightarrow>
     if rc_limit c \<le> fadd (rc_spent c) reserved
     then (\<lparr>outcome_reservation = None, outcome_reserved = reserved\<rparr>, swept)
     else let
         r = \<lparr>res_id = rc_id c, res_scope = rc_scope c, res_amount = rc_amount c\<rparr>;
         held = (case map_of swept (rc_scope c) of None \<Rightarrow> [] | Some h \<Rightarrow> h);
         held' = dict_put (rc_id c) (rc_amount c, fadd (rc_now' c) (float_of_int (rc_ttl c))) held
       in (\<lparr>outcome_reservation = Some r, outcome_reserved = reserved\<rparr>, dict_put (rc_scope c) held' swept))"

definition release :: "mem_store \<Rightarrow> reservation \<Rightarrow> mem_store" where
  "release by_scope r = (case map_of by_scope (res_scope r) of
     None \<Rightarrow> by_scope
   | Some held \<Rightarrow> let held' = dict_del (res_id r) held in
       if held' = [] then dict_del (res_scope r) by_scope
       else dict_put (res_scope r) held' by_scope)"

section \<open>Its claims\<close>

definition held_claims :: "float_py \<Rightarrow> held \<Rightarrow> uuid \<Rightarrow> float_py option" where
  "held_claims t held i = (case map_of held i of
     Some (amount, expires_at) \<Rightarrow> if t < expires_at then Some amount else None | None \<Rightarrow> None)"

definition mem_claims :: "mem_store \<Rightarrow> float_py \<Rightarrow> claims" where
  "mem_claims by_scope t scope = (case map_of by_scope scope of
     None \<Rightarrow> (\<lambda>_. None) | Some held \<Rightarrow> held_claims t held)"

definition wf_held :: "held \<Rightarrow> bool" where
  "wf_held held \<longleftrightarrow> wf_dict held \<and> (\<forall>v \<in> set held. 0 \<le> fst (snd v))"

text \<open>Distinct keys, no negative amount, and no empty bucket kept.\<close>

definition wf_mem :: "mem_store \<Rightarrow> bool" where
  "wf_mem by_scope \<longleftrightarrow> wf_dict by_scope \<and>
     (\<forall>scope held. map_of by_scope scope = Some held \<longrightarrow> held \<noteq> [] \<and> wf_held held)"

definition mem_expiry :: "reserve_call \<Rightarrow> float_py" where
  "mem_expiry c = fadd (rc_now' c) (float_of_int (rc_ttl c))"

lemma held_claims_Nil [simp]: "held_claims t [] = (\<lambda>_. None)"
  by (simp add: held_claims_def fun_eq_iff)

lemma wf_live_part: "wf_held held \<Longrightarrow> wf_held (live_part now held)"
  by (auto simp: wf_held_def live_part_def wf_dict_filter) (auto simp: dict_filter_def)

lemma held_claims_live_part:
  "wf_held held \<Longrightarrow> now \<le> t \<Longrightarrow> held_claims t (live_part now held) = held_claims t held"
  by (auto simp: held_claims_def live_part_def wf_held_def dict_simps fun_eq_iff
      split: option.splits)

lemma held_claims_put: "held_claims t (dict_put i (a, e) held) =
    (held_claims t held)(i := if t < e then Some a else None)"
  by (auto simp: held_claims_def dict_simps fun_eq_iff)

lemma held_claims_del: "held_claims t (dict_del i held) = (held_claims t held)(i := None)"
  by (auto simp: held_claims_def dict_simps fun_eq_iff)

lemma wf_held_put: "wf_held held \<Longrightarrow> 0 \<le> a \<Longrightarrow> wf_held (dict_put i (a, e) held)"
proof -
  assume "wf_held held" "0 \<le> a"
  moreover have "set (dict_put i (a, e) held) \<subseteq> insert (i, a, e) (set held)"
    by (induction held) auto
  ultimately show ?thesis by (auto simp: wf_held_def wf_dict_put)
qed

lemma wf_held_del: "wf_held held \<Longrightarrow> wf_held (dict_del i held)"
  using wf_dict_del [of held i] by (auto simp: wf_held_def AList.delete_eq)

lemma update_not_Nil: "dict_put k v d \<noteq> []"
  by (cases d) (auto split: prod.splits)

lemma wf_mem_put: "wf_mem st \<Longrightarrow> held \<noteq> [] \<Longrightarrow> wf_held held \<Longrightarrow> wf_mem (dict_put scope held st)"
  by (auto simp: wf_mem_def dict_simps wf_dict_put)

lemma wf_mem_del: "wf_mem st \<Longrightarrow> wf_mem (dict_del scope st)"
  by (auto simp: wf_mem_def dict_simps wf_dict_del)

lemma mem_claims_put: "mem_claims (dict_put scope held st) t = (mem_claims st t)(scope := held_claims t held)"
  by (auto simp: mem_claims_def dict_simps fun_eq_iff)

lemma mem_claims_del: "mem_claims (dict_del scope st) t = (mem_claims st t)(scope := (\<lambda>_. None))"
  by (auto simp: mem_claims_def dict_simps fun_eq_iff)

section \<open>The live total\<close>

lemma live_total_wf: "wf_mem st \<Longrightarrow> wf_mem (snd (live_total st scope now))"
  by (auto simp: live_total_def Let_def split: option.splits intro!: wf_mem_put wf_mem_del wf_live_part)
    (auto simp: wf_mem_def)

lemma live_total_claims:
  assumes "wf_mem st" "now \<le> t"
  shows "mem_claims (snd (live_total st scope now)) t = mem_claims st t"
proof (cases "map_of st scope")
  case None
  then show ?thesis by (simp add: live_total_def)
next
  case (Some held)
  then have "wf_held held" using assms(1) by (simp add: wf_mem_def)
  then have "held_claims t (live_part now held) = mem_claims st t scope"
    using Some assms(2) by (simp add: held_claims_live_part mem_claims_def)
  moreover from this have "mem_claims st t scope = (\<lambda>_. None)" if "live_part now held = []"
    using that by (metis held_claims_Nil)
  ultimately show ?thesis
    using Some by (auto simp: live_total_def Let_def mem_claims_put mem_claims_del fun_upd_idem)
qed

text \<open>The amounts summed are the claims of the scope.\<close>

lemma live_sum:
  assumes "wf_held held"
  shows "sum_list (map (\<lambda>v. fst (snd v)) (live_part now held)) =
      (\<Sum>i\<in>dom (held_claims now held). the (held_claims now held i))"
    "length (live_part now held) = card (dom (held_claims now held))"
proof -
  let ?live = "live_part now held"
  have d: "distinct (map fst ?live)"
    using wf_live_part [OF assms] by (simp add: wf_held_def wf_dict_def)
  have wf: "wf_dict held" "wf_dict ?live" using assms wf_live_part [OF assms] by (simp_all add: wf_held_def)
  have entry: "held_claims now held (fst v) = Some (fst (snd v))" if "v \<in> set ?live" for v
  proof -
    have "v \<in> set held" "now < snd (snd v)" using that by (auto simp: live_part_def dict_filter_def)
    moreover from this have "map_of held (fst v) = Some (snd v)"
      using wf(1) by (simp add: wf_dict_def)
    ultimately show ?thesis by (cases "snd v") (simp add: held_claims_def)
  qed
  have dom: "dom (held_claims now held) = fst ` set ?live"
  proof
    show "fst ` set ?live \<subseteq> dom (held_claims now held)" using entry by auto
    show "dom (held_claims now held) \<subseteq> fst ` set ?live"
    proof
      fix i assume "i \<in> dom (held_claims now held)"
      then obtain v where "map_of held i = Some v" "now < snd v"
        by (auto simp: held_claims_def split: option.splits if_splits)
      then have "(i, v) \<in> set ?live" by (auto simp: live_part_def dict_filter_def dest: map_of_SomeD)
      then show "i \<in> fst ` set ?live" by force
    qed
  qed
  have "sum_list (map (\<lambda>v. fst (snd v)) ?live) =
      sum_list (map (\<lambda>i. the (held_claims now held i)) (map fst ?live))"
    using entry by (auto intro!: arg_cong [where f = sum_list])
  also have "\<dots> = (\<Sum>i\<in>set (map fst ?live). the (held_claims now held i))"
    using d by (rule sum_list_distinct_conv_sum_set)
  finally show "sum_list (map (\<lambda>v. fst (snd v)) ?live) =
      (\<Sum>i\<in>dom (held_claims now held). the (held_claims now held i))" by (simp add: dom)
  show "length ?live = card (dom (held_claims now held))"
    using d by (metis distinct_card dom length_map set_map)
qed

lemma live_total_fsum:
  assumes "wf_mem st"
  obtains xs where "fst (live_total st scope now) = fsum xs" "\<forall>x \<in> set xs. 0 \<le> x"
    "sum_list xs = claim_total (mem_claims st now) scope" "length xs = card (dom (mem_claims st now scope))"
proof (cases "map_of st scope")
  case None
  then show thesis using that [of "[]"] by (simp add: live_total_def claim_total_def mem_claims_def)
next
  case (Some held)
  then have held: "wf_held held" "held \<noteq> []" using assms by (simp_all add: wf_mem_def)
  show thesis
    using that [of "map (\<lambda>v. fst (snd v)) (live_part now held)"] Some held
      live_sum [OF held(1), of now] wf_live_part [OF held(1), of now]
    by (auto simp: live_total_def Let_def claim_total_def mem_claims_def wf_held_def)
qed

section \<open>It keeps the promises of the port\<close>

lemma try_reserve_fst: "outcome_reserved (fst (try_reserve st c)) = fst (live_total st (rc_scope c) (rc_now c))"
  by (simp add: try_reserve_def Let_def split: prod.splits)

lemma admitted_iff: "admitted (fst (try_reserve st c)) \<longleftrightarrow>
    fadd (rc_spent c) (fst (live_total st (rc_scope c) (rc_now c))) < rc_limit c"
  by (auto simp: try_reserve_def Let_def admitted_def not_less split: prod.splits)

lemma finite_held_claims: "finite (dom (held_claims t held))"
  by (rule finite_subset [of _ "dom (map_of held)"])
    (auto simp: held_claims_def finite_dom_map_of split: option.splits)

lemma mem_claims_nonneg: "wf_mem st \<Longrightarrow> nonneg_claims (mem_claims st t)"
proof -
  assume wf: "wf_mem st"
  have "0 \<le> a" if "mem_claims st t scope i = Some a" for scope i a
  proof -
    obtain held v where "map_of st scope = Some held" "map_of held i = Some v" "a = fst v"
      using \<open>mem_claims st t scope i = Some a\<close>
      by (auto simp: mem_claims_def held_claims_def split: option.splits if_splits)
    then show ?thesis using wf by (force simp: wf_mem_def wf_held_def dest: map_of_SomeD)
  qed
  moreover have "finite (dom (mem_claims st t scope))" for scope
    by (simp add: mem_claims_def finite_held_claims split: option.split)
  ultimately show ?thesis by (simp add: nonneg_claims_def)
qed

lemma mem_claims_expire: "t \<le> t' \<Longrightarrow> mem_claims st t' scope \<subseteq>\<^sub>m mem_claims st t scope"
  by (auto simp: map_le_def mem_claims_def held_claims_def split: option.splits if_splits)

lemma try_reserve_refused: "\<not> admitted (fst (try_reserve st c)) \<Longrightarrow>
    snd (try_reserve st c) = snd (live_total st (rc_scope c) (rc_now c))"
  by (auto simp: try_reserve_def Let_def admitted_def split: prod.splits if_splits)

definition swept_held :: "mem_store \<Rightarrow> reserve_call \<Rightarrow> held" where
  "swept_held st c = (case map_of (snd (live_total st (rc_scope c) (rc_now c))) (rc_scope c) of
     None \<Rightarrow> [] | Some h \<Rightarrow> h)"

lemma try_reserve_admitted: "admitted (fst (try_reserve st c)) \<Longrightarrow>
    snd (try_reserve st c) = dict_put (rc_scope c)
      (dict_put (rc_id c) (rc_amount c, mem_expiry c) (swept_held st c))
      (snd (live_total st (rc_scope c) (rc_now c)))"
  by (auto simp: try_reserve_def Let_def admitted_def swept_held_def mem_expiry_def
      split: prod.splits if_splits)

lemma wf_swept_held: "wf_mem st \<Longrightarrow> wf_held (swept_held st c)"
  using live_total_wf [of st "rc_scope c" "rc_now c"]
  by (cases "map_of (snd (live_total st (rc_scope c) (rc_now c))) (rc_scope c)")
    (simp_all add: swept_held_def wf_mem_def, simp add: wf_held_def)

lemma swept_held_claims:
  "wf_mem st \<Longrightarrow> rc_now c \<le> t \<Longrightarrow> held_claims t (swept_held st c) = mem_claims st t (rc_scope c)"
  using live_total_claims [of st "rc_now c" t "rc_scope c", symmetric]
  by (simp add: swept_held_def mem_claims_def split: option.splits)

lemma wf_try_reserve:
  assumes "wf_mem st" "0 \<le> rc_amount c"
  shows "wf_mem (snd (try_reserve st c))"
proof (cases "admitted (fst (try_reserve st c))")
  case True
  then show ?thesis using assms
    by (simp add: try_reserve_admitted wf_mem_put live_total_wf wf_held_put wf_swept_held update_not_Nil)
next
  case False
  then show ?thesis using assms by (simp add: try_reserve_refused live_total_wf)
qed

lemma wf_release: "wf_mem st \<Longrightarrow> wf_mem (release st r)"
  by (auto simp: release_def Let_def split: option.splits intro!: wf_mem_put wf_mem_del wf_held_del)
    (auto simp: wf_mem_def)

lemma release_mem_claims: "mem_claims (release st r) t =
    (mem_claims st t)(res_scope r := (mem_claims st t (res_scope r))(res_id r := None))"
proof (cases "map_of st (res_scope r)")
  case None
  then show ?thesis by (auto simp: release_def mem_claims_def fun_eq_iff)
next
  case (Some held)
  have "mem_claims (release st r) t = (mem_claims st t)(res_scope r := held_claims t (dict_del (res_id r) held))"
    using Some by (simp add: release_def Let_def mem_claims_put mem_claims_del)
  also have "held_claims t (dict_del (res_id r) held) = (mem_claims st t (res_scope r))(res_id r := None)"
    using Some by (simp add: held_claims_del mem_claims_def)
  finally show ?thesis .
qed

interpretation mem: reservation_store try_reserve release mem_claims wf_mem "\<lambda>a. a" mem_expiry
proof
  fix st :: mem_store and c :: reserve_call and r t
  assume wf: "wf_mem st"
  show "0 \<le> rc_amount c \<Longrightarrow> wf_mem (snd (try_reserve st c))" using wf by (rule wf_try_reserve)
  show "wf_mem (release st r)" using wf by (rule wf_release)
  show "nonneg_claims (mem_claims st t)" using wf by (rule mem_claims_nonneg)
  show "mem_claims (release st r) t =
      (mem_claims st t)(res_scope r := (mem_claims st t (res_scope r))(res_id r := None))"
    by (rule release_mem_claims)
  show "\<not> admitted (fst (try_reserve st c)) \<Longrightarrow> rc_now c \<le> t \<Longrightarrow>
      mem_claims (snd (try_reserve st c)) t = mem_claims st t"
    using wf by (simp add: try_reserve_refused live_total_claims)
  show "admitted (fst (try_reserve st c)) \<Longrightarrow> rc_now c \<le> t \<Longrightarrow> mem_claims (snd (try_reserve st c)) t =
      (mem_claims st t)(rc_scope c := (mem_claims st t (rc_scope c))
        (rc_id c := if t < mem_expiry c then Some (rc_amount c) else None))"
    using wf by (simp add: try_reserve_admitted mem_claims_put held_claims_put live_total_claims swept_held_claims)
  assume "card (dom (mem_claims st (rc_now c) (rc_scope c))) \<le> 2 ^ 20"
  then show "\<bar>outcome_reserved (fst (try_reserve st c)) - claim_total (mem_claims st (rc_now c)) (rc_scope c)\<bar>
      \<le> claim_total (mem_claims st (rc_now c)) (rc_scope c) / 2 ^ 29"
    using live_total_fsum [OF wf, of "rc_scope c" "rc_now c"] fsum_error by (metis try_reserve_fst)
next
  fix st :: mem_store and c :: reserve_call and r
  show "admitted (fst (try_reserve st c)) \<longleftrightarrow>
      fadd (rc_spent c) (outcome_reserved (fst (try_reserve st c))) < rc_limit c"
    by (simp add: admitted_iff try_reserve_fst)
  show "outcome_reservation (fst (try_reserve st c)) = Some r \<Longrightarrow>
      r = \<lparr>res_id = rc_id c, res_scope = rc_scope c, res_amount = rc_amount c\<rparr>"
    by (auto simp: try_reserve_def Let_def split: prod.splits if_splits)
qed (simp_all add: mem_claims_expire)

section \<open>Properties\<close>

text \<open>
  One call of \<open>try_reserve\<close> reads the live total of its scope, refuses exactly when what is spent
  plus that total has reached the limit, adds exactly its own claim when it admits, and changes no
  other live claim of any scope (the sweep on the way drops only what has expired).
\<close>

theorem try_reserve_effect:
  assumes "wf_mem st" "0 \<le> rc_amount c" "rc_now c \<le> t"
  shows "let (out, st') = try_reserve st c; total_now = fst (live_total st (rc_scope c) (rc_now c)) in
    outcome_reserved out = total_now \<and> wf_mem st' \<and>
    (if rc_limit c \<le> fadd (rc_spent c) total_now
     then outcome_reservation out = None \<and> mem_claims st' t = mem_claims st t
     else outcome_reservation out =
         Some \<lparr>res_id = rc_id c, res_scope = rc_scope c, res_amount = rc_amount c\<rparr> \<and>
       mem_claims st' t = (mem_claims st t)(rc_scope c := (mem_claims st t (rc_scope c))
         (rc_id c := if t < mem_expiry c then Some (rc_amount c) else None)))"
proof -
  obtain out st' where r: "try_reserve st c = (out, st')" by (cases "try_reserve st c")
  have out: "outcome_reserved out = fst (live_total st (rc_scope c) (rc_now c))"
    using try_reserve_fst [of st c] by (simp add: r)
  have wf: "wf_mem st'" using wf_try_reserve [OF assms(1,2)] by (simp add: r)
  show ?thesis
  proof (cases "admitted out")
    case True
    then obtain x where x: "outcome_reservation out = Some x" by (auto simp: admitted_def)
    then have "x = \<lparr>res_id = rc_id c, res_scope = rc_scope c, res_amount = rc_amount c\<rparr>"
      using mem.admit_identity [of st c x] by (simp add: r)
    then show ?thesis
      using out wf x True admitted_iff [of st c] mem.admit_claims [OF assms(1) _ assms(3)] by (simp add: r not_le)
  next
    case False
    then show ?thesis
      using out wf admitted_iff [of st c] mem.refuse_claims [OF assms(1) _ assms(3)]
      by (simp add: r not_less) (simp add: admitted_def)
  qed
qed

definition sample_call :: reserve_call where
  "sample_call = \<lparr>rc_scope = ''team:a'', rc_amount = 2, rc_spent = 1, rc_limit = 4, rc_ttl = 60,
     rc_now = 10, rc_id = ''r1'', rc_now' = 10\<rparr>"

lemma sample_wf: "wf_mem []"
  by (simp add: wf_mem_def)

theorem try_reserve_effect_witness:
  "mem_claims (snd (try_reserve [] sample_call)) 20 ''team:a'' ''r1'' = Some 2"
proof -
  have "mem_expiry sample_call = 70" "fadd (rc_spent sample_call) 0 = 1" by code_simp+
  then show ?thesis
    using try_reserve_effect [OF sample_wf, of sample_call 20]
    by (auto simp: sample_call_def Let_def live_total_def split: prod.splits)
qed

text \<open>
  C14. Starting from an empty store, whatever order reservations, releases and expiries take, the
  live claims of a scope never exceed the largest limit (to one part in \<open>2^29\<close>, the rounding of
  the float sum) plus one reservation: a burst overshoots a cap by one request, not by the burst.
\<close>

theorem overshoot_bounded:
  assumes "sound_run try_reserve release mem_claims lmax amax t [] evs" "0 \<le> lmax" "0 \<le> amax"
  shows "claim_total (mem_claims (foldl (store_step try_reserve release) [] evs) (last_time t evs)) scope
    \<le> overshoot_cap lmax amax"
proof (rule mem.run_keeps_cap [OF sample_wf assms(1)])
  show "\<forall>scope. claim_total (mem_claims [] t) scope \<le> overshoot_cap lmax amax"
    using assms(2,3) by (simp add: claim_total_def mem_claims_def overshoot_cap_def)
qed

definition sample_run :: "store_event list" where
  "sample_run = [Reserve sample_call, GiveBack \<lparr>res_id = ''r1'', res_scope = ''team:a'', res_amount = 2\<rparr>]"

theorem overshoot_bounded_witness:
  "claim_total (mem_claims (foldl (store_step try_reserve release) [] sample_run) (last_time 10 sample_run)) ''team:a''
    \<le> overshoot_cap 4 2"
proof (rule overshoot_bounded)
  have "rnd 4 = (4 :: rat)" using rnd_int [of 4] by simp
  moreover have "dom (mem_claims [] 10 ''team:a'') = {}" by (simp add: mem_claims_def)
  ultimately show "sound_run try_reserve release mem_claims 4 2 10 [] sample_run"
    unfolding sample_run_def sound_run.simps by (simp add: sample_call_def)
qed simp_all

text \<open>
  Releasing is deleting by id: it removes the named claim and no other, twice is as good as
  once, the order of releases does not matter, and a request that is admitted and then releases
  leaves no live claim that was not there before.
\<close>

theorem release_exact:
  assumes "wf_mem st"
  shows "mem_claims (release st r) t =
      (mem_claims st t)(res_scope r := (mem_claims st t (res_scope r))(res_id r := None)) \<and>
    mem_claims (release (release st r) r) t = mem_claims (release st r) t \<and>
    mem_claims (release (release st r) r') t = mem_claims (release (release st r') r) t \<and>
    (\<forall>c. outcome_reservation (fst (try_reserve st c)) = Some r \<and> rc_now c \<le> t \<and> 0 \<le> rc_amount c \<longrightarrow>
      mem_claims (release (snd (try_reserve st c)) r) t scope \<subseteq>\<^sub>m mem_claims st t scope)"
  using mem.release_claims [OF assms] mem.release_idem [OF assms] mem.release_commute [OF assms]
    mem.release_after_reserve [OF assms] by blast

theorem release_exact_witness:
  "mem_claims (release (snd (try_reserve [] sample_call))
     \<lparr>res_id = ''r1'', res_scope = ''team:a'', res_amount = 2\<rparr>) 20 ''team:a'' \<subseteq>\<^sub>m mem_claims [] 20 ''team:a''"
proof -
  have "outcome_reservation (fst (try_reserve [] sample_call)) =
      Some \<lparr>res_id = ''r1'', res_scope = ''team:a'', res_amount = 2\<rparr>"
    by code_simp
  then show ?thesis
    using release_exact [OF sample_wf, of "\<lparr>res_id = ''r1'', res_scope = ''team:a'', res_amount = 2\<rparr>" 20 _ "''team:a''"]
    by (simp add: sample_call_def)
qed

end
