(* ===== verification/Circuit_Breaker.thy ===== *)
theory Circuit_Breaker
  imports Python_Floats Domain_Errors
begin

text \<open>
  The breaker port (\<open>domain/ports/circuit_breaker.py\<close>) and its in-memory adapter
  \<open>InMemoryCircuitBreaker\<close> (\<open>infrastructure/circuit_breaker.py\<close>): a closed / open / half-open state
  machine per key. The locale \<open>breaker_port\<close> states the machine as clients see it; the lemmas in it
  show that a half-open trial is granted to one caller and decided by that caller only. The adapter
  satisfies it, never fails an assertion, and trips after exactly the threshold of consecutive
  failures.
\<close>

section \<open>The port\<close>

record breaker_lease =
  lease_allowed :: bool
  lease_token :: "string option"

text \<open>What the machine of one key is doing: a trial out under a token, or none.\<close>

datatype phase = PClosed | POpen | PTrial string

text \<open>A call on one key: \<open>allow\<close> with the clock reading and the token it would draw, or an outcome.\<close>

datatype breaker_event =
    Allow string float_py string
  | Failure string "string option" float_py
  | Success string "string option"

fun event_key :: "breaker_event \<Rightarrow> string" where
  "event_key (Allow k now tok) = k"
| "event_key (Failure k tok now) = k"
| "event_key (Success k tok) = k"

text \<open>An outcome that carries the token \<open>tok\<close>.\<close>

fun resolves :: "string \<Rightarrow> string \<Rightarrow> breaker_event \<Rightarrow> bool" where
  "resolves k tok (Allow k' now t) = False"
| "resolves k tok (Failure k' t now) = (k' = k \<and> t = Some tok)"
| "resolves k tok (Success k' t) = (k' = k \<and> t = Some tok)"

text \<open>The state after one call, and after a sequence of calls.\<close>

fun breaker_step :: "('st \<Rightarrow> string \<Rightarrow> float_py \<Rightarrow> string \<Rightarrow> exc + breaker_lease \<times> 'st) \<Rightarrow>
    ('st \<Rightarrow> string \<Rightarrow> string option \<Rightarrow> float_py \<Rightarrow> 'st) \<Rightarrow> ('st \<Rightarrow> string \<Rightarrow> string option \<Rightarrow> 'st) \<Rightarrow>
    'st \<Rightarrow> breaker_event \<Rightarrow> exc + 'st" where
  "breaker_step allow fail succeed st (Allow k now tok) = rbind (allow st k now tok) (\<lambda>(_, st'). Inr st')"
| "breaker_step allow fail succeed st (Failure k t now) = Inr (fail st k t now)"
| "breaker_step allow fail succeed st (Success k t) = Inr (succeed st k t)"

fun breaker_run :: "('st \<Rightarrow> breaker_event \<Rightarrow> exc + 'st) \<Rightarrow> 'st \<Rightarrow> breaker_event list \<Rightarrow> exc + 'st" where
  "breaker_run step st [] = Inr st"
| "breaker_run step st (ev # evs) = rbind (step st ev) (\<lambda>st'. breaker_run step st' evs)"

abbreviation refused :: breaker_lease where
  "refused \<equiv> \<lparr>lease_allowed = False, lease_token = None\<rparr>"

locale breaker_port =
  fixes allow :: "'st \<Rightarrow> string \<Rightarrow> float_py \<Rightarrow> string \<Rightarrow> exc + breaker_lease \<times> 'st"
    and fail :: "'st \<Rightarrow> string \<Rightarrow> string option \<Rightarrow> float_py \<Rightarrow> 'st"
    and succeed :: "'st \<Rightarrow> string \<Rightarrow> string option \<Rightarrow> 'st"
    and phase :: "'st \<Rightarrow> string \<Rightarrow> phase"
    and wf :: "'st \<Rightarrow> bool"
  assumes allow_law: "wf st \<Longrightarrow> \<exists>lease st'. allow st k now tok = Inr (lease, st') \<and> wf st' \<and>
      (\<forall>k'. k' \<noteq> k \<longrightarrow> phase st' k' = phase st k') \<and>
      (case phase st k of
         PClosed \<Rightarrow> lease = \<lparr>lease_allowed = True, lease_token = None\<rparr> \<and> phase st' k = PClosed
       | PTrial u \<Rightarrow> lease = refused \<and> phase st' k = PTrial u
       | POpen \<Rightarrow> lease = refused \<and> phase st' k = POpen \<or>
           lease = \<lparr>lease_allowed = True, lease_token = Some tok\<rparr> \<and> phase st' k = PTrial tok)"
    and fail_wf: "wf st \<Longrightarrow> wf (fail st k t now)"
    and succeed_wf: "wf st \<Longrightarrow> wf (succeed st k t)"
    and fail_other: "k' \<noteq> k \<Longrightarrow> phase (fail st k t now) k' = phase st k'"
    and succeed_other: "k' \<noteq> k \<Longrightarrow> phase (succeed st k t) k' = phase st k'"
    and fail_law: "wf st \<Longrightarrow> (case phase st k of
         PClosed \<Rightarrow> phase (fail st k t now) k \<in> {PClosed, POpen}
       | PTrial u \<Rightarrow> phase (fail st k t now) k = (if t = Some u then POpen else PTrial u)
       | POpen \<Rightarrow> phase (fail st k t now) k = POpen)"
    and succeed_law: "wf st \<Longrightarrow> phase (succeed st k t) k = (case phase st k of
         PClosed \<Rightarrow> PClosed
       | PTrial u \<Rightarrow> if t = Some u then PClosed else PTrial u
       | POpen \<Rightarrow> POpen)"
begin

abbreviation step :: "'st \<Rightarrow> breaker_event \<Rightarrow> exc + 'st" where
  "step \<equiv> breaker_step allow fail succeed"

lemma step_wf: "wf st \<Longrightarrow> \<exists>st'. step st ev = Inr st' \<and> wf st'"
proof (cases ev)
  case (Allow k now tok)
  assume "wf st"
  then obtain lease st' where "allow st k now tok = Inr (lease, st')" "wf st'" using allow_law by blast
  with Allow show ?thesis by simp
qed (simp_all add: fail_wf succeed_wf)

text \<open>Calls on a key do not move the machine of another.\<close>

lemma step_other:
  assumes "wf st" "step st ev = Inr st'" "event_key ev \<noteq> k"
  shows "phase st' k = phase st k"
proof (cases ev)
  case (Allow k' now tok)
  obtain lease st1 where "allow st k' now tok = Inr (lease, st1)" "\<forall>k. k \<noteq> k' \<longrightarrow> phase st1 k = phase st k"
    using allow_law [OF assms(1)] by blast
  with Allow assms(2,3) show ?thesis by simp
qed (use assms fail_other succeed_other in auto)

text \<open>While a trial is out, no call but its own outcome moves the machine of that key.\<close>

lemma step_Allow:
  assumes "wf st" "step st (Allow k now tok) = Inr st'"
  shows "case phase st k of PClosed \<Rightarrow> phase st' k = PClosed | PTrial u \<Rightarrow> phase st' k = PTrial u
    | POpen \<Rightarrow> phase st' k = POpen \<or> phase st' k = PTrial tok"
proof -
  obtain lease st1 where "allow st k now tok = Inr (lease, st1)"
    "case phase st k of PClosed \<Rightarrow> phase st1 k = PClosed | PTrial u \<Rightarrow> phase st1 k = PTrial u
      | POpen \<Rightarrow> phase st1 k = POpen \<or> phase st1 k = PTrial tok"
    using allow_law [OF assms(1), of k now tok] by (cases "phase st k") auto
  moreover from this have "st1 = st'" using assms(2) by simp
  ultimately show ?thesis by (cases "phase st k") simp_all
qed

lemma step_same:
  assumes "wf st" "event_key ev = k" "step st ev = Inr st'"
  shows "case phase st k of
      PClosed \<Rightarrow> phase st' k \<in> {PClosed, POpen}
    | PTrial u \<Rightarrow> phase st' k = PTrial u \<or> resolves k u ev
    | POpen \<Rightarrow> phase st' k = POpen \<or> (\<exists>now tok. ev = Allow k now tok \<and> phase st' k = PTrial tok)"
proof (cases ev)
  case (Allow k' now tok)
  then show ?thesis
    using step_Allow [OF assms(1), of k now tok st'] assms(2,3) by (cases "phase st k") simp_all
next
  case (Failure k' t now)
  then show ?thesis
    using fail_law [OF assms(1), of k t now] assms(2,3) by (cases "phase st k") (auto split: if_splits)
next
  case (Success k' t)
  then show ?thesis
    using succeed_law [OF assms(1), of k t] assms(2,3) by (cases "phase st k") (auto split: if_splits)
qed

lemma trial_kept:
  assumes "wf st" "phase st k = PTrial tok" "\<not> resolves k tok ev" "step st ev = Inr st'"
  shows "phase st' k = PTrial tok"
proof (cases "event_key ev = k")
  case True
  then show ?thesis
    using step_same [OF assms(1) _ assms(4)] assms(2,3) by simp
next
  case False
  then show ?thesis using step_other [OF assms(1,4)] assms(2) by simp
qed

lemma trial_kept_run:
  "wf st \<Longrightarrow> phase st k = PTrial tok \<Longrightarrow> (\<forall>ev \<in> set evs. \<not> resolves k tok ev) \<Longrightarrow>
    \<exists>st'. breaker_run step st evs = Inr st' \<and> wf st' \<and> phase st' k = PTrial tok"
proof (induction evs arbitrary: st)
  case (Cons ev evs)
  obtain st' where st': "step st ev = Inr st'" "wf st'" using step_wf [OF Cons.prems(1)] by blast
  have "phase st' k = PTrial tok" using trial_kept [OF Cons.prems(1,2) _ st'(1)] Cons.prems(3) by simp
  then show ?case using Cons.IH [OF st'(2)] Cons.prems(3) st'(1) by simp
qed simp

text \<open>So between a granted trial and its outcome every other caller is refused.\<close>

lemma no_second_trial:
  assumes "wf st" "phase st k = POpen" "allow st k now tok = Inr (lease, st')" "lease_allowed lease"
    and "\<forall>ev \<in> set evs. \<not> resolves k tok ev"
  shows "\<exists>st1 st2. breaker_run step st' evs = Inr st1 \<and> allow st1 k now' tok' = Inr (refused, st2)"
proof -
  obtain lease1 st0 where "allow st k now tok = Inr (lease1, st0)" "wf st0"
    "lease1 = refused \<and> phase st0 k = POpen \<or>
      lease1 = \<lparr>lease_allowed = True, lease_token = Some tok\<rparr> \<and> phase st0 k = PTrial tok"
    using allow_law [OF assms(1), of k now tok] assms(2) by auto
  then have "phase st' k = PTrial tok" "wf st'" using assms(3,4) by auto
  then obtain st1 where "breaker_run step st' evs = Inr st1" "wf st1" "phase st1 k = PTrial tok"
    using trial_kept_run assms(5) by blast
  moreover from this obtain st2 where "allow st1 k now' tok' = Inr (refused, st2)"
    using allow_law [of st1 k now' tok'] by auto
  ultimately show ?thesis by blast
qed

text \<open>An open machine is left by a granted trial only.\<close>

lemma open_left_by_trial:
  assumes "wf st" "phase st k = POpen" "step st ev = Inr st'" "phase st' k \<noteq> POpen"
  shows "\<exists>now tok. ev = Allow k now tok \<and> phase st' k = PTrial tok"
proof (cases "event_key ev = k")
  case True
  then show ?thesis
    using step_same [OF assms(1) _ assms(3)] assms(2,4) by simp
next
  case False
  then show ?thesis using step_other [OF assms(1,3)] assms(2,4) by simp
qed

end

section \<open>The in-memory adapter\<close>

datatype status = Closed | Open | Half_Open

record breaker_state =
  status :: status
  failure_count :: int
  opened_at :: "float_py option"
  trial_token :: "string option"

definition fresh_state :: breaker_state where
  "fresh_state = \<lparr>status = Closed, failure_count = 0, opened_at = None, trial_token = None\<rparr>"

record breaker_config =
  failure_threshold :: int
  cooldown_seconds :: int

type_synonym breaker_states = "(string, breaker_state) dict"

text \<open>\<open>self._states.setdefault(key, _State())\<close>.\<close>

definition setdefault_state :: "breaker_states \<Rightarrow> string \<Rightarrow> breaker_state \<times> breaker_states" where
  "setdefault_state states key = (case map_of states key of
     Some s \<Rightarrow> (s, states) | None \<Rightarrow> (fresh_state, dict_put key fresh_state states))"

text \<open>The cooldown has elapsed: \<open>clock() >= opened_at + cooldown_seconds\<close>.\<close>

definition cooled :: "breaker_config \<Rightarrow> float_py \<Rightarrow> float_py \<Rightarrow> bool" where
  "cooled cfg opened now \<longleftrightarrow> fadd opened (float_of_int (cooldown_seconds cfg)) \<le> now"

definition cb_allow :: "breaker_config \<Rightarrow> breaker_states \<Rightarrow> string \<Rightarrow> float_py \<Rightarrow> string \<Rightarrow>
    exc + breaker_lease \<times> breaker_states" where
  "cb_allow cfg states key now token = (case setdefault_state states key of (state, states') \<Rightarrow>
     if status state = Closed then Inr (\<lparr>lease_allowed = True, lease_token = None\<rparr>, states')
     else if status state = Half_Open then Inr (\<lparr>lease_allowed = False, lease_token = None\<rparr>, states')
     else case opened_at state of
       None \<Rightarrow> raise_py AssertionError
     | Some opened \<Rightarrow>
         if cooled cfg opened now
         then Inr (\<lparr>lease_allowed = True, lease_token = Some token\<rparr>,
                dict_put key (state\<lparr>status := Half_Open, trial_token := Some token\<rparr>) states')
         else Inr (\<lparr>lease_allowed = False, lease_token = None\<rparr>, states'))"

definition cb_state :: "breaker_config \<Rightarrow> breaker_states \<Rightarrow> string \<Rightarrow> float_py \<Rightarrow> exc + status" where
  "cb_state cfg states key now = (case map_of states key of
     None \<Rightarrow> Inr Closed
   | Some state \<Rightarrow>
       if status state = Closed then Inr Closed
       else if status state = Half_Open then Inr Half_Open
       else case opened_at state of
         None \<Rightarrow> raise_py AssertionError
       | Some opened \<Rightarrow> if cooled cfg opened now then Inr Half_Open else Inr Open)"

definition cb_record_failure :: "breaker_config \<Rightarrow> breaker_states \<Rightarrow> string \<Rightarrow> string option \<Rightarrow> float_py \<Rightarrow>
    breaker_states" where
  "cb_record_failure cfg states key token now = (case setdefault_state states key of (state, states') \<Rightarrow>
     if status state = Half_Open then
       if token = None \<or> token \<noteq> trial_token state then states'
       else dict_put key (state\<lparr>status := Open, opened_at := Some now, trial_token := None\<rparr>) states'
     else if status state = Open then states'
     else let counted = state\<lparr>failure_count := failure_count state + 1\<rparr>
       in if failure_threshold cfg \<le> failure_count counted
          then dict_put key (counted\<lparr>status := Open, opened_at := Some now\<rparr>) states'
          else dict_put key counted states')"

definition cb_record_success :: "breaker_states \<Rightarrow> string \<Rightarrow> string option \<Rightarrow> breaker_states" where
  "cb_record_success states key token = (case setdefault_state states key of (state, states') \<Rightarrow>
     if status state = Half_Open \<and> (token = None \<or> token \<noteq> trial_token state) then states'
     else if status state = Open then states'
     else dict_put key (state\<lparr>status := Closed, failure_count := 0, opened_at := None, trial_token := None\<rparr>) states')"

section \<open>Its invariant\<close>

definition wf_breaker :: "breaker_state \<Rightarrow> bool" where
  "wf_breaker s \<longleftrightarrow> (status s = Closed \<or> opened_at s \<noteq> None) \<and>
     (status s = Half_Open \<longleftrightarrow> trial_token s \<noteq> None)"

definition wf_states :: "breaker_states \<Rightarrow> bool" where
  "wf_states states \<longleftrightarrow> (\<forall>k s. map_of states k = Some s \<longrightarrow> wf_breaker s)"

definition current :: "breaker_states \<Rightarrow> string \<Rightarrow> breaker_state" where
  "current states key = (case map_of states key of Some s \<Rightarrow> s | None \<Rightarrow> fresh_state)"

definition breaker_phase :: "breaker_states \<Rightarrow> string \<Rightarrow> phase" where
  "breaker_phase states key = (case trial_token (current states key) of
     Some t \<Rightarrow> PTrial t | None \<Rightarrow> if status (current states key) = Closed then PClosed else POpen)"

lemma wf_fresh: "wf_breaker fresh_state"
  by (simp add: wf_breaker_def fresh_state_def)

lemma current_put: "current (dict_put k s states) k' = (if k' = k then s else current states k')"
  by (simp add: current_def dict_simps)

lemma setdefault_props:
  "fst (setdefault_state states key) = current states key"
  "current (snd (setdefault_state states key)) = current states"
  "wf_states states \<Longrightarrow> wf_states (snd (setdefault_state states key))"
  by (auto simp: setdefault_state_def current_def wf_states_def wf_fresh dict_simps fun_eq_iff
      split: option.splits)

lemma wf_current: "wf_states states \<Longrightarrow> wf_breaker (current states key)"
  by (auto simp: current_def wf_states_def wf_fresh split: option.splits)

lemma wf_states_put: "wf_states states \<Longrightarrow> wf_breaker s \<Longrightarrow> wf_states (dict_put k s states)"
  by (auto simp: wf_states_def dict_simps)

lemma wf_record_failure: "wf_states states \<Longrightarrow> wf_states (cb_record_failure cfg states key token now)"
  using wf_current [of states key] setdefault_props [of states key]
  by (auto simp: cb_record_failure_def Let_def wf_breaker_def split: prod.splits intro!: wf_states_put)

lemma wf_record_success: "wf_states states \<Longrightarrow> wf_states (cb_record_success states key token)"
  using wf_current [of states key] setdefault_props [of states key]
  by (auto simp: cb_record_success_def wf_breaker_def split: prod.splits intro!: wf_states_put)

lemma cb_allow_cases:
  fixes states :: breaker_states and key :: string
  assumes "wf_states states"
  defines "s \<equiv> current states key" and "st \<equiv> snd (setdefault_state states key)"
  shows "cb_allow cfg states key now token =
    (if status s = Closed then Inr (\<lparr>lease_allowed = True, lease_token = None\<rparr>, st)
     else if status s = Open \<and> cooled cfg (the (opened_at s)) now
     then Inr (\<lparr>lease_allowed = True, lease_token = Some token\<rparr>,
       dict_put key (s\<lparr>status := Half_Open, trial_token := Some token\<rparr>) st)
     else Inr (refused, st))"
proof -
  have "setdefault_state states key = (s, st)"
    using setdefault_props(1) [of states key] by (simp add: s_def st_def prod_eq_iff)
  then show ?thesis
    using wf_current [OF assms(1), of key]
    by (cases "status s"; cases "opened_at s") (auto simp: cb_allow_def wf_breaker_def s_def)
qed

lemma breaker_phase_put: "breaker_phase (dict_put k s st) k' =
    (if k' = k then (case trial_token s of Some t \<Rightarrow> PTrial t | None \<Rightarrow> if status s = Closed then PClosed else POpen)
     else breaker_phase st k')"
  by (simp add: breaker_phase_def current_put)

lemma breaker_phase_setdefault: "breaker_phase (snd (setdefault_state states key)) = breaker_phase states"
  by (simp add: breaker_phase_def setdefault_props fun_eq_iff)

lemma wf_cb_allow:
  assumes "wf_states states" "cb_allow cfg states key now token = Inr (lease, st')"
  shows "wf_states st'"
  using assms(2) wf_current [OF assms(1), of key] setdefault_props(3) [OF assms(1), of key]
  by (auto simp: cb_allow_cases [OF assms(1)] wf_breaker_def split: if_splits intro!: wf_states_put)

lemma allow_phase:
  assumes "wf_states states"
  shows "\<exists>lease st'. cb_allow cfg states key now token = Inr (lease, st') \<and> wf_states st' \<and>
      (\<forall>k'. k' \<noteq> key \<longrightarrow> breaker_phase st' k' = breaker_phase states k') \<and>
      (case breaker_phase states key of
         PClosed \<Rightarrow> lease = \<lparr>lease_allowed = True, lease_token = None\<rparr> \<and> breaker_phase st' key = PClosed
       | PTrial u \<Rightarrow> lease = refused \<and> breaker_phase st' key = PTrial u
       | POpen \<Rightarrow> lease = refused \<and> breaker_phase st' key = POpen \<or>
           lease = \<lparr>lease_allowed = True, lease_token = Some token\<rparr> \<and> breaker_phase st' key = PTrial token)"
proof -
  define s where "s = current states key"
  have wf: "wf_breaker s" using wf_current [OF assms] by (simp add: s_def)
  have ph: "breaker_phase states key = (case trial_token s of Some t \<Rightarrow> PTrial t
      | None \<Rightarrow> if status s = Closed then PClosed else POpen)"
    by (simp add: breaker_phase_def s_def)
  have "\<exists>x. cb_allow cfg states key now token = Inr x" by (simp add: cb_allow_cases [OF assms])
  then obtain lease st' where r: "cb_allow cfg states key now token = Inr (lease, st')" by auto
  have "wf_states st'" using wf_cb_allow [OF assms r] .
  moreover have "(\<forall>k'. k' \<noteq> key \<longrightarrow> breaker_phase st' k' = breaker_phase states k')"
    using r by (auto simp: cb_allow_cases [OF assms] breaker_phase_put breaker_phase_setdefault split: if_splits)
  moreover have "case breaker_phase states key of
         PClosed \<Rightarrow> lease = \<lparr>lease_allowed = True, lease_token = None\<rparr> \<and> breaker_phase st' key = PClosed
       | PTrial u \<Rightarrow> lease = refused \<and> breaker_phase st' key = PTrial u
       | POpen \<Rightarrow> lease = refused \<and> breaker_phase st' key = POpen \<or>
           lease = \<lparr>lease_allowed = True, lease_token = Some token\<rparr> \<and> breaker_phase st' key = PTrial token"
    using r wf ph
    by (cases "status s"; cases "trial_token s")
      (auto simp: cb_allow_cases [OF assms] s_def [symmetric] breaker_phase_put breaker_phase_setdefault
        wf_breaker_def split: if_splits)
  ultimately show ?thesis using r by blast
qed

lemma cb_record_failure_eq: "cb_record_failure cfg states key token now =
    (let s = current states key; st = snd (setdefault_state states key) in
     if status s = Half_Open then
       if token = None \<or> token \<noteq> trial_token s then st
       else dict_put key (s\<lparr>status := Open, opened_at := Some now, trial_token := None\<rparr>) st
     else if status s = Open then st
     else if failure_threshold cfg \<le> failure_count s + 1
       then dict_put key (s\<lparr>failure_count := failure_count s + 1, status := Open, opened_at := Some now\<rparr>) st
       else dict_put key (s\<lparr>failure_count := failure_count s + 1\<rparr>) st)"
  unfolding cb_record_failure_def split_beta setdefault_props(1) Let_def
  by (intro if_cong refl) simp_all

lemma cb_record_success_eq: "cb_record_success states key token =
    (let s = current states key; st = snd (setdefault_state states key) in
     if status s = Half_Open \<and> (token = None \<or> token \<noteq> trial_token s) \<or> status s = Open then st
     else dict_put key fresh_state st)"
proof -
  have "s\<lparr>status := Closed, failure_count := 0, opened_at := None, trial_token := None\<rparr> = fresh_state" for s
    by (cases s) (simp add: fresh_state_def)
  moreover have "(if a then x else if b then x else y) = (if a \<or> b then x else y)" for a b and x y :: breaker_states
    by simp
  ultimately show ?thesis
    unfolding cb_record_success_def split_beta setdefault_props(1) Let_def by (simp only:)
qed

lemma failure_phase:
  assumes "wf_states states"
  shows "case breaker_phase states key of
       PClosed \<Rightarrow> breaker_phase (cb_record_failure cfg states key t now) key \<in> {PClosed, POpen}
     | PTrial u \<Rightarrow> breaker_phase (cb_record_failure cfg states key t now) key =
         (if t = Some u then POpen else PTrial u)
     | POpen \<Rightarrow> breaker_phase (cb_record_failure cfg states key t now) key = POpen"
  using wf_current [OF assms, of key] breaker_phase_setdefault [of states key]
  by (cases "status (current states key)"; cases "trial_token (current states key)")
    (simp_all add: cb_record_failure_eq Let_def breaker_phase_put wf_breaker_def breaker_phase_def [of states])

lemma success_phase:
  assumes "wf_states states"
  shows "breaker_phase (cb_record_success states key t) key = (case breaker_phase states key of
       PClosed \<Rightarrow> PClosed | PTrial u \<Rightarrow> if t = Some u then PClosed else PTrial u | POpen \<Rightarrow> POpen)"
  using wf_current [OF assms, of key] breaker_phase_setdefault [of states key]
  by (cases "status (current states key)"; cases "trial_token (current states key)")
    (auto simp add: cb_record_success_eq Let_def breaker_phase_put wf_breaker_def breaker_phase_def [of states]
      fresh_state_def)

lemma outcome_other:
  "k' \<noteq> key \<Longrightarrow> breaker_phase (cb_record_failure cfg states key t now) k' = breaker_phase states k'"
  "k' \<noteq> key \<Longrightarrow> breaker_phase (cb_record_success states key t) k' = breaker_phase states k'"
  by (simp_all add: cb_record_failure_eq cb_record_success_eq Let_def breaker_phase_put breaker_phase_setdefault)

interpretation cb: breaker_port "cb_allow cfg" "cb_record_failure cfg" cb_record_success breaker_phase wf_states
  for cfg
  by unfold_locales
    (simp_all add: allow_phase failure_phase success_phase outcome_other wf_record_failure wf_record_success)

section \<open>Properties\<close>

text \<open>All calls on a breaker that starts empty.\<close>

definition cb_run :: "breaker_config \<Rightarrow> breaker_event list \<Rightarrow> exc + breaker_states" where
  "cb_run cfg evs = breaker_run (breaker_step (cb_allow cfg) (cb_record_failure cfg) cb_record_success) [] evs"

lemma run_append: "breaker_run step st (xs @ ys) = rbind (breaker_run step st xs) (\<lambda>st'. breaker_run step st' ys)"
  by (induction xs arbitrary: st) (simp_all add: rbind_assoc)

lemma wf_states_Nil: "wf_states []"
  by (simp add: wf_states_def)

lemma cb_run_wf: "\<exists>states. cb_run cfg evs = Inr states \<and> wf_states states"
proof -
  have "wf_states st \<Longrightarrow> \<exists>states. breaker_run (cb.step cfg) st evs = Inr states \<and> wf_states states" for st
  proof (induction evs arbitrary: st)
    case (Cons ev evs)
    obtain st' where "cb.step cfg st ev = Inr st'" "wf_states st'" using cb.step_wf [OF Cons.prems] by blast
    then show ?case using Cons.IH by simp
  qed simp
  then show ?thesis using wf_states_Nil by (simp add: cb_run_def)
qed

text \<open>
  C13. Whatever calls came before, none of them fails an assertion, and once an open breaker has let
  one caller through, every later \<open>allow\<close> on that key is refused until an outcome carrying that
  caller's token arrives: stale outcomes of other requests cannot open the gate to a second trial.
\<close>

theorem single_half_open_trial:
  assumes "cb_run cfg before = Inr states" "breaker_phase states key = POpen"
    and "cb_allow cfg states key now token = Inr (lease, states')" "lease_allowed lease"
    and "\<forall>ev \<in> set evs. \<not> resolves key token ev"
  shows "\<exists>st1 st2. cb_run cfg (before @ Allow key now token # evs) = Inr st1 \<and>
    cb_allow cfg st1 key now' token' = Inr (\<lparr>lease_allowed = False, lease_token = None\<rparr>, st2)"
proof -
  have "wf_states states" using cb_run_wf [of cfg before] assms(1) by auto
  then show ?thesis
    using cb.no_second_trial [OF _ assms(2-5), of now' token'] assms(1,3)
    by (auto simp: cb_run_def run_append)
qed

definition sample_cfg :: breaker_config where
  "sample_cfg = \<lparr>failure_threshold = 1, cooldown_seconds = 30\<rparr>"

theorem single_half_open_trial_witness:
  "\<exists>st1 st2. cb_run sample_cfg ([Failure ''p'' None 5] @ Allow ''p'' 40 ''t1'' # [Success ''p'' None]) = Inr st1 \<and>
    cb_allow sample_cfg st1 ''p'' 41 ''t2'' = Inr (\<lparr>lease_allowed = False, lease_token = None\<rparr>, st2)"
proof (rule single_half_open_trial)
  show "cb_run sample_cfg [Failure ''p'' None 5] = Inr [(''p'', \<lparr>status = Open, failure_count = 1,
      opened_at = Some 5, trial_token = None\<rparr>)]" by code_simp
  show "cb_allow sample_cfg [(''p'', \<lparr>status = Open, failure_count = 1, opened_at = Some 5, trial_token = None\<rparr>)]
      ''p'' 40 ''t1'' = Inr (\<lparr>lease_allowed = True, lease_token = Some ''t1''\<rparr>,
        [(''p'', \<lparr>status = Half_Open, failure_count = 1, opened_at = Some 5, trial_token = Some ''t1''\<rparr>)])"
    by code_simp
qed (simp_all add: breaker_phase_def current_def)

text \<open>The longest run of consecutive failures in a list of outcomes (\<open>True\<close> is a failure).\<close>

fun max_streak :: "nat \<Rightarrow> bool list \<Rightarrow> nat" where
  "max_streak n [] = n"
| "max_streak n (True # os) = max_streak (Suc n) os"
| "max_streak n (False # os) = max n (max_streak 0 os)"

fun outcomes :: "string \<Rightarrow> bool list \<Rightarrow> float_py list \<Rightarrow> breaker_event list" where
  "outcomes key (True # os) (t # ts) = Failure key None t # outcomes key os ts"
| "outcomes key (False # os) (t # ts) = Success key None # outcomes key os ts"
| "outcomes key os ts = []"

lemma max_streak_ge: "n \<le> max_streak n os"
proof (induction n os rule: max_streak.induct)
  case (2 n os)
  then show ?case by simp
qed simp_all

lemma open_absorbs:
  assumes "wf_states st" "breaker_phase st key = POpen" "breaker_run (cb.step cfg) st (outcomes key os ts) = Inr st'"
  shows "breaker_phase st' key = POpen"
  using assms
proof (induction key os ts arbitrary: st rule: outcomes.induct)
  case (1 key os t ts)
  then show ?case
    using failure_phase [OF 1(2), where key = key and t = None and cfg = cfg and now = t]
      1(1) [OF wf_record_failure [OF 1(2)]] by simp
next
  case (2 key os t ts)
  then show ?case using success_phase [OF 2(2), of key None] 2(1) [OF wf_record_success [OF 2(2)]] by simp
qed simp_all

lemma closed_counts:
  assumes "wf_states st" "breaker_phase st key = PClosed"
    "failure_count (current st key) = int n" "int n < failure_threshold cfg" "length ts = length os"
    "breaker_run (cb.step cfg) st (outcomes key os ts) = Inr st'"
  shows "breaker_phase st' key = (if int (max_streak n os) < failure_threshold cfg then PClosed else POpen)"
  using assms
proof (induction key os ts arbitrary: n st rule: outcomes.induct)
  case (1 key os t ts)
  let ?st = "cb_record_failure cfg st key None t"
  have st: "status (current st key) = Closed" "trial_token (current st key) = None"
    using 1(3) by (auto simp: breaker_phase_def split: option.splits if_splits)
  have wf: "wf_states ?st" using 1(2) by (rule wf_record_failure)
  show ?case
  proof (cases "int n + 1 < failure_threshold cfg")
    case True
    then have "current ?st key = (current st key)\<lparr>failure_count := int (Suc n)\<rparr>"
      using st 1(4) by (simp add: cb_record_failure_eq Let_def current_put add.commute)
    moreover from this have "breaker_phase ?st key = PClosed" using st by (simp add: breaker_phase_def)
    ultimately show ?thesis using 1(1) [OF wf, of "Suc n"] True 1(6,7) by simp
  next
    case False
    then have "current ?st key = (current st key)\<lparr>failure_count := int n + 1, status := Open, opened_at := Some t\<rparr>"
      using st 1(4) by (simp add: cb_record_failure_eq Let_def current_put)
    then have "breaker_phase ?st key = POpen" using st by (simp add: breaker_phase_def)
    then have "breaker_phase st' key = POpen" using open_absorbs [OF wf] 1(7) by simp
    moreover have "failure_threshold cfg \<le> int (max_streak (Suc n) os)"
      using False max_streak_ge [of "Suc n" os] by linarith
    ultimately show ?thesis by simp
  qed
next
  case (2 key os t ts)
  let ?st = "cb_record_success st key None"
  have "status (current st key) = Closed" "trial_token (current st key) = None"
    using 2(3) by (auto simp: breaker_phase_def split: option.splits if_splits)
  then have "current ?st key = fresh_state" by (simp add: cb_record_success_eq Let_def current_put)
  moreover from this have "breaker_phase ?st key = PClosed" by (simp add: breaker_phase_def fresh_state_def)
  moreover have "wf_states ?st" using 2(2) by (rule wf_record_success)
  ultimately show ?case using 2(1) [of ?st 0] 2(5,6,7) by (simp add: fresh_state_def of_nat_max)
qed simp_all

text \<open>
  C37. Only consecutive failures count: a fresh breaker that sees a sequence of ordinary outcomes is
  open at the end exactly when some run of consecutive failures in it reached the threshold.
\<close>

theorem trips_on_consecutive_failures:
  assumes "0 < failure_threshold cfg" "length ts = length os"
    and "cb_run cfg (outcomes key os ts) = Inr states"
  shows "breaker_phase states key =
    (if int (max_streak 0 os) < failure_threshold cfg then PClosed else POpen)"
proof (rule closed_counts [OF wf_states_Nil])
  show "breaker_phase [] key = PClosed" "failure_count (current [] key) = int 0"
    by (simp_all add: breaker_phase_def current_def fresh_state_def)
qed (use assms in \<open>simp_all add: cb_run_def\<close>)

theorem trips_on_consecutive_failures_witness:
  "case cb_run (sample_cfg\<lparr>failure_threshold := 2\<rparr>) (outcomes ''p'' [True, False, True, True] [1, 2, 3, 4]) of
     Inr states \<Rightarrow> breaker_phase states ''p'' = POpen | Inl _ \<Rightarrow> False"
proof -
  obtain states where
    r: "cb_run (sample_cfg\<lparr>failure_threshold := 2\<rparr>) (outcomes ''p'' [True, False, True, True] [1, 2, 3, 4]) = Inr states"
    using cb_run_wf by blast
  have "breaker_phase states ''p'' = POpen"
    using trips_on_consecutive_failures [OF _ _ r] by (simp add: sample_cfg_def)
  with r show ?thesis by simp
qed

text \<open>
  The operator's view: \<open>state\<close> never fails and claims nothing, and it reports \<open>half_open\<close> exactly
  when a trial is out or the next \<open>allow\<close> would grant one, \<open>open\<close> when the next \<open>allow\<close> is
  refused by the cooldown, \<open>closed\<close> when it is let through without a token.
\<close>

theorem state_predicts_allow:
  assumes "cb_run cfg evs = Inr states"
  shows "\<exists>s lease st'. cb_state cfg states key now = Inr s \<and> cb_allow cfg states key now token = Inr (lease, st') \<and>
    (s = Closed \<longleftrightarrow> lease = \<lparr>lease_allowed = True, lease_token = None\<rparr>) \<and>
    (s = Half_Open \<longleftrightarrow> lease_token lease = Some token \<or> (\<exists>u. breaker_phase states key = PTrial u)) \<and>
    (s = Open \<longleftrightarrow> \<not> lease_allowed lease \<and> breaker_phase states key = POpen)"
proof -
  have wf: "wf_states states" using cb_run_wf [of cfg evs] assms by auto
  have st: "cb_state cfg states key now = Inr (let s = current states key in
      if status s = Closed then Closed else if status s = Half_Open then Half_Open
      else if cooled cfg (the (opened_at s)) now then Half_Open else Open)"
    using wf_current [OF wf, of key]
    by (auto simp: cb_state_def current_def wf_breaker_def Let_def fresh_state_def split: option.splits)
  show ?thesis
    using wf_current [OF wf, of key]
    by (cases "status (current states key)"; cases "trial_token (current states key)")
      (auto simp: st cb_allow_cases [OF wf] Let_def breaker_phase_def wf_breaker_def)
qed

theorem state_predicts_allow_witness:
  "\<exists>s lease st'. cb_state sample_cfg [] ''p'' 0 = Inr s \<and> cb_allow sample_cfg [] ''p'' 0 ''t'' = Inr (lease, st') \<and>
    (s = Closed \<longleftrightarrow> lease = \<lparr>lease_allowed = True, lease_token = None\<rparr>)"
proof -
  have "cb_run sample_cfg [] = Inr []" by (simp add: cb_run_def)
  from state_predicts_allow [OF this, of "''p''" 0 "''t''"] show ?thesis by blast
qed

text \<open>
  An open breaker ignores every outcome; after the cooldown the next \<open>allow\<close> grants the trial,
  whose success resets the key completely and whose failure opens it again for a fresh cooldown.
\<close>

theorem half_open_recovery:
  assumes "cb_run cfg evs = Inr states" "breaker_phase states key = POpen"
    and "cooled cfg (the (opened_at (current states key))) now"
  shows "\<exists>st'. cb_allow cfg states key now token = Inr (\<lparr>lease_allowed = True, lease_token = Some token\<rparr>, st') \<and>
    current (cb_record_success st' key (Some token)) key = fresh_state \<and>
    opened_at (current (cb_record_failure cfg st' key (Some token) later) key) = Some later \<and>
    breaker_phase (cb_record_failure cfg st' key (Some token) later) key = POpen"
proof -
  have wf: "wf_states states" using cb_run_wf [of cfg evs] assms(1) by auto
  have "status (current states key) = Open"
    using assms(2) wf_current [OF wf, of key]
    by (cases "status (current states key)")
      (auto simp: breaker_phase_def wf_breaker_def split: option.splits if_splits)
  then show ?thesis
    using assms(3)
    by (simp add: cb_allow_cases [OF wf] cb_record_success_eq cb_record_failure_eq Let_def current_put
        setdefault_props breaker_phase_def)
qed

theorem half_open_recovery_witness:
  "\<exists>st'. cb_allow sample_cfg [(''p'', \<lparr>status = Open, failure_count = 1, opened_at = Some 5, trial_token = None\<rparr>)]
      ''p'' 40 ''t'' = Inr (\<lparr>lease_allowed = True, lease_token = Some ''t''\<rparr>, st') \<and>
    current (cb_record_success st' ''p'' (Some ''t'')) ''p'' = fresh_state"
proof -
  let ?st = "[(''p'', \<lparr>status = Open, failure_count = 1, opened_at = Some 5, trial_token = None\<rparr>)]"
  have "cb_run sample_cfg [Failure ''p'' None 5] = Inr ?st" by code_simp
  moreover have "cooled sample_cfg 5 40" by code_simp
  ultimately show ?thesis
    using half_open_recovery [of sample_cfg "[Failure ''p'' None 5]" ?st "''p''" 40 "''t''"]
    by (auto simp: breaker_phase_def current_def)
qed

end
