(* ===== verification/Rate_Limiter.thy ===== *)
theory Rate_Limiter
  imports Python_Floats Domain_Errors
begin

text \<open>
  \<open>InMemoryRateLimiter\<close> (\<open>infrastructure/rate_limiter.py\<close>): fixed windows aligned to the clock, one
  counter per key, expired counters pruned on the first hit after the earliest expiry. The lemmas
  show that pruning never loses a count of the current window, that nothing expired is kept, and
  that a denied caller is told when its window rolls over.
\<close>

section \<open>The limiter\<close>

record counter =
  c_window :: int
  c_bucket :: int
  c_count :: int
  c_expires :: float_py

record limiter =
  counts :: "(string, counter) dict"
  next_prune_at :: "float_py option"

record decision =
  dec_allowed :: bool
  dec_retry_after :: int

definition rl_retry_after :: "int \<Rightarrow> float_py \<Rightarrow> int" where
  "rl_retry_after window now = window - int_of_float now mod window"

text \<open>\<open>min(xs, default=None)\<close>.\<close>

fun min_default :: "rat list \<Rightarrow> rat option" where
  "min_default [] = None"
| "min_default (x # xs) = Some (case min_default xs of None \<Rightarrow> x | Some m \<Rightarrow> min x m)"

text \<open>The sweep at the head of \<open>hit\<close>.\<close>

definition prune :: "float_py \<Rightarrow> limiter \<Rightarrow> limiter" where
  "prune now l = (case next_prune_at l of
     None \<Rightarrow> l
   | Some due \<Rightarrow> if due \<le> now
       then let kept = dict_filter (\<lambda>_ e. now < c_expires e) (counts l)
         in \<lparr>counts = kept, next_prune_at = min_default (map (\<lambda>e. c_expires (snd e)) kept)\<rparr>
       else l)"

text \<open>One hit; a window of zero seconds is Python's \<open>ZeroDivisionError\<close>.\<close>

definition hit :: "limiter \<Rightarrow> string \<Rightarrow> int \<Rightarrow> int \<Rightarrow> float_py \<Rightarrow> exc + decision \<times> limiter" where
  "hit l key limit window now = (let l1 = prune now l in
     if window = 0 then raise_py (OtherException ''ZeroDivisionError'')
     else let
       bucket = int_of_float now div window;
       fresh = (1, float_of_int ((bucket + 1) * window));
       (count, expires_at) = (case map_of (counts l1) key of
           None \<Rightarrow> fresh
         | Some e \<Rightarrow> if c_window e = window \<and> c_bucket e = bucket then (c_count e + 1, c_expires e) else fresh);
       entry = \<lparr>c_window = window, c_bucket = bucket, c_count = count, c_expires = expires_at\<rparr>;
       next' = (case next_prune_at l1 of
           None \<Rightarrow> Some expires_at
         | Some due \<Rightarrow> if expires_at < due then Some expires_at else Some due);
       allowed = (count \<le> limit)
     in Inr (\<lparr>dec_allowed = allowed, dec_retry_after = (if allowed then 0 else rl_retry_after window now)\<rparr>,
          \<lparr>counts = dict_put key entry (counts l1), next_prune_at = next'\<rparr>))"

definition empty_limiter :: limiter where
  "empty_limiter = \<lparr>counts = [], next_prune_at = None\<rparr>"

record hit_call =
  h_key :: string
  h_limit :: int
  h_window :: int
  h_now :: float_py

fun hits :: "limiter \<Rightarrow> hit_call list \<Rightarrow> exc + decision list \<times> limiter" where
  "hits l [] = Inr ([], l)"
| "hits l (h # hs) = rbind (hit l (h_key h) (h_limit h) (h_window h) (h_now h)) (\<lambda>(d, l').
     rbind (hits l' hs) (\<lambda>(ds, l''). Inr (d # ds, l'')))"

section \<open>Nothing expired is kept\<close>

lemma min_default_le: "x \<in> set xs \<Longrightarrow> \<exists>m. min_default xs = Some m \<and> m \<le> x"
  by (induction xs) (auto split: option.splits simp: min_le_iff_disj)

text \<open>The next sweep is due no later than the first expiry.\<close>

definition prune_due :: "limiter \<Rightarrow> bool" where
  "prune_due l \<longleftrightarrow> (\<forall>(k, e) \<in> set (counts l). \<exists>due. next_prune_at l = Some due \<and> due \<le> c_expires e)"

lemma prune_prune_due: "prune_due l \<Longrightarrow> prune_due (prune now l)"
proof (cases "\<exists>due. next_prune_at l = Some due \<and> due \<le> now")
  case True
  let ?kept = "dict_filter (\<lambda>_ e. now < c_expires e) (counts l)"
  have "prune now l = \<lparr>counts = ?kept, next_prune_at = min_default (map (\<lambda>e. c_expires (snd e)) ?kept)\<rparr>"
    using True by (auto simp: prune_def Let_def)
  moreover have "\<exists>m. min_default (map (\<lambda>e. c_expires (snd e)) ?kept) = Some m \<and> m \<le> c_expires e"
    if "(k, e) \<in> set ?kept" for k e
    using that by (intro min_default_le) force
  ultimately show ?thesis by (auto simp: prune_due_def)
next
  case False
  moreover assume "prune_due l"
  ultimately show ?thesis by (auto simp: prune_def split: option.splits)
qed

lemma prune_live: "prune_due l \<Longrightarrow> (k, e) \<in> set (counts (prune now l)) \<Longrightarrow> now < c_expires e"
  by (force simp: prune_def prune_due_def Let_def dict_filter_def split: option.splits if_splits)

lemma set_dict_put: "set (dict_put k v d) \<subseteq> insert (k, v) (set d)"
  by (induction d) auto

lemma hit_prune_due:
  assumes "prune_due l" "hit l key limit window now = Inr (d, l')"
  shows "prune_due l'"
proof -
  have old: "prune_due (prune now l)" using assms(1) by (rule prune_prune_due)
  have "window \<noteq> 0" using assms(2) by (auto simp: hit_def Let_def)
  with assms(2) obtain e nx where l': "l' = \<lparr>counts = dict_put key e (counts (prune now l)), next_prune_at = Some nx\<rparr>"
    "nx \<le> c_expires e" "\<And>x. next_prune_at (prune now l) = Some x \<Longrightarrow> nx \<le> x"
    by (auto simp: hit_def Let_def split: prod.splits option.splits if_splits)
  show ?thesis
    unfolding prune_due_def
  proof (intro ballI, clarify)
    fix k v assume "(k, v) \<in> set (counts l')"
    then have "(k, v) = (key, e) \<or> (k, v) \<in> set (counts (prune now l))"
      using set_dict_put [of key e] by (auto simp: l')
    then show "\<exists>due. next_prune_at l' = Some due \<and> due \<le> c_expires v"
      using old l' by (fastforce simp: prune_due_def)
  qed
qed

section \<open>Every hit of the window is counted\<close>

definition bucket_of :: "hit_call \<Rightarrow> int" where
  "bucket_of h = int_of_float (h_now h) div h_window h"

text \<open>How many of the hits are for \<open>key\<close> in bucket \<open>b\<close>.\<close>

definition hits_in :: "string \<Rightarrow> int \<Rightarrow> hit_call list \<Rightarrow> nat" where
  "hits_in key b hs = length (filter (\<lambda>h. h_key h = key \<and> bucket_of h = b) hs)"

text \<open>
  Hits whose clock never goes back, in the range where seconds are exact floats, every key always
  with the same window.
\<close>

fun sound_hits :: "(string \<Rightarrow> int) \<Rightarrow> float_py \<Rightarrow> hit_call list \<Rightarrow> bool" where
  "sound_hits w t [] = True"
| "sound_hits w t (h # hs) = (t \<le> h_now h \<and> 0 \<le> h_now h \<and> h_now h \<le> 2 ^ 52 \<and>
     h_window h = w (h_key h) \<and> 0 < h_window h \<and> h_window h \<le> 2 ^ 52 \<and> sound_hits w (h_now h) hs)"

fun key_ok :: "(string \<Rightarrow> int) \<Rightarrow> hit_call list \<Rightarrow> float_py \<Rightarrow> string \<Rightarrow> counter option \<Rightarrow> bool" where
  "key_ok w past t k None = (\<forall>h \<in> set past. h_key h = k \<longrightarrow> bucket_of h < int_of_float t div w k)"
| "key_ok w past t k (Some e) = (c_window e = w k \<and> c_count e = int (hits_in k (c_bucket e) past) \<and>
     c_expires e = of_int ((c_bucket e + 1) * w k) \<and> c_bucket e \<le> int_of_float t div w k \<and>
     (\<forall>h \<in> set past. h_key h = k \<longrightarrow> bucket_of h \<le> c_bucket e))"

definition limiter_ok :: "(string \<Rightarrow> int) \<Rightarrow> hit_call list \<Rightarrow> float_py \<Rightarrow> limiter \<Rightarrow> bool" where
  "limiter_ok w past t l \<longleftrightarrow> wf_dict (counts l) \<and> (\<forall>k. key_ok w past t k (map_of (counts l) k))"

lemma limiter_ok_empty: "limiter_ok w [] t empty_limiter"
  by (simp add: limiter_ok_def empty_limiter_def)

lemma int_of_float_mono: "0 \<le> x \<Longrightarrow> x \<le> y \<Longrightarrow> int_of_float x \<le> int_of_float y"
  by (simp add: int_of_float_def floor_mono)

lemma expired_bucket:
  assumes "0 \<le> now" "0 < w" "(of_int ((b + 1) * w) :: rat) \<le> now"
  shows "b < int_of_float now div w"
proof -
  have "(b + 1) * w \<le> int_of_float now" using assms by (simp add: int_of_float_def le_floor_iff)
  then have "(b + 1) * w div w \<le> int_of_float now div w" using assms(2) by (intro zdiv_mono1)
  then show ?thesis using assms(2) by simp
qed

lemma key_ok_later:
  assumes "key_ok w past t k c" "0 \<le> t" "t \<le> now" "0 < w k"
  shows "key_ok w past now k c"
proof -
  have "int_of_float t div w k \<le> int_of_float now div w k"
    using assms by (intro zdiv_mono1 int_of_float_mono) simp_all
  then show ?thesis using assms(1) by (cases c) fastforce+
qed

lemma limiter_ok_later:
  "limiter_ok w past t l \<Longrightarrow> 0 \<le> t \<Longrightarrow> t \<le> now \<Longrightarrow> (\<And>k. 0 < w k) \<Longrightarrow> limiter_ok w past now l"
  by (auto simp: limiter_ok_def intro: key_ok_later simp del: key_ok.simps)

lemma key_ok_expired:
  assumes "key_ok w past now k (Some e)" "c_expires e \<le> now" "0 \<le> now" "0 < w k"
  shows "key_ok w past now k None"
proof -
  have "c_bucket e < int_of_float now div w k"
    using assms expired_bucket [of now "w k" "c_bucket e"] by simp
  then show ?thesis using assms(1) by fastforce
qed

lemma limiter_ok_prune:
  assumes ok: "limiter_ok w past now l" and now: "0 \<le> now" and w: "\<And>k. 0 < w k"
  shows "limiter_ok w past now (prune now l)"
proof (cases "\<exists>due. next_prune_at l = Some due \<and> due \<le> now")
  case False
  then show ?thesis using ok by (auto simp: prune_def split: option.splits)
next
  case True
  let ?kept = "dict_filter (\<lambda>_ e. now < c_expires e) (counts l)"
  have p: "counts (prune now l) = ?kept" using True by (auto simp: prune_def Let_def)
  have wf: "wf_dict (counts l)" and k: "key_ok w past now k (map_of (counts l) k)" for k
    using ok by (simp_all add: limiter_ok_def)
  have "key_ok w past now k (map_of ?kept k)" for k
    using k [of k] key_ok_expired [OF _ _ now w, where past = past and k = k]
    by (cases "map_of (counts l) k") (auto simp del: key_ok.simps simp: map_of_dict_filter [OF wf] not_less)
  then show ?thesis using wf by (simp add: limiter_ok_def p wf_dict_filter)
qed

lemma hits_in_snoc:
  "hits_in k b (past @ [h]) = hits_in k b past + (if h_key h = k \<and> bucket_of h = b then 1 else 0)"
  by (simp add: hits_in_def)

lemma hits_in_0: "\<forall>h \<in> set past. h_key h = k \<longrightarrow> bucket_of h < b \<Longrightarrow> hits_in k b past = 0"
  by (auto simp: hits_in_def filter_empty_conv)

lemma bucket_end_exact:
  assumes "0 \<le> now" "now \<le> 2 ^ 52" "0 < w" "w \<le> (2::int) ^ 52"
  shows "float_of_int ((int_of_float now div w + 1) * w) = of_int ((int_of_float now div w + 1) * w)"
proof -
  define n where "n = int_of_float now"
  have "(\<lfloor>now\<rfloor> :: int) \<le> \<lfloor>of_int (2 ^ 52) :: rat\<rfloor>" using assms(2) by (intro floor_mono) simp
  then have n: "0 \<le> n" "n \<le> 2 ^ 52" using assms(1) by (simp_all add: n_def int_of_float_def)
  have "n div w * w \<le> n" "0 \<le> n div w" using assms(3) n(1)
    by (simp_all add: div_times_less_eq_dividend pos_imp_zdiv_nonneg_iff minus_mod_eq_div_mult [symmetric])
  then have "(n div w + 1) * w \<le> 2 ^ 53" "0 \<le> (n div w + 1) * w"
    using n(2) assms(3,4) by (simp_all add: distrib_right)
  then show ?thesis unfolding float_of_int_def n_def [symmetric] by (intro rnd_int) simp
qed

lemma hit_counts:
  assumes ok: "limiter_ok w past t l" and t: "0 \<le> t" and w: "\<And>k. 0 < w k"
    and h: "sound_hits w t (h # hs)"
  obtains d l' where "hit l (h_key h) (h_limit h) (h_window h) (h_now h) = Inr (d, l')"
    "dec_allowed d \<longleftrightarrow> int (hits_in (h_key h) (bucket_of h) past) + 1 \<le> h_limit h"
    "dec_retry_after d = (if dec_allowed d then 0 else rl_retry_after (h_window h) (h_now h))"
    "limiter_ok w (past @ [h]) (h_now h) l'"
proof -
  let ?k = "h_key h" and ?b = "bucket_of h"
  have now: "t \<le> h_now h" "0 \<le> h_now h" "h_now h \<le> 2 ^ 52" and win: "h_window h = w ?k" "0 < h_window h" "h_window h \<le> 2 ^ 52"
    using h by simp_all
  define l1 where "l1 = prune (h_now h) l"
  have ok1: "limiter_ok w past (h_now h) l1"
    unfolding l1_def using limiter_ok_later [OF ok t now(1) w] now(2) w by (rule limiter_ok_prune)
  have expiry: "float_of_int ((?b + 1) * h_window h) = of_int ((?b + 1) * w ?k)"
    using bucket_end_exact [OF now(2,3) win(2,3)] by (simp add: bucket_of_def win(1))
  define c where "c = hits_in ?k ?b past"
  define e where "e = \<lparr>c_window = h_window h, c_bucket = ?b, c_count = int c + 1,
    c_expires = of_int ((?b + 1) * w ?k)\<rparr>"
  have b: "?b = int_of_float (h_now h) div w ?k" by (simp add: bucket_of_def win)
  have cnt: "(case map_of (counts l1) ?k of
      None \<Rightarrow> (1, float_of_int ((?b + 1) * h_window h))
    | Some e \<Rightarrow> if c_window e = h_window h \<and> c_bucket e = ?b then (c_count e + 1, c_expires e)
        else (1, float_of_int ((?b + 1) * h_window h))) = (c_count e, c_expires e) \<and>
    (\<forall>h' \<in> set past. h_key h' = ?k \<longrightarrow> bucket_of h' \<le> ?b)"
  proof (cases "map_of (counts l1) ?k")
    case None
    then have *: "\<forall>h' \<in> set past. h_key h' = ?k \<longrightarrow> bucket_of h' < ?b"
      using ok1 [unfolded limiter_ok_def, THEN conjunct2, rule_format, of ?k] by (simp add: b)
    then have "c = 0" unfolding c_def by (rule hits_in_0)
    with None * show ?thesis by (auto simp: e_def expiry less_imp_le)
  next
    case (Some e0)
    then have e0: "c_window e0 = w ?k" "c_count e0 = int (hits_in ?k (c_bucket e0) past)"
       "c_expires e0 = of_int ((c_bucket e0 + 1) * w ?k)" "c_bucket e0 \<le> ?b"
       "\<forall>h \<in> set past. h_key h = ?k \<longrightarrow> bucket_of h \<le> c_bucket e0"
      using ok1 [unfolded limiter_ok_def, THEN conjunct2, rule_format, of ?k] by (simp_all add: b)
    have "c = 0" if "c_bucket e0 \<noteq> ?b"
      unfolding c_def using e0(4,5) that by (intro hits_in_0) force
    then have "\<forall>h' \<in> set past. h_key h' = ?k \<longrightarrow> bucket_of h' \<le> ?b" using e0(4,5) by force
    moreover have "c_bucket e0 \<noteq> ?b \<longrightarrow> c = 0"
      using \<open>c_bucket e0 \<noteq> ?b \<Longrightarrow> c = 0\<close> by blast
    ultimately show ?thesis
      using Some e0(1-3) expiry [unfolded win(1)] by (auto simp: e_def c_def win(1))
  qed
  define nx where "nx = (case next_prune_at l1 of None \<Rightarrow> Some (c_expires e)
    | Some due \<Rightarrow> if c_expires e < due then Some (c_expires e) else Some due)"
  define l' where "l' = \<lparr>counts = dict_put ?k e (counts l1), next_prune_at = nx\<rparr>"
  define okay where "okay = (int c + 1 \<le> h_limit h)"
  have 1: "hit l ?k (h_limit h) (h_window h) (h_now h) =
      Inr (\<lparr>dec_allowed = okay, dec_retry_after = (if okay then 0 else rl_retry_after (h_window h) (h_now h))\<rparr>, l')"
    using cnt win(2) unfolding hit_def Let_def l1_def [symmetric] bucket_of_def [symmetric]
    by (cases "next_prune_at l1") (simp_all add: nx_def l'_def okay_def e_def)
  have 2: "limiter_ok w (past @ [h]) (h_now h) l'"
    unfolding limiter_ok_def
  proof (intro conjI allI)
    show "wf_dict (counts l')" using ok1 by (simp add: l'_def limiter_ok_def wf_dict_put)
    fix k
    show "key_ok w (past @ [h]) (h_now h) k (map_of (counts l') k)"
    proof (cases "k = ?k")
      case True
      then show ?thesis using cnt by (simp add: l'_def dict_simps e_def hits_in_snoc c_def win(1) b)
    next
      case False
      then show ?thesis using ok1 [unfolded limiter_ok_def, THEN conjunct2, rule_format, of k]
        by (cases "map_of (counts l1) k") (auto simp: l'_def dict_simps hits_in_snoc)
    qed
  qed
  show thesis by (rule that [OF 1 _ _ 2]) (simp_all add: okay_def c_def)
qed

section \<open>Properties\<close>

lemma hits_counted:
  "limiter_ok w past t l \<Longrightarrow> 0 \<le> t \<Longrightarrow> (\<And>k. 0 < w k) \<Longrightarrow> sound_hits w t hs \<Longrightarrow>
    \<exists>ds l'. hits l hs = Inr (ds, l') \<and> length ds = length hs \<and>
      (\<forall>i < length hs. let h = hs ! i in
        (dec_allowed (ds ! i) \<longleftrightarrow>
          int (hits_in (h_key h) (bucket_of h) (past @ take i hs)) + 1 \<le> h_limit h) \<and>
        dec_retry_after (ds ! i) = (if dec_allowed (ds ! i) then 0 else rl_retry_after (h_window h) (h_now h)))"
proof (induction hs arbitrary: past t l)
  case (Cons h hs)
  obtain d l1 where d: "hit l (h_key h) (h_limit h) (h_window h) (h_now h) = Inr (d, l1)"
    "dec_allowed d \<longleftrightarrow> int (hits_in (h_key h) (bucket_of h) past) + 1 \<le> h_limit h"
    "dec_retry_after d = (if dec_allowed d then 0 else rl_retry_after (h_window h) (h_now h))"
    "limiter_ok w (past @ [h]) (h_now h) l1"
    using hit_counts [OF Cons.prems] by metis
  obtain ds l' where ds: "hits l1 hs = Inr (ds, l')" "length ds = length hs"
    "\<And>i. i < length hs \<Longrightarrow> let g = hs ! i in
        (dec_allowed (ds ! i) \<longleftrightarrow> int (hits_in (h_key g) (bucket_of g) ((past @ [h]) @ take i hs)) + 1 \<le> h_limit g) \<and>
        dec_retry_after (ds ! i) = (if dec_allowed (ds ! i) then 0 else rl_retry_after (h_window g) (h_now g))"
    using Cons.IH [OF d(4) _ Cons.prems(3)] Cons.prems(4) by auto
  have "hits l (h # hs) = Inr (d # ds, l')" using d(1) ds(1) by simp
  moreover have "let g = (h # hs) ! i in
        (dec_allowed ((d # ds) ! i) \<longleftrightarrow> int (hits_in (h_key g) (bucket_of g) (past @ take i (h # hs))) + 1 \<le> h_limit g) \<and>
        dec_retry_after ((d # ds) ! i) =
          (if dec_allowed ((d # ds) ! i) then 0 else rl_retry_after (h_window g) (h_now g))"
    if "i < length (h # hs)" for i
    using that d(2,3) ds(3) by (cases i) simp_all
  ultimately show ?case using ds(2) by (intro exI [of _ "d # ds"] exI [of _ l']) simp
qed simp

text \<open>
  C36. A fresh limiter lets a hit through exactly when it is among the first \<open>limit\<close> hits of its key
  in its window: every earlier hit of the window is counted, denied ones included, whatever other
  keys do and whenever the counters are pruned.
\<close>

theorem fixed_window_limit:
  assumes "\<forall>k. 0 < w k" "0 \<le> t" "sound_hits w t hs"
  shows "\<exists>ds l. hits empty_limiter hs = Inr (ds, l) \<and> length ds = length hs \<and>
    (\<forall>i < length hs. dec_allowed (ds ! i) \<longleftrightarrow>
      int (hits_in (h_key (hs ! i)) (bucket_of (hs ! i)) (take i hs)) + 1 \<le> h_limit (hs ! i))"
  using hits_counted [OF limiter_ok_empty assms(2) _ assms(3)] assms(1) by (fastforce simp: Let_def)

definition sample_hit :: hit_call where
  "sample_hit = \<lparr>h_key = ''k'', h_limit = 1, h_window = 60, h_now = 61\<rparr>"

theorem fixed_window_limit_witness:
  "\<exists>d1 d2 l. hits empty_limiter [sample_hit, sample_hit] = Inr ([d1, d2], l) \<and>
    dec_allowed d1 \<and> \<not> dec_allowed d2"
proof -
  let ?hs = "[sample_hit, sample_hit]"
  have "sound_hits (\<lambda>_. 60) 0 ?hs" by (simp add: sample_hit_def)
  from fixed_window_limit [OF _ _ this] obtain ds l where
    r: "hits empty_limiter ?hs = Inr (ds, l)" "length ds = length ?hs" and
    d: "\<forall>i < length ?hs. dec_allowed (ds ! i) \<longleftrightarrow>
      int (hits_in (h_key (?hs ! i)) (bucket_of (?hs ! i)) (take i ?hs)) + 1 \<le> h_limit (?hs ! i)"
    by auto
  have "dec_allowed (ds ! 0)" "\<not> dec_allowed (ds ! 1)"
    using d [rule_format, of 0] d [rule_format, of 1] by (simp_all add: hits_in_def sample_hit_def)
  moreover obtain d1 d2 where "ds = [d1, d2]" using r(2) by (auto simp: length_Suc_conv numeral_2_eq_2)
  ultimately show ?thesis using r(1) by auto
qed

text \<open>
  A denied caller is told to wait at least one second and at most the whole window, and a hit
  after exactly that many whole seconds falls in the next window.
\<close>

theorem retry_after_next_window:
  assumes "0 < window" "0 \<le> now" "later = now + of_int (rl_retry_after window now)"
  shows "1 \<le> rl_retry_after window now \<and> rl_retry_after window now \<le> window \<and>
    int_of_float later div window = int_of_float now div window + 1"
proof -
  define n where "n = int_of_float now"
  have r: "rl_retry_after window now = window - n mod window" by (simp add: rl_retry_after_def n_def)
  have bounds: "0 \<le> n mod window" "n mod window < window" using assms(1) by simp_all
  have "int_of_float later = n + (window - n mod window)"
    using assms bounds by (simp add: int_of_float_def n_def r)
  also have "\<dots> = (n div window + 1) * window"
    by (simp add: algebra_simps minus_mod_eq_mult_div [symmetric])
  finally show ?thesis using assms(1) bounds by (simp add: r n_def)
qed

theorem retry_after_next_window_witness:
  "int_of_float (61 + of_int (rl_retry_after 60 61)) div 60 = int_of_float 61 div 60 + 1"
  using retry_after_next_window [of 60 61 "61 + of_int (rl_retry_after 60 61)"] by simp

lemma hit_returns: "window \<noteq> 0 \<Longrightarrow> \<exists>d l'. hit l key limit window now = Inr (d, l')"
  by (simp add: hit_def Let_def split_beta)

lemma hits_prune_due: "prune_due l \<Longrightarrow> hits l hs = Inr (ds, l') \<Longrightarrow> prune_due l'"
proof (induction hs arbitrary: l ds)
  case (Cons h hs)
  then show ?case using hit_prune_due by (fastforce split: prod.splits)
qed simp

text \<open>
  After any hit no expired counter of another key is left: the store holds the keys seen in windows
  that are still running, and the key just counted.
\<close>

theorem no_expired_counter:
  assumes "hits empty_limiter hs = Inr (ds, l0)" "hit l0 key limit window now = Inr (d, l)"
    and "(k, e) \<in> set (counts l)" "k \<noteq> key"
  shows "now < c_expires e"
proof -
  have "prune_due l0" using hits_prune_due [OF _ assms(1)] by (simp add: prune_due_def empty_limiter_def)
  moreover have "\<exists>e'. counts l = dict_put key e' (counts (prune now l0))"
    using assms(2) by (auto simp: hit_def Let_def split: prod.splits if_splits)
  ultimately show ?thesis using assms(3,4) set_dict_put prune_live by fastforce
qed

theorem no_expired_counter_witness:
  "\<exists>ds l0 d l. hits empty_limiter [sample_hit] = Inr (ds, l0) \<and> hit l0 ''x'' 1 60 62 = Inr (d, l) \<and>
    (\<forall>e. (''k'', e) \<in> set (counts l) \<longrightarrow> 62 < c_expires e)"
proof -
  obtain ds l0 where r: "hits empty_limiter [sample_hit] = Inr (ds, l0)"
    using fixed_window_limit [of "\<lambda>_. 60" 0 "[sample_hit]"] by (auto simp: sample_hit_def)
  obtain d l where "hit l0 ''x'' 1 60 62 = Inr (d, l)" using hit_returns [of 60 l0 "''x''" 1 62] by auto
  with r show ?thesis using no_expired_counter [OF r, of "''x''" 1 60 62] by fastforce
qed

end
