(* ===== verification/Routing.thy ===== *)
theory Routing
  imports Python_Sum Domain_Errors
begin

text \<open>
  \<open>domain/routing.py\<close> and the weighted strategy (\<open>application/routing/weighted.py\<close>): quality tiers,
  candidate models, the routing context extracted from a request, the hard capability filters and
  the tier lookup every rule-based strategy ends with.
\<close>

section \<open>Tiers, candidates, contexts\<close>

datatype quality_tier = SIMPLE | MEDIUM | COMPLEX | REASONING

definition tier_order :: "quality_tier list" where
  "tier_order = [SIMPLE, MEDIUM, COMPLEX, REASONING]"

fun tier_index :: "quality_tier \<Rightarrow> nat" where
  "tier_index SIMPLE = 0"
| "tier_index MEDIUM = 1"
| "tier_index COMPLEX = 2"
| "tier_index REASONING = 3"

instantiation quality_tier :: linorder
begin

definition less_eq_quality_tier :: "quality_tier \<Rightarrow> quality_tier \<Rightarrow> bool" where
  "less_eq_quality_tier a b \<longleftrightarrow> tier_index a \<le> tier_index b"

definition less_quality_tier :: "quality_tier \<Rightarrow> quality_tier \<Rightarrow> bool" where
  "less_quality_tier a b \<longleftrightarrow> tier_index a < tier_index b"

instance
proof
  fix a b :: quality_tier
  show "a \<le> b \<Longrightarrow> b \<le> a \<Longrightarrow> a = b"
    by (cases a; cases b) (simp_all add: less_eq_quality_tier_def)
qed (auto simp: less_eq_quality_tier_def less_quality_tier_def)

end

record candidate =
  model_name :: string
  description :: string
  quality_tier :: quality_tier
  model_id :: "string option"
  model_origin :: "string option"
  source_team_id :: "string option"
  supports_vision :: bool
  supports_tools :: bool
  supports_json_schema :: bool
  context_window_tokens :: "int option"
  input_cost_per_token :: "float_py option"
  output_cost_per_token :: "float_py option"
  weight :: "float_py option"

record routing_context =
  user_text :: string
  system_prompt :: "string option"
  estimated_input_tokens :: int
  has_images :: bool
  has_tools :: bool
  wants_json_schema :: bool
  requested_max_tokens :: "json option"
  ctx_team_id :: "string option"
  ctx_api_key_id :: "string option"
  ctx_default_model :: "string option"

record routing_decision =
  chosen_name :: string
  chosen_strategy :: string
  chosen_tier :: "quality_tier option"
  chosen_score :: "float_py option"
  chosen_signals :: "string list"
  chosen_id :: "string option"

definition estimate_tokens :: "string \<Rightarrow> int" where
  "estimate_tokens text = int (length text) div 4"

section \<open>Reading a request\<close>

text \<open>
  \<open>" ".join(part for part in parts if part)\<close>: joining a part that is no string is a \<open>TypeError\<close>.
\<close>

fun truthy_parts :: "json list \<Rightarrow> exc + string list" where
  "truthy_parts [] = Inr []"
| "truthy_parts (v # vs) =
    (if truthy v then (case v of
        JStr s \<Rightarrow> rbind (truthy_parts vs) (\<lambda>ss. Inr (s # ss))
      | _ \<Rightarrow> raise_py TypeError)
     else truthy_parts vs)"

definition text_block :: "json \<Rightarrow> bool" where
  "text_block block = (case block of
     JObj d \<Rightarrow> dget d ''type'' = JStr ''text'' \<or> dget d ''type'' = JStr ''input_text''
   | _ \<Rightarrow> False)"

definition flatten_content :: "json \<Rightarrow> exc + string" where
  "flatten_content content = (case content of
     JStr s \<Rightarrow> Inr s
   | JList blocks \<Rightarrow>
       rbind (truthy_parts (map (\<lambda>b. case b of JObj d \<Rightarrow> dget_or d ''text'' (JStr []) | _ \<Rightarrow> JNull)
           (filter text_block blocks)))
         (\<lambda>parts. Inr (strip (join '' '' parts)))
   | _ \<Rightarrow> Inr [])"

definition content_has_image :: "json \<Rightarrow> bool" where
  "content_has_image content = (case content of
     JList blocks \<Rightarrow> list_ex (\<lambda>b. case b of
         JObj d \<Rightarrow> dget d ''type'' = JStr ''image_url'' \<or> dget d ''type'' = JStr ''input_image''
       | _ \<Rightarrow> False) blocks
   | _ \<Rightarrow> False)"

text \<open>The messages of the request: Chat Completions \<open>messages\<close>, or the Responses \<open>input\<close>.\<close>

definition request_messages :: "body \<Rightarrow> json list" where
  "request_messages request = (case dget request ''messages'' of
     JList ms \<Rightarrow> ms
   | _ \<Rightarrow> (case dget request ''input'' of
       JStr s \<Rightarrow> [JObj [(''role'', JStr ''user''), (''content'', JStr s)]]
     | JList items \<Rightarrow> filter is_obj items
     | _ \<Rightarrow> []))"

text \<open>The loop over \<open>reversed(messages)\<close>: its three variables, message by message.\<close>

type_synonym scan = "string \<times> string option \<times> bool"

definition scan_message :: "scan \<Rightarrow> json \<Rightarrow> exc + scan" where
  "scan_message st message = (case st of (user, sys, images) \<Rightarrow> (case message of
     JObj m \<Rightarrow>
       let role = dget_or m ''role'' (JStr []); content = dget m ''content'';
           images' = (images \<or> content_has_image content)
       in rbind (flatten_content content) (\<lambda>text.
         if role = JStr ''user'' \<and> user = [] \<and> text \<noteq> [] then Inr (text, sys, images')
         else if (role = JStr ''system'' \<or> role = JStr ''developer'') \<and> sys = None \<and> text \<noteq> []
           then Inr (user, Some text, images')
         else Inr (user, sys, images'))
   | _ \<Rightarrow> Inr st))"

fun scan_messages :: "scan \<Rightarrow> json list \<Rightarrow> exc + scan" where
  "scan_messages st [] = Inr st"
| "scan_messages st (m # ms) = rbind (scan_message st m) (\<lambda>st'. scan_messages st' ms)"

definition asks_json_schema :: "body \<Rightarrow> bool" where
  "asks_json_schema request \<longleftrightarrow>
     oget (dget request ''response_format'') ''type'' = JStr ''json_schema'' \<or>
     oget (oget (dget request ''text'') ''format'') ''type'' = JStr ''json_schema''"

definition max_tokens_fields :: "string list" where
  "max_tokens_fields = [''max_completion_tokens'', ''max_output_tokens'', ''max_tokens'']"

definition build_routing_context :: "body \<Rightarrow> string option \<Rightarrow> string option \<Rightarrow> exc + routing_context" where
  "build_routing_context request team_id api_key_id =
    rbind (scan_messages ([], None, False) (rev (request_messages request)))
      (\<lambda>(user, sys, images). Inr \<lparr>
         user_text = user, system_prompt = sys,
         estimated_input_tokens = estimate_tokens ((case sys of None \<Rightarrow> [] | Some s \<Rightarrow> s) @ '' '' @ user),
         has_images = images, has_tools = truthy (dget request ''tools''),
         wants_json_schema = asks_json_schema request,
         requested_max_tokens =
           map_option (dget request) (find (\<lambda>k. is_int (dget request k)) max_tokens_fields),
         ctx_team_id = team_id, ctx_api_key_id = api_key_id, ctx_default_model = None\<rparr>)"

section \<open>Choosing among candidates\<close>

definition capable :: "routing_context \<Rightarrow> candidate \<Rightarrow> bool" where
  "capable ctx c = (
     if has_images ctx \<and> \<not> supports_vision c then False
     else if has_tools ctx \<and> \<not> supports_tools c then False
     else if wants_json_schema ctx \<and> \<not> supports_json_schema c then False
     else case context_window_tokens c of
         None \<Rightarrow> True | Some n \<Rightarrow> \<not> n < estimated_input_tokens ctx)"

definition filter_candidates :: "routing_context \<Rightarrow> candidate list \<Rightarrow> candidate list" where
  "filter_candidates ctx candidates = filter (capable ctx) candidates"

text \<open>\<open>by_tier.setdefault(candidate.quality_tier, candidate)\<close> for each candidate in turn.\<close>

fun tiers_served :: "(quality_tier, candidate) dict \<Rightarrow> candidate list \<Rightarrow> (quality_tier, candidate) dict" where
  "tiers_served d [] = d"
| "tiers_served d (c # cs) =
    tiers_served (if has_key d (quality_tier c) then d else dict_put (quality_tier c) c d) cs"

definition search_order :: "quality_tier \<Rightarrow> quality_tier list" where
  "search_order tier = (let i = tier_index tier in rev (take (i + 1) tier_order) @ drop (i + 1) tier_order)"

definition nearest_tier_candidate :: "quality_tier \<Rightarrow> candidate list \<Rightarrow> candidate option" where
  "nearest_tier_candidate tier candidates = (let by_tier = tiers_served [] candidates in
     case find (has_key by_tier) (search_order tier) of
       None \<Rightarrow> None | Some t \<Rightarrow> map_of by_tier t)"

section \<open>The weighted strategy\<close>

text \<open>\<open>list(itertools.accumulate(weights))\<close>.\<close>

fun accumulate_from :: "float_py \<Rightarrow> float_py list \<Rightarrow> float_py list" where
  "accumulate_from a [] = []"
| "accumulate_from a (x # xs) = fadd a x # accumulate_from (fadd a x) xs"

definition accumulate :: "float_py list \<Rightarrow> float_py list" where
  "accumulate xs = (case xs of [] \<Rightarrow> [] | x # xs' \<Rightarrow> x # accumulate_from x xs')"

text \<open>\<open>bisect.bisect\<close>: the binary search of the standard library.\<close>

function bisect_in :: "float_py list \<Rightarrow> float_py \<Rightarrow> nat \<Rightarrow> nat \<Rightarrow> nat" where
  "bisect_in a x lo hi = (if lo < hi then
      let mid = (lo + hi) div 2 in if x < a ! mid then bisect_in a x lo mid else bisect_in a x (mid + 1) hi
    else lo)"
  by pat_completeness auto
termination
  by (relation "measure (\<lambda>(a, x, lo, hi). hi - lo)") (auto simp: Let_def)

declare bisect_in.simps [simp del]

definition bisect :: "float_py list \<Rightarrow> float_py \<Rightarrow> nat" where
  "bisect a x = bisect_in a x 0 (length a)"

definition positive_weight :: "candidate \<Rightarrow> exc + float_py" where
  "positive_weight c = (case weight c of
     None \<Rightarrow> raise_py ValueError
   | Some w \<Rightarrow> if w \<le> 0 then raise_py ValueError else Inr w)"

definition weighted_select :: "float_py \<Rightarrow> candidate list \<Rightarrow> exc + routing_decision" where
  "weighted_select random candidates =
    rbind (rmap positive_weight candidates) (\<lambda>weights.
      let cumulative = accumulate weights in
      if cumulative = [] then raise_py IndexError
      else let
          total_weight = last cumulative;
          draw = fmul random total_weight;
          index = min (bisect cumulative draw) (length candidates - 1);
          chosen = candidates ! index
        in Inr \<lparr>chosen_name = model_name chosen, chosen_strategy = ''weighted'', chosen_tier = None,
             chosen_score = Some (fdiv (weights ! index) total_weight),
             chosen_signals = [''weighted pick '' @ model_name chosen], chosen_id = None\<rparr>)"

section \<open>The nearest tier\<close>

lemma tier_order_UNIV: "set tier_order = UNIV"
  using quality_tier.exhaust by (auto simp: tier_order_def)

lemma map_of_tiers_served:
  "map_of (tiers_served d cs) t = (case map_of d t of
     Some c \<Rightarrow> Some c | None \<Rightarrow> find (\<lambda>c. quality_tier c = t) cs)"
  by (induction d cs rule: tiers_served.induct) (auto simp: dict_simps split: option.splits)

lemma nearest_tier_eq:
  "nearest_tier_candidate tier cs =
    (case find (\<lambda>t. \<exists>c \<in> set cs. quality_tier c = t) (search_order tier) of
       None \<Rightarrow> None | Some t \<Rightarrow> find (\<lambda>c. quality_tier c = t) cs)"
proof -
  have "has_key (tiers_served [] cs) = (\<lambda>t. \<exists>c \<in> set cs. quality_tier c = t)"
    by (auto simp: map_of_tiers_served fun_eq_iff find_Some_iff find_None_props)
  then show ?thesis
    by (simp add: nearest_tier_candidate_def Let_def map_of_tiers_served split: option.split)
qed

lemma search_orders:
  "search_order SIMPLE = [SIMPLE, MEDIUM, COMPLEX, REASONING]"
  "search_order MEDIUM = [MEDIUM, SIMPLE, COMPLEX, REASONING]"
  "search_order COMPLEX = [COMPLEX, MEDIUM, SIMPLE, REASONING]"
  "search_order REASONING = [REASONING, COMPLEX, MEDIUM, SIMPLE]"
  by (simp_all add: search_order_def tier_order_def)

text \<open>A tier is nearer than another: below the wanted one before above it, close before far.\<close>

definition nearer :: "quality_tier \<Rightarrow> quality_tier \<Rightarrow> quality_tier \<Rightarrow> bool" where
  "nearer wanted a b \<longleftrightarrow> (if b \<le> wanted then b < a \<and> a \<le> wanted else a < b)"

lemma search_order_first:
  "find P (search_order wanted) = Some t \<longleftrightarrow> P t \<and> (\<forall>u. P u \<longrightarrow> \<not> nearer wanted u t)"
proof -
  have all: "(\<forall>u. Q u) \<longleftrightarrow> Q SIMPLE \<and> Q MEDIUM \<and> Q COMPLEX \<and> Q REASONING" for Q :: "quality_tier \<Rightarrow> bool"
    using quality_tier.exhaust by metis
  show ?thesis
    unfolding all by (cases wanted; cases t)
      (simp_all add: search_orders nearer_def less_eq_quality_tier_def less_quality_tier_def)
qed

lemma search_order_UNIV: "set (search_order wanted) = UNIV"
  unfolding tier_order_UNIV [symmetric] by (cases wanted) (auto simp: search_orders tier_order_def)

lemma nearest_tier_SomeD:
  "nearest_tier_candidate wanted cs = Some c \<longleftrightarrow>
     find (\<lambda>d. quality_tier d = quality_tier c) cs = Some c \<and>
     find (\<lambda>t. \<exists>d \<in> set cs. quality_tier d = t) (search_order wanted) = Some (quality_tier c)"
  by (auto simp: nearest_tier_eq split: option.splits dest: find_Some_props)

lemma nearest_tier_None:
  "nearest_tier_candidate wanted cs = None \<longleftrightarrow> cs = []"
proof -
  let ?P = "\<lambda>t. \<exists>d \<in> set cs. quality_tier d = t"
  have none: "find ?P (search_order wanted) = None \<longleftrightarrow> cs = []"
    unfolding find_None_props search_order_UNIV by (cases cs) auto
  have "find (\<lambda>c. quality_tier c = t) cs \<noteq> None" if "find ?P (search_order wanted) = Some t" for t
    using find_Some_props [OF that] by (auto simp: find_None_props)
  with none show ?thesis by (auto simp: nearest_tier_eq split: option.splits)
qed

text \<open>
  \<open>nearest_tier_candidate\<close> finds a candidate whenever there is one; it serves the wanted tier if
  any candidate does, else the highest tier below it, else the lowest above it, and among the
  candidates of that tier it is the first one declared.
\<close>

theorem nearest_tier_is_nearest:
  "(nearest_tier_candidate wanted cs = None \<longleftrightarrow> cs = []) \<and>
   (nearest_tier_candidate wanted cs = Some c \<longleftrightarrow>
     find (\<lambda>d. quality_tier d = quality_tier c) cs = Some c \<and>
     \<not> (\<exists>d \<in> set cs. nearer wanted (quality_tier d) (quality_tier c)))"
proof -
  have "(\<exists>d \<in> set cs. quality_tier d = quality_tier c)" if "find (\<lambda>d. quality_tier d = quality_tier c) cs = Some c"
    using find_Some_props [OF that] by auto
  then show ?thesis
    unfolding nearest_tier_None nearest_tier_SomeD search_order_first by blast
qed

section \<open>The context\<close>

text \<open>The three searches the loop interleaves.\<close>

definition message_text :: "json \<Rightarrow> exc + string" where
  "message_text m = flatten_content (oget m ''content'')"

definition is_user_text :: "json \<Rightarrow> bool" where
  "is_user_text m \<longleftrightarrow> oget m ''role'' = JStr ''user'' \<and> (\<exists>t. message_text m = Inr t \<and> t \<noteq> [])"

definition is_system_text :: "json \<Rightarrow> bool" where
  "is_system_text m \<longleftrightarrow> (oget m ''role'' = JStr ''system'' \<or> oget m ''role'' = JStr ''developer'') \<and>
     (\<exists>t. message_text m = Inr t \<and> t \<noteq> [])"

definition text_or :: "string option \<Rightarrow> (json \<Rightarrow> bool) \<Rightarrow> json list \<Rightarrow> string option" where
  "text_or found P ms = (case found of Some t \<Rightarrow> Some t | None \<Rightarrow>
     (case find P ms of Some m \<Rightarrow> (case message_text m of Inr t \<Rightarrow> Some t | Inl _ \<Rightarrow> None) | None \<Rightarrow> None))"

definition blank_none :: "string \<Rightarrow> string option" where
  "blank_none s = (if s = [] then None else Some s)"

lemma dget_or_role: "dget_or m ''role'' (JStr []) = JStr (c # s) \<longleftrightarrow> dget m ''role'' = JStr (c # s)"
  by (auto simp: dget_or_def dget_def split: option.splits)

lemma scan_message_obj:
  assumes "flatten_content (dget d ''content'') = Inr t"
  shows "scan_message (u, s, i) (JObj d) = Inr (let i2 = (i \<or> content_has_image (dget d ''content'')) in
    if dget d ''role'' = JStr ''user'' \<and> u = [] \<and> t \<noteq> [] then (t, s, i2)
    else if (dget d ''role'' = JStr ''system'' \<or> dget d ''role'' = JStr ''developer'') \<and> s = None \<and> t \<noteq> []
      then (u, Some t, i2) else (u, s, i2))"
  unfolding scan_message_def Let_def prod.case json.case dget_or_role assms rbind_simps by simp

lemma text_or_skip: "\<not> P m \<Longrightarrow> text_or found P (m # ms) = text_or found P ms"
  by (cases found) (simp_all add: text_or_def)

lemma scan_messages_eq:
  "scan_messages (u, s, i) ms = Inr (u', s', i') \<Longrightarrow>
    blank_none u' = text_or (blank_none u) is_user_text ms \<and> s' = text_or s is_system_text ms \<and>
    i' = (i \<or> (\<exists>m \<in> set ms. content_has_image (oget m ''content'')))"
proof (induction ms arbitrary: u s i)
  case Nil
  then show ?case by (auto simp: text_or_def split: option.splits)
next
  case (Cons m ms)
  from Cons.prems obtain st1 where "scan_message (u, s, i) m = Inr st1" "scan_messages st1 ms = Inr (u', s', i')"
    by (auto simp only: scan_messages.simps rbind_eq_Inr)
  moreover obtain u1 s1 i1 where "st1 = (u1, s1, i1)" by (cases st1)
  ultimately have st: "scan_message (u, s, i) m = Inr (u1, s1, i1)"
    and run: "scan_messages (u1, s1, i1) ms = Inr (u', s', i')" by simp_all
  note ih = Cons.IH [OF run]
  have "text_or (blank_none u) is_user_text (m # ms) = text_or (blank_none u1) is_user_text ms \<and>
     text_or s is_system_text (m # ms) = text_or s1 is_system_text ms \<and>
     i1 = (i \<or> content_has_image (oget m ''content''))"
  proof (cases m)
    case (JObj d)
    define user system where "user \<longleftrightarrow> dget d ''role'' = JStr ''user''"
      and "system \<longleftrightarrow> dget d ''role'' = JStr ''system'' \<or> dget d ''role'' = JStr ''developer''"
    obtain t where t: "flatten_content (dget d ''content'') = Inr t"
      using st unfolding JObj scan_message_def Let_def prod.case json.case
      by (cases "flatten_content (dget d ''content'')") (simp_all only: rbind_simps sum.distinct)
    have "(u1, s1, i1) = (let i2 = (i \<or> content_has_image (dget d ''content'')) in
        if user \<and> u = [] \<and> t \<noteq> [] then (t, s, i2)
        else if system \<and> s = None \<and> t \<noteq> [] then (u, Some t, i2) else (u, s, i2))"
      using st [unfolded JObj scan_message_obj [OF t]] by (simp only: user_def system_def sum.inject)
    moreover have "\<not> (user \<and> system)" by (auto simp: user_def system_def)
    moreover have "is_user_text m \<longleftrightarrow> user \<and> t \<noteq> []" "is_system_text m \<longleftrightarrow> system \<and> t \<noteq> []"
      "message_text m = Inr t" "oget m ''content'' = dget d ''content''"
      using JObj t
      by (simp_all add: is_user_text_def is_system_text_def message_text_def oget_def user_def system_def)
    ultimately show ?thesis
      by (cases s; cases "u = []") (auto simp: text_or_def blank_none_def Let_def split: if_splits)
  qed (use st in \<open>simp_all add: scan_message_def text_or_skip is_user_text_def is_system_text_def oget_def
      content_has_image_def\<close>)
  with ih show ?case by (simp only: list.set bex_simps disj_assoc)
qed

lemma truthy_parts_Inl: "truthy_parts vs = Inl e \<Longrightarrow> e = Builtin TypeError"
  by (induction vs) (auto simp: rbind_eq_Inl split: if_splits json.splits)

lemma flatten_content_Inl: "flatten_content c = Inl e \<Longrightarrow> e = Builtin TypeError"
  by (auto simp: flatten_content_def rbind_eq_Inl split: json.splits dest: truthy_parts_Inl)

lemma scan_messages_Inl: "scan_messages st ms = Inl e \<Longrightarrow> e = Builtin TypeError"
proof (induction ms arbitrary: st)
  case (Cons m ms)
  have "scan_message st m = Inl e \<Longrightarrow> e = Builtin TypeError"
    by (cases st; cases m) (auto simp: scan_message_def Let_def rbind_eq_Inl split: if_splits dest: flatten_content_Inl)
  then show ?case using Cons by (auto simp only: scan_messages.simps rbind_eq_Inl)
qed simp

text \<open>
  The one backward pass over the messages computes what three separate searches would: the
  prompt is the text of the last user message that has any, the system prompt that of the last
  system or developer message that has any, and an image anywhere counts. A context that cannot be
  built fails with \<open>TypeError\<close>, on a text part that is not a string.
\<close>

theorem routing_context_meaning:
  "case build_routing_context request team_id api_key_id of
     Inl e \<Rightarrow> e = Builtin TypeError
   | Inr ctx \<Rightarrow> let ms = rev (request_messages request) in
       blank_none (user_text ctx) = text_or None is_user_text ms \<and>
       system_prompt ctx = text_or None is_system_text ms \<and>
       has_images ctx = (\<exists>m \<in> set ms. content_has_image (oget m ''content'')) \<and>
       0 \<le> estimated_input_tokens ctx \<and>
       4 * estimated_input_tokens ctx \<le>
         int (length (case system_prompt ctx of None \<Rightarrow> [] | Some s \<Rightarrow> s)) + 1 + int (length (user_text ctx))"
proof (cases "scan_messages ([], None, False) (rev (request_messages request))")
  case (Inl e)
  then show ?thesis using scan_messages_Inl by (auto simp: build_routing_context_def)
next
  case (Inr r)
  obtain u s i where r: "r = (u, s, i)" by (cases r)
  have meaning: "blank_none u = text_or None is_user_text (rev (request_messages request))"
    "s = text_or None is_system_text (rev (request_messages request))"
    "i = (\<exists>m \<in> set (rev (request_messages request)). content_has_image (oget m ''content''))"
    using scan_messages_eq [OF Inr [unfolded r]] by (simp_all add: blank_none_def)
  have tokens: "0 \<le> estimate_tokens str" "4 * estimate_tokens str \<le> int (length str)" for str
    by (simp_all add: estimate_tokens_def)
  show ?thesis
    using Inr meaning tokens [of "(case s of None \<Rightarrow> [] | Some s \<Rightarrow> s) @ '' '' @ u"]
    by (simp add: build_routing_context_def r Let_def algebra_simps)
qed

text \<open>A request that demands at least as much.\<close>

definition demands_more :: "routing_context \<Rightarrow> routing_context \<Rightarrow> bool" where
  "demands_more ctx ctx' \<longleftrightarrow> (has_images ctx \<longrightarrow> has_images ctx') \<and> (has_tools ctx \<longrightarrow> has_tools ctx') \<and>
     (wants_json_schema ctx \<longrightarrow> wants_json_schema ctx') \<and>
     estimated_input_tokens ctx \<le> estimated_input_tokens ctx'"

text \<open>
  The hard filters: a candidate survives exactly when it has every capability the request
  needs and room for its estimated tokens; declaration order is kept; and a more demanding request
  never gains a candidate, so filtering for it after a lesser one changes nothing.
\<close>

theorem filter_candidates_exact:
  "(c \<in> set (filter_candidates ctx cs) \<longleftrightarrow> c \<in> set cs \<and>
      (has_images ctx \<longrightarrow> supports_vision c) \<and> (has_tools ctx \<longrightarrow> supports_tools c) \<and>
      (wants_json_schema ctx \<longrightarrow> supports_json_schema c) \<and>
      (\<forall>n. context_window_tokens c = Some n \<longrightarrow> estimated_input_tokens ctx \<le> n)) \<and>
   (demands_more ctx ctx' \<longrightarrow> filter_candidates ctx' (filter_candidates ctx cs) = filter_candidates ctx' cs)"
proof -
  have ex: "capable ctx c \<longleftrightarrow> (has_images ctx \<longrightarrow> supports_vision c) \<and> (has_tools ctx \<longrightarrow> supports_tools c) \<and>
      (wants_json_schema ctx \<longrightarrow> supports_json_schema c) \<and>
      (\<forall>n. context_window_tokens c = Some n \<longrightarrow> estimated_input_tokens ctx \<le> n)" for ctx c
    by (auto simp: capable_def split: option.split)
  have "demands_more ctx ctx' \<Longrightarrow> capable ctx' d \<Longrightarrow> capable ctx d" for d
    by (force simp: ex demands_more_def)
  then have "demands_more ctx ctx' \<longrightarrow> filter_candidates ctx' (filter_candidates ctx cs) = filter_candidates ctx' cs"
    by (auto simp: filter_candidates_def intro!: filter_cong)
  then show ?thesis by (auto simp: filter_candidates_def ex)
qed

definition sample_candidate :: candidate where
  "sample_candidate = \<lparr>model_name = ''m'', description = [], quality_tier = SIMPLE, model_id = None,
     model_origin = None, source_team_id = None, supports_vision = True, supports_tools = False,
     supports_json_schema = True, context_window_tokens = Some 100, input_cost_per_token = None,
     output_cost_per_token = None, weight = Some 3\<rparr>"

definition sample_context :: routing_context where
  "sample_context = \<lparr>user_text = ''hi'', system_prompt = None, estimated_input_tokens = 1, has_images = True,
     has_tools = False, wants_json_schema = False, requested_max_tokens = None, ctx_team_id = None,
     ctx_api_key_id = None, ctx_default_model = None\<rparr>"

theorem filter_candidates_exact_witness:
  "sample_candidate \<in> set (filter_candidates sample_context [sample_candidate]) \<and>
   filter_candidates (sample_context\<lparr>has_tools := True\<rparr>) (filter_candidates sample_context [sample_candidate]) =
   filter_candidates (sample_context\<lparr>has_tools := True\<rparr>) [sample_candidate]"
  using filter_candidates_exact [of sample_candidate sample_context "[sample_candidate]"
      "sample_context\<lparr>has_tools := True\<rparr>"]
  by (simp add: sample_candidate_def sample_context_def demands_more_def)

section \<open>The weighted pick\<close>

lemma bisect_in_correct:
  assumes "sorted a" "lo \<le> hi" "hi \<le> length a"
    "\<forall>j < lo. a ! j \<le> x" "\<forall>j. hi \<le> j \<and> j < length a \<longrightarrow> x < a ! j"
  shows "bisect_in a x lo hi \<le> hi \<and> (\<forall>j < bisect_in a x lo hi. a ! j \<le> x) \<and>
    (\<forall>j. bisect_in a x lo hi \<le> j \<and> j < length a \<longrightarrow> x < a ! j)"
  using assms
proof (induction a x lo hi rule: bisect_in.induct)
  case (1 a x lo hi)
  show ?case
  proof (cases "lo < hi")
    case False
    then have "bisect_in a x lo hi = lo" by (subst bisect_in.simps) simp
    moreover have "lo = hi" using False 1(4) by simp
    ultimately show ?thesis using 1(6,7) by simp
  next
    case True
    define mid where "mid = (lo + hi) div 2"
    have mid: "lo \<le> mid" "mid < hi" using True by (simp_all add: mid_def)
    show ?thesis
    proof (cases "x < a ! mid")
      case less: True
      have "x < a ! j" if "mid \<le> j" "j < length a" for j
      proof -
        have "a ! mid \<le> a ! j" using 1(3) that by (intro sorted_nth_mono) simp_all
        with less show ?thesis by simp
      qed
      moreover have "bisect_in a x lo hi = bisect_in a x lo mid"
        using True less by (subst bisect_in.simps) (simp add: mid_def Let_def)
      moreover have "mid \<le> length a" using mid 1(5) by simp
      ultimately show ?thesis using 1(1) [OF True mid_def less 1(3) mid(1) _ 1(6)] mid by auto
    next
      case ge: False
      have "a ! j \<le> x" if "j < mid + 1" for j
      proof -
        have "a ! j \<le> a ! mid" using 1(3,5) mid that by (intro sorted_nth_mono) simp_all
        with ge show ?thesis by simp
      qed
      moreover have "bisect_in a x lo hi = bisect_in a x (mid + 1) hi"
        using True ge by (subst bisect_in.simps) (simp add: mid_def Let_def)
      moreover have "mid + 1 \<le> hi" using mid by simp
      ultimately show ?thesis using 1(2) [OF True mid_def ge 1(3) _ 1(5) _ 1(7)] by auto
    qed
  qed
qed

lemma bisect_correct:
  assumes "sorted a"
  shows "bisect a x \<le> length a" "j < bisect a x \<Longrightarrow> a ! j \<le> x"
    "bisect a x \<le> j \<Longrightarrow> j < length a \<Longrightarrow> x < a ! j"
  using bisect_in_correct [OF assms, of 0 "length a" x] by (auto simp: bisect_def)

text \<open>A weight as the configuration holds it: a positive float.\<close>

definition good_weight :: "candidate \<Rightarrow> bool" where
  "good_weight c \<longleftrightarrow> (\<exists>w. weight c = Some w \<and> 0 < w \<and> rnd w = w)"

lemma accumulate_from_mono:
  assumes "rnd a = a" "\<forall>x \<in> set xs. 0 < x"
  shows "sorted (accumulate_from a xs) \<and> (\<forall>y \<in> set (accumulate_from a xs). a \<le> y) \<and>
    length (accumulate_from a xs) = length xs"
  using assms
proof (induction a xs rule: accumulate_from.induct)
  case (2 a x xs)
  have "a \<le> fadd a x" using 2(2,3) by (intro fadd_ge) simp_all
  with 2 show ?case by fastforce
qed simp

lemma accumulate_props:
  assumes "\<forall>w \<in> set ws. 0 < w \<and> rnd w = w"
  shows "sorted (accumulate ws)" "length (accumulate ws) = length ws"
  using assms accumulate_from_mono by (cases ws; fastforce simp: accumulate_def)+

lemma positive_weights: "rmap positive_weight cs = Inr ws \<longleftrightarrow>
    (\<forall>c \<in> set cs. \<exists>w. weight c = Some w \<and> 0 < w) \<and> ws = map (\<lambda>c. the (weight c)) cs"
proof (induction cs arbitrary: ws)
  case (Cons c cs)
  have "positive_weight c = Inr w \<longleftrightarrow> weight c = Some w \<and> 0 < w" for w
    by (auto simp: positive_weight_def split: option.splits)
  then show ?case using Cons by auto
qed auto

text \<open>
  With a positive weight on every candidate a weighted router always answers: it picks the
  candidate in whose share of the running total the draw falls, and the last one when rounding
  puts the draw at the total. The router's share of a candidate is its weight over the total.
\<close>

theorem weighted_pick_by_share:
  assumes "cs \<noteq> []" "\<forall>c \<in> set cs. good_weight c"
  shows "let ws = map (\<lambda>c. the (weight c)) cs; cum = accumulate ws; draw = fmul random (last cum) in
    \<exists>d i. weighted_select random cs = Inr d \<and> i < length cs \<and> chosen_name d = model_name (cs ! i) \<and>
    chosen_score d = Some (fdiv (ws ! i) (last cum)) \<and>
    (\<forall>j < i. cum ! j \<le> draw) \<and> (draw < cum ! i \<or> i = length cs - 1)"
proof -
  define ws cum draw where "ws = map (\<lambda>c. the (weight c)) cs" and "cum = accumulate ws"
    and "draw = fmul random (last cum)"
  have good: "\<forall>w \<in> set ws. 0 < w \<and> rnd w = w" using assms(2) by (force simp: ws_def good_weight_def)
  then have cum: "sorted cum" "length cum = length cs" unfolding cum_def ws_def
    using accumulate_props [of ws] by (simp_all add: ws_def)
  have ne: "cum \<noteq> []" using cum(2) assms(1) by auto
  define i where "i = min (bisect cum draw) (length cs - 1)"
  have i: "i < length cs" using assms(1) by (cases cs) (simp_all add: i_def min_less_iff_disj)
  have "rmap positive_weight cs = Inr ws"
    using assms(2) by (auto simp: positive_weights ws_def good_weight_def)
  then have r: "weighted_select random cs = Inr \<lparr>chosen_name = model_name (cs ! i), chosen_strategy = ''weighted'',
      chosen_tier = None, chosen_score = Some (fdiv (ws ! i) (last cum)),
      chosen_signals = [''weighted pick '' @ model_name (cs ! i)], chosen_id = None\<rparr>"
    using ne unfolding weighted_select_def Let_def
    by (simp only: rbind_simps cum_def [symmetric] draw_def [symmetric] i_def [symmetric] if_False)
  have "\<forall>j < i. cum ! j \<le> draw" using bisect_correct(2) [OF cum(1)] by (simp add: i_def)
  moreover have "draw < cum ! i \<or> i = length cs - 1"
    using bisect_correct(3) [OF cum(1), of draw i] i cum(2) by (auto simp: i_def)
  ultimately show ?thesis using r i
    unfolding Let_def ws_def [symmetric] cum_def [symmetric] draw_def [symmetric] by force
qed

theorem weighted_pick_by_share_witness:
  "\<exists>d. weighted_select (1/2) [sample_candidate, sample_candidate\<lparr>model_name := ''n''\<rparr>] = Inr d \<and>
    chosen_name d = ''n''"
proof -
  define cs where "cs = [sample_candidate, sample_candidate\<lparr>model_name := ''n''\<rparr>]"
  have "rnd 3 = (3::rat)" using rnd_int [of 3] by simp
  then have good: "cs \<noteq> []" "\<forall>c \<in> set cs. good_weight c"
    by (simp_all add: cs_def good_weight_def sample_candidate_def)
  have ws: "map (\<lambda>c. the (weight c)) cs = [3, 3]" "length cs = 2"
    by (simp_all add: cs_def sample_candidate_def)
  have num: "accumulate [3, 3] = [3, 6 :: rat]" "fmul (1/2) 6 = 3" by code_simp+
  have last: "last [3, 6 :: rat] = 6" by simp
  obtain d i where d: "weighted_select (1/2) cs = Inr d" "chosen_name d = model_name (cs ! i)"
    "i < 2" "3 < [3, 6 :: rat] ! i \<or> i = 2 - 1"
    using weighted_pick_by_share [OF good, of "1/2", unfolded Let_def ws num last] by blast
  then have "i = 1" by (auto simp: less_2_cases_iff)
  with d(1,2) show ?thesis by (simp add: cs_def)
qed

end
