(* ===== verification/Python_Json.thy ===== *)
theory Python_Json
  imports Python_Floats
begin

text \<open>
  What the gateway uses of Python's \<open>json\<close> module and of \<open>str\<close>: the shortest text of a float,
  compact serialization (\<open>separators=(",", ":")\<close>, \<open>ensure_ascii=False\<close>), its size in UTF-8 bytes,
  and \<open>json.loads\<close> with the non-finite constants refused. Strings hold code points below 256.
\<close>

section \<open>Numbers as text\<close>

definition digit :: "int \<Rightarrow> char" where
  "digit n = char_of (48 + n)"

function digits_str :: "int \<Rightarrow> string" where
  "digits_str n = (if n < 10 then [digit n] else digits_str (n div 10) @ [digit (n mod 10)])"
  by pat_completeness auto
termination
  by (relation "measure nat") auto

declare digits_str.simps [simp del]

definition int_str :: "int \<Rightarrow> string" where
  "int_str i = (if i < 0 then ''-'' @ digits_str (- i) else digits_str i)"

text \<open>\<open>floor(log10(x))\<close> of a positive rational, searched from a bound on both sides.\<close>

fun exp10_up :: "nat \<Rightarrow> rat \<Rightarrow> int \<Rightarrow> int" where
  "exp10_up 0 x e = e"
| "exp10_up (Suc n) x e = (if x < 10 then e else exp10_up n (x / 10) (e + 1))"

fun exp10_down :: "nat \<Rightarrow> rat \<Rightarrow> int \<Rightarrow> int" where
  "exp10_down 0 x e = e"
| "exp10_down (Suc n) x e = (if 1 \<le> x then e else exp10_down n (x * 10) (e - 1))"

text \<open>A double lies between 10^-324 and 10^309.\<close>

definition exp10 :: "rat \<Rightarrow> int" where
  "exp10 x = (if 1 \<le> x then exp10_up 310 x 0 else exp10_down 330 x 0)"

text \<open>
  The shortest digits that read back as the same float: for each length, the two neighbours of the
  value, the nearer first. The result is the digits as a number and the exponent of the last.
\<close>

fun shortest_digits :: "nat \<Rightarrow> nat \<Rightarrow> rat \<Rightarrow> int \<times> int" where
  "shortest_digits 0 k x = (\<lfloor>x / 10 powi (exp10 x - 16)\<rfloor>, exp10 x - 16)"
| "shortest_digits (Suc n) k x = (let
      e = exp10 x - int k; lo = \<lfloor>x / 10 powi e\<rfloor>; hi = lo + 1;
      near = (if x / 10 powi e - of_int lo \<le> 1/2 then [lo, hi] else [hi, lo])
    in case find (\<lambda>c. rnd (of_int c * 10 powi e) = x) near of
         Some c \<Rightarrow> (c, e) | None \<Rightarrow> shortest_digits n (k + 1) x)"

text \<open>\<open>repr(x)\<close>: positional between 1e-4 and 1e16, scientific outside.\<close>

definition float_str :: "float_py \<Rightarrow> string" where
  "float_str x = (if x = 0 then ''0.0'' else let
      (c, e) = shortest_digits 17 0 \<bar>x\<bar>; ds = digits_str c; p = int (length ds) + e;
      body = (if -4 < p \<and> p \<le> 16 then
          (if p \<le> 0 then ''0.'' @ replicate (nat (- p)) (CHR ''0'') @ ds
           else if int (length ds) \<le> p then ds @ replicate (nat (p - int (length ds))) (CHR ''0'') @ ''.0''
           else take (nat p) ds @ ''.'' @ drop (nat p) ds)
        else hd ds # (if tl ds = [] then [] else ''.'' @ tl ds) @ ''e'' @
          (if p - 1 < 0 then ''-'' else ''+'') @
          (let x = digits_str \<bar>p - 1\<bar> in if length x = 1 then ''0'' @ x else x))
    in (if x < 0 then ''-'' @ body else body))"

section \<open>Serializing\<close>

definition hex4 :: "nat \<Rightarrow> string" where
  "hex4 n = map (\<lambda>d. if d < 10 then char_of (48 + d) else char_of (87 + d))
     [n div 4096 mod 16, n div 256 mod 16, n div 16 mod 16, n mod 16]"

definition escape_char :: "char \<Rightarrow> string" where
  "escape_char c = (let n = of_char c :: nat in
     if n = 34 then [char_of (92::nat), char_of (34::nat)] else if n = 92 then [char_of (92::nat), char_of (92::nat)]
     else if n = 8 then [char_of (92::nat), CHR ''b''] else if n = 12 then [char_of (92::nat), CHR ''f'']
     else if n = 10 then [char_of (92::nat), CHR ''n''] else if n = 13 then [char_of (92::nat), CHR ''r'']
     else if n = 9 then [char_of (92::nat), CHR ''t'']
     else if n < 32 then [char_of (92::nat), CHR ''u''] @ hex4 n
     else [c])"

definition quote_str :: "string \<Rightarrow> string" where
  "quote_str s = [char_of (34::nat)] @ concat (map escape_char s) @ [char_of (34::nat)]"

fun dumps :: "json \<Rightarrow> string" where
  "dumps JNull = ''null''"
| "dumps (JBool b) = (if b then ''true'' else ''false'')"
| "dumps (JInt i) = int_str i"
| "dumps (JFloat r) = float_str r"
| "dumps (JStr s) = quote_str s"
| "dumps (JList vs) = ''['' @ join '','' (map dumps vs) @ '']''"
| "dumps (JObj kvs) = ''{'' @ join '','' (map (\<lambda>kv. quote_str (fst kv) @ '':'' @ dumps (snd kv)) kvs) @ ''}''"

definition utf8_size :: "string \<Rightarrow> nat" where
  "utf8_size s = sum_list (map (\<lambda>c. if (of_char c :: nat) < 128 then 1 else 2) s)"

text \<open>\<open>repr(v)\<close> and \<open>str(v)\<close>: a string is quoted inside a container and not outside.\<close>

definition repr_char :: "char \<Rightarrow> char \<Rightarrow> string" where
  "repr_char quote c = (let n = of_char c :: nat; slash = char_of (92::nat) in
     if c = quote \<or> n = 92 then [slash, c]
     else if n = 9 then [slash, CHR ''t''] else if n = 10 then [slash, CHR ''n''] else if n = 13 then [slash, CHR ''r'']
     else if n < 32 \<or> 127 \<le> n \<and> n \<le> 160 \<or> n = 173 then [slash, CHR ''x''] @ drop 2 (hex4 n)
     else [c])"

definition repr_str :: "string \<Rightarrow> string" where
  "repr_str s = (let single = char_of (39::nat); double = char_of (34::nat);
       quote = (if single \<in> set s \<and> double \<notin> set s then double else single)
     in [quote] @ concat (map (repr_char quote) s) @ [quote])"

fun py_repr :: "json \<Rightarrow> string" where
  "py_repr JNull = ''None''"
| "py_repr (JBool b) = (if b then ''True'' else ''False'')"
| "py_repr (JInt i) = int_str i"
| "py_repr (JFloat r) = float_str r"
| "py_repr (JStr s) = repr_str s"
| "py_repr (JList vs) = ''['' @ join '', '' (map py_repr vs) @ '']''"
| "py_repr (JObj kvs) = ''{'' @ join '', '' (map (\<lambda>kv. repr_str (fst kv) @ '': '' @ py_repr (snd kv)) kvs) @ ''}''"

definition py_str :: "json \<Rightarrow> string" where
  "py_str v = (case v of JStr s \<Rightarrow> s | _ \<Rightarrow> py_repr v)"

section \<open>Reading\<close>

definition json_space :: "char \<Rightarrow> bool" where
  "json_space c \<longleftrightarrow> (of_char c :: nat) \<in> {32, 9, 10, 13}"

definition skip :: "string \<Rightarrow> string" where
  "skip s = dropWhile json_space s"

definition is_digit :: "char \<Rightarrow> bool" where
  "is_digit c \<longleftrightarrow> (let n = of_char c :: nat in 48 \<le> n \<and> n \<le> 57)"

definition digits_val :: "string \<Rightarrow> int" where
  "digits_val s = foldl (\<lambda>a c. 10 * a + (of_char c - 48)) 0 s"

definition hex_val :: "char \<Rightarrow> nat option" where
  "hex_val c = (let n = of_char c :: nat in
     if 48 \<le> n \<and> n \<le> 57 then Some (n - 48) else if 97 \<le> n \<and> n \<le> 102 then Some (n - 87)
     else if 65 \<le> n \<and> n \<le> 70 then Some (n - 55) else None)"

text \<open>The rest of a string literal after its opening quote, and what follows it.\<close>

fun read_string :: "string \<Rightarrow> (string \<times> string) option" where
  "read_string [] = None"
| "read_string (c # s) = (let n = of_char c :: nat in
     if n = 34 then Some ([], s)
     else if n < 32 then None
     else if n \<noteq> 92 then map_option (\<lambda>(t, r). (c # t, r)) (read_string s)
     else (case s of
       [] \<Rightarrow> None
     | e # s' \<Rightarrow> (let m = of_char e :: nat in
         if m = 34 \<or> m = 92 \<or> m = 47 then map_option (\<lambda>(t, r). (e # t, r)) (read_string s')
         else if m = 98 then map_option (\<lambda>(t, r). (char_of (8::nat) # t, r)) (read_string s')
         else if m = 102 then map_option (\<lambda>(t, r). (char_of (12::nat) # t, r)) (read_string s')
         else if m = 110 then map_option (\<lambda>(t, r). (char_of (10::nat) # t, r)) (read_string s')
         else if m = 114 then map_option (\<lambda>(t, r). (char_of (13::nat) # t, r)) (read_string s')
         else if m = 116 then map_option (\<lambda>(t, r). (char_of (9::nat) # t, r)) (read_string s')
         else if m = 117 then (case s' of
             a # b # c # d # s'' \<Rightarrow> (case (hex_val a, hex_val b, hex_val c, hex_val d) of
                 (Some a, Some b, Some c, Some d) \<Rightarrow>
                   let v = 4096 * a + 256 * b + 16 * c + d in
                   if v < 256 then map_option (\<lambda>(t, r). (char_of v # t, r)) (read_string s'') else None
               | _ \<Rightarrow> None)
           | _ \<Rightarrow> None)
         else None)))"

text \<open>A number: an int without fraction and exponent (at most 4300 digits), a float otherwise.\<close>

definition read_number :: "string \<Rightarrow> (json \<times> string) option" where
  "read_number s = (let
      (sgn, s1) = (case s of c # r \<Rightarrow> if c = CHR ''-'' then (-1, r) else (1, s) | [] \<Rightarrow> (1, s));
      ip = takeWhile is_digit s1; s2 = dropWhile is_digit s1;
      int_part = (if take 1 ip = ''0'' then ''0'' else ip); s2' = drop (length int_part) s1;
      (fr, s3) = (case s2' of
          c # r \<Rightarrow> if c = CHR ''.'' \<and> takeWhile is_digit r \<noteq> [] then (takeWhile is_digit r, dropWhile is_digit r) else ([], s2')
        | [] \<Rightarrow> ([], s2'));
      (ex, s4) = (case s3 of
          c # r \<Rightarrow> if c = CHR ''e'' \<or> c = CHR ''E'' then
              (let (neg, r') = (case r of d # q \<Rightarrow> if d = CHR ''-'' then (True, q)
                     else if d = CHR ''+'' then (False, q) else (False, r) | [] \<Rightarrow> (False, r));
                   ds = takeWhile is_digit r'
               in if ds = [] then (None, s3)
                  else (Some (if neg then - digits_val ds else digits_val ds), dropWhile is_digit r'))
            else (None, s3)
        | [] \<Rightarrow> (None, s3))
    in if ip = [] then None
       else if fr = [] \<and> ex = None
         then (if length int_part \<le> 4300 then Some (JInt (sgn * digits_val int_part), s4) else None)
       else Some (JFloat (rnd (of_int sgn * of_int (digits_val (int_part @ fr)) *
           10 powi ((case ex of None \<Rightarrow> 0 | Some e \<Rightarrow> e) - int (length fr)))), s4))"

text \<open>
  Values, by a fuel that bounds the nesting and the number of elements; a text cannot need more
  than twice its length.
\<close>

fun read_value :: "nat \<Rightarrow> string \<Rightarrow> (json \<times> string) option"
  and read_items :: "nat \<Rightarrow> string \<Rightarrow> (json list \<times> string) option"
  and read_members :: "nat \<Rightarrow> string \<Rightarrow> ((string \<times> json) list \<times> string) option" where
  "read_value 0 s = None"
| "read_value (Suc n) s = (case s of
     [] \<Rightarrow> None
   | c # r \<Rightarrow>
       if (of_char c :: nat) = 34 then map_option (\<lambda>(t, r'). (JStr t, r')) (read_string r)
       else if c = CHR ''['' then (case skip r of
           d # r' \<Rightarrow> if d = CHR '']'' then Some (JList [], r')
             else map_option (\<lambda>(vs, q). (JList vs, q)) (read_items n (d # r'))
         | [] \<Rightarrow> None)
       else if c = CHR ''{'' then (case skip r of
           d # r' \<Rightarrow> if d = CHR ''}'' then Some (JObj [], r')
             else map_option (\<lambda>(kvs, q). (JObj (dict_merge [] kvs), q)) (read_members n (d # r'))
         | [] \<Rightarrow> None)
       else if take 4 s = ''null'' then Some (JNull, drop 4 s)
       else if take 4 s = ''true'' then Some (JBool True, drop 4 s)
       else if take 5 s = ''false'' then Some (JBool False, drop 5 s)
       else read_number s)"
| "read_items 0 s = None"
| "read_items (Suc n) s = (case read_value n s of
     None \<Rightarrow> None
   | Some (v, r) \<Rightarrow> (case skip r of
       c # r' \<Rightarrow> if c = CHR '']'' then Some ([v], r')
         else if c = CHR '','' then map_option (\<lambda>(vs, q). (v # vs, q)) (read_items n (skip r'))
         else None
     | [] \<Rightarrow> None))"
| "read_members 0 s = None"
| "read_members (Suc n) s = (case s of
     q # r \<Rightarrow> if (of_char q :: nat) \<noteq> 34 then None else (case read_string r of
       None \<Rightarrow> None
     | Some (k, r1) \<Rightarrow> (case skip r1 of
         c # r2 \<Rightarrow> if c \<noteq> CHR '':'' then None else (case read_value n (skip r2) of
             None \<Rightarrow> None
           | Some (v, r3) \<Rightarrow> (case skip r3 of
               d # r4 \<Rightarrow> if d = CHR ''}'' then Some ([(k, v)], r4)
                 else if d = CHR '','' then map_option (\<lambda>(kvs, q). ((k, v) # kvs, q)) (read_members n (skip r4))
                 else None
             | [] \<Rightarrow> None))
       | [] \<Rightarrow> None))
   | [] \<Rightarrow> None)"

text \<open>\<open>json.loads(s)\<close>; \<open>None\<close> is \<open>ValueError\<close>.\<close>

definition loads :: "string \<Rightarrow> json option" where
  "loads s = (case read_value (2 * length s + 2) (skip s) of
     Some (v, r) \<Rightarrow> if skip r = [] then Some v else None
   | None \<Rightarrow> None)"

end
