(* ===== verification/Model_Entities.thy ===== *)
theory Model_Entities
  imports Pricing Python_Json
begin

text \<open>
  \<open>domain/entities/model.py\<close> and the enums it uses: providers, model types, the model with its
  parameter merge (defaults, then the client, then enforced policy), and the validation of a
  capability declaration.
\<close>

section \<open>Providers and models\<close>

datatype provider =
  OpenAI | Anthropic | Vertex_AI | Azure_OpenAI | Bedrock | Databricks | OpenAI_Compatible

datatype model_type = Chat | Image | Embeddings

fun provider_value :: "provider \<Rightarrow> string" where
  "provider_value OpenAI = ''openai''"
| "provider_value Anthropic = ''anthropic''"
| "provider_value Vertex_AI = ''vertex_ai''"
| "provider_value Azure_OpenAI = ''azure_openai''"
| "provider_value Bedrock = ''bedrock''"
| "provider_value Databricks = ''databricks''"
| "provider_value OpenAI_Compatible = ''openai_compatible''"

text \<open>\<open>Provider.honors_n\<close>: the providers that forward \<open>n\<close>.\<close>

definition honors_n :: "provider \<Rightarrow> bool" where
  "honors_n p \<longleftrightarrow> p \<in> {OpenAI, Azure_OpenAI, Databricks}"

definition chat_capability :: string where
  "chat_capability = ''chat.completions''"

definition declarable_capabilities :: "string list" where
  "declarable_capabilities = [chat_capability, ''embeddings'', ''image_generation'']"

definition default_capabilities :: "string list" where
  "default_capabilities = [chat_capability]"

text \<open>
  The fields of \<open>Model\<close>; its five rates and its image prices are together the rate card of the pricing
  theory, with the numbers as the database holds them.
\<close>

record model =
  md_id :: string
  md_team_id :: "string option"
  md_name :: string
  md_provider :: provider
  md_credential_id :: string
  md_type :: model_type
  md_provider_model_id :: string
  md_params :: body
  md_api_version :: "string option"
  md_enabled :: bool
  md_prices :: "(money_in option, money_in option) rate_card"
  md_created_at :: rat
  md_params_enforced :: body
  md_max_output_tokens :: "int option"
  md_origin_team_id :: "string option"
  md_cache_enabled :: bool
  md_cache_allow_nondeterministic :: bool
  md_cache_semantic_enabled :: bool
  md_capabilities :: "string list"

definition merge_params :: "model \<Rightarrow> body \<Rightarrow> body" where
  "merge_params m request = dict_merge (dict_merge (dict_merge [] (md_params m)) request) (md_params_enforced m)"

text \<open>A frozenset of capabilities is kept as its sorted list of members.\<close>

definition normalize_capabilities :: "provider \<Rightarrow> string list option \<Rightarrow> exc + string list" where
  "normalize_capabilities p declared = (case declared of
     None \<Rightarrow> Inr default_capabilities
   | Some cs \<Rightarrow> let capabilities = sorted_set cs in
       if capabilities = [] then Inr default_capabilities
       else if filter (\<lambda>c. c \<notin> set declarable_capabilities) capabilities \<noteq> []
         then raise_exc (Catalog InvalidModelCapabilities)
           (filter (\<lambda>c. c \<notin> set declarable_capabilities) capabilities)
       else if p \<noteq> OpenAI_Compatible \<and> capabilities \<noteq> default_capabilities
         then raise_exc (Catalog InvalidModelCapabilities) [provider_value p]
       else Inr capabilities)"

section \<open>Properties\<close>

lemma merge_params_lookup:
  assumes "wf_dict (md_params m)" "wf_dict request" "wf_dict (md_params_enforced m)"
  shows "map_of (merge_params m request) k = (case map_of (md_params_enforced m) k of
      Some v \<Rightarrow> Some v
    | None \<Rightarrow> (case map_of request k of Some v \<Rightarrow> Some v | None \<Rightarrow> map_of (md_params m) k))"
  using assms by (simp add: merge_params_def dict_simps map_add_def split: option.splits)

lemma wf_merge_params: "wf_dict (merge_params m request)"
  unfolding merge_params_def by (intro wf_dict_merge wf_dict_Nil)

lemma merge_params_dget:
  assumes "wf_dict (md_params m)" "wf_dict request" "wf_dict (md_params_enforced m)"
  shows "dget (merge_params m request) k = (if has_key (md_params_enforced m) k then dget (md_params_enforced m) k
     else if has_key request k then dget request k else dget (md_params m) k)"
  by (simp add: dget_def merge_params_lookup [OF assms] split: option.splits)

text \<open>
  What the admin enforces cannot be overridden: in the effective request every enforced
  parameter has the enforced value whatever the client sends, a client value wins over a default,
  and nothing appears that none of the three supplied.
\<close>

theorem merge_precedence:
  assumes "wf_dict (md_params m)" "wf_dict request" "wf_dict (md_params_enforced m)"
  shows "map_of (merge_params m request) = map_of (md_params m) ++ map_of request ++ map_of (md_params_enforced m) \<and>
    wf_dict (merge_params m request) \<and>
    (has_key (md_params_enforced m) k \<longrightarrow> map_of (merge_params m request) k = map_of (merge_params m other) k \<or> \<not> wf_dict other)"
  using assms merge_params_lookup [OF assms] merge_params_lookup [OF assms(1) _ assms(3), of other]
  by (auto simp: fun_eq_iff map_add_def wf_merge_params split: option.splits)

definition sample_model :: model where
  "sample_model = \<lparr>md_id = ''m1'', md_team_id = Some ''t1'', md_name = ''gpt'', md_provider = OpenAI,
     md_credential_id = ''c1'', md_type = Chat, md_provider_model_id = ''gpt-4o'',
     md_params = [(''temperature'', JInt 1)], md_api_version = None, md_enabled = True,
     md_prices = \<lparr>input_cost_per_token = None, output_cost_per_token = None, cache_write_cost_per_token = None,
       cache_read_cost_per_token = None, image_cost_per_image = None, image_prices = []\<rparr>, md_created_at = 0,
     md_params_enforced = [(''n'', JInt 1)], md_max_output_tokens = Some 100, md_origin_team_id = None,
     md_cache_enabled = False, md_cache_allow_nondeterministic = False, md_cache_semantic_enabled = False,
     md_capabilities = [''chat.completions'']\<rparr>"

theorem merge_precedence_witness:
  "map_of (merge_params sample_model [(''n'', JInt 7)]) ''n'' = Some (JInt 1)"
  using merge_precedence [of sample_model "[(''n'', JInt 7)]" "''n''" "[]"]
  by (simp add: sample_model_def wf_dict_def)

text \<open>
  A capability set that is accepted is never empty, contains only the three declarable
  operations, and differs from chat alone only on \<open>openai_compatible\<close>; an omitted or empty
  declaration serves chat and nothing else.
\<close>

theorem capabilities_fail_closed:
  "case normalize_capabilities p declared of
     Inr cs \<Rightarrow> cs \<noteq> [] \<and> set cs \<subseteq> set declarable_capabilities \<and> distinct cs \<and>
       (p = OpenAI_Compatible \<or> cs = default_capabilities) \<and>
       (declared = None \<or> declared = Some [] \<longrightarrow> cs = default_capabilities)
   | Inl e \<Rightarrow> \<exists>info. e = Domain (Catalog InvalidModelCapabilities) info NoRetry None"
proof (cases declared)
  case (Some cs)
  define s where "s = sorted_set cs"
  have s: "s = [] \<longleftrightarrow> cs = []" "distinct s" by (simp_all add: s_def)
  have d: "set default_capabilities \<subseteq> set declarable_capabilities" "default_capabilities \<noteq> []" "distinct default_capabilities"
    by (simp_all add: default_capabilities_def declarable_capabilities_def)
  have sub: "filter (\<lambda>c. c \<notin> set declarable_capabilities) s = [] \<longleftrightarrow> set s \<subseteq> set declarable_capabilities"
    by (auto simp: filter_empty_conv)
  show ?thesis
    unfolding normalize_capabilities_def Some option.case Let_def s_def [symmetric]
    using s d sub by auto
qed (simp add: normalize_capabilities_def default_capabilities_def declarable_capabilities_def)

theorem capabilities_fail_closed_witness:
  "case normalize_capabilities Bedrock (Some []) of Inr cs \<Rightarrow> cs = default_capabilities | Inl e \<Rightarrow> False"
  using capabilities_fail_closed [of Bedrock "Some []"]
  by (simp add: normalize_capabilities_def)

end
