(* ===== verification/Vertex_Call_Id.thy ===== *)
theory Vertex_Call_Id
  imports Model_Entities
begin

text \<open>
  The part of \<open>domain/chat_tool_policy.py\<close> that carries an opaque Gemini thought signature inside a
  tool call's id: base64 with a canonical-form check, and the id encoder and decoder, with their
  round trip. Byte strings are HOL strings.
\<close>

abbreviation unsupported :: "string list \<Rightarrow> exc + 'a" where
  "unsupported tag \<equiv> raise_exc (Request UnsupportedOperation) tag"

section \<open>Base64\<close>

definition b64_char :: "nat \<Rightarrow> char" where
  "b64_char n = (if n < 26 then char_of (65 + n) else if n < 52 then char_of (71 + n)
     else if n < 62 then char_of (n - 4) else if n = 62 then CHR ''+'' else CHR ''/'')"

definition b64_val :: "char \<Rightarrow> nat option" where
  "b64_val c = (let n = of_char c :: nat in
     if 65 \<le> n \<and> n \<le> 90 then Some (n - 65) else if 97 \<le> n \<and> n \<le> 122 then Some (n - 71)
     else if 48 \<le> n \<and> n \<le> 57 then Some (n + 4) else if n = 43 then Some 62
     else if n = 47 then Some 63 else None)"

fun b64encode :: "string \<Rightarrow> string" where
  "b64encode [] = []"
| "b64encode [a] = (let x = of_char a :: nat in
     [b64_char (x div 4), b64_char (x mod 4 * 16), CHR ''='', CHR ''=''])"
| "b64encode [a, b] = (let x = of_char a :: nat; y = of_char b :: nat in
     [b64_char (x div 4), b64_char (x mod 4 * 16 + y div 16), b64_char (y mod 16 * 4), CHR ''=''])"
| "b64encode (a # b # c # s) = (let x = of_char a :: nat; y = of_char b :: nat; z = of_char c :: nat in
     b64_char (x div 4) # b64_char (x mod 4 * 16 + y div 16) # b64_char (y mod 16 * 4 + z div 64) #
     b64_char (z mod 64) # b64encode s)"

text \<open>\<open>base64.b64decode(s, validate=True)\<close>; \<open>None\<close> is \<open>binascii.Error\<close>.\<close>

fun b64decode :: "string \<Rightarrow> string option" where
  "b64decode [] = Some []"
| "b64decode (p # q # r # t # s) =
    (if s = [] \<and> r = CHR ''='' \<and> t = CHR ''='' then
       (case (b64_val p, b64_val q) of
          (Some i, Some j) \<Rightarrow> Some [char_of (i * 4 + j div 16)] | _ \<Rightarrow> None)
     else if s = [] \<and> t = CHR ''='' then
       (case (b64_val p, b64_val q, b64_val r) of
          (Some i, Some j, Some k) \<Rightarrow> Some [char_of (i * 4 + j div 16), char_of (j mod 16 * 16 + k div 4)]
        | _ \<Rightarrow> None)
     else (case (b64_val p, b64_val q, b64_val r, b64_val t) of
          (Some i, Some j, Some k, Some l) \<Rightarrow>
            map_option (\<lambda>rest. char_of (i * 4 + j div 16) # char_of (j mod 16 * 16 + k div 4) #
              char_of (k mod 4 * 64 + l) # rest) (b64decode s)
        | _ \<Rightarrow> None))"
| "b64decode s = None"

section \<open>Signatures and ids\<close>

definition max_vertex_thought_signature_bytes :: nat where
  "max_vertex_thought_signature_bytes = 64 * 1024"

definition vertex_thought_signature_bypass :: string where
  "vertex_thought_signature_bypass = ''skip_thought_signature_validator''"

definition vertex_call_id_signature_delimiter :: string where
  "vertex_call_id_signature_delimiter = ''__thought__''"

definition decode_vertex_thought_signature :: "string \<Rightarrow> exc + string" where
  "decode_vertex_thought_signature value =
    (if value = [] then unsupported [''non-empty base64'']
     else case b64decode value of
       None \<Rightarrow> unsupported [''canonical base64'']
     | Some decoded \<Rightarrow>
         if decoded = [] \<or> decoded = vertex_thought_signature_bypass \<or>
           max_vertex_thought_signature_bytes < length decoded \<or> b64encode decoded \<noteq> value
         then unsupported [''canonical base64''] else Inr decoded)"

definition encode_vertex_call_id :: "string \<Rightarrow> string option \<Rightarrow> string" where
  "encode_vertex_call_id call_id signature = (case signature of
     None \<Rightarrow> call_id | Some s \<Rightarrow> call_id @ vertex_call_id_signature_delimiter @ b64encode s)"

text \<open>\<open>value.partition(sep)\<close>: the text before the first occurrence, and after it if there is one.\<close>

fun partition_at :: "string \<Rightarrow> string \<Rightarrow> string \<times> string option" where
  "partition_at sep [] = ([], if sep = [] then Some [] else None)"
| "partition_at sep (c # s) = (if starts_with sep (c # s) then ([], Some (drop (length sep) (c # s)))
     else (case partition_at sep s of (before, after) \<Rightarrow> (c # before, after)))"

definition decode_vertex_call_id :: "string \<Rightarrow> exc + string \<times> string option" where
  "decode_vertex_call_id value = (case partition_at vertex_call_id_signature_delimiter value of
     (base_id, None) \<Rightarrow> Inr (value, None)
   | (base_id, Some encoded) \<Rightarrow>
       if base_id = [] then unsupported [''call id'']
       else rbind (decode_vertex_thought_signature encoded) (\<lambda>s. Inr (base_id, Some s)))"

section \<open>The round trip\<close>

lemma b64_val_char: "n < 64 \<Longrightarrow> b64_val (b64_char n) = Some n"
  by (auto simp: b64_val_def b64_char_def Let_def)

lemma b64_char_pad: "n < 64 \<Longrightarrow> b64_char n \<noteq> CHR ''=''"
proof
  assume "n < 64" "b64_char n = CHR ''=''"
  then have "b64_val (CHR ''='') = Some n" using b64_val_char [of n] by simp
  then show False by (simp add: b64_val_def)
qed

lemma of_char_lt: "(of_char c :: nat) < 256"
  by (cases c) (simp add: of_char_def)

lemma b64_sextets:
  assumes "x < 256" "y < 256" "z < (256 :: nat)"
  shows "x div 4 < 64" "x mod 4 * 16 + y div 16 < 64" "y mod 16 * 4 + z div 64 < 64" "z mod 64 < 64"
    "x mod 4 * 16 < 64" "y mod 16 * 4 < 64"
    "x div 4 * 4 + (x mod 4 * 16 + y div 16) div 16 = x"
    "(x mod 4 * 16 + y div 16) mod 16 * 16 + (y mod 16 * 4 + z div 64) div 4 = y"
    "(y mod 16 * 4 + z div 64) mod 4 * 64 + z mod 64 = z"
    "x div 4 * 4 + (x mod 4 * 16) div 16 = x"
    "(x mod 4 * 16 + y div 16) mod 16 * 16 + (y mod 16 * 4) div 4 = y"
proof -
  have d: "y div 16 < 16" "z div 64 < 4" "x mod 4 < 4" "y mod 16 < 16" "z mod 64 < 64"
    using assms by (simp_all add: less_mult_imp_div_less)
  show "x div 4 < 64" using assms by (simp add: less_mult_imp_div_less)
  show "x mod 4 * 16 + y div 16 < 64" "y mod 16 * 4 + z div 64 < 64" "z mod 64 < 64"
    "x mod 4 * 16 < 64" "y mod 16 * 4 < 64" using d by linarith+
  have "(x mod 4 * 16 + y div 16) div 16 = x mod 4" "(x mod 4 * 16 + y div 16) mod 16 = y div 16"
    "(y mod 16 * 4 + z div 64) div 4 = y mod 16" "(y mod 16 * 4 + z div 64) mod 4 = z div 64"
    using d by simp_all
  then show "x div 4 * 4 + (x mod 4 * 16 + y div 16) div 16 = x"
    "(x mod 4 * 16 + y div 16) mod 16 * 16 + (y mod 16 * 4 + z div 64) div 4 = y"
    "(y mod 16 * 4 + z div 64) mod 4 * 64 + z mod 64 = z"
    "x div 4 * 4 + (x mod 4 * 16) div 16 = x"
    "(x mod 4 * 16 + y div 16) mod 16 * 16 + (y mod 16 * 4) div 4 = y"
    by simp_all
qed

lemma b64_roundtrip: "b64decode (b64encode s) = Some s"
proof (induction s rule: b64encode.induct)
  case (2 a)
  note b = b64_sextets [OF of_char_lt [of a] of_char_lt [of a] of_char_lt [of a]]
  show ?case using b by (simp add: Let_def b64_val_char)
next
  case (3 a b)
  note b = b64_sextets [OF of_char_lt [of a] of_char_lt [of b] of_char_lt [of b]]
  show ?case using b by (simp add: Let_def b64_val_char b64_char_pad)
next
  case (4 a b c s)
  note b = b64_sextets [OF of_char_lt [of a] of_char_lt [of b] of_char_lt [of c]]
  show ?case using 4 b by (simp add: Let_def b64_val_char b64_char_pad)
qed simp

lemma b64encode_Nil: "b64encode s = [] \<longleftrightarrow> s = []"
  by (cases s rule: b64encode.cases) (simp_all add: Let_def)

text \<open>An id in which the delimiter does not start before the end, even across it.\<close>

fun clean_id :: "string \<Rightarrow> bool" where
  "clean_id [] = True"
| "clean_id (c # s) \<longleftrightarrow> \<not> starts_with vertex_call_id_signature_delimiter
      ((c # s) @ vertex_call_id_signature_delimiter) \<and> clean_id s"

lemma starts_with_append:
  "length p \<le> length s \<Longrightarrow> starts_with p (s @ t) \<longleftrightarrow> starts_with p s"
  by (simp add: starts_with_def)

lemma partition_clean:
  assumes "clean_id i"
  shows "partition_at vertex_call_id_signature_delimiter (i @ vertex_call_id_signature_delimiter @ e) = (i, Some e)"
  using assms
proof (induction i)
  case Nil
  then show ?case by (simp add: vertex_call_id_signature_delimiter_def starts_with_def)
next
  case (Cons c i)
  have "\<not> starts_with vertex_call_id_signature_delimiter (c # i @ vertex_call_id_signature_delimiter @ e)"
    using Cons.prems starts_with_append [of vertex_call_id_signature_delimiter
        "c # i @ vertex_call_id_signature_delimiter" e] by simp
  with Cons show ?case by simp
qed

lemma starts_with_longer: "starts_with p s \<Longrightarrow> starts_with p (s @ t)"
proof -
  assume p: "starts_with p s"
  then have "length (take (length p) s) = length p" by (simp add: starts_with_def)
  then have "length p \<le> length s" by simp
  then show ?thesis using p by (simp add: starts_with_def)
qed

lemma partition_clean_none:
  "clean_id i \<Longrightarrow> partition_at vertex_call_id_signature_delimiter i = (i, None)"
proof (induction i)
  case Nil
  then show ?case by (simp add: vertex_call_id_signature_delimiter_def)
next
  case (Cons c i)
  have "\<not> starts_with vertex_call_id_signature_delimiter (c # i)"
    using Cons.prems starts_with_longer [of vertex_call_id_signature_delimiter "c # i"] by fastforce
  with Cons show ?case by simp
qed

definition good_signature :: "string \<Rightarrow> bool" where
  "good_signature s \<longleftrightarrow> s \<noteq> [] \<and> s \<noteq> vertex_thought_signature_bypass \<and>
     length s \<le> max_vertex_thought_signature_bytes"

text \<open>
  A signature survives the trip through the client: whatever call id the provider used (as long
  as the delimiter does not already occur in it), the id the client echoes decodes to the same call
  id and the same signature, and an id without a signature decodes to itself.
\<close>

theorem vertex_call_id_roundtrip:
  assumes "clean_id call_id" "call_id \<noteq> []" "pred_option good_signature signature"
  shows "decode_vertex_call_id (encode_vertex_call_id call_id signature) = Inr (call_id, signature)"
  using assms b64_roundtrip
  by (cases signature) (simp_all add: encode_vertex_call_id_def decode_vertex_call_id_def partition_clean
      partition_clean_none decode_vertex_thought_signature_def b64encode_Nil good_signature_def)

theorem vertex_call_id_roundtrip_witness:
  "decode_vertex_call_id (encode_vertex_call_id ''call_1'' (Some ''sig'')) = Inr (''call_1'', Some ''sig'')"
  by (rule vertex_call_id_roundtrip)
    (simp_all add: vertex_call_id_signature_delimiter_def starts_with_def good_signature_def
      vertex_thought_signature_bypass_def max_vertex_thought_signature_bytes_def)

lemma partition_at_Some: "partition_at sep s = (b, Some e) \<Longrightarrow> s = b @ sep @ e"
proof (induction sep s arbitrary: b rule: partition_at.induct)
  case (2 sep c s)
  then show ?case
    by (auto split: if_splits prod.splits simp: starts_with_def) (metis append_take_drop_id)
qed (auto split: if_splits)

text \<open>
  The decoder accepts only canonical ids: whatever id it splits is exactly the encoding of what it
  returns, and it never returns the validator-bypass marker or an oversized signature.
\<close>

theorem vertex_call_id_canonical:
  "case decode_vertex_call_id value of
     Inr (base_id, signature) \<Rightarrow> encode_vertex_call_id base_id signature = value \<and> pred_option good_signature signature
   | Inl e \<Rightarrow> \<exists>tag. e = Domain (Request UnsupportedOperation) tag NoRetry None"
proof -
  obtain b o' where p: "partition_at vertex_call_id_signature_delimiter value = (b, o')"
    by (cases "partition_at vertex_call_id_signature_delimiter value")
  show ?thesis
  proof (cases o')
    case None
    then show ?thesis by (simp add: decode_vertex_call_id_def p encode_vertex_call_id_def)
  next
    case (Some e)
    have v: "encode_vertex_call_id b (Some d) = value" if "b64encode d = e" for d
      using partition_at_Some [of vertex_call_id_signature_delimiter "value" b e] p Some that
      by (simp add: encode_vertex_call_id_def)
    have dec: "decode_vertex_call_id value = (if b = [] then unsupported [''call id'']
        else rbind (decode_vertex_thought_signature e) (\<lambda>s. Inr (b, Some s)))"
      by (simp add: decode_vertex_call_id_def p Some)
    show ?thesis
      unfolding dec using v
      by (auto simp: decode_vertex_thought_signature_def good_signature_def not_less split: option.splits)
  qed
qed

end
