(* ===== verification/Chat_Tool_Policy.thy ===== *)
theory Chat_Tool_Policy
  imports Vertex_Call_Id "HOL-Library.Multiset"
begin

text \<open>
  \<open>domain/chat_tool_policy.py\<close>: the validation of Chat requests for the providers whose tool contract
  is translated (Anthropic, Vertex AI, Bedrock). An \<open>UnsupportedOperation\<close> carries a tag naming the
  check instead of the message; a membership test of an unhashable value in a set is Python's
  \<open>TypeError\<close>. The lemmas show that the nesting check measures depth, that an accepted conversation
  answers every tool call, and what an accepted tool request may combine.
\<close>

section \<open>Limits and helpers\<close>

definition max_tool_count :: nat where
  "max_tool_count = 64"

definition max_tool_schema_bytes :: nat where
  "max_tool_schema_bytes = 256 * 1024"

definition max_tool_json_depth :: nat where
  "max_tool_json_depth = 32"

definition require :: "bool \<Rightarrow> string \<Rightarrow> exc + unit" where
  "require b tag = (if b then Inr () else unsupported [tag])"

lemma require_Inr [simp]: "require b tag = Inr () \<longleftrightarrow> b"
  by (simp add: require_def)

text \<open>\<open>v in {...}\<close> of a set of strings.\<close>

fun hashable :: "json \<Rightarrow> bool" where
  "hashable (JList _) = False"
| "hashable (JObj _) = False"
| "hashable _ = True"

definition in_strset :: "json \<Rightarrow> string list \<Rightarrow> exc + bool" where
  "in_strset v names = (if hashable v then Inr (\<exists>s \<in> set names. v = JStr s) else raise_py TypeError)"

definition keys :: "body \<Rightarrow> string list" where
  "keys d = map fst d"

text \<open>Some key outside \<open>allowed\<close>.\<close>

definition extra_keys :: "body \<Rightarrow> string list \<Rightarrow> string list" where
  "extra_keys d allowed = filter (\<lambda>k. k \<notin> set allowed) (keys d)"

definition keys_are :: "body \<Rightarrow> string list \<Rightarrow> bool" where
  "keys_are d names \<longleftrightarrow> set (keys d) = set names"

text \<open>\<open>for x in v\<close> over a JSON value.\<close>

fun iterate :: "json \<Rightarrow> exc + json list" where
  "iterate (JList vs) = Inr vs"
| "iterate (JStr s) = Inr (map (\<lambda>c. JStr [c]) s)"
| "iterate (JObj d) = Inr (map (\<lambda>kv. JStr (fst kv)) d)"
| "iterate _ = raise_py TypeError"

definition iterate_or_empty :: "json \<Rightarrow> exc + json list" where
  "iterate_or_empty v = (if truthy v then iterate v else Inr [])"

text \<open>Characters below 256 as \<open>str.lower()\<close> maps them.\<close>

definition lower_char :: "char \<Rightarrow> char" where
  "lower_char c = (let n = of_char c :: nat in
     if 65 \<le> n \<and> n \<le> 90 \<or> 192 \<le> n \<and> n \<le> 222 \<and> n \<noteq> 215 then char_of (n + 32) else c)"

definition lower :: "string \<Rightarrow> string" where
  "lower s = map lower_char s"

fun occurs :: "string \<Rightarrow> string \<Rightarrow> bool" where
  "occurs p [] = (p = [])"
| "occurs p (c # s) = (starts_with p (c # s) \<or> occurs p s)"

section \<open>Names and model ids\<close>

definition is_letter :: "char \<Rightarrow> bool" where
  "is_letter c \<longleftrightarrow> (let n = of_char c :: nat in 65 \<le> n \<and> n \<le> 90 \<or> 97 \<le> n \<and> n \<le> 122)"

definition name_char :: "string \<Rightarrow> char \<Rightarrow> bool" where
  "name_char extra c \<longleftrightarrow> is_letter c \<or> is_digit c \<or> c \<in> set extra"

text \<open>The four \<open>fullmatch\<close> patterns.\<close>

definition is_tool_name :: "string \<Rightarrow> bool" where
  "is_tool_name s \<longleftrightarrow> 1 \<le> length s \<and> length s \<le> 64 \<and> list_all (name_char ''_-'') s"

definition is_vertex_function_name :: "string \<Rightarrow> bool" where
  "is_vertex_function_name s \<longleftrightarrow> 1 \<le> length s \<and> length s \<le> 128 \<and>
     (is_letter (hd s) \<or> hd s = CHR ''_'') \<and> list_all (name_char ''_.:-'') (tl s)"

definition is_vertex_parameter_name :: "string \<Rightarrow> bool" where
  "is_vertex_parameter_name s \<longleftrightarrow> 1 \<le> length s \<and> length s \<le> 64 \<and>
     (is_letter (hd s) \<or> hd s = CHR ''_'') \<and> list_all (name_char ''_'') (tl s)"

definition is_bedrock_tool_use_id :: "string \<Rightarrow> bool" where
  "is_bedrock_tool_use_id s \<longleftrightarrow> 1 \<le> length s \<and> length s \<le> 64 \<and> list_all (name_char ''_.:-'') s"

text \<open>\<open>match\<close> of a pattern that may start with a region, and \<open>$\<close>, which a final newline does not disturb.\<close>

definition after_region :: "string \<Rightarrow> string list" where
  "after_region s = s # map (\<lambda>r. drop (length r) s)
     (filter (\<lambda>r. starts_with r s) [''us.'', ''eu.'', ''apac.'', ''global.''])"

definition at_end :: "string \<Rightarrow> bool" where
  "at_end s \<longleftrightarrow> s = [] \<or> s = [char_of (10 :: nat)]"

definition is_bedrock_tool_model_id :: "string \<Rightarrow> bool" where
  "is_bedrock_tool_model_id s \<longleftrightarrow> (\<exists>r \<in> set (after_region s).
     starts_with ''amazon.nova-'' r \<or>
     starts_with ''anthropic.claude-3'' r \<and> (let q = drop 18 r in at_end q \<or> hd q \<in> set ''-.:''))"

definition is_bedrock_nova_model_id :: "string \<Rightarrow> bool" where
  "is_bedrock_nova_model_id s \<longleftrightarrow> (\<exists>r \<in> set (after_region s). starts_with ''amazon.nova-'' r)"

definition vertex_families :: "string list" where
  "vertex_families = [''2.5-pro'', ''2.5-flash'', ''2.5-flash-lite'', ''3-pro'', ''3-flash'', ''3.1-pro'',
     ''3.1-flash-lite'', ''3.5-flash'', ''3.5-flash-lite'', ''3.6-flash'']"

definition digits_at :: "nat \<Rightarrow> string \<Rightarrow> bool" where
  "digits_at n s \<longleftrightarrow> n \<le> length s \<and> list_all is_digit (take n s)"

definition is_vertex_suffix :: "string \<Rightarrow> bool" where
  "is_vertex_suffix s \<longleftrightarrow> at_end s \<or>
     starts_with ''-latest'' s \<and> at_end (drop 7 s) \<or>
     starts_with ''-'' s \<and> digits_at 3 (drop 1 s) \<and> at_end (drop 4 s) \<or>
     starts_with ''-preview'' s \<and> (at_end (drop 8 s) \<or>
       starts_with ''-'' (drop 8 s) \<and> digits_at 2 (drop 9 s) \<and> starts_with ''-'' (drop 11 s) \<and>
       digits_at 2 (drop 12 s) \<and> at_end (drop 14 s))"

definition is_vertex_tool_model_id :: "string \<Rightarrow> bool" where
  "is_vertex_tool_model_id s \<longleftrightarrow> starts_with ''gemini-'' s \<and>
     (\<exists>f \<in> set vertex_families. starts_with f (drop 7 s) \<and> is_vertex_suffix (drop (7 + length f) s))"

definition bedrock_supports_named_tool_choice :: "string \<Rightarrow> bool" where
  "bedrock_supports_named_tool_choice model_id = is_bedrock_tool_model_id (lower model_id)"

definition bedrock_supports_tools :: "string \<Rightarrow> bool" where
  "bedrock_supports_tools model_id = bedrock_supports_named_tool_choice model_id"

definition vertex_supports_tools :: "string \<Rightarrow> bool" where
  "vertex_supports_tools model_id = (let normalized = lower model_id in
     if list_ex (\<lambda>marker. occurs marker normalized) [''embedding'', ''image'', ''live'', ''tts''] then False
     else is_vertex_tool_model_id normalized)"

section \<open>JSON arguments and their nesting\<close>

fun json_weight :: "json \<Rightarrow> nat" where
  "json_weight (JList vs) = Suc (sum_list (map json_weight vs))"
| "json_weight (JObj d) = Suc (sum_list (map (\<lambda>kv. json_weight (snd kv)) d))"
| "json_weight _ = 1"

fun children :: "json \<Rightarrow> json list" where
  "children (JObj d) = map snd d"
| "children (JList vs) = vs"
| "children _ = []"

lemma children_weight: "sum_list (map json_weight (children v)) < json_weight v"
  by (cases v) (simp_all add: comp_def)

text \<open>The explicit stack of \<open>validate_json_complexity\<close>; its top is the head of the list.\<close>

function complexity_loop :: "(json \<times> nat) list \<Rightarrow> exc + unit" where
  "complexity_loop [] = Inr ()"
| "complexity_loop ((current, depth) # stack) =
    (if max_tool_json_depth < depth then unsupported [''depth'']
     else complexity_loop (rev (map (\<lambda>item. (item, depth + 1)) (children current)) @ stack))"
  by pat_completeness auto
termination
proof (relation "measure (\<lambda>stack. sum_list (map (\<lambda>vd. json_weight (fst vd)) stack))")
  fix current depth stack
  have "sum_list (map (\<lambda>vd. json_weight (fst vd)) (rev (map (\<lambda>item. (item, depth + 1)) (children current)))) =
      sum_list (map json_weight (children current))"
    by (simp add: rev_map comp_def) (simp add: rev_map [symmetric])
  then show "(rev (map (\<lambda>item. (item, depth + 1)) (children current)) @ stack, (current, depth) # stack)
      \<in> measure (\<lambda>stack. sum_list (map (\<lambda>vd. json_weight (fst vd)) stack))"
    using children_weight [of current] by simp
qed simp

definition validate_json_complexity :: "json \<Rightarrow> exc + unit" where
  "validate_json_complexity v = complexity_loop [(v, 1)]"

definition json_object :: "json \<Rightarrow> exc + body" where
  "json_object v = (case v of
     JStr s \<Rightarrow> (case loads s of
         None \<Rightarrow> unsupported [''valid JSON object'']
       | Some (JObj d) \<Rightarrow> rbind (validate_json_complexity (JObj d)) (\<lambda>_. Inr d)
       | Some _ \<Rightarrow> unsupported [''decode to a JSON object''])
   | _ \<Rightarrow> unsupported [''JSON object string''])"

definition serialized_json_size :: "json \<Rightarrow> exc + nat" where
  "serialized_json_size v = rbind (validate_json_complexity v) (\<lambda>_. Inr (utf8_size (dumps v)))"

text \<open>How deep a value nests, scalars included.\<close>

fun json_depth :: "json \<Rightarrow> nat" where
  "json_depth (JList vs) = Suc (foldr max (map json_depth vs) 0)"
| "json_depth (JObj d) = Suc (foldr max (map (\<lambda>kv. json_depth (snd kv)) d) 0)"
| "json_depth _ = 1"

lemma json_depth_children: "json_depth v = Suc (foldr max (map json_depth (children v)) 0)"
  by (cases v) (simp_all add: comp_def)

lemma foldr_max_le: "foldr max xs (0::nat) \<le> n \<longleftrightarrow> (\<forall>x \<in> set xs. x \<le> n)"
  by (induction xs) auto

lemma complexity_loop_iff:
  "complexity_loop stack = Inr () \<longleftrightarrow> (\<forall>(v, d) \<in> set stack. json_depth v + d \<le> max_tool_json_depth + 1)"
proof (induction stack rule: complexity_loop.induct)
  case (2 current depth stack)
  show ?case
  proof (cases "max_tool_json_depth < depth")
    case True
    then show ?thesis using json_depth_children [of current] by auto
  next
    case False
    then have "foldr max (map json_depth (children current)) 0 + depth \<le> max_tool_json_depth \<longleftrightarrow>
        foldr max (map json_depth (children current)) 0 \<le> max_tool_json_depth - depth"
      by linarith
    also have "\<dots> \<longleftrightarrow> (\<forall>x \<in> set (children current). json_depth x + depth \<le> max_tool_json_depth)"
      unfolding foldr_max_le using False by auto
    finally have "json_depth current + depth \<le> max_tool_json_depth + 1 \<longleftrightarrow>
        (\<forall>x \<in> set (children current). json_depth x + depth \<le> max_tool_json_depth)"
      by (subst json_depth_children) simp
    moreover have "(\<forall>(v, d) \<in> set (rev (map (\<lambda>item. (item, depth + 1)) (children current)) @ stack).
          json_depth v + d \<le> max_tool_json_depth + 1) \<longleftrightarrow>
        (\<forall>x \<in> set (children current). json_depth x + depth \<le> max_tool_json_depth) \<and>
        (\<forall>(v, d) \<in> set stack. json_depth v + d \<le> max_tool_json_depth + 1)"
      by (simp add: ball_Un)
    ultimately show ?thesis using 2 [OF False] False by simp
  qed
qed simp

lemma complexity_loop_Inl: "complexity_loop stack = Inl e \<Longrightarrow> e = Domain (Request UnsupportedOperation) [''depth''] NoRetry None"
  by (induction stack rule: complexity_loop.induct) (auto split: if_splits)

lemma validate_json_complexity_iff: "validate_json_complexity v = Inr () \<longleftrightarrow> json_depth v \<le> max_tool_json_depth"
  using complexity_loop_iff [of "[(v, 1)]"] by (simp add: validate_json_complexity_def del: complexity_loop.simps)

section \<open>Names, ids and schemas\<close>

definition validate_tool_name :: "json \<Rightarrow> exc + string" where
  "validate_tool_name name = (case name of
     JStr s \<Rightarrow> if is_tool_name s then Inr s else unsupported [''tool name'']
   | _ \<Rightarrow> unsupported [''tool name''])"

definition validate_vertex_tool_name :: "json \<Rightarrow> exc + string" where
  "validate_vertex_tool_name name = (case name of
     JStr s \<Rightarrow> if is_vertex_function_name s then Inr s else unsupported [''function name'']
   | _ \<Rightarrow> unsupported [''function name''])"

definition validate_bedrock_tool_use_id :: "json \<Rightarrow> exc + string" where
  "validate_bedrock_tool_use_id v = (case v of
     JStr s \<Rightarrow> if is_bedrock_tool_use_id s then Inr s else unsupported [''tool use id'']
   | _ \<Rightarrow> unsupported [''tool use id''])"

definition validate_bedrock_tool_schema :: "model \<Rightarrow> json \<Rightarrow> exc + unit" where
  "validate_bedrock_tool_schema m schema = (case schema of
     JObj d \<Rightarrow>
       if \<not> is_bedrock_nova_model_id (lower (md_provider_model_id m)) then Inr ()
       else require (\<not> (dget d ''type'' \<noteq> JStr ''object'' \<or>
           extra_keys d [''type'', ''properties'', ''required''] \<noteq> [] \<or>
           (has_key d ''properties'' \<and> \<not> is_obj (dget d ''properties'')) \<or>
           (has_key d ''required'' \<and>
             (case dget d ''required'' of JList names \<Rightarrow> list_ex (\<lambda>n. \<not> is_str n) names | _ \<Rightarrow> True)))) ''nova schema''
   | _ \<Rightarrow> unsupported [''schema object''])"

definition vertex_schema_fields :: "string list" where
  "vertex_schema_fields = [''type'', ''nullable'', ''required'', ''format'', ''description'', ''properties'', ''items'',
     ''enum'', ''anyOf'']"

definition vertex_schema_types :: "string list" where
  "vertex_schema_types = [''object'', ''array'', ''string'', ''integer'', ''number'', ''boolean'', ''null'']"

fun is_parameter_name :: "json \<Rightarrow> bool" where
  "is_parameter_name (JStr s) = is_vertex_parameter_name s"
| "is_parameter_name _ = False"

lemma each_cong [fundef_cong]: "xs = ys \<Longrightarrow> (\<And>x. x \<in> set ys \<Longrightarrow> f x = g x) \<Longrightarrow> each f xs = each g ys"
proof (induction xs arbitrary: ys)
  case (Cons x xs)
  then show ?case by (auto intro: rbind_cong)
qed auto

lemma weight_in_list: "v \<in> set vs \<Longrightarrow> json_weight v < json_weight (JList vs)"
  by (induction vs) auto

lemma weight_in_obj: "(k, v) \<in> set d \<Longrightarrow> json_weight v < json_weight (JObj d)"
  by (induction d) auto

lemma weight_dget: "dget d k \<noteq> JNull \<Longrightarrow> json_weight (dget d k) < json_weight (JObj d)"
  by (auto simp: dget_def split: option.splits dest!: map_of_SomeD intro: weight_in_obj simp del: json_weight.simps)

lemma weight_dget_obj: "dget d k = JObj p \<Longrightarrow> (n, v) \<in> set p \<Longrightarrow> json_weight v < json_weight (JObj d)"
  using weight_dget [of d k] weight_in_obj [of n v p] by (simp del: json_weight.simps)

lemma weight_dget_list: "dget d k = JList p \<Longrightarrow> v \<in> set p \<Longrightarrow> json_weight v < json_weight (JObj d)"
  using weight_dget [of d k] weight_in_list [of v p] by (simp del: json_weight.simps)

text \<open>\<open>_validate_vertex_schema_node\<close>: the checks of a node, in the order of the code.\<close>

definition vertex_node_scalars :: "body \<Rightarrow> exc + unit" where
  "vertex_node_scalars d =
    rbind (require (extra_keys d vertex_schema_fields = []) ''schema field'') (\<lambda>_.
    rbind (require (case dget d ''type'' of JNull \<Rightarrow> True | JStr s \<Rightarrow> s \<in> set vertex_schema_types | _ \<Rightarrow> False) ''schema type'') (\<lambda>_.
    rbind (require (dget d ''nullable'' = JNull \<or> is_bool (dget d ''nullable'')) ''schema nullable'') (\<lambda>_.
    rbind (require (dget d ''format'' = JNull \<or> is_str (dget d ''format'')) ''schema format'') (\<lambda>_.
    rbind (require (dget d ''description'' = JNull \<or> is_str (dget d ''description'')) ''schema description'') (\<lambda>_.
    require (case dget d ''enum'' of JNull \<Rightarrow> True | JList vs \<Rightarrow> vs \<noteq> [] \<and> list_all is_str vs | _ \<Rightarrow> False) ''schema enum'')))))"

definition vertex_node_required :: "body \<Rightarrow> exc + unit" where
  "vertex_node_required d =
    require (case dget d ''required'' of JNull \<Rightarrow> True | JList vs \<Rightarrow> list_all is_parameter_name vs \<and> distinct vs | _ \<Rightarrow> False) ''schema required''"

text \<open>The items of an object and of a list; none for any other value, which the caller has refused.\<close>

fun obj_items :: "json \<Rightarrow> (string \<times> json) list" where
  "obj_items (JObj d) = d"
| "obj_items _ = []"

lemma weight_obj_items: "nv \<in> set (obj_items (dget d k)) \<Longrightarrow> json_weight (snd nv) < json_weight (JObj d)"
  by (cases "dget d k"; cases nv) (auto simp del: json_weight.simps intro: weight_dget_obj)

lemma weight_list_or_empty: "v \<in> set (list_or_empty (dget d k)) \<Longrightarrow> json_weight v < json_weight (JObj d)"
  by (cases "dget d k") (auto simp: list_or_empty_def simp del: json_weight.simps intro: weight_dget_list)

function (sequential) validate_vertex_schema_node :: "json \<Rightarrow> exc + unit" where
  "validate_vertex_schema_node (JObj d) =
     rbind (vertex_node_scalars d) (\<lambda>_.
     rbind (require (dget d ''properties'' = JNull \<or> is_obj (dget d ''properties'')) ''schema properties'') (\<lambda>_.
     rbind (each (\<lambda>nv. rbind (require (is_vertex_parameter_name (fst nv)) ''parameter name'')
         (\<lambda>_. validate_vertex_schema_node (snd nv))) (obj_items (dget d ''properties''))) (\<lambda>_.
     rbind (if dget d ''items'' = JNull then Inr () else validate_vertex_schema_node (dget d ''items'')) (\<lambda>_.
     rbind (require (dget d ''anyOf'' = JNull \<or> list_or_empty (dget d ''anyOf'') \<noteq> []) ''schema anyOf'') (\<lambda>_.
     rbind (each validate_vertex_schema_node (list_or_empty (dget d ''anyOf''))) (\<lambda>_.
     vertex_node_required d))))))"
| "validate_vertex_schema_node _ = unsupported [''schema object'']"
  by pat_completeness auto
termination
  by (relation "measure json_weight")
    (auto simp del: json_weight.simps intro: weight_dget weight_obj_items weight_list_or_empty)

declare validate_vertex_schema_node.simps [simp del]

definition validate_vertex_tool_schema :: "json \<Rightarrow> exc + unit" where
  "validate_vertex_tool_schema schema = rbind (validate_vertex_schema_node schema) (\<lambda>_.
     require (oget schema ''type'' = JStr ''object'') ''schema type'')"

definition validate_bedrock_tool_strict :: "json \<Rightarrow> exc + unit" where
  "validate_bedrock_tool_strict strict =
    rbind (require (strict = JNull \<or> is_bool strict) ''strict'') (\<lambda>_. require (strict \<noteq> JBool True) ''strict enabled'')"

section \<open>Messages\<close>

definition validate_text_content :: "json \<Rightarrow> exc + unit" where
  "validate_text_content content = (case content of
     JStr _ \<Rightarrow> Inr ()
   | JList parts \<Rightarrow> each (\<lambda>part. case part of
         JObj d \<Rightarrow> require (keys_are d [''type'', ''text''] \<and> dget d ''type'' = JStr ''text'' \<and> is_str (dget d ''text'')) ''content part''
       | _ \<Rightarrow> unsupported [''content part'']) parts
   | _ \<Rightarrow> unsupported [''content text''])"

text \<open>Fields outside \<open>allowed\<close> whose value is not None.\<close>

definition extra_fields :: "body \<Rightarrow> string list \<Rightarrow> string list" where
  "extra_fields d allowed = filter (\<lambda>k. k \<notin> set allowed \<and> dget d k \<noteq> JNull) (keys d)"

definition validate_message :: "json \<Rightarrow> exc + unit" where
  "validate_message message = (case message of
     JObj d \<Rightarrow> let role = dget d ''role'' in
       rbind (in_strset role [''system'', ''user'', ''assistant'', ''tool'']) (\<lambda>known.
       if \<not> known then unsupported [''role'']
       else if role = JStr ''tool'' then require (extra_fields d [''role'', ''content'', ''tool_call_id''] = []) ''message field''
       else let allowed = (if role = JStr ''assistant'' then [''role'', ''content'', ''tool_calls''] else [''role'', ''content'']) in
         rbind (require (extra_fields d allowed = []) ''message field'') (\<lambda>_.
         rbind (require (\<not> (role \<noteq> JStr ''assistant'' \<and> dget d ''tool_calls'' \<noteq> JNull)) ''tool_calls'') (\<lambda>_.
         if dget d ''content'' = JNull \<and> role = JStr ''assistant'' \<and> dget d ''tool_calls'' \<noteq> JNull then Inr ()
         else validate_text_content (dget d ''content''))))
   | _ \<Rightarrow> unsupported [''message object''])"

definition validate_messages :: "body \<Rightarrow> exc + unit" where
  "validate_messages effective = (case dget effective ''messages'' of
     JList messages \<Rightarrow> each validate_message messages
   | _ \<Rightarrow> unsupported [''messages list''])"

definition message_has_contract :: "json \<Rightarrow> exc + bool" where
  "message_has_contract message = (case message of
     JObj d \<Rightarrow> rbind (in_strset (dget d ''role'') [''tool'', ''function'']) (\<lambda>b. Inr (b \<or> dget d ''tool_calls'' \<noteq> JNull))
   | _ \<Rightarrow> Inr False)"

fun any_contract :: "json list \<Rightarrow> exc + bool" where
  "any_contract [] = Inr False"
| "any_contract (v # vs) = rbind (message_has_contract v) (\<lambda>b. if b then Inr True else any_contract vs)"

definition has_tool_contract :: "body \<Rightarrow> exc + bool" where
  "has_tool_contract request =
    (if \<exists>f \<in> set [''tools'', ''tool_choice'', ''parallel_tool_calls'']. dget request f \<noteq> JNull then Inr True
     else rbind (iterate_or_empty (dget request ''messages'')) any_contract)"

section \<open>Tools\<close>

text \<open>One tool: its name and the size of its schema.\<close>

definition validate_tool :: "model \<Rightarrow> string list \<Rightarrow> json \<Rightarrow> exc + string \<times> nat" where
  "validate_tool m names tool = (let p = md_provider m in case tool of
     JObj d \<Rightarrow>
      (case dget d ''function'' of
        JObj fn \<Rightarrow>
         rbind (require (keys_are d [''type'', ''function''] \<and> dget d ''type'' = JStr ''function'') ''function tool'') (\<lambda>_.
         rbind (require (extra_keys fn [''name'', ''description'', ''parameters'', ''strict''] = []) ''function field'') (\<lambda>_.
         rbind (if p = Vertex_AI then validate_vertex_tool_name (dget fn ''name'') else validate_tool_name (dget fn ''name'')) (\<lambda>name.
         rbind (require (name \<notin> set names) ''duplicate tool name'') (\<lambda>_.
         let description = dget fn ''description'' in
         rbind (require (description = JNull \<or> is_str description) ''description'') (\<lambda>_.
         rbind (require (\<not> (p = Bedrock \<and> description = JStr [])) ''empty description'') (\<lambda>_.
         let parameters = dget_or fn ''parameters'' (JObj [(''type'', JStr ''object'')]) in
         rbind (require (is_obj parameters) ''parameters object'') (\<lambda>_.
         rbind (validate_json_complexity parameters) (\<lambda>_.
         rbind (if p = Bedrock then validate_bedrock_tool_schema m parameters
                else if p = Vertex_AI then validate_vertex_tool_schema parameters else Inr ()) (\<lambda>_.
         rbind (serialized_json_size parameters) (\<lambda>size.
         let strict = dget fn ''strict'' in
         rbind (if p = Bedrock then validate_bedrock_tool_strict strict
                else if p = Vertex_AI \<and> strict \<noteq> JNull then unsupported [''strict'']
                else if strict \<noteq> JNull \<and> \<not> is_bool strict then unsupported [''strict'']
                else Inr ()) (\<lambda>_.
         Inr (name, size))))))))))))
      | _ \<Rightarrow> unsupported [''function tool''])
   | _ \<Rightarrow> unsupported [''function tool''])"

fun validate_tools_loop :: "model \<Rightarrow> json list \<Rightarrow> string list \<Rightarrow> nat \<Rightarrow> exc + string list \<times> nat" where
  "validate_tools_loop m [] names schema_bytes = Inr (names, schema_bytes)"
| "validate_tools_loop m (tool # tools) names schema_bytes = rbind (validate_tool m names tool) (\<lambda>(name, size).
     validate_tools_loop m tools (names @ [name]) (schema_bytes + size))"

definition validate_tools :: "body \<Rightarrow> model \<Rightarrow> exc + string list" where
  "validate_tools effective m = (case dget effective ''tools'' of
     JList tools \<Rightarrow>
       if tools = [] then unsupported [''tools list'']
       else if max_tool_count < length tools then unsupported [''tool count'']
       else rbind (validate_tools_loop m tools [] 0) (\<lambda>(names, schema_bytes).
         if max_tool_schema_bytes < schema_bytes then unsupported [''schema bytes''] else Inr names)
   | _ \<Rightarrow> unsupported [''tools list''])"

section \<open>Structured output and tool choice\<close>

definition validate_bedrock_structured_tool :: "model \<Rightarrow> json \<Rightarrow> json \<Rightarrow> exc + unit" where
  "validate_bedrock_structured_tool m name schema =
    rbind (require (bedrock_supports_tools (md_provider_model_id m)) ''structured model'') (\<lambda>_.
    rbind (validate_tool_name name) (\<lambda>_.
    rbind (require (is_obj schema) ''structured schema'') (\<lambda>_.
    rbind (serialized_json_size schema) (\<lambda>size.
    rbind (require (size \<le> max_tool_schema_bytes) ''structured schema size'') (\<lambda>_.
    unsupported [''structured output''])))))"

definition validate_bedrock_response_format :: "model \<Rightarrow> body \<Rightarrow> exc + unit" where
  "validate_bedrock_response_format m effective = (let response_format = dget effective ''response_format'' in
     if md_provider m \<noteq> Bedrock \<or> response_format = JNull then Inr ()
     else case response_format of
       JObj d \<Rightarrow> let format_type = dget d ''type'' in
         rbind (in_strset format_type [''text'', ''json_object'']) (\<lambda>plain.
         if plain then require (keys_are d [''type'']) ''response_format field''
         else rbind (require (format_type = JStr ''json_schema'') ''response_format type'') (\<lambda>_.
           rbind (require (keys_are d [''type'', ''json_schema'']) ''response_format shape'') (\<lambda>_.
           case dget d ''json_schema'' of
             JObj js \<Rightarrow>
               rbind (require (extra_keys js [''name'', ''description'', ''schema'', ''strict''] = []) ''json_schema field'') (\<lambda>_.
               rbind (require (dget js ''description'' = JNull \<or> is_str (dget js ''description'')) ''json_schema description'') (\<lambda>_.
               rbind (require (dget js ''strict'' = JNull \<or> is_bool (dget js ''strict'')) ''json_schema strict'') (\<lambda>_.
               validate_bedrock_structured_tool m (py_or (dget js ''name'') (JStr ''structured_output'')) (dget js ''schema''))))
           | _ \<Rightarrow> unsupported [''json_schema object''])))
     | _ \<Rightarrow> unsupported [''response_format object''])"

definition named_choice :: "json \<Rightarrow> string list \<Rightarrow> exc + bool" where
  "named_choice choice tool_names = (case choice of
     JObj d \<Rightarrow> (if keys_are d [''type'', ''function''] \<and> dget d ''type'' = JStr ''function'' then
         (case dget d ''function'' of
            JObj fn \<Rightarrow> if keys_are fn [''name''] then in_strset (dget fn ''name'') tool_names else Inr False
          | _ \<Rightarrow> Inr False)
       else Inr False)
   | _ \<Rightarrow> Inr False)"

definition validate_tool_choice :: "body \<Rightarrow> string list \<Rightarrow> model \<Rightarrow> exc + unit" where
  "validate_tool_choice effective tool_names m = (let p = md_provider m; choice = dget effective ''tool_choice'' in
     rbind (if choice = JNull then Inr False else
        rbind (named_choice choice tool_names) (\<lambda>valid_named.
        rbind (require ((\<exists>s \<in> set [''auto'', ''none'', ''required'']. choice = JStr s) \<or> valid_named) ''tool_choice'') (\<lambda>_.
        Inr valid_named))) (\<lambda>valid_named.
     rbind (require (\<not> (p = Bedrock \<and> choice = JStr ''none'')) ''tool_choice none'') (\<lambda>_.
     rbind (require (\<not> (p = Bedrock \<and> valid_named \<and> \<not> bedrock_supports_named_tool_choice (md_provider_model_id m)))
        ''named tool_choice'') (\<lambda>_.
     let parallel = dget effective ''parallel_tool_calls'' in
     rbind (require (parallel = JNull \<or> is_bool parallel) ''parallel_tool_calls'') (\<lambda>_.
     rbind (require (\<not> (p = Bedrock \<and> parallel = JBool False)) ''bedrock parallel'') (\<lambda>_.
     require (\<not> (p = Vertex_AI \<and> parallel = JBool False)) ''vertex parallel''))))))"

section \<open>Replayed tool calls\<close>

definition vertex_gateway_call_id_prefix :: string where
  "vertex_gateway_call_id_prefix = ''function-call-gateway-''"

definition validate_vertex_extra_content :: "json \<Rightarrow> string \<Rightarrow> exc + unit" where
  "validate_vertex_extra_content extra_content call_id = (case extra_content of
     JNull \<Rightarrow> Inr ()
   | JObj d \<Rightarrow>
       rbind (require (d \<noteq> [] \<and> extra_keys d [''litestar_gateway''] = []) ''extra_content'') (\<lambda>_.
       case dget d ''litestar_gateway'' of
         JObj g \<Rightarrow> require (keys_are g [''synthetic_call_id''] \<and> dget g ''synthetic_call_id'' = JBool True \<and>
           starts_with vertex_gateway_call_id_prefix call_id) ''synthetic_call_id''
       | _ \<Rightarrow> unsupported [''synthetic_call_id''])
   | _ \<Rightarrow> unsupported [''extra_content''])"

text \<open>The ids seen, the ids with no result yet, and the order in which these were called.\<close>

record replay_state =
  seen_call_ids :: "string list"
  pending_call_ids :: "string list"
  pending_call_order :: "string list"

definition replay_init :: replay_state where
  "replay_init = \<lparr>seen_call_ids = [], pending_call_ids = [], pending_call_order = []\<rparr>"

text \<open>The id and the arguments of one call, after the checks of its shape.\<close>

definition replay_call_shape :: "model \<Rightarrow> string list \<Rightarrow> string list \<Rightarrow> json \<Rightarrow> exc + string \<times> json" where
  "replay_call_shape m tool_names seen call = (case call of
     JObj d \<Rightarrow> (case (dget d ''id'', dget d ''function'') of
       (JStr call_id, JObj fn) \<Rightarrow>
         rbind (require (extra_keys d ([''id'', ''type'', ''function''] @ (if md_provider m = Vertex_AI then [''extra_content''] else [])) = [] \<and>
             (\<forall>k \<in> set [''id'', ''type'', ''function'']. has_key d k) \<and> dget d ''type'' = JStr ''function'' \<and>
             call_id \<noteq> [] \<and> call_id \<notin> set seen \<and> keys_are fn [''name'', ''arguments'']) ''tool call'') (\<lambda>_.
         rbind (in_strset (dget fn ''name'') tool_names) (\<lambda>known.
         rbind (require known ''tool call'') (\<lambda>_.
         Inr (call_id, dget fn ''arguments''))))
     | _ \<Rightarrow> unsupported [''tool call''])
   | _ \<Rightarrow> unsupported [''tool call''])"

definition replay_call :: "model \<Rightarrow> string list \<Rightarrow> nat \<Rightarrow> json \<Rightarrow> replay_state \<Rightarrow> exc + replay_state" where
  "replay_call m tool_names call_index call st =
    rbind (replay_call_shape m tool_names (seen_call_ids st) call) (\<lambda>(call_id, arguments).
    rbind (if md_provider m = Bedrock then rbind (validate_bedrock_tool_use_id (JStr call_id)) (\<lambda>_. Inr ()) else Inr ()) (\<lambda>_.
    rbind (json_object arguments) (\<lambda>_.
    let st' = st\<lparr>seen_call_ids := seen_call_ids st @ [call_id],
      pending_call_ids := pending_call_ids st @ [call_id], pending_call_order := pending_call_order st @ [call_id]\<rparr> in
    if md_provider m = Vertex_AI then
      rbind (validate_vertex_extra_content (oget call ''extra_content'') call_id) (\<lambda>_.
      rbind (decode_vertex_call_id call_id) (\<lambda>(_, signature).
      rbind (require (\<not> (signature \<noteq> None \<and> call_index \<noteq> 0)) ''signature position'') (\<lambda>_. Inr st')))
    else Inr st')))"

fun replay_calls :: "model \<Rightarrow> string list \<Rightarrow> nat \<Rightarrow> json list \<Rightarrow> replay_state \<Rightarrow> exc + replay_state" where
  "replay_calls m tool_names i [] st = Inr st"
| "replay_calls m tool_names i (call # calls) st =
    rbind (replay_call m tool_names i call st) (\<lambda>st'. replay_calls m tool_names (i + 1) calls st')"

text \<open>A Gemini 3 model needs a signature on the first replayed call.\<close>

definition first_call_signed :: "model \<Rightarrow> json list \<Rightarrow> exc + unit" where
  "first_call_signed m tool_calls =
    (if md_provider m = Vertex_AI \<and> starts_with ''gemini-3'' (lower (md_provider_model_id m)) then
       (case oget (hd tool_calls) ''id'' of
          JStr call_id \<Rightarrow> rbind (decode_vertex_call_id call_id) (\<lambda>(_, signature). require (signature \<noteq> None) ''missing signature'')
        | _ \<Rightarrow> Inr ())
     else Inr ())"

definition replay_message :: "model \<Rightarrow> string list \<Rightarrow> json \<Rightarrow> replay_state \<Rightarrow> exc + replay_state" where
  "replay_message m tool_names message st = (case message of
     JObj d \<Rightarrow> let role = dget d ''role''; tool_calls = dget d ''tool_calls'' in
       if role = JStr ''assistant'' \<and> tool_calls \<noteq> JNull then
         (if pending_call_ids st \<noteq> [] then unsupported [''tool_calls'']
          else case tool_calls of
            JList (c # cs) \<Rightarrow> rbind (replay_calls m tool_names 0 (c # cs) st) (\<lambda>st'.
              rbind (first_call_signed m (c # cs)) (\<lambda>_. Inr st'))
          | _ \<Rightarrow> unsupported [''tool_calls''])
       else if role = JStr ''tool'' then
         (case dget d ''tool_call_id'' of
            JStr call_id \<Rightarrow>
              if pending_call_ids st = [] \<or> call_id \<notin> set (pending_call_ids st) \<or> \<not> is_str (dget d ''content'') \<or>
                 (md_provider m = Vertex_AI \<and> pending_call_order st \<noteq> [] \<and> call_id \<noteq> hd (pending_call_order st))
              then unsupported [''tool result'']
              else Inr (st\<lparr>pending_call_ids := removeAll call_id (pending_call_ids st),
                           pending_call_order := remove1 call_id (pending_call_order st)\<rparr>)
          | _ \<Rightarrow> unsupported [''tool result''])
       else if pending_call_ids st \<noteq> [] then unsupported [''no result'']
       else Inr st
   | _ \<Rightarrow> Inr st)"

fun replay_loop :: "model \<Rightarrow> string list \<Rightarrow> json list \<Rightarrow> replay_state \<Rightarrow> exc + replay_state" where
  "replay_loop m tool_names [] st = Inr st"
| "replay_loop m tool_names (v # vs) st = rbind (replay_message m tool_names v st) (\<lambda>st'. replay_loop m tool_names vs st')"

definition validate_tool_replay :: "body \<Rightarrow> string list \<Rightarrow> model \<Rightarrow> exc + unit" where
  "validate_tool_replay effective tool_names m =
    rbind (iterate_or_empty (dget effective ''messages'')) (\<lambda>messages.
    rbind (replay_loop m tool_names messages replay_init) (\<lambda>st.
    require (pending_call_ids st = []) ''incomplete replay''))"

section \<open>The request\<close>

definition stream_field_ok :: "json \<Rightarrow> bool" where
  "stream_field_ok v \<longleftrightarrow> v = JNull \<or> is_bool v"

definition translated_chat_providers :: "provider list" where
  "translated_chat_providers = [Anthropic, Vertex_AI, Bedrock]"

definition validate_chat_request :: "model \<Rightarrow> body \<Rightarrow> exc + body" where
  "validate_chat_request m request = (let p = md_provider m; raw_stream = dget request ''stream'' in
    rbind (require (stream_field_ok raw_stream) ''stream'') (\<lambda>_.
    if p \<notin> set translated_chat_providers then Inr request
    else let effective = merge_params m request; effective_stream = dget effective ''stream'' in
      rbind (require (stream_field_ok effective_stream) ''stream'') (\<lambda>_.
      rbind (validate_messages effective) (\<lambda>_.
      rbind (validate_bedrock_response_format m effective) (\<lambda>_.
      rbind (has_tool_contract effective) (\<lambda>contract.
      if \<not> contract then Inr request
      else
        rbind (require (\<not> (p = Vertex_AI \<and> \<not> vertex_supports_tools (md_provider_model_id m))) ''vertex model'') (\<lambda>_.
        rbind (require (\<not> (p = Bedrock \<and> \<not> bedrock_supports_tools (md_provider_model_id m))) ''bedrock model'') (\<lambda>_.
        rbind (require (\<not> (raw_stream = JBool True \<and> effective_stream \<noteq> JBool True)) ''enforced stream'') (\<lambda>_.
        rbind (require (\<not> (effective_stream = JBool True \<and> p \<noteq> Anthropic)) ''streaming tools'') (\<lambda>_.
        rbind (require (dget effective ''response_format'' = JNull) ''response_format'') (\<lambda>_.
        rbind (validate_tools effective m) (\<lambda>tool_names.
        rbind (validate_tool_choice effective tool_names m) (\<lambda>_.
        rbind (validate_tool_replay effective tool_names m) (\<lambda>_.
        Inr request))))))))))))))"

section \<open>What an accepted request satisfies\<close>

text \<open>The two ways the validation can fail.\<close>

definition policy_error :: "exc \<Rightarrow> bool" where
  "policy_error e \<longleftrightarrow> e = Builtin TypeError \<or> (\<exists>tag. e = Domain (Request UnsupportedOperation) tag NoRetry None)"

definition fails_closed :: "exc + 'a \<Rightarrow> bool" where
  "fails_closed r \<longleftrightarrow> (\<forall>e. r = Inl e \<longrightarrow> policy_error e)"

named_theorems closed_intros \<open>operations that only raise policy errors\<close>

lemma fails_closed_basic [simp, closed_intros]:
  "fails_closed (Inr x)" "fails_closed (unsupported tag)" "fails_closed (raise_py TypeError)"
  "fails_closed (require b which)" "fails_closed (in_strset v names)"
  by (simp_all add: fails_closed_def policy_error_def require_def in_strset_def)

lemma fails_closed_rbind [closed_intros]:
  "fails_closed r \<Longrightarrow> (\<And>x. r = Inr x \<Longrightarrow> fails_closed (f x)) \<Longrightarrow> fails_closed (rbind r f)"
  by (cases r) (auto simp: fails_closed_def)

lemma fails_closed_if [closed_intros]:
  "(b \<Longrightarrow> fails_closed r) \<Longrightarrow> (\<not> b \<Longrightarrow> fails_closed r') \<Longrightarrow> fails_closed (if b then r else r')"
  by simp

lemma fails_closed_json [closed_intros]:
  "fails_closed a \<Longrightarrow> (\<And>b. fails_closed (fb b)) \<Longrightarrow> (\<And>i. fails_closed (fi i)) \<Longrightarrow> (\<And>q. fails_closed (ff q)) \<Longrightarrow>
   (\<And>s. fails_closed (fs s)) \<Longrightarrow> (\<And>l. v = JList l \<Longrightarrow> fails_closed (fl l)) \<Longrightarrow> (\<And>d. v = JObj d \<Longrightarrow> fails_closed (fo d)) \<Longrightarrow>
   fails_closed (case v of JNull \<Rightarrow> a | JBool b \<Rightarrow> fb b | JInt i \<Rightarrow> fi i | JFloat q \<Rightarrow> ff q | JStr s \<Rightarrow> fs s
     | JList l \<Rightarrow> fl l | JObj d \<Rightarrow> fo d)"
  by (cases v) auto

lemma fails_closed_prod [closed_intros]: "(\<And>a b. fails_closed (f a b)) \<Longrightarrow> fails_closed (case x of (a, b) \<Rightarrow> f a b)"
  by (cases x) simp

lemma fails_closed_option [closed_intros]:
  "fails_closed a \<Longrightarrow> (\<And>b. fails_closed (f b)) \<Longrightarrow> fails_closed (case x of None \<Rightarrow> a | Some b \<Rightarrow> f b)"
  by (cases x) auto

lemma fails_closed_list [closed_intros]:
  "fails_closed a \<Longrightarrow> (\<And>y ys. fails_closed (f y ys)) \<Longrightarrow> fails_closed (case xs of [] \<Rightarrow> a | y # ys \<Rightarrow> f y ys)"
  by (cases xs) auto

lemma fails_closed_each [closed_intros]: "(\<And>x. x \<in> set xs \<Longrightarrow> fails_closed (f x)) \<Longrightarrow> fails_closed (each f xs)"
  by (induction xs) (auto intro: fails_closed_rbind)

lemma closed_complexity [closed_intros]: "fails_closed (validate_json_complexity v)"
  by (auto simp: fails_closed_def policy_error_def validate_json_complexity_def dest: complexity_loop_Inl)

lemma closed_size [closed_intros]: "fails_closed (serialized_json_size v)"
  unfolding serialized_json_size_def by (intro closed_intros)

lemma closed_object [closed_intros]: "fails_closed (json_object v)"
  unfolding json_object_def by (intro closed_intros)

lemma closed_names [closed_intros]:
  "fails_closed (validate_tool_name v)" "fails_closed (validate_vertex_tool_name v)" "fails_closed (validate_bedrock_tool_use_id v)"
  unfolding validate_tool_name_def validate_vertex_tool_name_def validate_bedrock_tool_use_id_def by (intro closed_intros)+

lemma closed_vertex_node [closed_intros]: "fails_closed (validate_vertex_schema_node v)"
proof (induction v rule: validate_vertex_schema_node.induct)
  case (1 d)
  have "fails_closed (vertex_node_scalars d)" "fails_closed (vertex_node_required d)"
    unfolding vertex_node_scalars_def vertex_node_required_def by (intro closed_intros)+
  with 1 show ?case
    unfolding validate_vertex_schema_node.simps by (intro closed_intros) (simp_all add: obj_items.simps)
qed (simp_all add: validate_vertex_schema_node.simps)

lemma closed_schemas [closed_intros]:
  "fails_closed (validate_bedrock_tool_schema m v)" "fails_closed (validate_vertex_tool_schema v)"
  "fails_closed (validate_bedrock_tool_strict v)"
  unfolding validate_bedrock_tool_schema_def validate_vertex_tool_schema_def validate_bedrock_tool_strict_def
  by (intro closed_intros)+

lemma closed_messages [closed_intros]:
  "fails_closed (validate_text_content v)" "fails_closed (validate_message v)" "fails_closed (validate_messages effective)"
proof -
  show t: "fails_closed (validate_text_content v)" for v
    unfolding validate_text_content_def by (intro closed_intros)
  show "fails_closed (validate_message v)" for v
    unfolding validate_message_def Let_def by (intro closed_intros t)
  then show "fails_closed (validate_messages effective)"
    unfolding validate_messages_def by (intro closed_intros)
qed

lemma closed_iterate [closed_intros]: "fails_closed (iterate_or_empty v)"
  unfolding iterate_or_empty_def by (cases v) simp_all

lemma closed_contract [closed_intros]: "fails_closed (has_tool_contract d)"
proof -
  have "fails_closed (message_has_contract v)" for v
    unfolding message_has_contract_def by (intro closed_intros)
  then have "fails_closed (any_contract vs)" for vs
    by (induction vs) (auto intro!: closed_intros)
  then show ?thesis unfolding has_tool_contract_def by (intro closed_intros)
qed

lemma closed_tools [closed_intros]: "fails_closed (validate_tools d m)"
proof -
  have t: "fails_closed (validate_tool m names v)" for names v
    unfolding validate_tool_def Let_def by (intro closed_intros)
  have "fails_closed (validate_tools_loop m vs names n)" for vs names n
    by (induction vs arbitrary: names n) (auto intro!: closed_intros t)
  then show ?thesis unfolding validate_tools_def by (intro closed_intros)
qed

lemma closed_structured [closed_intros]:
  "fails_closed (validate_bedrock_structured_tool m n s)" "fails_closed (validate_bedrock_response_format m d)"
proof -
  show s: "fails_closed (validate_bedrock_structured_tool m n s)" for n s
    unfolding validate_bedrock_structured_tool_def by (intro closed_intros)
  show "fails_closed (validate_bedrock_response_format m d)"
    unfolding validate_bedrock_response_format_def Let_def by (intro closed_intros s)
qed

lemma closed_choice [closed_intros]: "fails_closed (validate_tool_choice d names m)"
proof -
  have "fails_closed (named_choice v names)" for v
    unfolding named_choice_def by (intro closed_intros)
  then show ?thesis unfolding validate_tool_choice_def Let_def by (intro closed_intros)
qed

lemma closed_call_id [closed_intros]: "fails_closed (decode_vertex_call_id s)"
  unfolding decode_vertex_call_id_def decode_vertex_thought_signature_def Let_def by (intro closed_intros)

lemma closed_replay [closed_intros]: "fails_closed (validate_tool_replay d names m)"
proof -
  have x: "fails_closed (validate_vertex_extra_content v s)" for v s
    unfolding validate_vertex_extra_content_def by (intro closed_intros)
  have "fails_closed (replay_call_shape m names seen v)" for seen v
    unfolding replay_call_shape_def by (intro closed_intros)
  then have "fails_closed (replay_call m names i v st)" for i v st
    unfolding replay_call_def Let_def by (intro closed_intros x)
  then have c: "fails_closed (replay_calls m names i vs st)" for i vs st
    by (induction vs arbitrary: i st) (auto intro!: closed_intros)
  have "fails_closed (first_call_signed m vs)" for vs
    unfolding first_call_signed_def by (intro closed_intros)
  then have "fails_closed (replay_message m names v st)" for v st
    unfolding replay_message_def Let_def by (intro closed_intros c)
  then have "fails_closed (replay_loop m names vs st)" for vs st
    by (induction vs arbitrary: st) (auto intro!: closed_intros)
  then show ?thesis unfolding validate_tool_replay_def by (intro closed_intros)
qed

lemma closed_request: "fails_closed (validate_chat_request m request)"
  unfolding validate_chat_request_def Let_def by (intro closed_intros)

lemma validate_chat_request_same: "validate_chat_request m request = Inr r \<Longrightarrow> r = request"
  by (auto simp: validate_chat_request_def Let_def split: if_splits)

text \<open>
  Validation is a filter: a request that is accepted is handed on unchanged (defaults and enforced
  parameters are consulted, never written into it), and one that is not accepted is refused with
  \<open>UnsupportedOperation\<close>, or with the \<open>TypeError\<close> of an unhashable role or name.
\<close>

theorem chat_request_unchanged_or_refused:
  "case validate_chat_request m request of
     Inr r \<Rightarrow> r = request
   | Inl e \<Rightarrow> e = Builtin TypeError \<or> (\<exists>tag. e = Domain (Request UnsupportedOperation) tag NoRetry None)"
proof (cases "validate_chat_request m request")
  case (Inl e)
  then show ?thesis
    using closed_request [of m request] by (simp add: fails_closed_def policy_error_def)
next
  case (Inr r)
  then show ?thesis by (simp add: validate_chat_request_same [OF Inr])
qed

section \<open>Accepted conversations\<close>

text \<open>What a message does to the open calls.\<close>

datatype replay_event = Calls "string list" | Result string | Other

definition message_event :: "json \<Rightarrow> replay_event list" where
  "message_event message = (case message of
     JObj d \<Rightarrow>
       if dget d ''role'' = JStr ''assistant'' \<and> dget d ''tool_calls'' \<noteq> JNull
         then [Calls (map (\<lambda>c. case oget c ''id'' of JStr s \<Rightarrow> s | _ \<Rightarrow> []) (list_or_empty (dget d ''tool_calls'')))]
       else if dget d ''role'' = JStr ''tool''
         then [Result (case dget d ''tool_call_id'' of JStr s \<Rightarrow> s | _ \<Rightarrow> [])]
       else [Other]
   | _ \<Rightarrow> [])"

definition events :: "json list \<Rightarrow> replay_event list" where
  "events messages = concat (map message_event messages)"

fun call_ids :: "replay_event list \<Rightarrow> string list" where
  "call_ids [] = []"
| "call_ids (Calls ids # es) = ids @ call_ids es"
| "call_ids (_ # es) = call_ids es"

text \<open>
  A conversation in which each group of calls is followed at once by exactly its results, in the
  order of the calls when \<open>ordered\<close>, in any order otherwise.
\<close>

inductive replay_ok :: "bool \<Rightarrow> replay_event list \<Rightarrow> bool" for ordered where
  replay_ok_Nil: "replay_ok ordered []"
| replay_ok_Other: "replay_ok ordered es \<Longrightarrow> replay_ok ordered (Other # es)"
| replay_ok_Group: "ids \<noteq> [] \<Longrightarrow> mset rs = mset ids \<Longrightarrow> (ordered \<Longrightarrow> rs = ids) \<Longrightarrow> replay_ok ordered es \<Longrightarrow>
    replay_ok ordered (Calls ids # map Result rs @ es)"

definition replay_inv :: "replay_state \<Rightarrow> bool" where
  "replay_inv st \<longleftrightarrow> pending_call_ids st = pending_call_order st \<and> distinct (seen_call_ids st) \<and>
     distinct (pending_call_order st) \<and> set (pending_call_order st) \<subseteq> set (seen_call_ids st)"

lemma replay_call_shape_id:
  "replay_call_shape m names seen c = Inr (cid, a) \<Longrightarrow> oget c ''id'' = JStr cid \<and> cid \<notin> set seen"
  by (auto simp: replay_call_shape_def oget_def split: json.splits)

lemma replay_call_Inr:
  assumes "replay_call m names i c st = Inr st'"
  shows "\<exists>cid. oget c ''id'' = JStr cid \<and> cid \<notin> set (seen_call_ids st) \<and>
    st' = \<lparr>seen_call_ids = seen_call_ids st @ [cid], pending_call_ids = pending_call_ids st @ [cid],
      pending_call_order = pending_call_order st @ [cid]\<rparr>"
  using assms unfolding replay_call_def Let_def
  by (auto dest!: replay_call_shape_id split: if_splits)

lemma replay_calls_Inr:
  assumes "replay_calls m names i cs st = Inr st'"
  shows "\<exists>ids. map (\<lambda>c. case oget c ''id'' of JStr s \<Rightarrow> s | _ \<Rightarrow> []) cs = ids \<and> distinct ids \<and>
    set ids \<inter> set (seen_call_ids st) = {} \<and>
    st' = \<lparr>seen_call_ids = seen_call_ids st @ ids, pending_call_ids = pending_call_ids st @ ids,
      pending_call_order = pending_call_order st @ ids\<rparr>"
  using assms
proof (induction cs arbitrary: i st)
  case (Cons c cs)
  from Cons.prems obtain st1 where 1: "replay_call m names i c st = Inr st1" "replay_calls m names (i + 1) cs st1 = Inr st'"
    by auto
  from replay_call_Inr [OF 1(1)] Cons.IH [OF 1(2)] show ?case by auto
qed simp

text \<open>From any state, what is left of an accepted conversation first answers what is pending.\<close>

lemma replay_loop_sound:
  assumes "replay_loop m names vs st = Inr st'" "pending_call_ids st' = []" "replay_inv st"
  shows "\<exists>rs es. events vs = map Result rs @ es \<and> mset rs = mset (pending_call_order st) \<and>
    (md_provider m = Vertex_AI \<longrightarrow> rs = pending_call_order st) \<and> replay_ok (md_provider m = Vertex_AI) es \<and>
    distinct (call_ids es) \<and> set (call_ids es) \<inter> set (seen_call_ids st) = {}"
  using assms
proof (induction vs arbitrary: st)
  case Nil
  then show ?case by (auto simp: events_def replay_inv_def intro: replay_ok_Nil)
next
  case (Cons v vs)
  from Cons.prems obtain st1 where 1: "replay_message m names v st = Inr st1" "replay_loop m names vs st1 = Inr st'"
    by auto
  have inv: "replay_inv st" by fact
  note IH = Cons.IH [OF 1(2) Cons.prems(2)]
  have ev: "events (v # vs) = message_event v @ events vs" by (simp add: events_def)
  show ?case
  proof (cases v)
    case (JObj d)
    consider (calls) "dget d ''role'' = JStr ''assistant'' \<and> dget d ''tool_calls'' \<noteq> JNull"
      | (result) "dget d ''role'' = JStr ''tool''"
      | (other) "\<not> (dget d ''role'' = JStr ''assistant'' \<and> dget d ''tool_calls'' \<noteq> JNull)" "dget d ''role'' \<noteq> JStr ''tool''"
      by blast
    then show ?thesis
    proof cases
      case calls
      with 1(1) JObj obtain c cs where tc: "dget d ''tool_calls'' = JList (c # cs)" and pend: "pending_call_ids st = []"
        and rc: "replay_calls m names 0 (c # cs) st = Inr st1"
        by (auto simp: replay_message_def Let_def split: if_splits json.splits list.splits)
      from replay_calls_Inr [OF rc] obtain ids where
        ids: "map (\<lambda>c. case oget c ''id'' of JStr s \<Rightarrow> s | _ \<Rightarrow> []) (c # cs) = ids" "distinct ids"
          "set ids \<inter> set (seen_call_ids st) = {}"
        and st1: "st1 = \<lparr>seen_call_ids = seen_call_ids st @ ids, pending_call_ids = pending_call_ids st @ ids,
          pending_call_order = pending_call_order st @ ids\<rparr>" by auto
      have "replay_inv st1" using inv ids pend by (auto simp: st1 replay_inv_def)
      from IH [OF this] obtain rs es where r: "events vs = map Result rs @ es" "mset rs = mset ids"
        "md_provider m = Vertex_AI \<longrightarrow> rs = ids" "replay_ok (md_provider m = Vertex_AI) es"
        "distinct (call_ids es)" "set (call_ids es) \<inter> set (seen_call_ids st @ ids) = {}"
        using inv pend by (auto simp: st1 replay_inv_def)
      have "message_event v = [Calls ids]"
        using calls ids(1) by (simp add: JObj message_event_def tc list_or_empty_def)
      then have "events (v # vs) = Calls ids # map Result rs @ es" using ev r(1) by simp
      moreover have "replay_ok (md_provider m = Vertex_AI) (Calls ids # map Result rs @ es)"
        using ids(1) r by (intro replay_ok_Group) auto
      moreover have "call_ids (map Result rs @ es) = call_ids es" by (induction rs) auto
      ultimately show ?thesis
        using ids r inv pend
        by (intro exI [of _ "[]"] exI [of _ "Calls ids # map Result rs @ es"]) (auto simp: replay_inv_def)
    next
      case result
      with 1(1) JObj obtain cid where cid: "dget d ''tool_call_id'' = JStr cid" "cid \<in> set (pending_call_ids st)"
        "md_provider m = Vertex_AI \<Longrightarrow> cid = hd (pending_call_order st)"
        and st1: "st1 = st\<lparr>pending_call_ids := removeAll cid (pending_call_ids st),
          pending_call_order := remove1 cid (pending_call_order st)\<rparr>"
        using inv by (auto simp: replay_message_def replay_inv_def Let_def split: if_splits json.splits)
      have "replay_inv st1" using inv
        by (auto simp: st1 replay_inv_def distinct_remove1_removeAll distinct_removeAll)
      from IH [OF this] obtain rs es where r: "events vs = map Result rs @ es" "mset rs = mset (remove1 cid (pending_call_order st))"
        "md_provider m = Vertex_AI \<longrightarrow> rs = remove1 cid (pending_call_order st)" "replay_ok (md_provider m = Vertex_AI) es"
        "distinct (call_ids es)" "set (call_ids es) \<inter> set (seen_call_ids st) = {}"
        by (auto simp: st1)
      have mem: "cid \<in> set (pending_call_order st)" using cid inv by (simp add: replay_inv_def)
      have "message_event v = [Result cid]"
        using result cid by (simp add: JObj message_event_def)
      then have "events (v # vs) = map Result (cid # rs) @ es" using ev r(1) by simp
      moreover have "mset (cid # rs) = mset (pending_call_order st)" using r(2) mem by simp
      moreover have "md_provider m = Vertex_AI \<Longrightarrow> cid # rs = pending_call_order st"
        using r(3) cid(3) mem by (cases "pending_call_order st") auto
      ultimately show ?thesis using r by (intro exI [of _ "cid # rs"] exI [of _ es]) auto
    next
      case other
      with 1(1) JObj have st1: "st1 = st" "pending_call_ids st = []"
        by (auto simp: replay_message_def Let_def split: if_splits)
      from IH inv st1 obtain es where r: "events vs = es" "replay_ok (md_provider m = Vertex_AI) es"
        "distinct (call_ids es)" "set (call_ids es) \<inter> set (seen_call_ids st) = {}"
        by (auto simp: replay_inv_def)
      have "message_event v = [Other]" using other by (auto simp: JObj message_event_def)
      then show ?thesis using ev r st1 inv
        by (intro exI [of _ "[]"] exI [of _ "Other # es"]) (auto simp: replay_inv_def intro: replay_ok_Other)
    qed
  qed (use 1(1) IH inv ev in \<open>auto simp: replay_message_def message_event_def\<close>)
qed

lemma validate_tool_replay_sound:
  assumes "validate_tool_replay effective names m = Inr ()" "dget effective ''messages'' = JList messages"
  shows "replay_ok (md_provider m = Vertex_AI) (events messages) \<and> distinct (call_ids (events messages))"
proof -
  from assms obtain st' where "replay_loop m names messages replay_init = Inr st'" "pending_call_ids st' = []"
    by (cases "messages = []") (auto simp: validate_tool_replay_def iterate_or_empty_def)
  moreover have "replay_inv replay_init" by (simp add: replay_inv_def replay_init_def)
  ultimately show ?thesis
    using replay_loop_sound [of m names messages replay_init st'] by (auto simp: replay_init_def)
qed

section \<open>Accepted tool requests\<close>

text \<open>The name and the schema a tool declares.\<close>

definition tool_name :: "json \<Rightarrow> json" where
  "tool_name tool = oget (oget tool ''function'') ''name''"

definition tool_parameters :: "json \<Rightarrow> json" where
  "tool_parameters tool = (case oget tool ''function'' of
     JObj fn \<Rightarrow> dget_or fn ''parameters'' (JObj [(''type'', JStr ''object'')]) | _ \<Rightarrow> JNull)"

lemma serialized_json_size_Inr:
  "serialized_json_size v = Inr n \<longleftrightarrow> json_depth v \<le> max_tool_json_depth \<and> n = utf8_size (dumps v)"
  by (auto simp: serialized_json_size_def validate_json_complexity_iff)

lemma validate_tool_Inr:
  assumes "validate_tool m names tool = Inr (name, sz)"
  shows "tool_name tool = JStr name \<and> name \<notin> set names \<and> json_depth (tool_parameters tool) \<le> max_tool_json_depth \<and>
    sz = utf8_size (dumps (tool_parameters tool)) \<and>
    (if md_provider m = Vertex_AI then is_vertex_function_name name else is_tool_name name)"
proof -
  obtain d where d: "tool = JObj d" using assms by (cases tool) (auto simp: validate_tool_def Let_def)
  obtain fn where fn: "dget d ''function'' = JObj fn"
    using assms d by (cases "dget d ''function''") (auto simp: validate_tool_def Let_def)
  have n: "(if md_provider m = Vertex_AI then validate_vertex_tool_name (dget fn ''name'')
      else validate_tool_name (dget fn ''name'')) = Inr name" "name \<notin> set names"
    and s: "serialized_json_size (dget_or fn ''parameters'' (JObj [(''type'', JStr ''object'')])) = Inr sz"
    using assms by (auto simp: validate_tool_def Let_def d fn)
  have "dget fn ''name'' = JStr name \<and>
      (if md_provider m = Vertex_AI then is_vertex_function_name name else is_tool_name name)"
    using n(1) by (cases "dget fn ''name''") (auto simp: validate_vertex_tool_name_def validate_tool_name_def split: if_splits)
  then show ?thesis
    using n(2) s by (simp add: tool_name_def tool_parameters_def d fn oget_def serialized_json_size_Inr)
qed

lemma validate_tools_loop_Inr:
  assumes "validate_tools_loop m tools names n = Inr (names', n')" "distinct names"
  shows "\<exists>new. names' = names @ new \<and> map tool_name tools = map JStr new \<and> distinct names' \<and>
    n' = n + sum_list (map (\<lambda>t. utf8_size (dumps (tool_parameters t))) tools) \<and>
    (\<forall>t \<in> set tools. json_depth (tool_parameters t) \<le> max_tool_json_depth)"
  using assms
proof (induction tools arbitrary: names n)
  case (Cons t ts)
  from Cons.prems(1) obtain name sz where 1: "validate_tool m names t = Inr (name, sz)"
    "validate_tools_loop m ts (names @ [name]) (n + sz) = Inr (names', n')" by auto
  note v = validate_tool_Inr [OF 1(1)]
  have "distinct (names @ [name])" using v Cons.prems(2) by simp
  from Cons.IH [OF 1(2) this] obtain new where
    "names' = (names @ [name]) @ new" "map tool_name ts = map JStr new" "distinct names'"
    "n' = n + sz + sum_list (map (\<lambda>t. utf8_size (dumps (tool_parameters t))) ts)"
    "\<forall>t \<in> set ts. json_depth (tool_parameters t) \<le> max_tool_json_depth" by blast
  with v show ?case by (intro exI [of _ "name # new"]) simp
qed simp

lemma validate_tools_Inr:
  assumes "validate_tools effective m = Inr names"
  shows "\<exists>tools. dget effective ''tools'' = JList tools \<and> map tool_name tools = map JStr names \<and> distinct names \<and>
    1 \<le> length tools \<and> length tools \<le> max_tool_count \<and>
    sum_list (map (\<lambda>t. utf8_size (dumps (tool_parameters t))) tools) \<le> max_tool_schema_bytes \<and>
    (\<forall>t \<in> set tools. json_depth (tool_parameters t) \<le> max_tool_json_depth)"
proof -
  obtain tools where t: "dget effective ''tools'' = JList tools"
    using assms by (cases "dget effective ''tools''") (auto simp: validate_tools_def)
  then obtain n' where r: "validate_tools_loop m tools [] 0 = Inr (names, n')" "tools \<noteq> []"
    "length tools \<le> max_tool_count" "n' \<le> max_tool_schema_bytes"
    using assms by (auto simp: validate_tools_def split: if_splits)
  have "1 \<le> length tools" using r(2) by (cases tools) simp_all
  with validate_tools_loop_Inr [OF r(1)] t r show ?thesis by auto
qed

text \<open>
  The nesting check runs to its end on every value, and refuses exactly the values nested deeper
  than 32 levels, whatever the order in which its stack visits them.
\<close>

theorem complexity_check_is_depth:
  "validate_json_complexity v = (if json_depth v \<le> 32 then Inr () else unsupported [''depth''])"
proof (cases "validate_json_complexity v")
  case (Inl e)
  then show ?thesis
    using complexity_loop_Inl [of "[(v, 1)]" e] validate_json_complexity_iff [of v]
    by (simp add: validate_json_complexity_def max_tool_json_depth_def del: complexity_loop.simps)
next
  case (Inr u)
  then show ?thesis using validate_json_complexity_iff [of v] by (simp add: max_tool_json_depth_def)
qed

lemma validate_chat_request_tools:
  assumes "md_provider m \<in> set translated_chat_providers"
    and "validate_chat_request m request = Inr r" "has_tool_contract (merge_params m request) = Inr True"
  shows "\<exists>names. validate_messages (merge_params m request) = Inr () \<and> validate_tools (merge_params m request) m = Inr names \<and>
    validate_tool_replay (merge_params m request) names m = Inr () \<and>
    (md_provider m = Vertex_AI \<longrightarrow> vertex_supports_tools (md_provider_model_id m)) \<and>
    (md_provider m = Bedrock \<longrightarrow> bedrock_supports_tools (md_provider_model_id m)) \<and>
    (dget (merge_params m request) ''stream'' = JBool True \<longrightarrow> md_provider m = Anthropic) \<and>
    (dget request ''stream'' = JBool True \<longrightarrow> dget (merge_params m request) ''stream'' = JBool True) \<and>
    dget (merge_params m request) ''response_format'' = JNull"
  using assms by (auto simp: validate_chat_request_def Let_def)

lemma validate_messages_list: "validate_messages d = Inr () \<Longrightarrow> \<exists>messages. dget d ''messages'' = JList messages"
  by (cases "dget d ''messages''") (auto simp: validate_messages_def)

text \<open>
  C21. An accepted conversation is answered: in every accepted tool request each group of calls is
  followed at once by exactly one result for each of its calls (on Vertex in the order of the
  calls), no other message comes in between, nothing is left open at the end, and no call id is
  used twice in the conversation.
\<close>

theorem accepted_replay_is_answered:
  assumes "md_provider m \<in> set translated_chat_providers"
    and "validate_chat_request m request = Inr r" "has_tool_contract (merge_params m request) = Inr True"
  shows "\<exists>messages. dget (merge_params m request) ''messages'' = JList messages \<and>
    replay_ok (md_provider m = Vertex_AI) (events messages) \<and> distinct (call_ids (events messages))"
  using validate_chat_request_tools [OF assms] validate_messages_list validate_tool_replay_sound by blast

definition sample_tool :: json where
  "sample_tool = JObj [(''type'', JStr ''function''), (''function'', JObj [(''name'', JStr ''f'')])]"

definition sample_tool_request :: body where
  "sample_tool_request = [(''tools'', JList [sample_tool]), (''messages'', JList [
     JObj [(''role'', JStr ''user''), (''content'', JStr ''hi'')],
     JObj [(''role'', JStr ''assistant''), (''tool_calls'', JList [JObj [(''id'', JStr ''a''), (''type'', JStr ''function''),
       (''function'', JObj [(''name'', JStr ''f''), (''arguments'', JStr ''{}'')])]])],
     JObj [(''role'', JStr ''tool''), (''tool_call_id'', JStr ''a''), (''content'', JStr ''x'')]])]"

definition sample_anthropic :: model where
  "sample_anthropic = sample_model\<lparr>md_provider := Anthropic, md_params := [], md_params_enforced := []\<rparr>"

lemma sample_tool_request_steps:
  "merge_params sample_anthropic sample_tool_request = sample_tool_request"
  "validate_messages sample_tool_request = Inr ()"
  "has_tool_contract sample_tool_request = Inr True"
  "validate_tools_loop sample_anthropic [sample_tool] [] 0 = Inr ([''f''], 17)"
  "dget sample_tool_request ''tools'' = JList [sample_tool]"
  "dget sample_tool_request ''stream'' = JNull" "dget sample_tool_request ''response_format'' = JNull"
  "validate_tool_choice sample_tool_request [''f''] sample_anthropic = Inr ()"
  "validate_tool_replay sample_tool_request [''f''] sample_anthropic = Inr ()"
  by code_simp+

lemma sample_anthropic_provider: "md_provider sample_anthropic = Anthropic"
  by (simp add: sample_anthropic_def)

lemma sample_tool_request_accepted:
  "validate_chat_request sample_anthropic sample_tool_request = Inr sample_tool_request"
  by (simp add: validate_chat_request_def sample_tool_request_steps validate_tools_def stream_field_ok_def
    max_tool_count_def max_tool_schema_bytes_def validate_bedrock_response_format_def translated_chat_providers_def
    sample_anthropic_provider Let_def require_def del: validate_tools_loop.simps)

lemma sample_tool_request_contract:
  "has_tool_contract (merge_params sample_anthropic sample_tool_request) = Inr True"
  "md_provider sample_anthropic \<in> set translated_chat_providers"
  by (simp_all add: sample_tool_request_steps translated_chat_providers_def sample_anthropic_provider)

theorem accepted_replay_is_answered_witness:
  "\<exists>messages. dget (merge_params sample_anthropic sample_tool_request) ''messages'' = JList messages \<and>
    replay_ok False (events messages) \<and> distinct (call_ids (events messages))"
  using accepted_replay_is_answered [OF sample_tool_request_contract(2) sample_tool_request_accepted sample_tool_request_contract(1)]
  by (simp add: sample_anthropic_provider)

text \<open>
  The limits of an accepted tool request on a translated provider: 1 to 64 tools with distinct
  names, none with a schema nested deeper than 32, at most 256 KiB of schemas together; streaming
  only on Anthropic; a model id of the validated families on Vertex and Bedrock; no
  \<open>response_format\<close> beside the tools; and no client that asked to stream is answered without.
\<close>

theorem accepted_tools_within_limits:
  assumes "md_provider m \<in> set translated_chat_providers"
    and "validate_chat_request m request = Inr r" "has_tool_contract (merge_params m request) = Inr True"
  shows "(\<exists>tools names. dget (merge_params m request) ''tools'' = JList tools \<and> map tool_name tools = map JStr names \<and>
      distinct names \<and> 1 \<le> length tools \<and> length tools \<le> 64 \<and>
      sum_list (map (\<lambda>t. utf8_size (dumps (tool_parameters t))) tools) \<le> 262144 \<and>
      (\<forall>t \<in> set tools. json_depth (tool_parameters t) \<le> 32)) \<and>
    (dget (merge_params m request) ''stream'' = JBool True \<longrightarrow> md_provider m = Anthropic) \<and>
    (dget request ''stream'' = JBool True \<longrightarrow> dget (merge_params m request) ''stream'' = JBool True) \<and>
    (md_provider m = Vertex_AI \<longrightarrow> vertex_supports_tools (md_provider_model_id m)) \<and>
    (md_provider m = Bedrock \<longrightarrow> bedrock_supports_tools (md_provider_model_id m)) \<and>
    dget (merge_params m request) ''response_format'' = JNull"
proof -
  from validate_chat_request_tools [OF assms] obtain names where
    v: "validate_tools (merge_params m request) m = Inr names" and
    r: "(dget (merge_params m request) ''stream'' = JBool True \<longrightarrow> md_provider m = Anthropic) \<and>
      (dget request ''stream'' = JBool True \<longrightarrow> dget (merge_params m request) ''stream'' = JBool True) \<and>
      (md_provider m = Vertex_AI \<longrightarrow> vertex_supports_tools (md_provider_model_id m)) \<and>
      (md_provider m = Bedrock \<longrightarrow> bedrock_supports_tools (md_provider_model_id m)) \<and>
      dget (merge_params m request) ''response_format'' = JNull" by blast
  from validate_tools_Inr [OF v] r show ?thesis
    unfolding max_tool_count_def max_tool_schema_bytes_def max_tool_json_depth_def by auto
qed

theorem accepted_tools_within_limits_witness:
  "dget (merge_params sample_anthropic sample_tool_request) ''response_format'' = JNull"
  using accepted_tools_within_limits [OF sample_tool_request_contract(2) sample_tool_request_accepted sample_tool_request_contract(1)]
  by blast

end
