(* ===== verification/Request_Limits.thy ===== *)
theory Request_Limits
  imports Chat_Tool_Policy
begin

text \<open>
  The first and the last part of \<open>domain/request_policy.py\<close>: the per-operation allowlist with the
  global ceilings, the per-model output-token cap, and the governance of native bodies (control
  kwargs, output-token cap, the view that budget admission reads). The lemmas show what can
  pass, and that each cap holds of what is sent upstream.
\<close>

section \<open>Allowlist and global ceilings\<close>

definition chat_fields :: "string list" where
  "chat_fields = [''model'', ''messages'', ''temperature'', ''top_p'', ''max_tokens'', ''max_completion_tokens'', ''stop'',
     ''n'', ''presence_penalty'', ''frequency_penalty'', ''logit_bias'', ''logprobs'', ''top_logprobs'', ''response_format'',
     ''tools'', ''tool_choice'', ''parallel_tool_calls'', ''seed'', ''stream'', ''stream_options'', ''reasoning_effort'', ''user'']"

definition responses_fields :: "string list" where
  "responses_fields = [''background'', ''context_management'', ''conversation'', ''include'', ''model'', ''input'',
     ''instructions'', ''max_output_tokens'', ''max_tool_calls'', ''temperature'', ''top_p'', ''tools'', ''tool_choice'',
     ''parallel_tool_calls'', ''text'', ''reasoning'', ''metadata'', ''moderation'', ''prompt'', ''prompt_cache_key'',
     ''prompt_cache_options'', ''prompt_cache_retention'', ''safety_identifier'', ''service_tier'', ''store'',
     ''previous_response_id'', ''stream'', ''stream_options'', ''top_logprobs'', ''truncation'', ''user'']"

definition embeddings_fields :: "string list" where
  "embeddings_fields = [''model'', ''input'', ''dimensions'', ''encoding_format'', ''user'']"

definition images_fields :: "string list" where
  "images_fields = [''model'', ''prompt'', ''size'', ''quality'', ''style'', ''n'', ''response_format'', ''background'',
     ''output_format'', ''user'']"

definition allowed_fields :: "string \<Rightarrow> string list option" where
  "allowed_fields operation = map_of [(''chat.completions'', chat_fields), (''responses'', responses_fields),
     (''embeddings'', embeddings_fields), (''images'', images_fields)] operation"

definition max_n :: int where
  "max_n = 8"

definition max_tokens :: int where
  "max_tokens = 32000"

definition token_fields :: "string list" where
  "token_fields = [''max_tokens'', ''max_completion_tokens'', ''max_output_tokens'']"

definition output_token_field :: "string \<Rightarrow> string option" where
  "output_token_field operation = map_of [(''chat.completions'', ''max_tokens''), (''responses'', ''max_output_tokens'')] operation"

fun clamp_int :: "json \<Rightarrow> int \<Rightarrow> json" where
  "clamp_int (JInt i) cap = JInt (min i cap)"
| "clamp_int v cap = v"

definition clamp_field :: "int \<Rightarrow> string \<Rightarrow> body \<Rightarrow> body" where
  "clamp_field cap f d = (if has_key d f then dict_put f (clamp_int (dget d f) cap) d else d)"

definition sanitize_request :: "string \<Rightarrow> body \<Rightarrow> body" where
  "sanitize_request operation request = (case allowed_fields operation of
     None \<Rightarrow> request
   | Some allowed \<Rightarrow>
       fold (clamp_field max_tokens) token_fields
         (clamp_field max_n ''n'' (dict_filter (\<lambda>k v. k \<in> set allowed) request)))"

section \<open>The per-model cap\<close>

definition clamp_output_tokens :: "string \<Rightarrow> body \<Rightarrow> int option \<Rightarrow> body" where
  "clamp_output_tokens operation request cap = (case cap of
     None \<Rightarrow> request
   | Some c \<Rightarrow>
       let present = filter (\<lambda>f. has_key request f) token_fields;
           cleaned = fold (clamp_field c) present request
       in if present = [] then (case output_token_field operation of
              None \<Rightarrow> cleaned | Some f \<Rightarrow> dict_put f (JInt c) cleaned)
          else cleaned)"

section \<open>Native bodies\<close>

definition native_control_kwargs :: "string list" where
  "native_control_kwargs = [''extra_headers'', ''extra_query'', ''extra_body'', ''timeout'']"

definition reject_native_control_kwargs :: "body \<Rightarrow> exc + unit" where
  "reject_native_control_kwargs b = (let
      bad = sort (filter (\<lambda>k. k \<in> set native_control_kwargs \<or> starts_with ''_'' k) (keys b))
    in if bad \<noteq> [] then raise_exc (Request UnsupportedNativeField) bad else Inr ())"

definition native_output_field :: "provider \<Rightarrow> string option" where
  "native_output_field p = (case p of Anthropic \<Rightarrow> Some ''max_tokens'' | Vertex_AI \<Rightarrow> Some ''maxOutputTokens'' | _ \<Rightarrow> None)"

definition native_effective_ceiling :: "int option \<Rightarrow> int" where
  "native_effective_ceiling model_ceiling = (case model_ceiling of Some c \<Rightarrow> min max_tokens c | None \<Rightarrow> max_tokens)"

text \<open>
  \<open>dict(v or {})\<close>: an object, or a list of pairs. A pair's key that is no string is kept under its
  JSON text, as the serialized request would hold it.
\<close>

definition pair_of :: "json \<Rightarrow> exc + string \<times> json" where
  "pair_of v = rbind (iterate v) (\<lambda>xs. case xs of
     [k, x] \<Rightarrow> (case k of
         JStr s \<Rightarrow> Inr (s, x)
       | JList _ \<Rightarrow> raise_py TypeError
       | JObj _ \<Rightarrow> raise_py TypeError
       | _ \<Rightarrow> Inr (dumps k, x))
   | _ \<Rightarrow> raise_py ValueError)"

definition dict_of :: "json \<Rightarrow> exc + body" where
  "dict_of v = (if \<not> truthy v then Inr [] else case v of
     JObj d \<Rightarrow> Inr d
   | JList vs \<Rightarrow> rbind (rmap pair_of vs) (\<lambda>kvs. Inr (dict_merge [] kvs))
   | JStr _ \<Rightarrow> raise_py ValueError
   | _ \<Rightarrow> raise_py TypeError)"

text \<open>The assignment both branches make.\<close>

definition governed_value :: "json \<Rightarrow> int option \<Rightarrow> json option" where
  "governed_value v model_ceiling = (case v of
     JInt i \<Rightarrow> Some (JInt (min i (native_effective_ceiling model_ceiling)))
   | _ \<Rightarrow> if model_ceiling \<noteq> None then Some (JInt (native_effective_ceiling model_ceiling)) else None)"

definition clamp_native_output_tokens :: "provider \<Rightarrow> body \<Rightarrow> int option \<Rightarrow> exc + body" where
  "clamp_native_output_tokens p b model_ceiling = (case native_output_field p of
     None \<Rightarrow> Inr b
   | Some f \<Rightarrow>
       if p = Vertex_AI then
         rbind (dict_of (dget b ''generationConfig'')) (\<lambda>config.
         Inr (case governed_value (dget config f) model_ceiling of
             Some v \<Rightarrow> dict_put ''generationConfig'' (JObj (dict_put f v config)) b
           | None \<Rightarrow> b))
       else Inr (case governed_value (dget b f) model_ceiling of
             Some v \<Rightarrow> dict_put f v b
           | None \<Rightarrow> b))"

text \<open>The texts of a Gemini body, and the view admission reads.\<close>

definition part_text :: "json \<Rightarrow> string list" where
  "part_text part = (case oget part ''text'' of JStr s \<Rightarrow> [s] | _ \<Rightarrow> [])"

definition content_texts :: "json \<Rightarrow> exc + string list" where
  "content_texts content = (case content of
     JObj d \<Rightarrow> rbind (iterate_or_empty (dget d ''parts'')) (\<lambda>parts. Inr (concat (map part_text parts)))
   | _ \<Rightarrow> Inr [])"

definition dict_get :: "json \<Rightarrow> string \<Rightarrow> exc + json" where
  "dict_get v k = (case v of JObj d \<Rightarrow> Inr (dget d k) | _ \<Rightarrow> raise_py AttributeError)"

definition native_reservation_view :: "provider \<Rightarrow> body \<Rightarrow> exc + body" where
  "native_reservation_view p b = (if p \<noteq> Vertex_AI then Inr b else
     rbind (iterate_or_empty (dget b ''contents'')) (\<lambda>contents.
     rbind (rmap content_texts contents) (\<lambda>texts.
     let config = py_or (dget b ''generationConfig'') (JObj []) in
     rbind (dict_get config ''maxOutputTokens'') (\<lambda>limit.
     rbind (dict_get config ''candidateCount'') (\<lambda>n.
     Inr [(''messages'', JList [JObj [(''content'', JStr (join [char_of (10 :: nat)] (concat texts)))]]),
          (''max_tokens'', py_or limit (JInt 0)), (''n'', py_or n (JInt 1))])))))"

section \<open>What the allowlist lets through\<close>

lemma map_of_clamp_field [dict_simps]:
  "map_of (clamp_field c f d) k = (if k = f then map_option (\<lambda>v. clamp_int v c) (map_of d k) else map_of d k)"
  by (auto simp: clamp_field_def dict_simps dget_def split: option.splits)

lemma map_of_clamp_fields [dict_simps]:
  "distinct fs \<Longrightarrow> map_of (fold (clamp_field c) fs d) k =
    (if k \<in> set fs then map_option (\<lambda>v. clamp_int v c) (map_of d k) else map_of d k)"
  by (induction fs arbitrary: d) (auto simp: dict_simps)

lemma clamp_int_idem [simp]: "clamp_int (clamp_int v a) b = clamp_int v (min a b)"
  by (cases v) auto

lemma distinct_token_fields: "distinct token_fields" "''n'' \<notin> set token_fields"
  by (simp_all add: token_fields_def)

text \<open>The cap of a field, if it has one.\<close>

definition ceiling_of :: "string \<Rightarrow> int option" where
  "ceiling_of f = (if f = ''n'' then Some 8 else if f \<in> set token_fields then Some 32000 else None)"

definition clamp_to :: "int option \<Rightarrow> json \<Rightarrow> json" where
  "clamp_to c v = (case c of None \<Rightarrow> v | Some c \<Rightarrow> clamp_int v c)"

lemma clamp_to_simps: "clamp_to None = id" "clamp_to (Some c) = (\<lambda>v. clamp_int v c)"
  by (simp_all add: clamp_to_def fun_eq_iff)

lemma map_of_sanitize:
  assumes "allowed_fields operation = Some allowed"
  shows "map_of (sanitize_request operation request) f =
    (if f \<in> set allowed then map_option (clamp_to (ceiling_of f)) (map_of request f) else None)"
  using distinct_token_fields
  by (auto simp: sanitize_request_def assms dict_simps ceiling_of_def max_n_def option.map_id0 max_tokens_def clamp_to_simps)

text \<open>
  Deny by default: for a known operation the sanitized body has at each allowlisted field what
  the client sent, an int lowered to the field's cap (8 for \<open>n\<close>, 32000 for the three token
  fields), and nothing at any other field, so no SDK control kwarg survives; sanitizing twice
  changes nothing more.
\<close>

theorem sanitize_allowlist:
  assumes "allowed_fields operation = Some allowed"
  shows "map_of (sanitize_request operation request) f =
      (if f \<in> set allowed then map_option (clamp_to (ceiling_of f)) (map_of request f) else None) \<and>
    map_of (sanitize_request operation request) ` set [''extra_headers'', ''extra_body'', ''extra_query'', ''timeout'', ''api_key''] = {None} \<and>
    map_of (sanitize_request operation (sanitize_request operation request)) = map_of (sanitize_request operation request)"
proof -
  have "set [''extra_headers'', ''extra_body'', ''extra_query'', ''timeout'', ''api_key''] \<inter> set allowed = {}"
    using assms by (auto simp: allowed_fields_def chat_fields_def responses_fields_def embeddings_fields_def images_fields_def split: if_splits)
  then have "map_of (sanitize_request operation request) k = None"
    if "k \<in> set [''extra_headers'', ''extra_body'', ''extra_query'', ''timeout'', ''api_key'']" for k
    using that map_of_sanitize [OF assms] by auto
  moreover have "clamp_to c (clamp_to c v) = clamp_to c v" for c v
    by (simp add: clamp_to_def split: option.split)
  then have "map_of (sanitize_request operation (sanitize_request operation request)) = map_of (sanitize_request operation request)"
    by (auto simp: fun_eq_iff map_of_sanitize [OF assms] option.map_comp comp_def)
  ultimately show ?thesis using map_of_sanitize [OF assms] by (auto simp: image_def)
qed

theorem sanitize_allowlist_witness:
  "map_of (sanitize_request ''chat.completions'' [(''n'', JInt 100), (''extra_headers'', JNull)]) ''n'' = Some (JInt 8)"
  using sanitize_allowlist [of "''chat.completions''" chat_fields "[(''n'', JInt 100), (''extra_headers'', JNull)]" "''n''"]
  by (simp add: allowed_fields_def chat_fields_def ceiling_of_def clamp_to_def)


section \<open>The ceilings hold\<close>

lemma map_of_clamp_output:
  "map_of (clamp_output_tokens operation request (Some c)) k =
    (if \<exists>f \<in> set token_fields. has_key request f
     then (if k \<in> set token_fields then map_option (\<lambda>v. clamp_int v c) (map_of request k) else map_of request k)
     else if output_token_field operation = Some k then Some (JInt c) else map_of request k)"
proof -
  define present where "present = filter (\<lambda>f. has_key request f) token_fields"
  have d: "distinct present" unfolding present_def using distinct_token_fields(1) by (rule distinct_filter)
  have e: "present = [] \<longleftrightarrow> \<not> (\<exists>f \<in> set token_fields. has_key request f)"
    by (auto simp: present_def filter_empty_conv)
  have m: "k \<in> set present \<longleftrightarrow> k \<in> set token_fields \<and> has_key request k" by (auto simp: present_def)
  show ?thesis
  proof (cases "present = []")
    case True
    with e have ex: "\<not> (\<exists>f \<in> set token_fields. has_key request f)" by blast
    have "map_of (clamp_output_tokens operation request (Some c)) k =
        map_of (case output_token_field operation of None \<Rightarrow> request | Some f \<Rightarrow> dict_put f (JInt c) request) k"
      using True unfolding clamp_output_tokens_def option.case present_def [symmetric] Let_def
      by (cases "output_token_field operation") simp_all
    also have "\<dots> = (if output_token_field operation = Some k then Some (JInt c) else map_of request k)"
      by (simp add: dict_simps split: option.split)
    finally show ?thesis by (simp only: ex if_False)
  next
    case False
    with e have ex: "\<exists>f \<in> set token_fields. has_key request f" by blast
    have "map_of (clamp_output_tokens operation request (Some c)) k = map_of (fold (clamp_field c) present request) k"
      using False unfolding clamp_output_tokens_def option.case present_def [symmetric] Let_def by simp
    also have "\<dots> = (if k \<in> set token_fields then map_option (\<lambda>v. clamp_int v c) (map_of request k) else map_of request k)"
      by (auto simp: map_of_clamp_fields [OF d] m)
    finally show ?thesis by (simp only: ex if_True)
  qed
qed

text \<open>The token fields of a request hold ints, as its operation documents them.\<close>

definition int_token_fields :: "body \<Rightarrow> bool" where
  "int_token_fields d \<longleftrightarrow> (\<forall>f \<in> set token_fields. \<forall>v. map_of d f = Some v \<longrightarrow> (\<exists>i. v = JInt i))"

text \<open>
  The per-model ceiling cannot be exceeded or dodged by omission: when the client's token fields
  are ints, every token field sent upstream is an int at most the ceiling and at most what the
  client asked for, an operation with an output-token field sends at least one of them, and no
  other field changes.
\<close>

theorem output_ceiling_holds:
  assumes "int_token_fields request" "output_token_field operation = Some g"
  shows "(\<forall>f v. f \<in> set token_fields \<and> map_of (clamp_output_tokens operation request (Some c)) f = Some v \<longrightarrow>
      (\<exists>i. v = JInt i \<and> i \<le> c \<and> (\<forall>j. map_of request f = Some (JInt j) \<longrightarrow> i \<le> j))) \<and>
    (\<exists>f \<in> set token_fields. has_key (clamp_output_tokens operation request (Some c)) f) \<and>
    (\<forall>f. f \<notin> set token_fields \<longrightarrow> map_of (clamp_output_tokens operation request (Some c)) f = map_of request f) \<and>
    clamp_output_tokens operation request None = request"
proof -
  have g: "g \<in> set token_fields"
    using assms(2) by (auto simp: output_token_field_def token_fields_def split: if_splits)
  have "\<exists>i. v = JInt i \<and> i \<le> c \<and> (\<forall>j. map_of request f = Some (JInt j) \<longrightarrow> i \<le> j)"
    if f: "f \<in> set token_fields" and v: "map_of (clamp_output_tokens operation request (Some c)) f = Some v" for f v
  proof (cases "\<exists>f \<in> set token_fields. has_key request f")
    case True
    with f v obtain w where w: "map_of request f = Some w" "v = clamp_int w c"
      by (auto simp: map_of_clamp_output)
    with assms(1) f obtain i where "w = JInt i" by (auto simp: int_token_fields_def)
    with w show ?thesis by auto
  next
    case False
    with f v assms(2) show ?thesis by (auto simp: map_of_clamp_output split: if_splits)
  qed
  moreover have "\<exists>f \<in> set token_fields. has_key (clamp_output_tokens operation request (Some c)) f"
    using g assms(2) by (cases "\<exists>f \<in> set token_fields. has_key request f") (auto simp: map_of_clamp_output)
  moreover have "map_of (clamp_output_tokens operation request (Some c)) f = map_of request f" if "f \<notin> set token_fields" for f
    using that g assms(2) by (auto simp: map_of_clamp_output)
  ultimately show ?thesis by (auto simp: clamp_output_tokens_def)
qed

theorem output_ceiling_holds_witness:
  "\<exists>f \<in> set token_fields. has_key (clamp_output_tokens ''responses'' [(''max_tokens'', JInt 9000)] (Some 100)) f"
proof -
  have "int_token_fields [(''max_tokens'', JInt 9000)]" by (simp add: int_token_fields_def token_fields_def)
  from output_ceiling_holds [OF this, of "''responses''" "''max_output_tokens''" 100] show ?thesis
    by (simp only: output_token_field_def map_of.simps fst_conv snd_conv) simp
qed

text \<open>
  The same ceiling on the Chat surface does not bind a field that is present with a value that is
  no int: a JSON null (which asks the provider for its own default) or a number written as a float
  is passed on unchanged and, counting as present, also suppresses the injection.
\<close>

theorem null_token_field_escapes_ceiling:
  "clamp_output_tokens operation [(''max_tokens'', JNull)] (Some c) = [(''max_tokens'', JNull)] \<and>
   clamp_output_tokens operation [(''max_tokens'', JFloat r)] (Some c) = [(''max_tokens'', JFloat r)] \<and>
   clamp_output_tokens ''chat.completions'' [] (Some c) = [(''max_tokens'', JInt c)]"
  by (simp add: clamp_output_tokens_def token_fields_def clamp_field_def dget_def output_token_field_def)

text \<open>The native output limit a governed body asks for.\<close>

definition native_limit :: "provider \<Rightarrow> body \<Rightarrow> json" where
  "native_limit p b = (case native_output_field p of
     None \<Rightarrow> JNull
   | Some f \<Rightarrow> if p = Vertex_AI then oget (dget b ''generationConfig'') f else dget b f)"

lemma native_effective_ceiling_le:
  "native_effective_ceiling mc \<le> 32000" "mc = Some c \<Longrightarrow> native_effective_ceiling mc \<le> c"
  by (auto simp: native_effective_ceiling_def max_tokens_def split: option.splits)

lemma governed_value_bounds:
  "mc = Some c \<Longrightarrow> \<exists>i. governed_value v mc = Some (JInt i) \<and> i \<le> c \<and> i \<le> 32000"
  "\<exists>j. governed_value (JInt i) mc = Some (JInt j) \<and> j \<le> i \<and> j \<le> 32000"
  using native_effective_ceiling_le(1) [of mc] native_effective_ceiling_le(2) [of mc c]
  by (cases v; force simp: governed_value_def min_def)+

text \<open>Where a body keeps its limit, and that the clamp writes the governed value of it there.\<close>

lemma clamp_native_limit:
  assumes "clamp_native_output_tokens p b mc = Inr b'" "native_output_field p = Some f"
  shows "\<exists>v. (\<forall>i. native_limit p b = JInt i \<longrightarrow> v = JInt i) \<and>
    (\<forall>w. governed_value v mc = Some w \<longrightarrow> native_limit p b' = w) \<and>
    (\<forall>k. k \<notin> {f, ''generationConfig''} \<longrightarrow> map_of b' k = map_of b k)"
proof (cases "p = Vertex_AI")
  case True
  with assms obtain config where config: "dict_of (dget b ''generationConfig'') = Inr config"
    and b': "b' = (case governed_value (dget config f) mc of
             Some v \<Rightarrow> dict_put ''generationConfig'' (JObj (dict_put f v config)) b | None \<Rightarrow> b)"
    by (auto simp: clamp_native_output_tokens_def)
  have "native_limit p b = JInt i \<Longrightarrow> dget config f = JInt i" for i
    using config True assms(2)
    by (cases "dget b ''generationConfig''")
      (auto simp: native_limit_def oget_def dict_of_def dget_def split: if_splits option.splits)
  then show ?thesis
    using b' True assms(2)
    by (intro exI [of _ "dget config f"]) (auto simp: native_limit_def oget_def dict_simps split: option.splits)
next
  case False
  with assms have "b' = (case governed_value (dget b f) mc of Some v \<Rightarrow> dict_put f v b | None \<Rightarrow> b)"
    by (simp add: clamp_native_output_tokens_def)
  then show ?thesis
    using False assms(2)
    by (intro exI [of _ "dget b f"]) (auto simp: native_limit_def dict_simps split: option.splits)
qed

text \<open>
  A native body cannot dodge the ceiling: on a model with a ceiling, a governed body that is
  accepted carries an int no larger than the ceiling and 32000, whatever the client put there (null
  and floats included), and never more than an int the client asked for; without a ceiling an int
  is still lowered to 32000. Everything else of the body stays.
\<close>

theorem native_ceiling_holds:
  assumes "clamp_native_output_tokens p b mc = Inr b'" "native_output_field p = Some f"
  shows "(\<forall>c. mc = Some c \<longrightarrow> (\<exists>i. native_limit p b' = JInt i \<and> i \<le> c \<and> i \<le> 32000)) \<and>
    (\<forall>i. native_limit p b = JInt i \<longrightarrow> (\<exists>j. native_limit p b' = JInt j \<and> j \<le> i \<and> j \<le> 32000)) \<and>
    (\<forall>k. k \<notin> {f, ''generationConfig''} \<longrightarrow> map_of b' k = map_of b k)"
proof -
  obtain v where v: "\<And>i. native_limit p b = JInt i \<Longrightarrow> v = JInt i"
    "\<And>w. governed_value v mc = Some w \<Longrightarrow> native_limit p b' = w"
    "\<forall>k. k \<notin> {f, ''generationConfig''} \<longrightarrow> map_of b' k = map_of b k"
    using clamp_native_limit [OF assms] by blast
  have "\<exists>i. native_limit p b' = JInt i \<and> i \<le> c \<and> i \<le> 32000" if "mc = Some c" for c
    using governed_value_bounds(1) [OF that, of v] v(2) by blast
  moreover have "\<exists>j. native_limit p b' = JInt j \<and> j \<le> i \<and> j \<le> 32000" if "native_limit p b = JInt i" for i
    using governed_value_bounds(2) [of i mc] v(1) [OF that] v(2) by blast
  ultimately show ?thesis using v(3) by blast
qed

theorem native_ceiling_holds_witness:
  "\<exists>i. native_limit Vertex_AI [(''generationConfig'', JObj [(''maxOutputTokens'', JInt 50)])] = JInt i \<and> i \<le> 50 \<and> i \<le> 32000"
proof -
  have "clamp_native_output_tokens Vertex_AI [] (Some 50) =
      Inr [(''generationConfig'', JObj [(''maxOutputTokens'', JInt 50)])]"
    by (simp add: clamp_native_output_tokens_def native_output_field_def dict_of_def dget_def governed_value_def
        native_effective_ceiling_def max_tokens_def)
  from native_ceiling_holds [OF this, of "''maxOutputTokens''"] show ?thesis
    by (simp add: native_output_field_def)
qed

text \<open>
  A native body with an SDK control kwarg or a private (underscore) key is always refused, with
  exactly those keys named; any other body is accepted.
\<close>

theorem control_kwargs_refused:
  "reject_native_control_kwargs b =
    (if \<exists>k \<in> set (keys b). k \<in> set native_control_kwargs \<or> (\<exists>t. k = CHR ''_'' # t)
     then raise_exc (Request UnsupportedNativeField)
       (sort (filter (\<lambda>k. k \<in> set native_control_kwargs \<or> take 1 k = ''_'') (keys b)))
     else Inr ())"
proof -
  have u: "(\<exists>t. k = CHR ''_'' # t) \<longleftrightarrow> take (length ''_'') k = ''_''" for k by (cases k) auto
  have "sort (filter P (keys b)) \<noteq> [] \<longleftrightarrow> (\<exists>k \<in> set (keys b). P k)" for P
    by (simp only: set_empty [symmetric] set_sort set_filter) blast
  then show ?thesis
    unfolding reject_native_control_kwargs_def starts_with_def Let_def u by (simp only: split: if_split) simp
qed

end
