(* ===== verification/Responses_Policy.thy ===== *)
theory Responses_Policy
  imports Request_Limits
begin

text \<open>
  The validation of Responses requests in \<open>domain/request_policy.py\<close>: the governance of native
  providers (no provider state, no hosted tool, no asynchronous billing) and the checks of the
  providers whose Responses surface is emulated over Chat. The lemmas show what an accepted native
  request cannot contain and that an accepted emulated conversation answers every function call.
\<close>

section \<open>Providers and fields\<close>

definition native_responses_providers :: "provider list" where
  "native_responses_providers = [OpenAI, Azure_OpenAI]"

definition emulated_responses_fields :: "string list" where
  "emulated_responses_fields = [''model'', ''input'', ''instructions'', ''max_output_tokens'', ''temperature'', ''top_p'',
     ''text'', ''store'', ''stream'']"

definition emulated_responses_tool_fields :: "string list" where
  "emulated_responses_tool_fields = [''tools'', ''tool_choice'', ''parallel_tool_calls'']"

definition emulated_responses_tool_providers :: "provider list" where
  "emulated_responses_tool_providers = [Databricks, Anthropic, Bedrock, Vertex_AI]"

definition streaming_responses_tool_providers :: "provider list" where
  "streaming_responses_tool_providers = [Databricks, Anthropic]"

definition bounded_translated_tool_providers :: "provider list" where
  "bounded_translated_tool_providers = [Anthropic, Bedrock, Vertex_AI]"

definition bounded :: "provider \<Rightarrow> bool" where
  "bounded p \<longleftrightarrow> p \<in> set bounded_translated_tool_providers"

definition native_responses_governance_fields :: "string list" where
  "native_responses_governance_fields = [''context_management'', ''conversation'', ''previous_response_id'', ''prompt'',
     ''prompt_cache_retention'', ''service_tier'']"

definition native_responses_local_tool_types :: "string list" where
  "native_responses_local_tool_types = [''function'', ''custom'']"

definition str_in :: "json \<Rightarrow> string list \<Rightarrow> bool" where
  "str_in v names \<longleftrightarrow> (\<exists>s \<in> set names. v = JStr s)"

fun nonempty_str :: "json \<Rightarrow> bool" where
  "nonempty_str (JStr s) = (s \<noteq> [])"
| "nonempty_str _ = False"

section \<open>Fields, text and items\<close>

definition unsupported_responses_fields :: "provider \<Rightarrow> body \<Rightarrow> string list" where
  "unsupported_responses_fields p request = (let
      allowed = emulated_responses_fields @ (if p \<in> set emulated_responses_tool_providers then emulated_responses_tool_fields else []);
      fields = filter (\<lambda>f. f \<notin> set allowed \<and> dget request f \<noteq> JNull) (keys request)
    in sorted_set (fields @ (if none_or_false (dget request ''store'') then [] else [''store''])))"

definition validate_emulated_text :: "json \<Rightarrow> exc + unit" where
  "validate_emulated_text v = (case v of
     JNull \<Rightarrow> Inr ()
   | JObj d \<Rightarrow>
       rbind (require (extra_keys d [''format''] = []) ''text field'') (\<lambda>_.
       case dget d ''format'' of
         JNull \<Rightarrow> Inr ()
       | JObj fmt \<Rightarrow>
           rbind (require (str_in (dget fmt ''type'') [''text'', ''json_object'', ''json_schema'']) ''text format'') (\<lambda>_.
           require (extra_keys fmt (if dget fmt ''type'' = JStr ''json_schema'' then [''type'', ''name'', ''schema'', ''strict'']
             else [''type'']) = []) ''text format field'')
       | _ \<Rightarrow> unsupported [''text format''])
   | _ \<Rightarrow> unsupported [''text shape''])"

definition unsupported_nested_fields :: "body \<Rightarrow> string list \<Rightarrow> exc + unit" where
  "unsupported_nested_fields d allowed = require (extra_keys d allowed = []) ''nested field''"

definition validate_item_status :: "body \<Rightarrow> exc + unit" where
  "validate_item_status item = require (dget item ''status'' = JNull \<or> str_in (dget item ''status'') [''completed'']) ''status''"

definition validate_function_call :: "provider \<Rightarrow> body \<Rightarrow> string list \<Rightarrow> string list option \<Rightarrow> exc + string" where
  "validate_function_call p item seen_ids declared =
    rbind (unsupported_nested_fields item [''type'', ''id'', ''call_id'', ''name'', ''arguments'', ''status'']) (\<lambda>_.
    case dget item ''call_id'' of
      JStr call_id \<Rightarrow>
        rbind (require (call_id \<noteq> []) ''call_id'') (\<lambda>_.
        rbind (if p = Bedrock then rbind (validate_bedrock_tool_use_id (JStr call_id)) (\<lambda>_. Inr ()) else Inr ()) (\<lambda>_.
        rbind (require (call_id \<notin> set seen_ids) ''duplicate call_id'') (\<lambda>_.
        rbind (require (nonempty_str (dget item ''name'')) ''name'') (\<lambda>_.
        rbind (require (case declared of None \<Rightarrow> True | Some names \<Rightarrow> str_in (dget item ''name'') names) ''undeclared name'') (\<lambda>_.
        rbind (require (is_str (dget item ''arguments'')) ''arguments'') (\<lambda>_.
        rbind (if bounded p then rbind (json_object (dget item ''arguments'')) (\<lambda>_. Inr ()) else Inr ()) (\<lambda>_.
        rbind (require (dget item ''id'' = JNull \<or> is_str (dget item ''id'')) ''id'') (\<lambda>_.
        rbind (validate_item_status item) (\<lambda>_. Inr call_id)))))))))
    | _ \<Rightarrow> unsupported [''call_id''])"

definition validate_function_call_output :: "body \<Rightarrow> string list \<Rightarrow> string list \<Rightarrow> exc + string" where
  "validate_function_call_output item seen_ids completed_ids =
    rbind (unsupported_nested_fields item [''type'', ''id'', ''call_id'', ''output'', ''status'']) (\<lambda>_.
    case dget item ''call_id'' of
      JStr call_id \<Rightarrow>
        rbind (require (call_id \<noteq> []) ''call_id'') (\<lambda>_.
        rbind (require (call_id \<in> set seen_ids) ''no matching call'') (\<lambda>_.
        rbind (require (call_id \<notin> set completed_ids) ''duplicate output'') (\<lambda>_.
        rbind (require (is_str (dget item ''output'')) ''output'') (\<lambda>_.
        rbind (require (dget item ''id'' = JNull \<or> is_str (dget item ''id'')) ''id'') (\<lambda>_.
        rbind (validate_item_status item) (\<lambda>_. Inr call_id))))))
    | _ \<Rightarrow> unsupported [''call_id''])"

definition validate_emulated_content :: "json \<Rightarrow> exc + unit" where
  "validate_emulated_content content = (case content of
     JNull \<Rightarrow> Inr ()
   | JStr _ \<Rightarrow> Inr ()
   | JList parts \<Rightarrow> each (\<lambda>part. case part of
         JStr _ \<Rightarrow> Inr ()
       | JObj d \<Rightarrow>
           rbind (require (str_in (dget d ''type'') [''text'', ''input_text'', ''output_text''] \<and> is_str (dget d ''text'')) ''content type'')
             (\<lambda>_. require (extra_keys d [''type'', ''text''] = []) ''content field'')
       | _ \<Rightarrow> unsupported [''content type'']) parts
   | _ \<Rightarrow> unsupported [''content shape''])"

section \<open>The emulated input\<close>

record input_state =
  in_seen :: "string list"
  in_completed :: "string list"
  in_pending :: "string list"
  in_output_started :: bool

definition input_init :: input_state where
  "input_init = \<lparr>in_seen = [], in_completed = [], in_pending = [], in_output_started = False\<rparr>"

definition emulated_item :: "provider \<Rightarrow> bool \<Rightarrow> string list option \<Rightarrow> json \<Rightarrow> input_state \<Rightarrow> exc + input_state" where
  "emulated_item p allow_tools declared item st = (case item of
     JObj d \<Rightarrow>
       if dget d ''type'' = JStr ''function_call'' \<and> allow_tools then
         rbind (require (\<not> (in_output_started st \<and> in_pending st \<noteq> [])) ''call while unresolved'') (\<lambda>_.
         rbind (validate_function_call p d (in_seen st) declared) (\<lambda>call_id.
         Inr (st\<lparr>in_output_started := (if in_pending st = [] then False else in_output_started st),
           in_seen := in_seen st @ [call_id], in_pending := in_pending st @ [call_id]\<rparr>)))
       else if dget d ''type'' = JStr ''function_call_output'' \<and> allow_tools then
         rbind (validate_function_call_output d (in_seen st) (in_completed st)) (\<lambda>call_id.
         Inr (st\<lparr>in_completed := in_completed st @ [call_id], in_pending := removeAll call_id (in_pending st),
           in_output_started := True\<rparr>))
       else if in_pending st \<noteq> [] then unsupported [''message while unresolved'']
       else
         rbind (require (dget d ''type'' = JNull \<or> dget d ''type'' = JStr ''message'') ''item type'') (\<lambda>_.
         rbind (require (extra_keys d [''type'', ''role'', ''content''] = []) ''item field'') (\<lambda>_.
         rbind (require (str_in (dget_or d ''role'' (JStr ''user'')) [''user'', ''assistant'', ''system'']) ''role'') (\<lambda>_.
         rbind (validate_emulated_content (dget d ''content'')) (\<lambda>_.
         Inr (st\<lparr>in_output_started := False\<rparr>)))))
   | _ \<Rightarrow> unsupported [''input item''])"

fun emulated_items :: "provider \<Rightarrow> bool \<Rightarrow> string list option \<Rightarrow> json list \<Rightarrow> input_state \<Rightarrow> exc + input_state" where
  "emulated_items p allow_tools declared [] st = Inr st"
| "emulated_items p allow_tools declared (v # vs) st =
    rbind (emulated_item p allow_tools declared v st) (\<lambda>st'. emulated_items p allow_tools declared vs st')"

definition validate_emulated_input :: "provider \<Rightarrow> json \<Rightarrow> bool \<Rightarrow> string list option \<Rightarrow> exc + unit" where
  "validate_emulated_input p v allow_tools declared = (case v of
     JNull \<Rightarrow> Inr ()
   | JStr _ \<Rightarrow> Inr ()
   | JList items \<Rightarrow> rbind (emulated_items p allow_tools declared items input_init) (\<lambda>st.
       require (in_pending st = []) ''unresolved call'')
   | _ \<Rightarrow> unsupported [''input shape''])"

section \<open>The emulated tools\<close>

text \<open>One tool: its name and the size of its schema, which counts for the bounded providers.\<close>

definition emulated_tool :: "model \<Rightarrow> string list \<Rightarrow> json \<Rightarrow> exc + string \<times> nat" where
  "emulated_tool m names tool = (let p = md_provider m in case tool of
     JObj d \<Rightarrow>
       rbind (unsupported_nested_fields d [''type'', ''name'', ''description'', ''parameters'', ''strict'']) (\<lambda>_.
       rbind (require (dget d ''type'' = JStr ''function'') ''tool type'') (\<lambda>_.
       rbind (case dget d ''name'' of JStr s \<Rightarrow> if s = [] then unsupported [''tool name''] else Inr s
          | _ \<Rightarrow> unsupported [''tool name'']) (\<lambda>given.
       rbind (if bounded p then validate_tool_name (JStr given) else Inr given) (\<lambda>name.
       rbind (require (name \<notin> set names) ''duplicate tool name'') (\<lambda>_.
       let description = dget d ''description'' in
       rbind (require (description = JNull \<or> is_str description) ''description'') (\<lambda>_.
       rbind (require (\<not> (p = Bedrock \<and> description = JStr [])) ''empty description'') (\<lambda>_.
       let parameters = dget d ''parameters''; schema = (if parameters = JNull then JObj [(''type'', JStr ''object'')] else parameters) in
       rbind (require (parameters = JNull \<or> is_obj parameters) ''parameters'') (\<lambda>_.
       rbind (if bounded p then serialized_json_size schema else Inr 0) (\<lambda>schema_size.
       rbind (if p = Bedrock then validate_bedrock_tool_schema m schema else Inr ()) (\<lambda>_.
       let strict = dget d ''strict'' in
       rbind (if p = Bedrock then validate_bedrock_tool_strict strict
              else if p = Vertex_AI \<and> strict \<noteq> JNull then unsupported [''strict'']
              else if strict \<noteq> JNull \<and> \<not> is_bool strict then unsupported [''strict'']
              else Inr ()) (\<lambda>_.
       Inr (name, schema_size))))))))))))
   | _ \<Rightarrow> unsupported [''tool shape''])"

fun emulated_tools_loop :: "model \<Rightarrow> json list \<Rightarrow> string list \<Rightarrow> nat \<Rightarrow> exc + string list \<times> nat" where
  "emulated_tools_loop m [] names schema_bytes = Inr (names, schema_bytes)"
| "emulated_tools_loop m (tool # tools) names schema_bytes = rbind (emulated_tool m names tool) (\<lambda>(name, schema_size).
     emulated_tools_loop m tools (names @ [name]) (schema_bytes + schema_size))"

definition emulated_tool_choice :: "json \<Rightarrow> string list \<Rightarrow> exc + unit" where
  "emulated_tool_choice choice tool_names = (if choice = JNull then Inr () else let
      valid_named = (case choice of JObj d \<Rightarrow> keys_are d [''type'', ''name''] \<and> dget d ''type'' = JStr ''function'' \<and>
          nonempty_str (dget d ''name'') | _ \<Rightarrow> False)
    in rbind (require (str_in choice [''auto'', ''none'', ''required''] \<or> valid_named) ''tool_choice'') (\<lambda>_.
       require (\<not> (valid_named \<and> \<not> str_in (oget choice ''name'') tool_names)) ''undefined tool''))"

definition validate_emulated_tools :: "model \<Rightarrow> body \<Rightarrow> exc + string list" where
  "validate_emulated_tools m request = (let p = md_provider m in
     rbind (case dget request ''tools'' of
         JNull \<Rightarrow> Inr []
       | JList tools \<Rightarrow>
           rbind (require (\<not> (bounded p \<and> max_tool_count < length tools)) ''tool count'') (\<lambda>_.
           rbind (emulated_tools_loop m tools [] 0) (\<lambda>(names, schema_bytes).
           rbind (require (\<not> (bounded p \<and> max_tool_schema_bytes < schema_bytes)) ''schema bytes'') (\<lambda>_. Inr names)))
       | _ \<Rightarrow> unsupported [''tools shape'']) (\<lambda>tool_names.
     rbind (emulated_tool_choice (dget request ''tool_choice'') tool_names) (\<lambda>_.
     rbind (require (dget request ''parallel_tool_calls'' = JNull \<or> is_bool (dget request ''parallel_tool_calls'')) ''parallel_tool_calls'') (\<lambda>_.
     Inr tool_names))))"


section \<open>Governance of native providers\<close>

definition index_path :: "string \<Rightarrow> nat \<Rightarrow> string \<Rightarrow> string" where
  "index_path pre i post = pre @ ''['' @ int_str (int i) @ '']'' @ post"

text \<open>\<open>for i, x in enumerate(v)\<close> over a value that may be no list.\<close>

definition list_items :: "json \<Rightarrow> (nat \<times> json) list" where
  "list_items v = enumerate_py (list_or_empty v)"

definition input_resource_paths :: "body \<Rightarrow> string list" where
  "input_resource_paths request = concat (map (\<lambda>(i, item). case item of
     JObj d \<Rightarrow>
       (if dget d ''type'' = JStr ''item_reference'' then [index_path ''input'' i ''.item_reference'']
        else if has_key d ''id'' \<and> dget d ''type'' = JNull then [index_path ''input'' i ''.id''] else []) @
       concat (map (\<lambda>(j, part).
         if str_in (oget part ''type'') [''input_file'', ''input_image''] \<and> oget part ''file_id'' \<noteq> JNull
         then [index_path (index_path ''input'' i ''.content'') j ''.file_id''] else []) (list_items (dget d ''content'')))
   | _ \<Rightarrow> []) (list_items (dget request ''input'')))"

definition bad_type :: "json \<Rightarrow> bool" where
  "bad_type v = (case v of JObj d \<Rightarrow> has_key d ''type'' \<and> \<not> is_str (dget d ''type'') | _ \<Rightarrow> False)"

definition malformed_native_discriminator_paths :: "body \<Rightarrow> string list" where
  "malformed_native_discriminator_paths request =
     concat (map (\<lambda>(i, tool). if bad_type tool then [index_path ''tools'' i ''.type''] else []) (list_items (dget request ''tools''))) @
     concat (map (\<lambda>(i, item). case item of
         JObj d \<Rightarrow> (if bad_type item then [index_path ''input'' i ''.type''] else []) @
           concat (map (\<lambda>(j, part). if bad_type part then [index_path (index_path ''input'' i ''.content'') j ''.type''] else [])
             (list_items (dget d ''content'')))
       | _ \<Rightarrow> []) (list_items (dget request ''input'')))"

definition hosted_tool_paths :: "body \<Rightarrow> string list" where
  "hosted_tool_paths request = concat (map (\<lambda>(i, tool). case oget tool ''type'' of
       JStr t \<Rightarrow> if t \<notin> set native_responses_local_tool_types then [index_path ''tools'' i (''.'' @ t)] else []
     | _ \<Rightarrow> []) (list_items (dget request ''tools'')))"

definition validate_native_responses_governance :: "model \<Rightarrow> body \<Rightarrow> exc + body" where
  "validate_native_responses_governance m request = (let effective = merge_params m request;
      refused = filter (\<lambda>f. dget effective f \<noteq> JNull) native_responses_governance_fields @
        (if none_or_false (dget effective ''background'') then [] else [''background'']) @
        (if none_or_false (dget effective ''store'') then [] else [''store'']) @
        malformed_native_discriminator_paths effective @ hosted_tool_paths effective @ input_resource_paths effective
    in if refused \<noteq> [] then unsupported (sort refused)
       else Inr (dict_put ''store'' (JBool False) (dict_merge [] request)))"

definition validate_emulated_model_config :: "model \<Rightarrow> exc + unit" where
  "validate_emulated_model_config m = (let configured = merge_params m [];
      refused = filter (\<lambda>f. dget configured f \<noteq> JNull) emulated_responses_tool_fields @
        (case dget configured ''n'' of JInt n \<Rightarrow> if 1 < n then [''n''] else [] | _ \<Rightarrow> []) @
        (if none_or_false (dget configured ''stream'') then [] else [''stream''])
    in if refused \<noteq> [] then unsupported (sorted_set refused) else Inr ())"

section \<open>The request\<close>

fun any_call_item :: "json list \<Rightarrow> exc + bool" where
  "any_call_item [] = Inr False"
| "any_call_item (v # vs) = (case v of
     JObj d \<Rightarrow> rbind (in_strset (dget d ''type'') [''function_call'', ''function_call_output''])
       (\<lambda>b. if b then Inr True else any_call_item vs)
   | _ \<Rightarrow> any_call_item vs)"

definition has_tool_request :: "body \<Rightarrow> exc + bool" where
  "has_tool_request request =
    (if \<exists>f \<in> set emulated_responses_tool_fields. dget request f \<noteq> JNull then Inr True
     else any_call_item (list_or_empty (dget request ''input'')))"

definition bedrock_responses_tools :: "model \<Rightarrow> body \<Rightarrow> exc + unit" where
  "bedrock_responses_tools m request =
    rbind (require (bedrock_supports_tools (md_provider_model_id m)) ''bedrock model'') (\<lambda>_.
    rbind (require (dget request ''tool_choice'' \<noteq> JStr ''none'') ''tool_choice none'') (\<lambda>_.
    rbind (require (\<not> (is_obj (dget request ''tool_choice'') \<and> \<not> bedrock_supports_named_tool_choice (md_provider_model_id m)))
      ''named tool_choice'') (\<lambda>_.
    require (dget request ''parallel_tool_calls'' \<noteq> JBool False) ''bedrock parallel'')))"

definition vertex_responses_tools :: "model \<Rightarrow> body \<Rightarrow> exc + unit" where
  "vertex_responses_tools m request =
    rbind (require (vertex_supports_tools (md_provider_model_id m)) ''vertex model'') (\<lambda>_.
    require (dget request ''parallel_tool_calls'' \<noteq> JBool False) ''vertex parallel'')"

definition bedrock_responses_text :: "model \<Rightarrow> json \<Rightarrow> exc + unit" where
  "bedrock_responses_text m text_format = (case text_format of
     JObj fmt \<Rightarrow> if dget fmt ''type'' = JStr ''json_schema'' then
         rbind (require (dget fmt ''strict'' = JNull \<or> is_bool (dget fmt ''strict'')) ''text strict'') (\<lambda>_.
         validate_bedrock_structured_tool m (py_or (dget fmt ''name'') (JStr ''structured_output'')) (dget fmt ''schema''))
       else Inr ()
   | _ \<Rightarrow> Inr ())"

text \<open>The emulated providers, from the validation of the configuration on.\<close>

definition validate_emulated_responses :: "model \<Rightarrow> body \<Rightarrow> exc + body" where
  "validate_emulated_responses m request = (let p = md_provider m;
      supports_tools = p \<in> set emulated_responses_tool_providers; text_format = oget (dget request ''text'') ''format'' in
    rbind (validate_emulated_model_config m) (\<lambda>_.
    rbind (validate_bedrock_response_format m (merge_params m [])) (\<lambda>_.
    rbind (require (dget request ''instructions'' = JNull \<or> is_str (dget request ''instructions'')) ''instructions'') (\<lambda>_.
    rbind (if unsupported_responses_fields p request \<noteq> [] then unsupported (unsupported_responses_fields p request) else Inr ()) (\<lambda>_.
    rbind (has_tool_request request) (\<lambda>tool_request.
    rbind (require (\<not> (supports_tools \<and> dget request ''stream'' = JBool True \<and> tool_request \<and>
        p \<notin> set streaming_responses_tool_providers)) ''streaming tools'') (\<lambda>_.
    rbind (if p = Bedrock \<and> tool_request then bedrock_responses_tools m request else Inr ()) (\<lambda>_.
    rbind (if p = Vertex_AI \<and> tool_request then vertex_responses_tools m request else Inr ()) (\<lambda>_.
    rbind (if supports_tools then validate_emulated_tools m request else Inr []) (\<lambda>tool_names.
    rbind (require (\<not> (bounded p \<and> tool_request \<and> tool_names = [])) ''no declared tools'') (\<lambda>_.
    rbind (validate_emulated_text (dget request ''text'')) (\<lambda>_.
    rbind (if p = Bedrock then bedrock_responses_text m text_format else Inr ()) (\<lambda>_.
    rbind (require (\<not> (bounded p \<and> tool_request \<and>
        (str_in (oget text_format ''type'') [''json_object'', ''json_schema''] \<or>
         dget (merge_params m []) ''response_format'' \<noteq> JNull))) ''format with tools'') (\<lambda>_.
    rbind (validate_emulated_input p (dget request ''input'') supports_tools (if bounded p then Some tool_names else None)) (\<lambda>_.
    Inr request)))))))))))))))"

definition validate_responses_request :: "model \<Rightarrow> body \<Rightarrow> exc + body" where
  "validate_responses_request m request =
    rbind (require (stream_field_ok (dget request ''stream'')) ''stream'') (\<lambda>_.
    if md_provider m \<in> set native_responses_providers then validate_native_responses_governance m request
    else validate_emulated_responses m request)"

section \<open>What an accepted request satisfies\<close>

lemma closed_unit_items [closed_intros]:
  "fails_closed (validate_emulated_text v)" "fails_closed (unsupported_nested_fields d names)"
  "fails_closed (validate_item_status d)" "fails_closed (validate_emulated_content v)"
  unfolding validate_emulated_text_def unsupported_nested_fields_def validate_item_status_def validate_emulated_content_def
  by (intro closed_intros)+

lemma closed_call_items [closed_intros]:
  "fails_closed (validate_function_call p d ids names)" "fails_closed (validate_function_call_output d ids ids')"
  unfolding validate_function_call_def validate_function_call_output_def by (intro closed_intros)+

lemma closed_emulated_input [closed_intros]: "fails_closed (validate_emulated_input p v b names)"
proof -
  have "fails_closed (emulated_item p b names v st)" for v st
    unfolding emulated_item_def by (intro closed_intros)
  then have "fails_closed (emulated_items p b names vs st)" for vs st
    by (induction vs arbitrary: st) (auto intro!: closed_intros)
  then show ?thesis unfolding validate_emulated_input_def by (intro closed_intros)
qed

lemma closed_emulated_tools [closed_intros]: "fails_closed (validate_emulated_tools m request)"
proof -
  have t: "fails_closed (emulated_tool m names v)" for names v
    unfolding emulated_tool_def Let_def by (intro closed_intros)
  have l: "fails_closed (emulated_tools_loop m vs names n)" for vs names n
    by (induction vs arbitrary: names n) (auto intro!: closed_intros t)
  have "fails_closed (emulated_tool_choice v names)" for v names
    unfolding emulated_tool_choice_def Let_def by (intro closed_intros)
  with l show ?thesis unfolding validate_emulated_tools_def Let_def by (intro closed_intros)
qed

lemma closed_tool_request [closed_intros]: "fails_closed (has_tool_request request)"
proof -
  have "fails_closed (any_call_item vs)" for vs
    by (induction vs) (auto intro!: closed_intros split: json.split)
  then show ?thesis unfolding has_tool_request_def by (intro closed_intros)
qed

lemma closed_responses_parts [closed_intros]:
  "fails_closed (bedrock_responses_tools m request)" "fails_closed (vertex_responses_tools m request)"
  "fails_closed (bedrock_responses_text m v)" "fails_closed (validate_emulated_model_config m)"
  "fails_closed (validate_native_responses_governance m request)"
  unfolding bedrock_responses_tools_def vertex_responses_tools_def bedrock_responses_text_def
    validate_emulated_model_config_def validate_native_responses_governance_def Let_def
  by (intro closed_intros)+

lemma closed_responses: "fails_closed (validate_responses_request m request)"
  unfolding validate_responses_request_def validate_emulated_responses_def Let_def by (intro closed_intros)

lemma emulated_same: "validate_emulated_responses m request = Inr r \<Longrightarrow> r = request"
  by (auto simp: validate_emulated_responses_def Let_def split: if_splits)

lemma dict_merge_nil_lookup: "wf_dict d \<Longrightarrow> map_of (dict_merge [] d) = map_of d"
  by (simp add: dict_simps)

text \<open>
  C39. Responses validation hands an emulated request on unchanged and a native one with \<open>store\<close> set
  to false and nothing else changed; everything else is refused with \<open>UnsupportedOperation\<close> (or the
  \<open>TypeError\<close> of an unhashable discriminator).
\<close>

theorem responses_governed_or_refused:
  assumes "wf_dict request"
  shows "case validate_responses_request m request of
     Inr r \<Rightarrow> if md_provider m \<in> {OpenAI, Azure_OpenAI} then map_of r = (map_of request)(''store'' \<mapsto> JBool False) else r = request
   | Inl e \<Rightarrow> e = Builtin TypeError \<or> (\<exists>tag. e = Domain (Request UnsupportedOperation) tag NoRetry None)"
proof (cases "validate_responses_request m request")
  case (Inl e)
  then show ?thesis using closed_responses [of m request] by (simp add: fails_closed_def policy_error_def)
next
  case (Inr r)
  show ?thesis
  proof (cases "md_provider m \<in> set native_responses_providers")
    case True
    with Inr have "r = dict_put ''store'' (JBool False) (dict_merge [] request)"
      by (auto simp: validate_responses_request_def validate_native_responses_governance_def Let_def split: if_splits)
    then have "map_of r = (map_of request)(''store'' \<mapsto> JBool False)"
      by (simp add: map_of_dict_put dict_merge_nil_lookup [OF assms])
    with Inr True show ?thesis by (simp add: native_responses_providers_def)
  next
    case False
    with Inr have "r = request" by (auto simp: validate_responses_request_def dest: emulated_same)
    with Inr False show ?thesis by (simp add: native_responses_providers_def)
  qed
qed

theorem responses_governed_or_refused_witness:
  "validate_responses_request sample_model [(''input'', JStr ''x'')] = Inr [(''input'', JStr ''x''), (''store'', JBool False)] \<and>
   (case validate_responses_request sample_model [(''input'', JStr ''x'')] of Inr r \<Rightarrow> map_of r ''store'' = Some (JBool False) | Inl e \<Rightarrow> False)"
proof -
  have a: "validate_responses_request sample_model [(''input'', JStr ''x'')] = Inr [(''input'', JStr ''x''), (''store'', JBool False)]"
    by code_simp
  have "wf_dict [(''input'', JStr ''x'')]" by (simp add: wf_dict_def)
  from responses_governed_or_refused [OF this, of sample_model] show ?thesis
    unfolding a by (simp add: sample_model_def)
qed

section \<open>Native requests\<close>

lemma list_items_cons_paths:
  "concat (map (\<lambda>(i, x). f i x) (list_items (JList vs))) = [] \<longleftrightarrow> (\<forall>i < length vs. f i (vs ! i) = [])"
proof -
  have "concat (map (\<lambda>(i, x). f i x) (enumerate_py vs)) = [] \<longleftrightarrow> (\<forall>i x. (i, x) \<in> set (enumerate_py vs) \<longrightarrow> f i x = [])"
    by (auto simp: concat_eq_Nil_conv)
  then show ?thesis by (simp add: list_items_def list_or_empty_def set_enumerate_py)
qed

lemma hosted_none:
  assumes "hosted_tool_paths d = []" "malformed_native_discriminator_paths d = []" "dget d ''tools'' = JList tools" "t \<in> set tools"
  shows "oget t ''type'' = JNull \<or> oget t ''type'' = JStr ''function'' \<or> oget t ''type'' = JStr ''custom''"
proof -
  from assms(4) obtain i where i: "i < length tools" "tools ! i = t" by (auto simp: in_set_conv_nth)
  have h: "(case oget t ''type'' of JStr s \<Rightarrow> if s \<notin> set native_responses_local_tool_types
      then [index_path ''tools'' i (''.'' @ s)] else [] | _ \<Rightarrow> []) = []"
    using assms(1) i unfolding hosted_tool_paths_def assms(3) list_items_cons_paths by blast
  have "(if bad_type t then [index_path ''tools'' i ''.type''] else []) = []"
    using assms(2) i unfolding malformed_native_discriminator_paths_def assms(3) append_is_Nil_conv list_items_cons_paths by blast
  then have b: "\<not> bad_type t" by (simp split: if_splits)
  show ?thesis
  proof (cases t)
    case (JObj x)
    with b have "dget x ''type'' = JNull \<or> is_str (dget x ''type'')"
      by (auto simp: bad_type_def dget_def split: option.splits)
    with h JObj show ?thesis
      by (auto simp: oget_def is_iff native_responses_local_tool_types_def split: if_splits)
  qed (simp_all add: oget_def)
qed

text \<open>
  C29. A native Responses request that is accepted keeps no provider state and bills synchronously: in
  the body actually sent (defaults and enforced parameters included) none of the six stateful or
  tier fields is set, \<open>background\<close> is not on, \<open>store\<close> is off, and every tool runs at the client
  (\<open>function\<close> or \<open>custom\<close>), none at the provider.
\<close>

theorem native_request_is_stateless:
  assumes "wf_dict (md_params m)" "wf_dict request" "wf_dict (md_params_enforced m)"
    and "md_provider m \<in> {OpenAI, Azure_OpenAI}" "validate_responses_request m request = Inr r"
  shows "(\<forall>f \<in> set native_responses_governance_fields. dget (merge_params m r) f = JNull) \<and>
    none_or_false (dget (merge_params m r) ''background'') \<and> none_or_false (dget (merge_params m r) ''store'') \<and>
    (\<not> has_key (md_params_enforced m) ''store'' \<longrightarrow> dget (merge_params m r) ''store'' = JBool False) \<and>
    (\<forall>tools. dget (merge_params m r) ''tools'' = JList tools \<longrightarrow> (\<forall>t \<in> set tools.
       oget t ''type'' \<in> {JNull, JStr ''function'', JStr ''custom''}))"
proof -
  let ?e = "merge_params m request"
  have v: "validate_native_responses_governance m request = Inr r"
    using assms(4,5) by (auto simp: validate_responses_request_def native_responses_providers_def)
  then have r: "r = dict_put ''store'' (JBool False) (dict_merge [] request)"
    and g: "filter (\<lambda>f. dget ?e f \<noteq> JNull) native_responses_governance_fields = []"
      "none_or_false (dget ?e ''background'')" "none_or_false (dget ?e ''store'')"
      "malformed_native_discriminator_paths ?e = []" "hosted_tool_paths ?e = []"
    by (auto simp: validate_native_responses_governance_def Let_def split: if_splits)
  have wr: "wf_dict r" unfolding r by (intro wf_dict_put wf_dict_merge wf_dict_Nil)
  have kr: "has_key r k \<longleftrightarrow> k = ''store'' \<or> has_key request k" for k
    unfolding r by (simp add: map_of_dict_put dict_merge_nil_lookup [OF assms(2)])
  have dr: "dget r k = (if k = ''store'' then JBool False else dget request k)" for k
    unfolding r dget_put by (simp add: dget_def dict_merge_nil_lookup [OF assms(2)])
  have other: "dget (merge_params m r) k = dget ?e k" if "k \<noteq> ''store''" for k
    unfolding merge_params_dget [OF assms(1) wr assms(3)] merge_params_dget [OF assms(1,2,3)] dr kr
    using that by simp
  have store: "dget (merge_params m r) ''store'' = (if has_key (md_params_enforced m) ''store''
      then dget (md_params_enforced m) ''store'' else JBool False)"
    unfolding merge_params_dget [OF assms(1) wr assms(3)] dr kr by simp
  have es: "has_key (md_params_enforced m) ''store'' \<Longrightarrow> dget ?e ''store'' = dget (md_params_enforced m) ''store''"
    unfolding merge_params_dget [OF assms(1,2,3)] by simp
  have "\<forall>f \<in> set native_responses_governance_fields. dget (merge_params m r) f = JNull"
  proof
    fix f assume f: "f \<in> set native_responses_governance_fields"
    then have "dget ?e f = JNull" using g(1) by (auto simp: filter_empty_conv)
    moreover have "f \<noteq> ''store''" using f by (auto simp: native_responses_governance_fields_def)
    ultimately show "dget (merge_params m r) f = JNull" using other by simp
  qed
  moreover have "none_or_false (dget (merge_params m r) ''store'')"
    unfolding store using g(3) es by (cases "has_key (md_params_enforced m) ''store''") simp_all
  moreover have "oget t ''type'' \<in> {JNull, JStr ''function'', JStr ''custom''}"
    if "dget (merge_params m r) ''tools'' = JList tools" "t \<in> set tools" for tools t
    using hosted_none [OF g(5,4) _ that(2)] that(1) other [of "''tools''"] by simp
  ultimately show ?thesis using g(2) other [of "''background''"] store by auto
qed

theorem native_request_is_stateless_witness:
  "dget (merge_params sample_model [(''input'', JStr ''x''), (''store'', JBool False)]) ''store'' = JBool False"
proof -
  have v: "validate_responses_request sample_model [(''input'', JStr ''x'')] = Inr [(''input'', JStr ''x''), (''store'', JBool False)]"
    by code_simp
  show ?thesis
    using native_request_is_stateless [OF _ _ _ _ v] by (simp add: sample_model_def wf_dict_def)
qed

section \<open>Emulated conversations\<close>

text \<open>The events of an input; a function call is a group of one.\<close>

definition item_event :: "json \<Rightarrow> replay_event" where
  "item_event item = (let cid = (case oget item ''call_id'' of JStr s \<Rightarrow> s | _ \<Rightarrow> []) in
     if oget item ''type'' = JStr ''function_call'' then Calls [cid]
     else if oget item ''type'' = JStr ''function_call_output'' then Result cid
     else Other)"

text \<open>Runs of calls, each run followed at once by one output for each of its calls.\<close>

inductive groups_ok :: "replay_event list \<Rightarrow> bool" where
  groups_ok_Nil: "groups_ok []"
| groups_ok_Other: "groups_ok es \<Longrightarrow> groups_ok (Other # es)"
| groups_ok_Group: "ids \<noteq> [] \<Longrightarrow> mset rs = mset ids \<Longrightarrow> groups_ok es \<Longrightarrow>
    groups_ok (map (\<lambda>i. Calls [i]) ids @ map Result rs @ es)"

lemma groups_ok_block: "mset rs = mset ids \<Longrightarrow> groups_ok es \<Longrightarrow> groups_ok (map (\<lambda>i. Calls [i]) ids @ map Result rs @ es)"
  by (cases "ids = []") (auto intro: groups_ok_Group)

definition input_inv :: "input_state \<Rightarrow> bool" where
  "input_inv st \<longleftrightarrow> distinct (in_seen st) \<and> distinct (in_pending st) \<and> set (in_completed st) \<subseteq> set (in_seen st) \<and>
     set (in_pending st) = set (in_seen st) - set (in_completed st)"

lemma function_call_Inr:
  "validate_function_call p d ids names = Inr cid \<Longrightarrow> dget d ''call_id'' = JStr cid \<and> cid \<notin> set ids"
  by (auto simp: validate_function_call_def split: json.splits)

lemma function_call_output_Inr:
  "validate_function_call_output d ids done_ids = Inr cid \<Longrightarrow>
    dget d ''call_id'' = JStr cid \<and> cid \<in> set ids \<and> cid \<notin> set done_ids"
  by (auto simp: validate_function_call_output_def split: json.splits)

text \<open>The three effects of an item on the open calls.\<close>

lemma emulated_item_Inr:
  assumes "emulated_item p True names v st = Inr st'" "input_inv st"
  shows "(\<exists>cid. item_event v = Calls [cid] \<and> cid \<notin> set (in_seen st) \<and> (in_output_started st \<longrightarrow> in_pending st = []) \<and>
        st' = st\<lparr>in_output_started := False, in_seen := in_seen st @ [cid], in_pending := in_pending st @ [cid]\<rparr>) \<or>
     (\<exists>cid. item_event v = Result cid \<and> cid \<in> set (in_pending st) \<and>
        st' = st\<lparr>in_completed := in_completed st @ [cid], in_pending := removeAll cid (in_pending st), in_output_started := True\<rparr>) \<or>
     (item_event v = Other \<and> in_pending st = [] \<and> st' = st\<lparr>in_output_started := False\<rparr>)"
proof -
  obtain d where d: "v = JObj d" using assms(1) by (cases v) (auto simp: emulated_item_def)
  consider (call) "dget d ''type'' = JStr ''function_call''" | (result) "dget d ''type'' = JStr ''function_call_output''"
    | (message) "dget d ''type'' \<noteq> JStr ''function_call''" "dget d ''type'' \<noteq> JStr ''function_call_output''" by blast
  then show ?thesis
  proof cases
    case call
    with assms(1) d obtain cid where c: "validate_function_call p d (in_seen st) names = Inr cid"
      "\<not> (in_output_started st \<and> in_pending st \<noteq> [])"
      "st' = st\<lparr>in_output_started := (if in_pending st = [] then False else in_output_started st),
           in_seen := in_seen st @ [cid], in_pending := in_pending st @ [cid]\<rparr>"
      by (auto simp: emulated_item_def)
    from c(2) have "(if in_pending st = [] then False else in_output_started st) = False" by auto
    with c function_call_Inr [OF c(1)] call d show ?thesis by (auto simp: item_event_def oget_def Let_def)
  next
    case result
    with assms(1) d obtain cid where c: "validate_function_call_output d (in_seen st) (in_completed st) = Inr cid"
      "st' = st\<lparr>in_completed := in_completed st @ [cid], in_pending := removeAll cid (in_pending st), in_output_started := True\<rparr>"
      by (auto simp: emulated_item_def)
    with function_call_output_Inr [OF c(1)] result d assms(2) show ?thesis
      by (auto simp: item_event_def oget_def Let_def input_inv_def)
  next
    case message
    with assms(1) d have "in_pending st = []" "st' = st\<lparr>in_output_started := False\<rparr>"
      by (auto simp: emulated_item_def split: if_splits)
    with message d show ?thesis by (simp add: item_event_def oget_def Let_def)
  qed
qed

lemma emulated_items_sound:
  assumes "emulated_items p True names vs st = Inr st'" "in_pending st' = []" "input_inv st"
  shows "\<exists>ids rs es. map item_event vs = map (\<lambda>i. Calls [i]) ids @ map Result rs @ es \<and>
    mset rs = mset (in_pending st @ ids) \<and> groups_ok es \<and> (in_output_started st \<and> in_pending st \<noteq> [] \<longrightarrow> ids = []) \<and>
    distinct (call_ids (map item_event vs)) \<and> set (call_ids (map item_event vs)) \<inter> set (in_seen st) = {}"
  using assms
proof (induction vs arbitrary: st)
  case Nil
  then show ?case by (intro exI [of _ "[]"]) (auto intro: groups_ok_Nil)
next
  case (Cons v vs)
  from Cons.prems obtain st1 where 1: "emulated_item p True names v st = Inr st1" "emulated_items p True names vs st1 = Inr st'"
    by auto
  note IH = Cons.IH [OF 1(2) Cons.prems(2)]
  from emulated_item_Inr [OF 1(1) Cons.prems(3)] show ?case
  proof (elim disjE exE conjE)
    fix cid
    assume e: "item_event v = Calls [cid]" "cid \<notin> set (in_seen st)" "in_output_started st \<longrightarrow> in_pending st = []"
      and st1: "st1 = st\<lparr>in_output_started := False, in_seen := in_seen st @ [cid], in_pending := in_pending st @ [cid]\<rparr>"
    have "input_inv st1" using Cons.prems(3) e(2) by (auto simp: input_inv_def st1)
    from IH [OF this] obtain ids rs es where r0: "map item_event vs = map (\<lambda>i. Calls [i]) ids @ map Result rs @ es"
      "mset rs = mset (in_pending st1 @ ids)" "groups_ok es" "in_output_started st1 \<and> in_pending st1 \<noteq> [] \<longrightarrow> ids = []"
      "distinct (call_ids (map item_event vs))" "set (call_ids (map item_event vs)) \<inter> set (in_seen st1) = {}" by blast
    have f: "in_pending st1 = in_pending st @ [cid]" "in_seen st1 = in_seen st @ [cid]" "in_output_started st1 = False" by (simp_all add: st1)
    note r = r0 [unfolded f]
    then show ?thesis using e
      by (intro exI [of _ "cid # ids"] exI [of _ rs] exI [of _ es]) auto
  next
    fix cid
    assume e: "item_event v = Result cid" "cid \<in> set (in_pending st)"
      and st1: "st1 = st\<lparr>in_completed := in_completed st @ [cid], in_pending := removeAll cid (in_pending st), in_output_started := True\<rparr>"
    have inv: "input_inv st" by fact
    then have "input_inv st1" using e(2) by (auto simp: input_inv_def st1 distinct_removeAll)
    from IH [OF this] obtain ids rs es where r0: "map item_event vs = map (\<lambda>i. Calls [i]) ids @ map Result rs @ es"
      "mset rs = mset (in_pending st1 @ ids)" "groups_ok es" "in_output_started st1 \<and> in_pending st1 \<noteq> [] \<longrightarrow> ids = []"
      "distinct (call_ids (map item_event vs))" "set (call_ids (map item_event vs)) \<inter> set (in_seen st1) = {}" by blast
    have f: "in_pending st1 = removeAll cid (in_pending st)" "in_seen st1 = in_seen st" "in_output_started st1 = True" by (simp_all add: st1)
    note r = r0 [unfolded f]
    have rm: "mset (in_pending st) = add_mset cid (mset (removeAll cid (in_pending st)))"
      using inv e(2) by (simp add: input_inv_def distinct_remove1_removeAll [symmetric])
    show ?thesis
    proof (cases "removeAll cid (in_pending st) = []")
      case True
      then have "groups_ok (map (\<lambda>i. Calls [i]) ids @ map Result rs @ es)" using r(2,3) by (intro groups_ok_block) auto
      with True r e rm show ?thesis
        by (intro exI [of _ "[]"] exI [of _ "[cid]"] exI [of _ "map item_event vs"]) auto
    next
      case False
      with r e rm show ?thesis by (intro exI [of _ "[]"] exI [of _ "cid # rs"] exI [of _ es]) auto
    qed
  next
    assume e: "item_event v = Other" "in_pending st = []" and st1: "st1 = st\<lparr>in_output_started := False\<rparr>"
    have "input_inv st1" using Cons.prems(3) by (simp add: input_inv_def st1)
    from IH [OF this] obtain ids rs es where r0: "map item_event vs = map (\<lambda>i. Calls [i]) ids @ map Result rs @ es"
      "mset rs = mset (in_pending st1 @ ids)" "groups_ok es" "in_output_started st1 \<and> in_pending st1 \<noteq> [] \<longrightarrow> ids = []"
      "distinct (call_ids (map item_event vs))" "set (call_ids (map item_event vs)) \<inter> set (in_seen st1) = {}" by blast
    have f: "in_pending st1 = []" "in_seen st1 = in_seen st" by (simp_all add: st1 e(2))
    note r = r0 [unfolded f]
    then have "groups_ok (Other # map item_event vs)" by (auto intro: groups_ok_Other groups_ok_block)
    with r e show ?thesis
      by (intro exI [of _ "[]"] exI [of _ "[]"] exI [of _ "Other # map item_event vs"]) auto
  qed
qed

text \<open>
  An accepted emulated conversation is closed: on a provider with tools, each run of function
  calls of an accepted input list is followed at once by exactly one output for each of its calls,
  nothing stays open at the end, and no call id is used twice.
\<close>

theorem emulated_input_is_answered:
  assumes "validate_emulated_input p (JList items) True names = Inr ()"
  shows "groups_ok (map item_event items) \<and> distinct (call_ids (map item_event items))"
proof -
  from assms obtain st where "emulated_items p True names items input_init = Inr st" "in_pending st = []"
    by (auto simp: validate_emulated_input_def)
  moreover have "input_inv input_init" by (simp add: input_inv_def input_init_def)
  ultimately show ?thesis
    using emulated_items_sound [of p names items input_init st] by (auto simp: input_init_def intro: groups_ok_block)
qed

definition sample_items :: "json list" where
  "sample_items = [JObj [(''type'', JStr ''function_call''), (''call_id'', JStr ''a''), (''name'', JStr ''f''), (''arguments'', JStr ''{}'')],
     JObj [(''type'', JStr ''function_call_output''), (''call_id'', JStr ''a''), (''output'', JStr ''x'')],
     JObj [(''content'', JStr ''hi'')]]"

theorem emulated_input_is_answered_witness:
  "validate_emulated_input Databricks (JList sample_items) True None = Inr () \<and> groups_ok (map item_event sample_items)"
proof -
  have "validate_emulated_input Databricks (JList sample_items) True None = Inr ()" by code_simp
  with emulated_input_is_answered [OF this] show ?thesis by simp
qed

end
