(* ===== verification/Usage_Accounting.thy ===== *)
theory Usage_Accounting
  imports Request_Limits
begin

text \<open>
  The pure half of \<open>application/usage_meter.py\<close>: the text of a request and of stream chunks, token
  estimates, reading a provider's usage report, and the pessimistic cost reserved before a call.
  The lemmas show that the reservation bounds what settlement can charge, that estimates are never
  short, and when a report counts as authoritative.
\<close>

section \<open>Estimates\<close>

definition chars_per_token :: int where
  "chars_per_token = 4"

definition usage_estimate_tokens :: "int \<Rightarrow> int" where
  "usage_estimate_tokens chars = (chars + chars_per_token - 1) div chars_per_token"

text \<open>\<open>json.dumps(..., sort_keys=True)\<close>.\<close>

fun sort_json :: "json \<Rightarrow> json" where
  "sort_json (JList vs) = JList (map sort_json vs)"
| "sort_json (JObj d) = JObj (sort_key fst (map (\<lambda>kv. (fst kv, sort_json (snd kv))) d))"
| "sort_json v = v"

definition serialized_prompt_value :: "json \<Rightarrow> string" where
  "serialized_prompt_value v = dumps (sort_json v)"

definition newline :: string where
  "newline = [char_of (10 :: nat)]"

definition str_field :: "body \<Rightarrow> string \<Rightarrow> string list" where
  "str_field d k = (case dget d k of JStr s \<Rightarrow> [s] | _ \<Rightarrow> [])"

text \<open>The text blocks of a list of content parts.\<close>

definition block_texts :: "json list \<Rightarrow> string list" where
  "block_texts vs = concat (map (\<lambda>v. case v of JObj d \<Rightarrow> str_field d ''text'' | _ \<Rightarrow> []) vs)"

definition text_or_blocks :: "json \<Rightarrow> string list" where
  "text_or_blocks v = (case v of JStr s \<Rightarrow> [s] | JList vs \<Rightarrow> block_texts vs | _ \<Rightarrow> [])"

definition item_texts :: "json \<Rightarrow> string list" where
  "item_texts item = (case item of
     JStr s \<Rightarrow> [s]
   | JObj d \<Rightarrow>
       concat (map (str_field d) [''call_id'', ''name'', ''arguments'', ''output'']) @
       (if is_list (dget d ''tool_calls'') then [serialized_prompt_value (dget d ''tool_calls'')] else []) @
       text_or_blocks (dget d ''content'')
   | _ \<Rightarrow> [])"

definition request_items :: "body \<Rightarrow> exc + json list" where
  "request_items request = (let messages = dget request ''messages'' in
     if truthy messages then iterate messages else Inr (list_or_empty (dget request ''input'')))"

definition request_text :: "body \<Rightarrow> exc + string" where
  "request_text request = rbind (request_items request) (\<lambda>items. Inr (join newline (
     str_field request ''instructions'' @ text_or_blocks (dget request ''system'') @ str_field request ''input'' @
     concat (map item_texts items) @
     concat (map (\<lambda>f. if dget request f \<noteq> JNull then [serialized_prompt_value (dget request f)] else [])
       [''tools'', ''tool_choice'', ''response_format'', ''text'']))))"

section \<open>Output text of stream chunks\<close>

definition get_or_empty :: "body \<Rightarrow> string \<Rightarrow> json" where
  "get_or_empty d k = py_or (dget d k) (JObj [])"

definition choice_text :: "json \<Rightarrow> exc + string" where
  "choice_text choice = (case choice of
     JObj d \<Rightarrow> rbind (dict_get (get_or_empty d ''delta'') ''content'') (\<lambda>content.
       Inr (case content of JStr s \<Rightarrow> s | _ \<Rightarrow> []))
   | _ \<Rightarrow> Inr [])"

definition chunk_output_text :: "body \<Rightarrow> exc + string" where
  "chunk_output_text chunk =
    (if dget chunk ''type'' = JStr ''response.output_text.delta'' \<or> dget chunk ''type'' = JStr ''response.function_call_arguments.delta''
     then Inr (case dget chunk ''delta'' of JStr s \<Rightarrow> s | _ \<Rightarrow> [])
     else rbind (iterate_or_empty (dget chunk ''choices'')) (\<lambda>choices.
       rbind (rmap choice_text choices) (\<lambda>texts. Inr (concat texts))))"

definition native_event_text :: "body \<Rightarrow> exc + string" where
  "native_event_text event =
    (if dget event ''type'' \<noteq> JStr ''content_block_delta'' then Inr []
     else let delta = get_or_empty event ''delta'' in
       rbind (dict_get delta ''text'') (\<lambda>t. case t of
         JStr s \<Rightarrow> Inr s
       | _ \<Rightarrow> rbind (dict_get delta ''partial_json'') (\<lambda>p. Inr (case p of JStr s \<Rightarrow> s | _ \<Rightarrow> []))))"

definition candidate_text :: "json \<Rightarrow> exc + string" where
  "candidate_text candidate = (case candidate of
     JObj d \<Rightarrow> rbind (dict_get (get_or_empty d ''content'') ''parts'') (\<lambda>parts.
       rbind (iterate_or_empty parts) (\<lambda>ps. Inr (concat (block_texts ps))))
   | _ \<Rightarrow> Inr [])"

definition gemini_chunk_text :: "body \<Rightarrow> exc + string" where
  "gemini_chunk_text chunk = rbind (iterate_or_empty (dget chunk ''candidates'')) (\<lambda>cs.
     rbind (rmap candidate_text cs) (\<lambda>texts. Inr (concat texts)))"

section \<open>Usage reports\<close>

text \<open>\<open>int(s)\<close> of a string: digits with single underscores between them, a sign, blanks around.\<close>

fun digit_groups :: "string \<Rightarrow> bool \<Rightarrow> bool" where
  "digit_groups [] after_digit = after_digit"
| "digit_groups (c # s) after_digit = (if is_digit c then digit_groups s True
     else c = CHR ''_'' \<and> after_digit \<and> s \<noteq> [] \<and> digit_groups s False)"

definition int_of_str :: "string \<Rightarrow> exc + int" where
  "int_of_str text = (let s = strip text;
      (sgn, body) = (case s of c # r \<Rightarrow> if c = CHR ''-'' then (-1, r) else if c = CHR ''+'' then (1, r) else (1, s)
        | [] \<Rightarrow> (1, s));
      ds = filter is_digit body
    in if digit_groups body False \<and> length ds \<le> 4300 then Inr (sgn * digits_val ds) else raise_py ValueError)"

fun py_int :: "json \<Rightarrow> exc + int" where
  "py_int (JBool b) = Inr (if b then 1 else 0)"
| "py_int (JInt i) = Inr i"
| "py_int (JFloat q) = Inr (int_of_float q)"
| "py_int (JStr s) = int_of_str s"
| "py_int _ = raise_py TypeError"

text \<open>\<open>int(usage.get(key) or 0)\<close>.\<close>

definition int_or_zero :: "body \<Rightarrow> string \<Rightarrow> exc + int" where
  "int_or_zero usage key = (if truthy (dget usage key) then py_int (dget usage key) else Inr 0)"

fun any_nonzero :: "body \<Rightarrow> string list \<Rightarrow> exc + bool" where
  "any_nonzero usage [] = Inr False"
| "any_nonzero usage (k # ks) = rbind (int_or_zero usage k) (\<lambda>n. if n \<noteq> 0 then Inr True else any_nonzero usage ks)"

definition has_tokens :: "body \<Rightarrow> exc + bool" where
  "has_tokens usage = any_nonzero usage [''prompt_tokens'', ''completion_tokens'', ''input_tokens'', ''output_tokens'']"

definition nonneg_int :: "json \<Rightarrow> bool" where
  "nonneg_int v = (case as_int v of Some i \<Rightarrow> 0 \<le> i | None \<Rightarrow> False)"

definition has_authoritative_usage :: "body \<Rightarrow> bool" where
  "has_authoritative_usage usage \<longleftrightarrow>
    (\<exists>(p, c) \<in> set [(''prompt_tokens'', ''completion_tokens''), (''input_tokens'', ''output_tokens'')].
       nonneg_int (dget usage p) \<and> nonneg_int (dget usage c))"

definition content_filtered :: "json \<Rightarrow> bool" where
  "content_filtered choice \<longleftrightarrow> oget choice ''finish_reason'' = JStr ''content_filter''"

definition is_uncharged_refusal :: "body \<Rightarrow> body \<Rightarrow> exc + bool" where
  "is_uncharged_refusal response usage =
    rbind (iterate_or_empty (dget response ''choices'')) (\<lambda>choices.
    let chat_refusal = list_ex content_filtered choices in
    rbind (if dget response ''status'' = JStr ''incomplete''
       then rbind (dict_get (get_or_empty response ''incomplete_details'') ''reason'') (\<lambda>r. Inr (r = JStr ''content_filter''))
       else Inr False) (\<lambda>responses_refusal.
    if (chat_refusal \<or> responses_refusal) \<and> has_authoritative_usage usage
    then rbind (has_tokens usage) (\<lambda>b. Inr (\<not> b)) else Inr False))"

text \<open>\<open>isinstance(value, int) and value > 0\<close>; here \<open>True\<close> counts as one.\<close>

fun positive_int :: "json \<Rightarrow> int option" where
  "positive_int (JInt i) = (if 0 < i then Some i else None)"
| "positive_int (JBool b) = (if b then Some 1 else None)"
| "positive_int _ = None"

fun first_positive :: "body \<Rightarrow> string list \<Rightarrow> int" where
  "first_positive request [] = 0"
| "first_positive request (k # ks) = (case positive_int (dget request k) of
     Some i \<Rightarrow> i | None \<Rightarrow> first_positive request ks)"

definition max_output_tokens :: "body \<Rightarrow> int" where
  "max_output_tokens request = first_positive request [''max_tokens'', ''max_completion_tokens'', ''max_output_tokens'']"

definition model_rates :: "model \<Rightarrow> exc + rates" where
  "model_rates m = rate_card (md_prices m)"

definition token_usage :: "body \<Rightarrow> exc + billable_usage" where
  "token_usage usage =
    rbind (int_or_zero usage (if has_key usage ''prompt_tokens'' then ''prompt_tokens'' else ''input_tokens'')) (\<lambda>prompt.
    rbind (int_or_zero usage (if has_key usage ''completion_tokens'' then ''completion_tokens'' else ''output_tokens'')) (\<lambda>completion.
    rbind (int_or_zero usage ''cache_creation_input_tokens'') (\<lambda>cw.
    rbind (int_or_zero usage ''cache_read_input_tokens'') (\<lambda>cr.
    Inr (no_usage\<lparr>prompt_tokens := prompt, completion_tokens := completion, cache_write_tokens := cw, cache_read_tokens := cr\<rparr>)))))"

definition image_usage :: "body option \<Rightarrow> body \<Rightarrow> billable_usage" where
  "image_usage request response = (let
      count = (case dget response ''data'' of JList vs \<Rightarrow> int (length vs) | _ \<Rightarrow> 0);
      field = (\<lambda>k. case request of Some d \<Rightarrow> as_str (dget d k) | None \<Rightarrow> None)
    in no_usage\<lparr>image_count := count, image_size := field ''size'', image_quality := field ''quality''\<rparr>)"

definition parse_usage :: "model \<Rightarrow> body \<Rightarrow> exc + int \<times> int \<times> dec" where
  "parse_usage m usage = rbind (token_usage usage) (\<lambda>billable. rbind (model_rates m) (\<lambda>rates.
     rbind (compute_cost billable rates) (\<lambda>cost. Inr (prompt_tokens billable, completion_tokens billable, cost))))"

section \<open>The reservation\<close>

definition worst_case_prompt_usage :: "int \<Rightarrow> int \<Rightarrow> rates \<Rightarrow> billable_usage" where
  "worst_case_prompt_usage prompt output rates = (let
      input_rate = dval (or_zero (input_cost_per_token rates));
      cache_write_rate = dval (or_zero (cache_write_cost_per_token rates));
      cache_read_rate = dval (or_zero (cache_read_cost_per_token rates))
    in if input_rate < cache_write_rate \<and> cache_read_rate \<le> cache_write_rate
       then no_usage\<lparr>cache_write_tokens := prompt, completion_tokens := output\<rparr>
     else if input_rate < cache_read_rate then no_usage\<lparr>cache_read_tokens := prompt, completion_tokens := output\<rparr>
     else no_usage\<lparr>prompt_tokens := prompt, completion_tokens := output\<rparr>)"

definition choices_of :: "body \<Rightarrow> int" where
  "choices_of request = (case as_int (dget request ''n'') of Some n \<Rightarrow> if 0 < n then n else 1 | None \<Rightarrow> 1)"

definition reservation_cost :: "model \<Rightarrow> body \<Rightarrow> exc + dec" where
  "reservation_cost m request = rbind (model_rates m) (\<lambda>rates.
     if md_type m = Image then
       compute_cost (no_usage\<lparr>image_count := choices_of request,
         image_size := as_str (dget request ''size''), image_quality := as_str (dget request ''quality'')\<rparr>) rates
     else rbind (request_text request) (\<lambda>prompt_text.
       compute_cost (worst_case_prompt_usage (usage_estimate_tokens (int (length prompt_text)))
         (max_output_tokens request * choices_of request) rates) rates))"

section \<open>What the estimates promise\<close>

lemma first_positive_nonneg: "0 \<le> first_positive request ks"
proof (induction ks)
  case (Cons k ks)
  then show ?case by (cases "dget request k") auto
qed simp

lemma choices_of_ge1: "1 \<le> choices_of request"
  by (auto simp: choices_of_def split: option.splits)

lemma usage_estimate_bounds:
  "0 \<le> n \<Longrightarrow> 0 \<le> usage_estimate_tokens n \<and> n \<le> 4 * usage_estimate_tokens n \<and> 4 * usage_estimate_tokens n < n + 4"
  unfolding usage_estimate_tokens_def chars_per_token_def by linarith

lemma join_newline_length: "length (join newline ss) \<ge> sum_list (map length ss)"
  by (induction newline ss rule: join.induct) auto

text \<open>
  The prompt estimate is never short: it is the least number of tokens of four characters that
  covers every text of the request it collects (instructions, system prompt, input, messages with
  their tool calls, tool declarations), and it is zero only for a request without text.
\<close>

theorem prompt_estimate_covers_text:
  assumes "request_text request = Inr t" "request_items request = Inr items"
  shows "int (sum_list (map length (str_field request ''instructions'' @ text_or_blocks (dget request ''system'') @
       str_field request ''input'' @ concat (map item_texts items)))) \<le> 4 * usage_estimate_tokens (int (length t)) \<and>
    4 * usage_estimate_tokens (int (length t)) < int (length t) + 4 \<and>
    (usage_estimate_tokens (int (length t)) = 0 \<longleftrightarrow> t = [])"
proof -
  let ?ts = "str_field request ''instructions'' @ text_or_blocks (dget request ''system'') @ str_field request ''input'' @
     concat (map item_texts items)"
  let ?ms = "concat (map (\<lambda>f. if dget request f \<noteq> JNull then [serialized_prompt_value (dget request f)] else [])
       [''tools'', ''tool_choice'', ''response_format'', ''text''])"
  have t: "t = join newline (?ts @ ?ms)" using assms unfolding request_text_def by auto
  have "sum_list (map length ?ts) \<le> sum_list (map length (?ts @ ?ms))" unfolding map_append sum_list_append by linarith
  also have "\<dots> \<le> length t" unfolding t by (rule join_newline_length)
  finally have "int (sum_list (map length ?ts)) \<le> int (length t)" by simp
  moreover note usage_estimate_bounds [of "int (length t)"]
  moreover have "usage_estimate_tokens (int (length t)) = 0 \<longleftrightarrow> t = []"
    using usage_estimate_bounds [of "int (length t)"] by auto
  ultimately show ?thesis by linarith
qed

theorem prompt_estimate_covers_text_witness:
  "request_text [(''input'', JStr ''hello'')] = Inr ''hello'' \<and> 5 \<le> 4 * usage_estimate_tokens 5"
proof -
  have t: "request_text [(''input'', JStr ''hello'')] = Inr ''hello''" by code_simp
  have i: "request_items [(''input'', JStr ''hello'')] = Inr []" by code_simp
  from prompt_estimate_covers_text [OF t i] t show ?thesis
    by (simp add: str_field_def dget_def text_or_blocks_def)
qed

section \<open>The reservation bounds the charge\<close>

text \<open>What settlement reports stays within what was reserved.\<close>

definition within_estimate :: "billable_usage \<Rightarrow> int \<Rightarrow> int \<Rightarrow> bool" where
  "within_estimate u prompt output \<longleftrightarrow> usage_bounded u \<and> image_count u = 0 \<and>
     prompt_tokens u + cache_write_tokens u + cache_read_tokens u \<le> prompt \<and> completion_tokens u \<le> output"

lemma weighted_sum_le:
  fixes a b c m :: rat
  assumes "a \<le> m" "b \<le> m" "c \<le> m" "0 \<le> m" "0 \<le> x" "0 \<le> y" "0 \<le> z" "x + y + z \<le> p"
  shows "of_int x * a + of_int y * b + of_int z * c \<le> of_int p * m"
proof -
  have "of_int x * a + of_int y * b + of_int z * c \<le> of_int x * m + of_int y * m + of_int z * m"
    using assms by (intro add_mono mult_left_mono) simp_all
  also have "\<dots> = of_int (x + y + z) * m" by (simp add: algebra_simps)
  also have "\<dots> \<le> of_int p * m" using assms by (intro mult_right_mono) simp_all
  finally show ?thesis .
qed

lemma worst_case_exact:
  assumes "rates_bounded r" "within_estimate u p output"
  shows "exact_cost u r \<le> exact_cost (worst_case_prompt_usage p output r) r"
proof -
  define a where "a = dval (or_zero (input_cost_per_token r))"
  define b where "b = dval (or_zero (cache_write_cost_per_token r))"
  define c where "c = dval (or_zero (cache_read_cost_per_token r))"
  define d where "d = dval (or_zero (output_cost_per_token r))"
  have nn: "0 \<le> a" "0 \<le> b" "0 \<le> c" "0 \<le> d"
    using assms(1) unfolding a_def b_def c_def d_def by (simp_all add: rates_bounded_def dval_or_zero_nonneg)
  have u: "0 \<le> prompt_tokens u" "0 \<le> cache_write_tokens u" "0 \<le> cache_read_tokens u"
    "prompt_tokens u + cache_write_tokens u + cache_read_tokens u \<le> p" "completion_tokens u \<le> output" "image_count u = 0"
    using assms(2) by (auto simp: within_estimate_def usage_bounded_def count_bounded_def)
  have "of_int (prompt_tokens u) * a + of_int (cache_write_tokens u) * b + of_int (cache_read_tokens u) * c \<le> of_int p * max a (max b c)"
    using nn u by (intro weighted_sum_le) auto
  moreover have "of_int (completion_tokens u) * d \<le> of_int output * d"
    using u nn by (intro mult_right_mono) simp_all
  moreover have "exact_cost (worst_case_prompt_usage p output r) r = of_int p * max a (max b c) + of_int output * d"
    by (auto simp: worst_case_prompt_usage_def exact_cost_def no_usage_def a_def [symmetric] b_def [symmetric]
        c_def [symmetric] d_def [symmetric] Let_def)
  moreover have "exact_cost u r = of_int (prompt_tokens u) * a + of_int (completion_tokens u) * d +
      of_int (cache_write_tokens u) * b + of_int (cache_read_tokens u) * c"
    using u by (simp add: exact_cost_def a_def b_def c_def d_def)
  ultimately show ?thesis by linarith
qed

lemma worst_case_bounded:
  assumes "count_bounded p" "count_bounded output"
  shows "usage_bounded (worst_case_prompt_usage p output r)"
  using assms by (auto simp: worst_case_prompt_usage_def usage_bounded_def no_usage_def count_bounded_def Let_def)

text \<open>
  C20. The budget gate's bound: whenever the provider reports, in any split between ordinary, cache-write
  and cache-read input, no more prompt tokens than the estimate and no more output tokens than the
  requested ceiling for all choices, the charge settled for a token model is at most the cost
  reserved before the call; for an image model the same holds when no more images come back than
  were asked for.
\<close>

theorem reservation_covers_settlement:
  assumes "model_rates m = Inr r" "rates_bounded r" "reservation_cost m request = Inr reserved" "compute_cost u r = Inr charged"
  shows "(md_type m \<noteq> Image \<and> request_text request = Inr t \<and>
      within_estimate u (usage_estimate_tokens (int (length t))) (max_output_tokens request * choices_of request) \<and>
      count_bounded (usage_estimate_tokens (int (length t))) \<and> count_bounded (max_output_tokens request * choices_of request)
        \<longrightarrow> dval charged \<le> dval reserved) \<and>
    (md_type m = Image \<and> u = image_usage (Some request) response \<and> image_count u \<le> choices_of request \<and>
      count_bounded (choices_of request) \<longrightarrow> dval charged \<le> dval reserved)"
proof (intro conjI impI; elim conjE)
  assume a: "md_type m \<noteq> Image" "request_text request = Inr t" and w: "within_estimate u (usage_estimate_tokens (int (length t)))
      (max_output_tokens request * choices_of request)" and c: "count_bounded (usage_estimate_tokens (int (length t)))"
      "count_bounded (max_output_tokens request * choices_of request)"
  have "compute_cost (worst_case_prompt_usage (usage_estimate_tokens (int (length t)))
      (max_output_tokens request * choices_of request) r) r = Inr reserved"
    using a assms(1,3) by (simp add: reservation_cost_def)
  moreover have "usage_bounded u" using w by (simp add: within_estimate_def)
  ultimately show "dval charged \<le> dval reserved"
    using compute_cost_mono_exact [OF _ worst_case_bounded [OF c] assms(2) worst_case_exact [OF assms(2) w] assms(4)] by blast
next
  assume a: "md_type m = Image" "u = image_usage (Some request) response" "image_count u \<le> choices_of request"
    and c: "count_bounded (choices_of request)"
  let ?v = "no_usage\<lparr>image_count := choices_of request, image_size := as_str (dget request ''size''),
      image_quality := as_str (dget request ''quality'')\<rparr>"
  have v: "compute_cost ?v r = Inr reserved" using a assms(1,3) by (simp add: reservation_cost_def)
  have ic: "0 \<le> image_count u" using a(2) by (simp add: image_usage_def Let_def no_usage_def split: json.split)
  have ub: "usage_bounded ?v" "usage_bounded u"
    using c a ic by (auto simp: usage_bounded_def no_usage_def count_bounded_def image_usage_def Let_def)
  have "0 \<le> dval (image_unit_price r (as_str (dget request ''size'')) (as_str (dget request ''quality'')))"
    using assms(2) by (intro price_nonneg price_image)
  then have "exact_cost u r \<le> exact_cost ?v r"
    using a(3) by (simp add: a(2) exact_cost_def no_usage_def image_usage_def Let_def mult_right_mono)
  from compute_cost_mono_exact [OF ub(2,1) assms(2) this assms(4) v] show "dval charged \<le> dval reserved" .
qed

definition sample_request :: body where
  "sample_request = [(''max_tokens'', JInt 10), (''messages'', JList [JObj [(''content'', JStr ''hello'')]])]"

definition priced_model :: model where
  "priced_model = sample_model\<lparr>md_prices := card_of_raw demo_raw\<rparr>"

lemma sample_rates: "model_rates priced_model = Inr demo_rates"
  by code_simp

lemma sample_reservation: "reservation_cost priced_model sample_request = Inr (Dec 105 (-6))"
  "request_text sample_request = Inr ''hello''" "max_output_tokens sample_request = 10" "choices_of sample_request = 1"
  "usage_estimate_tokens 5 = 2" "md_type priced_model \<noteq> Image"
proof -
  show t: "request_text sample_request = Inr ''hello''" by code_simp
  show n: "max_output_tokens sample_request = 10" "choices_of sample_request = 1" "usage_estimate_tokens 5 = 2"
    by code_simp+
  show ty: "md_type priced_model \<noteq> Image" by (simp add: priced_model_def sample_model_def)
  have w: "worst_case_prompt_usage 2 10 demo_rates = no_usage\<lparr>prompt_tokens := 2, completion_tokens := 10\<rparr>"
    by (simp add: worst_case_prompt_usage_def demo_rates_def or_zero_def dval_def dec_zero_def)
  have "compute_cost (no_usage\<lparr>prompt_tokens := 2, completion_tokens := 10\<rparr>) demo_rates = Inr (Dec 105 (-6))"
    by code_simp
  then show "reservation_cost priced_model sample_request = Inr (Dec 105 (-6))"
    using ty n w by (simp add: reservation_cost_def sample_rates t)
qed

theorem reservation_covers_settlement_witness:
  "reservation_cost priced_model sample_request = Inr (Dec 105 (-6)) \<and> dval (Dec 103 (-6)) \<le> dval (Dec 105 (-6))"
proof -
  have s: "compute_cost (no_usage\<lparr>prompt_tokens := 1, completion_tokens := 10\<rparr>) demo_rates = Inr (Dec 103 (-6))" by code_simp
  have i: "within_estimate (no_usage\<lparr>prompt_tokens := 1, completion_tokens := 10\<rparr>) 2 10"
    by (simp add: within_estimate_def usage_bounded_def count_bounded_def no_usage_def)
  show ?thesis
    using reservation_covers_settlement [OF sample_rates demo_bounded(2) sample_reservation(1) s, of "''hello''"] i
    by (simp add: count_bounded_def sample_reservation)
qed

section \<open>Corners\<close>

text \<open>Only the first positive limit is reserved for, and a report is billed as it stands, also a negative one.\<close>

lemma first_limit_decides: "max_output_tokens [(''max_tokens'', JInt 1), (''max_completion_tokens'', JInt 32000)] = 1"
  by (simp add: max_output_tokens_def dget_def)

lemma negative_report_is_a_credit:
  "token_usage [(''prompt_tokens'', JInt (-100))] = Inr (no_usage\<lparr>prompt_tokens := -100\<rparr>)"
  "compute_cost (no_usage\<lparr>prompt_tokens := -100\<rparr>) demo_rates = Inr (Dec (-250) (-6))"
  by code_simp+

end
