(* ===== verification/Meter_Admission.thy ===== *)
theory Meter_Admission
  imports Usage_Accounting Budget_Math Reservation_Memory Rate_Limiter
begin

text \<open>
  The admission half of \<open>UsageMeter\<close> in \<open>application/usage_meter.py\<close>: the two request-rate gates, the
  key budget and the team budget with their reservations, and the release of an admission. The
  store is the port's interface, so the lemmas hold for every adapter that keeps its laws: a
  refused call leaves no claim behind, and an admitted one holds exactly what it reserved.
\<close>

section \<open>Budgets and ports\<close>

record budget =
  bg_id :: uuid
  bg_team_id :: uuid
  bg_limit_cost :: dec
  bg_window :: budget_window
  bg_created_at :: datetime
  bg_thresholds :: "int list"
  bg_alert_webhook_url :: "string option"
  bg_alert_email :: "string option"
  bg_has_alert_webhook_secret :: bool

datatype key_budget_mode = Block | Alert

record api_key_budget =
  kb_id :: uuid
  kb_api_key_id :: uuid
  kb_team_id :: uuid
  kb_limit_cost :: dec
  kb_window :: budget_window
  kb_mode :: key_budget_mode
  kb_created_at :: datetime

text \<open>
  What the constructor is given. A repository is \<open>None\<close> when it is not wired; its read may raise.
  \<open>mp_team_rpm\<close> and \<open>mp_key_rpm\<close> are the row's \<open>rate_limit_rpm\<close>, \<open>None\<close> when there is no row or no limit.
\<close>

record meter_ports =
  mp_budgets :: "(uuid \<Rightarrow> exc + budget option) option"
  mp_key_budgets :: "(uuid \<Rightarrow> exc + api_key_budget option) option"
  mp_spend_since :: "uuid \<Rightarrow> datetime \<Rightarrow> exc + dec"
  mp_key_spend_since :: "uuid \<Rightarrow> datetime \<Rightarrow> exc + dec"
  mp_team_rpm :: "(uuid \<Rightarrow> exc + int option) option"
  mp_key_rpm :: "(uuid \<Rightarrow> exc + int option) option"
  mp_limiter_wired :: bool
  mp_store_wired :: bool
  mp_ttl_s :: int

text \<open>The clock readings and the fresh id of one gate.\<close>

record gate_now =
  gn_datetime :: datetime
  gn_now :: float_py
  gn_id :: uuid
  gn_now' :: float_py

definition default_reservation_ttl_seconds :: int where
  "default_reservation_ttl_seconds = 300"

section \<open>Rate gates\<close>

definition rate_gate :: "bool \<Rightarrow> (uuid \<Rightarrow> exc + int option) option \<Rightarrow> string \<Rightarrow> uuid \<Rightarrow> float_py \<Rightarrow> limiter \<Rightarrow>
    (exc + unit) \<times> limiter" where
  "rate_gate wired rpm pre i now l = (case rpm of
     None \<Rightarrow> (Inr (), l)
   | Some get \<Rightarrow> if \<not> wired then (Inr (), l) else (case get i of
         Inl e \<Rightarrow> (Inl e, l)
       | Inr None \<Rightarrow> (Inr (), l)
       | Inr (Some limit) \<Rightarrow> (case hit l (pre @ i) limit 60 now of
             Inl e \<Rightarrow> (Inl e, l)
           | Inr (d, l') \<Rightarrow> if dec_allowed d then (Inr (), l')
               else (Inl (Domain (Request RateLimited) [pre, int_str limit] (RetrySeconds (dec_retry_after d)) None), l'))))"

definition enforce_team_rate_limit :: "meter_ports \<Rightarrow> uuid \<Rightarrow> float_py \<Rightarrow> limiter \<Rightarrow> (exc + unit) \<times> limiter" where
  "enforce_team_rate_limit P team now l = rate_gate (mp_limiter_wired P) (mp_team_rpm P) ''team:'' team now l"

definition enforce_key_rate_limit :: "meter_ports \<Rightarrow> uuid option \<Rightarrow> float_py \<Rightarrow> limiter \<Rightarrow> (exc + unit) \<times> limiter" where
  "enforce_key_rate_limit P key now l = (case key of
     None \<Rightarrow> (Inr (), l) | Some k \<Rightarrow> rate_gate (mp_limiter_wired P) (mp_key_rpm P) ''key:'' k now l)"

section \<open>Budget gates\<close>

definition budget_exceeded :: "string \<Rightarrow> exc" where
  "budget_exceeded which = Domain (Request BudgetExceeded) [which] NoRetry None"

definition gate_call :: "meter_ports \<Rightarrow> gate_now \<Rightarrow> string \<Rightarrow> dec \<Rightarrow> dec \<Rightarrow> dec \<Rightarrow> reserve_call" where
  "gate_call P g scope cost spent limit = \<lparr>rc_scope = scope, rc_amount = dec_to_float cost, rc_spent = dec_to_float spent,
     rc_limit = dec_to_float limit, rc_ttl = mp_ttl_s P, rc_now = gn_now g, rc_id = gn_id g, rc_now' = gn_now' g\<rparr>"

text \<open>The reservation both gates make, and what they do with its outcome.\<close>

definition take_claim :: "('st \<Rightarrow> reserve_call \<Rightarrow> reservation_outcome \<times> 'st) \<Rightarrow> string \<Rightarrow> reserve_call \<Rightarrow> 'st \<Rightarrow>
    (exc + reservation option) \<times> 'st" where
  "take_claim reserve which c st = (case reserve st c of (out, st') \<Rightarrow>
     if \<not> admitted out then (Inl (budget_exceeded which), st') else (Inr (outcome_reservation out), st'))"

definition admit_key :: "meter_ports \<Rightarrow> ('st \<Rightarrow> reserve_call \<Rightarrow> reservation_outcome \<times> 'st) \<Rightarrow> uuid option \<Rightarrow> model \<Rightarrow> body \<Rightarrow>
    gate_now \<Rightarrow> 'st \<Rightarrow> (exc + reservation option) \<times> 'st" where
  "admit_key P reserve key m request g st = (case (mp_key_budgets P, key) of
     (Some get, Some k) \<Rightarrow> (case get k of
         Inl e \<Rightarrow> (Inl e, st)
       | Inr None \<Rightarrow> (Inr None, st)
       | Inr (Some b) \<Rightarrow> (case mp_key_spend_since P k (window_start (kb_window b) (gn_datetime g)) of
           Inl e \<Rightarrow> (Inl e, st)
         | Inr spent \<Rightarrow> (case reservation_cost m request of
             Inl e \<Rightarrow> (Inl e, st)
           | Inr cost \<Rightarrow>
               if kb_mode b = Alert then (Inr None, st)
               else if \<not> mp_store_wired P then
                 (if dval (kb_limit_cost b) \<le> dval spent then (Inl (budget_exceeded ''key''), st) else (Inr None, st))
               else take_claim reserve ''key'' (gate_call P g (key_scope k) cost spent (kb_limit_cost b)) st)))
   | _ \<Rightarrow> (Inr None, st))"

definition admit_team :: "meter_ports \<Rightarrow> ('st \<Rightarrow> reserve_call \<Rightarrow> reservation_outcome \<times> 'st) \<Rightarrow> uuid \<Rightarrow> model \<Rightarrow> body \<Rightarrow>
    gate_now \<Rightarrow> 'st \<Rightarrow> (exc + reservation option) \<times> 'st" where
  "admit_team P reserve team m request g st = (case mp_budgets P of
     None \<Rightarrow> (Inr None, st)
   | Some get \<Rightarrow> (case get team of
         Inl e \<Rightarrow> (Inl e, st)
       | Inr None \<Rightarrow> (Inr None, st)
       | Inr (Some b) \<Rightarrow> (case mp_spend_since P team (window_start (bg_window b) (gn_datetime g)) of
           Inl e \<Rightarrow> (Inl e, st)
         | Inr spent \<Rightarrow>
             if \<not> mp_store_wired P then
               (if dval (bg_limit_cost b) \<le> dval spent then (Inl (budget_exceeded ''team''), st) else (Inr None, st))
             else (case reservation_cost m request of
               Inl e \<Rightarrow> (Inl e, st)
             | Inr cost \<Rightarrow> take_claim reserve ''team'' (gate_call P g (team_scope team) cost spent (bg_limit_cost b)) st))))"

section \<open>Release\<close>

text \<open>
  \<open>faulty r\<close>: the store raises on releasing \<open>r\<close>, before the claim is gone; it is logged and the next
  claim is attempted.
\<close>

fun release_each :: "('st \<Rightarrow> reservation \<Rightarrow> 'st) \<Rightarrow> (reservation \<Rightarrow> bool) \<Rightarrow> reservation list \<Rightarrow> 'st \<Rightarrow> 'st" where
  "release_each rel faulty [] st = st"
| "release_each rel faulty (r # rs) st = release_each rel faulty rs (if faulty r then st else rel st r)"

definition meter_release :: "bool \<Rightarrow> ('st \<Rightarrow> reservation \<Rightarrow> 'st) \<Rightarrow> (reservation \<Rightarrow> bool) \<Rightarrow> admission option \<Rightarrow> 'st \<Rightarrow> 'st" where
  "meter_release wired rel faulty adm st = (case adm of
     None \<Rightarrow> st | Some rs \<Rightarrow> if \<not> wired then st else release_each rel faulty rs st)"

section \<open>Admission\<close>

definition claims_of :: "reservation option \<Rightarrow> reservation list" where
  "claims_of r = (case r of None \<Rightarrow> [] | Some x \<Rightarrow> [x])"

definition admit_budgets :: "meter_ports \<Rightarrow> ('st \<Rightarrow> reserve_call \<Rightarrow> reservation_outcome \<times> 'st) \<Rightarrow> ('st \<Rightarrow> reservation \<Rightarrow> 'st) \<Rightarrow>
    (reservation \<Rightarrow> bool) \<Rightarrow> uuid \<Rightarrow> uuid option \<Rightarrow> model \<Rightarrow> body \<Rightarrow> gate_now \<Rightarrow> gate_now \<Rightarrow> 'st \<Rightarrow> (exc + admission option) \<times> 'st" where
  "admit_budgets P reserve rel faulty team key m request gk gt st =
    (case admit_key P reserve key m request gk st of
       (Inl e, st1) \<Rightarrow> (Inl e, st1)
     | (Inr key_claim, st1) \<Rightarrow> (case admit_team P reserve team m request gt st1 of
         (Inl e, st2) \<Rightarrow> (Inl e, meter_release (mp_store_wired P) rel faulty (map_option (\<lambda>r. [r]) key_claim) st2)
       | (Inr team_claim, st2) \<Rightarrow> (let rs = claims_of key_claim @ claims_of team_claim in
           (Inr (if rs = [] then None else Some rs), st2))))"

definition admit :: "meter_ports \<Rightarrow> ('st \<Rightarrow> reserve_call \<Rightarrow> reservation_outcome \<times> 'st) \<Rightarrow> ('st \<Rightarrow> reservation \<Rightarrow> 'st) \<Rightarrow>
    (reservation \<Rightarrow> bool) \<Rightarrow> uuid \<Rightarrow> model \<Rightarrow> body \<Rightarrow> uuid option \<Rightarrow> bool \<Rightarrow> bool \<Rightarrow> gate_now \<Rightarrow> gate_now \<Rightarrow> limiter \<times> 'st \<Rightarrow>
    (exc + admission option) \<times> limiter \<times> 'st" where
  "admit P reserve rel faulty team m request key skip_team skip_key gk gt = (\<lambda>(l, st).
    (case (if skip_team then (Inr (), l) else enforce_team_rate_limit P team (gn_now gt) l) of
       (Inl e, l1) \<Rightarrow> (Inl e, l1, st)
     | (Inr _, l1) \<Rightarrow> (case (if skip_key then (Inr (), l1) else enforce_key_rate_limit P key (gn_now gk) l1) of
         (Inl e, l2) \<Rightarrow> (Inl e, l2, st)
       | (Inr _, l2) \<Rightarrow> (case admit_budgets P reserve rel faulty team key m request gk gt st of
           (r, st') \<Rightarrow> (r, l2, st')))))"

section \<open>What admission does to the claims\<close>

lemma max_output_tokens_nonneg: "0 \<le> max_output_tokens request"
  unfolding max_output_tokens_def by (rule first_positive_nonneg)

lemma reservation_amount_nonneg:
  assumes "model_rates m = Inr r" "rates_nonneg r" "reservation_cost m request = Inr c"
  shows "0 \<le> dec_to_float c"
proof -
  have "\<exists>u. usage_nonneg u \<and> compute_cost u r = Inr c"
  proof (cases "md_type m = Image")
    case True
    then show ?thesis
      using assms(1,3) choices_of_ge1 [of request] by (auto simp: reservation_cost_def usage_nonneg_def no_usage_def intro!: exI)
  next
    case False
    with assms(1,3) obtain t :: string where "compute_cost (worst_case_prompt_usage (usage_estimate_tokens (int (length t)))
         (max_output_tokens request * choices_of request) r) r = Inr c"
      by (auto simp: reservation_cost_def comp_def)
    moreover have "0 \<le> max_output_tokens request * choices_of request"
      using max_output_tokens_nonneg choices_of_ge1 [of request] by (intro mult_nonneg_nonneg) auto
    ultimately show ?thesis
      using usage_estimate_bounds [of "int (length t)"]
      by (intro exI conjI) (auto simp: usage_nonneg_def worst_case_prompt_usage_def no_usage_def Let_def)
  qed
  then have "0 \<le> coeff c"
    using cost_sum_nonneg assms(2) quantize_nonneg unfolding compute_cost_def quantize_cost_def by blast
  then show ?thesis by (simp add: dec_to_float_def dval_nonneg_iff rnd_nonneg)
qed

text \<open>The claim of \<open>r\<close> is on top of \<open>c\<close>.\<close>

definition with_claim :: "(float_py \<Rightarrow> float_py) \<Rightarrow> claims \<Rightarrow> reservation \<Rightarrow> claims" where
  "with_claim kept c r = c(res_scope r := (c (res_scope r))(res_id r \<mapsto> kept (res_amount r)))"

text \<open>A gate that did not raise: the state it leaves holds the claim it returns, if any.\<close>

definition gate_effect :: "(float_py \<Rightarrow> float_py) \<Rightarrow> claims \<Rightarrow> claims \<Rightarrow> exc + reservation option \<Rightarrow> bool" where
  "gate_effect kept c c' res = (case res of
     Inl e \<Rightarrow> c' = c | Inr None \<Rightarrow> c' = c | Inr (Some r) \<Rightarrow> c' = with_claim kept c r)"

text \<open>The reservations a gate can make are in time: made before \<open>t\<close> and not expired at \<open>t\<close>.\<close>

definition gate_in_time :: "(reserve_call \<Rightarrow> float_py) \<Rightarrow> meter_ports \<Rightarrow> gate_now \<Rightarrow> float_py \<Rightarrow> bool" where
  "gate_in_time held_until P g t \<longleftrightarrow> gn_now g \<le> t \<and>
     (\<forall>scope cost spent limit. t < held_until (gate_call P g scope cost spent limit))"

context reservation_store
begin

lemma take_claim_effect:
  assumes "wf_store st" "0 \<le> rc_amount c" "rc_now c \<le> t" "t < held_until c" "take_claim reserve w c st = (res, st')"
  shows "wf_store st' \<and> gate_effect kept (claims st t) (claims st' t) res \<and>
    (\<forall>r. res = Inr (Some r) \<longrightarrow> res_scope r = rc_scope c \<and> res_amount r = rc_amount c \<and> res_id r = rc_id c)"
proof (cases "admitted (fst (reserve st c))")
  case True
  then obtain r where r: "outcome_reservation (fst (reserve st c)) = Some r" by (auto simp: admitted_def)
  have id: "r = \<lparr>res_id = rc_id c, res_scope = rc_scope c, res_amount = rc_amount c\<rparr>" using admit_identity [OF r] .
  have "claims (snd (reserve st c)) t = with_claim kept (claims st t) r"
    using admit_claims [OF assms(1) True assms(3)] assms(4) by (simp add: with_claim_def id)
  with True r id assms wf_reserve [OF assms(1,2)] show ?thesis
    by (auto simp: take_claim_def gate_effect_def split: prod.splits)
next
  case False
  with assms refuse_claims [OF assms(1) False assms(3)] wf_reserve [OF assms(1,2)] show ?thesis
    by (auto simp: take_claim_def gate_effect_def split: prod.splits)
qed

lemma admit_key_effect:
  assumes "wf_store st" "\<And>c. reservation_cost m request = Inr c \<Longrightarrow> 0 \<le> dec_to_float c" "gate_in_time held_until P g t"
    and "admit_key P reserve key m request g st = (res, st')"
  shows "wf_store st' \<and> gate_effect kept (claims st t) (claims st' t) res \<and>
    (\<forall>r. res = Inr (Some r) \<longrightarrow> mp_store_wired P \<and> (\<exists>k. key = Some k \<and> res_scope r = key_scope k) \<and> (\<exists>cost.
       reservation_cost m request = Inr cost \<and> res_amount r = dec_to_float cost))"
proof -
  have idle: "wf_store st \<and> gate_effect kept (claims st t) (claims st t) (Inr None) \<and> gate_effect kept (claims st t) (claims st t) (Inl e)" for e
    using assms(1) by (simp add: gate_effect_def)
  have gate: "take_claim reserve w (gate_call P g (key_scope k) cost spent limit) st = (res, st') \<Longrightarrow>
      reservation_cost m request = Inr cost \<Longrightarrow> wf_store st' \<and> gate_effect kept (claims st t) (claims st' t) res \<and>
      (\<forall>r. res = Inr (Some r) \<longrightarrow> res_scope r = key_scope k \<and> res_amount r = dec_to_float cost)" for w k cost spent limit
    using take_claim_effect [OF assms(1), of "gate_call P g (key_scope k) cost spent limit" t w res st'] assms(2,3)
    by (simp add: gate_call_def gate_in_time_def)
  show ?thesis
    using assms(4) idle gate unfolding admit_key_def
    by (auto split: option.splits sum.splits if_splits)
qed

lemma admit_team_effect:
  assumes "wf_store st" "\<And>c. reservation_cost m request = Inr c \<Longrightarrow> 0 \<le> dec_to_float c" "gate_in_time held_until P g t"
    and "admit_team P reserve team m request g st = (res, st')"
  shows "wf_store st' \<and> gate_effect kept (claims st t) (claims st' t) res \<and>
    (\<forall>r. res = Inr (Some r) \<longrightarrow> mp_store_wired P \<and> res_scope r = team_scope team \<and> (\<exists>cost.
       reservation_cost m request = Inr cost \<and> res_amount r = dec_to_float cost))"
proof -
  have idle: "wf_store st \<and> gate_effect kept (claims st t) (claims st t) (Inr None) \<and> gate_effect kept (claims st t) (claims st t) (Inl e)" for e
    using assms(1) by (simp add: gate_effect_def)
  have gate: "take_claim reserve w (gate_call P g (team_scope team) cost spent limit) st = (res, st') \<Longrightarrow>
      reservation_cost m request = Inr cost \<Longrightarrow> wf_store st' \<and> gate_effect kept (claims st t) (claims st' t) res \<and>
      (\<forall>r. res = Inr (Some r) \<longrightarrow> res_scope r = team_scope team \<and> res_amount r = dec_to_float cost)" for w cost spent limit
    using take_claim_effect [OF assms(1), of "gate_call P g (team_scope team) cost spent limit" t w res st'] assms(2,3)
    by (simp add: gate_call_def gate_in_time_def)
  show ?thesis
    using assms(4) idle gate unfolding admit_team_def
    by (auto split: option.splits sum.splits if_splits)
qed

lemma release_with_claim:
  assumes "wf_store st" "claims st t = with_claim kept c r"
  shows "claims (release st r) t scope \<subseteq>\<^sub>m c scope"
  by (auto simp: release_claims [OF assms(1)] assms(2) with_claim_def map_le_def)

text \<open>A refused call leaves no claim of its own; an admitted one exactly those it returns.\<close>

lemma admit_budgets_claims:
  assumes "wf_store st" "\<And>c. reservation_cost m request = Inr c \<Longrightarrow> 0 \<le> dec_to_float c"
    and "gate_in_time held_until P gk t" "gate_in_time held_until P gt t" "\<And>r. \<not> faulty r"
    and "admit_budgets P reserve release faulty team key m request gk gt st = (res, st')"
  shows "wf_store st' \<and> (case res of
     Inl e \<Rightarrow> (\<forall>scope. claims st' t scope \<subseteq>\<^sub>m claims st t scope)
   | Inr None \<Rightarrow> claims st' t = claims st t
   | Inr (Some rs) \<Rightarrow> rs \<noteq> [] \<and> claims st' t = foldl (with_claim kept) (claims st t) rs \<and>
       (\<forall>r \<in> set rs. \<exists>cost. reservation_cost m request = Inr cost \<and> res_amount r = dec_to_float cost))"
proof -
  obtain rk st1 where k: "admit_key P reserve key m request gk st = (rk, st1)" by (cases "admit_key P reserve key m request gk st")
  note ek = admit_key_effect [OF assms(1,2,3) k]
  show ?thesis
  proof (cases rk)
    case (Inl e)
    then have "res = Inl e" "st' = st1" using k assms(6) by (simp_all add: admit_budgets_def)
    with ek Inl show ?thesis by (simp add: gate_effect_def)
  next
    case (Inr kc)
    obtain rt st2 where tm: "admit_team P reserve team m request gt st1 = (rt, st2)" by (cases "admit_team P reserve team m request gt st1")
    have w1: "wf_store st1" using ek by blast
    note et = admit_team_effect [OF w1 assms(2,4) tm]
    show ?thesis
    proof (cases rt)
      case (Inl e)
      have st': "st' = meter_release (mp_store_wired P) release faulty (map_option (\<lambda>r. [r]) kc) st2" "res = Inl e"
        using assms(6) k Inr tm Inl by (simp_all add: admit_budgets_def)
      show ?thesis
      proof (cases kc)
        case None
        with st' ek et Inr Inl show ?thesis by (simp add: meter_release_def gate_effect_def)
      next
        case (Some r)
        have c2: "claims st2 t = with_claim kept (claims st t) r" and wired: "mp_store_wired P"
          using ek et Inr Inl Some by (auto simp: gate_effect_def)
        have "st' = release st2 r" using st' Some wired assms(5) by (simp add: meter_release_def)
        moreover have "wf_store st2" using et by blast
        ultimately show ?thesis using release_with_claim [OF _ c2] wf_release st'(2) by simp
      qed
    next
      case (Inr tc)
      with \<open>rk = Inr kc\<close> k tm assms(6) have "res = Inr (if claims_of kc @ claims_of tc = [] then None else Some (claims_of kc @ claims_of tc))"
        "st' = st2" by (simp_all add: admit_budgets_def Let_def)
      with ek et Inr \<open>rk = Inr kc\<close> show ?thesis
        by (cases kc; cases tc) (auto simp: gate_effect_def claims_of_def)
    qed
  qed
qed

end

text \<open>
  C15. A refused call holds nothing: whatever the order of gates, budgets and modes, when admission
  raises (a cap reached, an unreachable repository), the live claims of every scope are among
  those that were live before, the key's own claim having been given back; when it admits, the
  state holds exactly one more claim for each reservation it returns, each of the pessimistic
  cost, and none when it returns no admission.
\<close>

theorem refused_admission_holds_nothing:
  assumes "wf_mem st" "model_rates m = Inr r" "rates_nonneg r"
    and "gate_in_time mem_expiry P gk t" "gate_in_time mem_expiry P gt t" "\<And>x. \<not> faulty x"
    and "admit_budgets P try_reserve release faulty team key m request gk gt st = (res, st')"
  shows "wf_mem st' \<and> (case res of
     Inl e \<Rightarrow> (\<forall>scope. mem_claims st' t scope \<subseteq>\<^sub>m mem_claims st t scope)
   | Inr None \<Rightarrow> mem_claims st' t = mem_claims st t
   | Inr (Some rs) \<Rightarrow> rs \<noteq> [] \<and> mem_claims st' t = foldl (with_claim (\<lambda>a. a)) (mem_claims st t) rs \<and>
       (\<forall>x \<in> set rs. \<exists>cost. reservation_cost m request = Inr cost \<and> res_amount x = dec_to_float cost))"
  using mem.admit_budgets_claims [OF assms(1) reservation_amount_nonneg [OF assms(2,3)] assms(4,5,6,7)] .

definition sample_budget :: budget where
  "sample_budget = \<lparr>bg_id = ''b'', bg_team_id = ''t'', bg_limit_cost = Dec 0 (-6), bg_window = Daily,
     bg_created_at = \<lparr>year = 2025, month = 1, day = 1, hour = 0, minute = 0, second = 0, microsecond = 0\<rparr>,
     bg_thresholds = [50], bg_alert_webhook_url = None, bg_alert_email = None, bg_has_alert_webhook_secret = False\<rparr>"

definition sample_ports :: meter_ports where
  "sample_ports = \<lparr>mp_budgets = Some (\<lambda>_. Inr (Some sample_budget)), mp_key_budgets = None,
     mp_spend_since = (\<lambda>_ _. Inr (Dec 0 (-6))), mp_key_spend_since = (\<lambda>_ _. Inr (Dec 0 (-6))), mp_team_rpm = None,
     mp_key_rpm = None, mp_limiter_wired = False, mp_store_wired = True, mp_ttl_s = 300\<rparr>"

definition sample_gate :: gate_now where
  "sample_gate = \<lparr>gn_datetime = bg_created_at sample_budget, gn_now = 10, gn_id = ''r1'', gn_now' = 10\<rparr>"

lemma sample_gate_in_time: "gate_in_time mem_expiry sample_ports sample_gate 10"
proof -
  have "rnd (rnd 300) = rnd 300" "rnd (10 :: rat) = 10" by code_simp+
  then have "(10 :: rat) < fadd 10 (float_of_int 300)" by code_simp
  then show ?thesis by (simp add: gate_in_time_def mem_expiry_def gate_call_def sample_gate_def sample_ports_def)
qed

theorem refused_admission_holds_nothing_witness:
  "admit_budgets sample_ports try_reserve release (\<lambda>_. False) ''t'' None priced_model sample_request sample_gate sample_gate [] =
     (Inl (budget_exceeded ''team''), []) \<and> (\<forall>scope. mem_claims [] 10 scope \<subseteq>\<^sub>m mem_claims [] 10 scope)"
proof -
  have nn: "rates_nonneg demo_rates" using validated_card_nonneg demo_card by blast
  have f: "fadd (rnd 0) 0 = 0" by (simp add: fadd_def)
  have a: "admit_budgets sample_ports try_reserve release (\<lambda>_. False) ''t'' None priced_model sample_request sample_gate sample_gate [] =
     (Inl (budget_exceeded ''team''), [])"
    using f by (simp add: admit_budgets_def admit_key_def admit_team_def sample_ports_def sample_reservation(1) sample_budget_def take_claim_def
        gate_call_def try_reserve_def live_total_def dec_to_float_def dval_def admitted_def meter_release_def)
  have "wf_mem []" by (rule sample_wf)
  from refused_admission_holds_nothing [OF this sample_rates nn sample_gate_in_time sample_gate_in_time _ a] a show ?thesis by simp
qed

end
