(* ===== verification/Meter_Settlement.thy ===== *)
theory Meter_Settlement
  imports Meter_Admission
begin

text \<open>
  The settlement half of \<open>UsageMeter\<close> in \<open>application/usage_meter.py\<close>: the billing write with its
  outbox fallback, the settlement of answered, cached and failed calls, and the budget alerts
  with the repository that records them. A write's fate is an input; the lemmas show that a
  settlement accounts for each call exactly once whatever that fate is.
\<close>

section \<open>Records\<close>

record attribution =
  at_requested_alias :: "string option"
  at_callable_origin :: "string option"
  at_source_team_id :: "uuid option"

record usage_event =
  ev_id :: uuid
  ev_team_id :: uuid
  ev_api_key_id :: "uuid option"
  ev_model_id :: uuid
  ev_model_name :: string
  ev_operation :: string
  ev_prompt_tokens :: int
  ev_completion_tokens :: int
  ev_cost :: dec
  ev_created_at :: datetime
  ev_requested_alias :: "string option"
  ev_resolved_model_id :: "uuid option"
  ev_canonical_model_name :: "string option"
  ev_callable_origin :: "string option"
  ev_source_team_id :: "uuid option"
  ev_cache_hit :: bool
  ev_cache_write_tokens :: int
  ev_cache_read_tokens :: int
  ev_image_count :: int
  ev_request_id :: "string option"

record trace_record =
  tr_team_id :: uuid
  tr_api_key_id :: "uuid option"
  tr_model_name :: string
  tr_provider :: string
  tr_operation :: string
  tr_prompt_tokens :: int
  tr_completion_tokens :: int
  tr_cost :: dec
  tr_latency_ms :: float_py
  tr_status :: string
  tr_created_at :: datetime
  tr_error_type :: "string option"
  tr_cache_hit :: bool
  tr_request_id :: "string option"

text \<open>Who called what: the arguments every settlement passes along.\<close>

record call_info =
  ci_team_id :: uuid
  ci_api_key_id :: "uuid option"
  ci_model :: model
  ci_operation :: string
  ci_attribution :: "attribution option"
  ci_request_id :: "string option"

text \<open>The fate of one billing write, and the clock and id it reads.\<close>

datatype write_fate = Recorded | Dead_Lettered | Dropped

record write_now =
  wn_now :: datetime
  wn_id :: uuid
  wn_fate :: write_fate

text \<open>The ledger, the durable outbox, the events that only the error log holds, and the traces.\<close>

record books =
  bk_ledger :: "usage_event list"
  bk_outbox :: "usage_event list"
  bk_lost :: "usage_event list"
  bk_traces :: "trace_record list"

section \<open>Billing\<close>

definition record_usage :: "write_fate \<Rightarrow> usage_event \<Rightarrow> books \<Rightarrow> books" where
  "record_usage fate event b = (case fate of
     Recorded \<Rightarrow> b\<lparr>bk_ledger := bk_ledger b @ [event]\<rparr>
   | Dead_Lettered \<Rightarrow> b\<lparr>bk_outbox := bk_outbox b @ [event]\<rparr>
   | Dropped \<Rightarrow> b\<lparr>bk_lost := bk_lost b @ [event]\<rparr>)"

definition billed_event :: "call_info \<Rightarrow> billable_usage \<Rightarrow> dec \<Rightarrow> write_now \<Rightarrow> bool \<Rightarrow> usage_event" where
  "billed_event ci usage cost w cache_hit = (let m = ci_model ci; a = ci_attribution ci in
     \<lparr>ev_id = wn_id w, ev_team_id = ci_team_id ci, ev_api_key_id = ci_api_key_id ci, ev_model_id = md_id m,
      ev_model_name = md_name m, ev_operation = ci_operation ci, ev_prompt_tokens = prompt_tokens usage,
      ev_completion_tokens = completion_tokens usage, ev_cost = cost, ev_created_at = wn_now w,
      ev_requested_alias = Option.bind a at_requested_alias, ev_resolved_model_id = Some (md_id m),
      ev_canonical_model_name = Some (md_name m), ev_callable_origin = Option.bind a at_callable_origin,
      ev_source_team_id = Option.bind a at_source_team_id, ev_cache_hit = cache_hit,
      ev_cache_write_tokens = cache_write_tokens usage, ev_cache_read_tokens = cache_read_tokens usage,
      ev_image_count = image_count usage, ev_request_id = ci_request_id ci\<rparr>)"

definition bill :: "call_info \<Rightarrow> billable_usage \<Rightarrow> dec \<Rightarrow> write_now \<Rightarrow> bool \<Rightarrow> books \<Rightarrow> books" where
  "bill ci usage cost w cache_hit b = record_usage (wn_fate w) (billed_event ci usage cost w cache_hit) b"

definition emit_trace :: "trace_record \<Rightarrow> books \<Rightarrow> books" where
  "emit_trace t b = b\<lparr>bk_traces := bk_traces b @ [t]\<rparr>"

definition ok_trace :: "call_info \<Rightarrow> int \<Rightarrow> int \<Rightarrow> dec \<Rightarrow> float_py \<Rightarrow> datetime \<Rightarrow> bool \<Rightarrow> trace_record" where
  "ok_trace ci prompt completion cost latency now cache_hit =
     \<lparr>tr_team_id = ci_team_id ci, tr_api_key_id = ci_api_key_id ci, tr_model_name = md_name (ci_model ci),
      tr_provider = provider_value (md_provider (ci_model ci)), tr_operation = ci_operation ci, tr_prompt_tokens = prompt,
      tr_completion_tokens = completion, tr_cost = cost, tr_latency_ms = latency, tr_status = ''ok'', tr_created_at = now,
      tr_error_type = None, tr_cache_hit = cache_hit, tr_request_id = ci_request_id ci\<rparr>"

definition trace_error :: "call_info \<Rightarrow> float_py \<Rightarrow> string \<Rightarrow> int \<Rightarrow> int \<Rightarrow> dec \<Rightarrow> datetime \<Rightarrow> books \<Rightarrow> books" where
  "trace_error ci latency error_type prompt completion cost now b =
     emit_trace ((ok_trace ci prompt completion cost latency now False)\<lparr>tr_status := ''error'', tr_error_type := Some error_type\<rparr>) b"

section \<open>Settling a call\<close>

text \<open>The usage a non-streamed call is billed for: the report, or the prompt estimate.\<close>

definition estimate_or :: "body \<Rightarrow> body \<Rightarrow> exc + body" where
  "estimate_or estimate usage = rbind (has_tokens estimate) (\<lambda>b. Inr (if b then estimate else usage))"

definition as_dict :: "json \<Rightarrow> exc + body" where
  "as_dict v = (case v of JObj d \<Rightarrow> Inr d | _ \<Rightarrow> raise_py AttributeError)"

text \<open>A report that is no dict has none of the keys; the first lookup that matters raises.\<close>

definition dict_part :: "json \<Rightarrow> body" where
  "dict_part v = (case v of JObj d \<Rightarrow> d | _ \<Rightarrow> [])"

definition response_usage :: "body \<Rightarrow> body option \<Rightarrow> exc + body" where
  "response_usage response request =
    rbind (is_uncharged_refusal response (dict_part (get_or_empty response ''usage''))) (\<lambda>uncharged_refusal.
    rbind (as_dict (get_or_empty response ''usage'')) (\<lambda>usage.
    rbind (has_tokens usage) (\<lambda>tokens.
    case request of
      None \<Rightarrow> Inr usage
    | Some req \<Rightarrow> if tokens \<or> uncharged_refusal then Inr usage
        else rbind (request_text req) (\<lambda>t.
          estimate_or [(''prompt_tokens'', JInt (usage_estimate_tokens (int (length t))))] usage))))"

definition response_billable :: "model \<Rightarrow> body \<Rightarrow> body option \<Rightarrow> exc + billable_usage" where
  "response_billable m response request = (if md_type m = Image then Inr (image_usage request response)
     else rbind (response_usage response request) token_usage)"

definition settle_usage :: "call_info \<Rightarrow> body \<Rightarrow> body option \<Rightarrow> write_now \<Rightarrow> books \<Rightarrow> exc + (int \<times> int \<times> dec) \<times> books" where
  "settle_usage ci response request w b =
    rbind (response_billable (ci_model ci) response request) (\<lambda>billable.
    rbind (model_rates (ci_model ci)) (\<lambda>rates.
    rbind (compute_cost billable rates) (\<lambda>cost.
    Inr ((prompt_tokens billable, completion_tokens billable, cost), bill ci billable cost w False b))))"

section \<open>Budget alerts\<close>

record pending_alert =
  pa_id :: uuid
  pa_team_id :: uuid
  pa_window :: budget_window
  pa_period_start :: datetime
  pa_threshold :: int
  pa_spend :: dec
  pa_limit_cost :: dec
  pa_created_at :: datetime

text \<open>A row of the dedup ledger, and the repository: the rows and the delivery outbox.\<close>

type_synonym fired_key = "uuid \<times> budget_window \<times> datetime \<times> int"

record alert_repo =
  ar_fired :: "fired_key list"
  ar_outbox :: "pending_alert list"

definition alert_key :: "pending_alert \<Rightarrow> fired_key" where
  "alert_key a = (pa_team_id a, pa_window a, pa_period_start a, pa_threshold a)"

definition fired_thresholds :: "alert_repo \<Rightarrow> uuid \<Rightarrow> budget_window \<Rightarrow> datetime \<Rightarrow> int list" where
  "fired_thresholds r team window start =
     map (\<lambda>(_, _, _, t). t) (filter (\<lambda>(i, w, s, _). i = team \<and> w = window \<and> s = start) (ar_fired r))"

text \<open>Both rows under one commit; the unique key makes the later of two equal alerts a conflict.\<close>

definition record_fired_and_enqueue :: "pending_alert \<Rightarrow> alert_repo \<Rightarrow> bool \<times> alert_repo" where
  "record_fired_and_enqueue a r = (if alert_key a \<in> set (ar_fired r) then (False, r)
     else (True, r\<lparr>ar_fired := ar_fired r @ [alert_key a], ar_outbox := ar_outbox r @ [a]\<rparr>))"

text \<open>
  \<open>ok t\<close>: the commit for threshold \<open>t\<close> goes through; a failed commit writes nothing and ends the
  evaluation. \<open>fired\<close> is what the repository answered before the loop, and a concurrent settlement
  may have recorded more since.
\<close>

fun enqueue_each :: "(pending_alert \<Rightarrow> 'r \<Rightarrow> bool \<times> 'r) \<Rightarrow> (int \<Rightarrow> pending_alert) \<Rightarrow> (int \<Rightarrow> bool) \<Rightarrow> int list \<Rightarrow> 'r \<Rightarrow> 'r" where
  "enqueue_each rec mk ok [] r = r"
| "enqueue_each rec mk ok (t # ts) r = (if ok t then enqueue_each rec mk ok ts (snd (rec (mk t) r)) else r)"

definition alert_for :: "uuid \<Rightarrow> budget \<Rightarrow> datetime \<Rightarrow> dec \<Rightarrow> (int \<Rightarrow> uuid) \<Rightarrow> int \<Rightarrow> pending_alert" where
  "alert_for team bg now spend ids t = \<lparr>pa_id = ids t, pa_team_id = team, pa_window = bg_window bg,
     pa_period_start = window_start (bg_window bg) now, pa_threshold = t, pa_spend = spend,
     pa_limit_cost = bg_limit_cost bg, pa_created_at = now\<rparr>"

definition evaluate_budget_alerts :: "meter_ports \<Rightarrow> bool \<Rightarrow> uuid \<Rightarrow> datetime \<Rightarrow> exc + int list \<Rightarrow> (int \<Rightarrow> uuid) \<Rightarrow> (int \<Rightarrow> bool) \<Rightarrow>
    alert_repo \<Rightarrow> alert_repo" where
  "evaluate_budget_alerts P wired team now fired ids ok r = (case mp_budgets P of
     None \<Rightarrow> r
   | Some get \<Rightarrow> if \<not> wired then r else (case get team of
       Inr (Some bg) \<Rightarrow> if bg_thresholds bg = [] then r
         else (case rbind (mp_spend_since P team (window_start (bg_window bg) now)) (\<lambda>spend. rbind fired (\<lambda>already.
             rbind (crossed_thresholds spend (bg_limit_cost bg) (bg_thresholds bg) already) (\<lambda>ts. Inr (spend, ts)))) of
           Inl _ \<Rightarrow> r
         | Inr (spend, ts) \<Rightarrow> enqueue_each record_fired_and_enqueue (alert_for team bg now spend ids) ok ts r)
     | _ \<Rightarrow> r))"

section \<open>The three settlements\<close>

text \<open>What the alert evaluation after a settlement reads.\<close>

record alert_now =
  an_wired :: bool
  an_fired :: "exc + int list"
  an_ids :: "int \<Rightarrow> uuid"
  an_ok :: "int \<Rightarrow> bool"

definition settle_ok :: "meter_ports \<Rightarrow> call_info \<Rightarrow> body \<Rightarrow> float_py \<Rightarrow> body option \<Rightarrow> write_now \<Rightarrow> alert_now \<Rightarrow>
    books \<times> alert_repo \<Rightarrow> exc + (int \<times> int \<times> dec) \<times> books \<times> alert_repo" where
  "settle_ok P ci response latency request w a = (\<lambda>(b, r).
    rbind (settle_usage ci response request w b) (\<lambda>((prompt, completion, cost), b1).
    let r1 = evaluate_budget_alerts P (an_wired a) (ci_team_id ci) (wn_now w) (an_fired a) (an_ids a) (an_ok a) r in
    Inr ((prompt, completion, cost), emit_trace (ok_trace ci prompt completion cost latency (wn_now w) False) b1, r1)))"

definition settle_cache_hit :: "call_info \<Rightarrow> int \<Rightarrow> int \<Rightarrow> float_py \<Rightarrow> write_now \<Rightarrow> books \<Rightarrow> books" where
  "settle_cache_hit ci prompt completion latency w b =
     emit_trace (ok_trace ci prompt completion dec_zero latency (wn_now w) True)
       (bill ci (no_usage\<lparr>prompt_tokens := prompt, completion_tokens := completion\<rparr>) dec_zero w True b)"

definition settle_error :: "call_info \<Rightarrow> body \<Rightarrow> float_py \<Rightarrow> string \<Rightarrow> body option \<Rightarrow> write_now \<Rightarrow> datetime \<Rightarrow> books \<Rightarrow>
    exc + (int \<times> int \<times> dec) \<times> books" where
  "settle_error ci response latency error_type request w now b =
    rbind (settle_usage ci response request w b) (\<lambda>((prompt, completion, cost), b1).
    Inr ((prompt, completion, cost), trace_error ci latency error_type prompt completion cost now b1))"

section \<open>Each call is accounted for once\<close>

definition all_events :: "books \<Rightarrow> usage_event multiset" where
  "all_events b = mset (bk_ledger b) + mset (bk_outbox b) + mset (bk_lost b)"

lemma all_events_bill: "all_events (bill ci u cost w cached b) = add_mset (billed_event ci u cost w cached) (all_events b)"
  by (cases "wn_fate w") (simp_all add: bill_def record_usage_def all_events_def)

lemma traces_bill [simp]: "bk_traces (bill ci u cost w cached b) = bk_traces b"
  by (cases "wn_fate w") (simp_all add: bill_def record_usage_def)

lemma emit_trace_books [simp]:
  "bk_traces (emit_trace t b) = bk_traces b @ [t]" "all_events (emit_trace t b) = all_events b"
  by (simp_all add: emit_trace_def all_events_def)

lemma settle_usage_Inr:
  assumes "settle_usage ci response request w b = Inr ((prompt, completion, cost), b')"
  shows "\<exists>u. response_billable (ci_model ci) response request = Inr u \<and> prompt = prompt_tokens u \<and> completion = completion_tokens u \<and>
    (\<exists>rates. model_rates (ci_model ci) = Inr rates \<and> compute_cost u rates = Inr cost) \<and> b' = bill ci u cost w False b"
  using assms by (auto simp: settle_usage_def)

lemma settle_ok_books:
  assumes "settle_ok P ci response latency request w a (b, r) = Inr ((prompt, completion, cost), b', r')"
  shows "\<exists>ev. all_events b' = add_mset ev (all_events b) \<and> ev_prompt_tokens ev = prompt \<and> ev_completion_tokens ev = completion \<and>
        ev_cost ev = cost \<and> \<not> ev_cache_hit ev \<and> ev_team_id ev = ci_team_id ci"
    and "bk_traces b' = bk_traces b @ [ok_trace ci prompt completion cost latency (wn_now w) False]"
proof -
  obtain b1 where s: "settle_usage ci response request w b = Inr ((prompt, completion, cost), b1)"
    and b': "b' = emit_trace (ok_trace ci prompt completion cost latency (wn_now w) False) b1"
    using assms by (auto simp: settle_ok_def Let_def)
  from settle_usage_Inr [OF s] obtain u where u: "prompt = prompt_tokens u" "completion = completion_tokens u"
    "b1 = bill ci u cost w False b" by blast
  show "\<exists>ev. all_events b' = add_mset ev (all_events b) \<and> ev_prompt_tokens ev = prompt \<and> ev_completion_tokens ev = completion \<and>
        ev_cost ev = cost \<and> \<not> ev_cache_hit ev \<and> ev_team_id ev = ci_team_id ci"
    by (intro exI [of _ "billed_event ci u cost w False"]) (simp add: b' u all_events_bill billed_event_def Let_def)
  show "bk_traces b' = bk_traces b @ [ok_trace ci prompt completion cost latency (wn_now w) False]" by (simp add: b' u)
qed

lemma settle_error_books:
  assumes "settle_error ci response latency error_type request w now b = Inr ((prompt, completion, cost), b')"
  shows "\<exists>ev. all_events b' = add_mset ev (all_events b) \<and> ev_cost ev = cost"
    and "\<exists>t. bk_traces b' = bk_traces b @ [t] \<and> tr_status t = ''error'' \<and> tr_cost t = cost"
proof -
  obtain b1 where s: "settle_usage ci response request w b = Inr ((prompt, completion, cost), b1)"
    and b': "b' = trace_error ci latency error_type prompt completion cost now b1"
    using assms by (auto simp: settle_error_def)
  from settle_usage_Inr [OF s] obtain u where u: "b1 = bill ci u cost w False b" by blast
  show "\<exists>ev. all_events b' = add_mset ev (all_events b) \<and> ev_cost ev = cost"
    by (intro exI [of _ "billed_event ci u cost w False"]) (simp add: b' u trace_error_def all_events_bill billed_event_def Let_def)
  show "\<exists>t. bk_traces b' = bk_traces b @ [t] \<and> tr_status t = ''error'' \<and> tr_cost t = cost"
    by (simp add: b' u trace_error_def ok_trace_def)
qed

lemma settle_cache_hit_books:
  "\<exists>ev. all_events (settle_cache_hit ci prompt completion latency w b) = add_mset ev (all_events b) \<and>
      ev_cost ev = dec_zero \<and> ev_cache_hit ev \<and> ev_prompt_tokens ev = prompt \<and> ev_completion_tokens ev = completion"
  by (intro exI [of _ "billed_event ci (no_usage\<lparr>prompt_tokens := prompt, completion_tokens := completion\<rparr>) dec_zero w True"])
    (simp add: settle_cache_hit_def all_events_bill billed_event_def Let_def)


definition sample_call_info :: call_info where
  "sample_call_info = \<lparr>ci_team_id = ''t'', ci_api_key_id = None, ci_model = priced_model, ci_operation = ''chat.completions'',
     ci_attribution = None, ci_request_id = None\<rparr>"

definition sample_write :: write_now where
  "sample_write = \<lparr>wn_now = bg_created_at sample_budget, wn_id = ''e1'', wn_fate = Dead_Lettered\<rparr>"

definition empty_books :: books where
  "empty_books = \<lparr>bk_ledger = [], bk_outbox = [], bk_lost = [], bk_traces = []\<rparr>"

definition sample_response :: body where
  "sample_response = [(''usage'', JObj [(''prompt_tokens'', JInt 1), (''completion_tokens'', JInt 10)])]"

definition no_alerts :: alert_now where
  "no_alerts = \<lparr>an_wired = False, an_fired = Inr [], an_ids = (\<lambda>_. ''a''), an_ok = (\<lambda>_. True)\<rparr>"

lemma sample_settles:
  "\<exists>b r. settle_ok sample_ports sample_call_info sample_response 5 None sample_write no_alerts (empty_books, \<lparr>ar_fired = [], ar_outbox = []\<rparr>) =
     Inr ((1, 10, Dec 103 (-6)), b, r)"
proof -
  have u: "response_billable priced_model sample_response None = Inr (no_usage\<lparr>prompt_tokens := 1, completion_tokens := 10\<rparr>)"
    by code_simp
  have c: "compute_cost (no_usage\<lparr>prompt_tokens := 1, completion_tokens := 10\<rparr>) demo_rates = Inr (Dec 103 (-6))" by code_simp
  have m: "ci_model sample_call_info = priced_model" by (simp add: sample_call_info_def)
  show ?thesis by (simp add: settle_ok_def settle_usage_def m u c sample_rates Let_def)
qed


section \<open>Alerts fire once\<close>

text \<open>No row twice, no delivery twice, and every delivery of a recorded row.\<close>

definition ledger_ok :: "fired_key list \<Rightarrow> pending_alert list \<Rightarrow> bool" where
  "ledger_ok fired waiting \<longleftrightarrow> distinct fired \<and> distinct (map alert_key waiting) \<and> set (map alert_key waiting) \<subseteq> set fired"

text \<open>What the meter relies on: recording an alert writes its row and its delivery together, or neither.\<close>

locale alert_ledger =
  fixes rec :: "pending_alert \<Rightarrow> 'r \<Rightarrow> bool \<times> 'r"
    and rows :: "'r \<Rightarrow> fired_key list"
    and queued :: "'r \<Rightarrow> pending_alert list"
  assumes rec_new: "alert_key a \<notin> set (rows r) \<Longrightarrow>
      rows (snd (rec a r)) = rows r @ [alert_key a] \<and> queued (snd (rec a r)) = queued r @ [a]"
    and rec_known: "alert_key a \<in> set (rows r) \<Longrightarrow> rows (snd (rec a r)) = rows r \<and> queued (snd (rec a r)) = queued r"
begin

lemma rec_step:
  assumes "ledger_ok (rows r) (queued r)"
  shows "ledger_ok (rows (snd (rec a r))) (queued (snd (rec a r))) \<and> set (rows (snd (rec a r))) = insert (alert_key a) (set (rows r)) \<and>
    set (queued r) \<subseteq> set (queued (snd (rec a r))) \<and>
    set (queued (snd (rec a r))) = set (queued r) \<union> (if alert_key a \<in> set (rows r) then {} else {a})"
  using assms rec_new [of a r] rec_known [of a r]
  by (cases "alert_key a \<in> set (rows r)") (auto simp: ledger_ok_def)

lemma enqueue_each_ok:
  assumes "ledger_ok (rows r) (queued r)"
  shows "ledger_ok (rows (enqueue_each rec mk ok ts r)) (queued (enqueue_each rec mk ok ts r)) \<and> set (rows r) \<subseteq> set (rows (enqueue_each rec mk ok ts r)) \<and>
    set (rows (enqueue_each rec mk ok ts r)) \<subseteq> set (rows r) \<union> alert_key ` mk ` set ts \<and>
    ((\<forall>t \<in> set ts. ok t) \<longrightarrow> alert_key ` mk ` set ts \<subseteq> set (rows (enqueue_each rec mk ok ts r))) \<and>
    (\<forall>a \<in> set (queued (enqueue_each rec mk ok ts r)). a \<in> set (queued r) \<or> (alert_key a \<notin> set (rows r) \<and> a \<in> mk ` set ts))"
  using assms
proof (induction ts arbitrary: r)
  case (Cons t ts)
  show ?case
  proof (cases "ok t")
    case True
    have s: "ledger_ok (rows (snd (rec (mk t) r))) (queued (snd (rec (mk t) r)))" "set (rows (snd (rec (mk t) r))) = insert (alert_key (mk t)) (set (rows r))"
      "set (queued (snd (rec (mk t) r))) = set (queued r) \<union> (if alert_key (mk t) \<in> set (rows r) then {} else {mk t})"
      using rec_step [OF Cons.prems, of "mk t"] by blast+
    from Cons.IH [OF s(1)] True show ?thesis by (auto simp: s(2,3) split: if_splits)
  next
    case False
    then show ?thesis using Cons.prems by auto
  qed
qed auto

end

interpretation alerts: alert_ledger record_fired_and_enqueue ar_fired ar_outbox
  by unfold_locales (simp_all add: record_fired_and_enqueue_def)

lemma evaluate_cases:
  "evaluate_budget_alerts P wired team now fired ids ok r = r \<or> (\<exists>bg spend ts.
     evaluate_budget_alerts P wired team now fired ids ok r = enqueue_each record_fired_and_enqueue (alert_for team bg now spend ids) ok ts r)"
  unfolding evaluate_budget_alerts_def by (auto split: option.splits sum.splits)

lemma evaluate_keeps:
  assumes "ledger_ok (ar_fired r) (ar_outbox r)" and r': "r' = evaluate_budget_alerts P wired team now fired ids ok r"
  shows "ledger_ok (ar_fired r') (ar_outbox r') \<and> set (ar_fired r) \<subseteq> set (ar_fired r') \<and>
    (\<forall>a \<in> set (ar_outbox r'). a \<in> set (ar_outbox r) \<or> alert_key a \<notin> set (ar_fired r))"
  using evaluate_cases [of P wired team now fired ids ok r, folded r']
proof (elim disjE exE)
  fix bg spend ts assume "r' = enqueue_each record_fired_and_enqueue (alert_for team bg now spend ids) ok ts r"
  then show ?thesis using alerts.enqueue_each_ok [OF assms(1), of "alert_for team bg now spend ids" ok ts] by blast
qed (use assms(1) in simp)

lemma evaluate_crossed:
  assumes "mp_budgets P = Some get" "wired" "get team = Inr (Some bg)" "mp_spend_since P team (window_start (bg_window bg) now) = Inr spend"
    "fired = Inr already" "crossed_thresholds spend (bg_limit_cost bg) (bg_thresholds bg) already = Inr ts" "t \<in> set ts"
  shows "evaluate_budget_alerts P wired team now fired ids ok r =
    enqueue_each record_fired_and_enqueue (alert_for team bg now spend ids) ok ts r"
proof -
  have "bg_thresholds bg \<noteq> []" using assms(6,7) by (auto simp: crossed_thresholds_def split: if_splits)
  with assms(1-6) show ?thesis by (simp add: evaluate_budget_alerts_def)
qed

text \<open>
  C31. Alerts fire once and are not lost: evaluating the alerts of a team (however often, and whatever
  other settlements recorded in between) never writes a second row or a second delivery for one
  threshold of one period, never delivers an alert that was already recorded, keeps all earlier
  rows, and, when the reads and commits go through, leaves every threshold that the spend has
  crossed recorded.
\<close>

theorem alerts_fire_once:
  assumes "ledger_ok (ar_fired r) (ar_outbox r)" "r' = evaluate_budget_alerts P wired team now fired ids ok r"
  shows "ledger_ok (ar_fired r') (ar_outbox r') \<and> set (ar_fired r) \<subseteq> set (ar_fired r') \<and>
    (\<forall>a \<in> set (ar_outbox r'). a \<in> set (ar_outbox r) \<or> alert_key a \<notin> set (ar_fired r)) \<and>
    (\<forall>get bg spend already ts t. mp_budgets P = Some get \<and> wired \<and> get team = Inr (Some bg) \<and>
       mp_spend_since P team (window_start (bg_window bg) now) = Inr spend \<and> fired = Inr already \<and>
       crossed_thresholds spend (bg_limit_cost bg) (bg_thresholds bg) already = Inr ts \<and> (\<forall>t. ok t) \<and> t \<in> set ts \<longrightarrow>
       (team, bg_window bg, window_start (bg_window bg) now, t) \<in> set (ar_fired r'))"
proof (intro conjI allI impI)
  show "ledger_ok (ar_fired r') (ar_outbox r')" "set (ar_fired r) \<subseteq> set (ar_fired r')"
    "\<forall>a \<in> set (ar_outbox r'). a \<in> set (ar_outbox r) \<or> alert_key a \<notin> set (ar_fired r)"
    using evaluate_keeps [OF assms] by simp_all
next
  fix get bg spend already ts t
  assume a: "mp_budgets P = Some get \<and> wired \<and> get team = Inr (Some bg) \<and>
       mp_spend_since P team (window_start (bg_window bg) now) = Inr spend \<and> fired = Inr already \<and>
       crossed_thresholds spend (bg_limit_cost bg) (bg_thresholds bg) already = Inr ts \<and> (\<forall>t. ok t) \<and> t \<in> set ts"
  then have "r' = enqueue_each record_fired_and_enqueue (alert_for team bg now spend ids) ok ts r"
    unfolding assms(2) by (intro evaluate_crossed) blast+
  with a alerts.enqueue_each_ok [OF assms(1), of "alert_for team bg now spend ids" ok ts]
  have "alert_key (alert_for team bg now spend ids t) \<in> set (ar_fired r')" by blast
  then show "(team, bg_window bg, window_start (bg_window bg) now, t) \<in> set (ar_fired r')"
    by (simp add: alert_key_def alert_for_def)
qed

theorem alerts_fire_once_witness:
  "ledger_ok (ar_fired (evaluate_budget_alerts sample_ports True ''t'' (wn_now sample_write) (Inr []) (\<lambda>_. ''a'') (\<lambda>_. True)
      \<lparr>ar_fired = [], ar_outbox = []\<rparr>))
    (ar_outbox (evaluate_budget_alerts sample_ports True ''t'' (wn_now sample_write) (Inr []) (\<lambda>_. ''a'') (\<lambda>_. True)
      \<lparr>ar_fired = [], ar_outbox = []\<rparr>))"
  using alerts_fire_once [OF _ refl, of "\<lparr>ar_fired = [], ar_outbox = []\<rparr>" sample_ports True "''t''" "wn_now sample_write" "Inr []"
      "\<lambda>_. ''a''" "\<lambda>_. True"]
  by (simp add: ledger_ok_def)

end
