(* ===== verification/Meter_Streams.thy ===== *)
theory Meter_Streams
  imports Meter_Settlement
begin

text \<open>
  The metered streams of \<open>UsageMeter\<close> in \<open>application/usage_meter.py\<close>: a chat or Responses stream, a
  native Anthropic stream and a native Gemini stream, each relaying its chunks unchanged while it
  collects the usage they carry, and the settlement in the shielded \<open>finally\<close>. A run is the list
  of chunks received and the way the stream ended; a chunk that cannot be read ends it too. The
  lemmas show that a stream releases and settles once however it ends, and what it is billed for.
\<close>

section \<open>Steps that may raise halfway\<close>

text \<open>A statement list on a state: the state when it stopped, and the exception if it raised.\<close>

definition set_from :: "('s \<Rightarrow> exc + 'a) \<Rightarrow> ('a \<Rightarrow> 's \<Rightarrow> 's) \<Rightarrow> 's \<Rightarrow> 's \<times> exc option" where
  "set_from get put s = (case get s of Inl e \<Rightarrow> (s, Some e) | Inr x \<Rightarrow> (put x s, None))"

definition and_then :: "('s \<Rightarrow> 's \<times> exc option) \<Rightarrow> ('s \<Rightarrow> 's \<times> exc option) \<Rightarrow> 's \<Rightarrow> 's \<times> exc option" where
  "and_then f g s = (case f s of (s', Some e) \<Rightarrow> (s', Some e) | (s', None) \<Rightarrow> g s')"

fun all_steps :: "('s \<Rightarrow> 's \<times> exc option) list \<Rightarrow> 's \<Rightarrow> 's \<times> exc option" where
  "all_steps [] s = (s, None)"
| "all_steps (f # fs) s = and_then f (all_steps fs) s"

record stream_state =
  ss_usage :: json
  ss_chars :: int
  ss_refusal :: bool
  ss_zero :: bool

definition stream_init :: stream_state where
  "stream_init = \<lparr>ss_usage = JObj [], ss_chars = 0, ss_refusal = False, ss_zero = False\<rparr>"

section \<open>Chat and Responses chunks\<close>

definition chunk_report :: "body \<Rightarrow> exc + json" where
  "chunk_report chunk = (if truthy (dget chunk ''usage'') then Inr (dget chunk ''usage'')
     else dict_get (get_or_empty chunk ''response'') ''usage'')"

definition dict_get_or :: "json \<Rightarrow> string \<Rightarrow> json \<Rightarrow> exc + json" where
  "dict_get_or v k v0 = (case v of JObj d \<Rightarrow> Inr (dget_or d k v0) | _ \<Rightarrow> raise_py AttributeError)"

definition chunk_refuses :: "body \<Rightarrow> exc + bool" where
  "chunk_refuses chunk = rbind (iterate_or_empty (dget chunk ''choices'')) (\<lambda>choices.
     if list_ex content_filtered choices then Inr True
     else if dget chunk ''type'' = JStr ''response.incomplete'' then
       rbind (dict_get_or (get_or_empty chunk ''response'') ''incomplete_details'' (JObj [])) (\<lambda>details.
       rbind (dict_get details ''reason'') (\<lambda>reason. Inr (reason = JStr ''content_filter'')))
     else Inr False)"

definition uncharged_so_far :: "stream_state \<Rightarrow> exc + bool" where
  "uncharged_so_far s = (if \<not> ss_refusal s then Inr False
     else rbind (as_dict (ss_usage s)) (\<lambda>usage.
       if has_authoritative_usage usage then rbind (has_tokens usage) (\<lambda>b. Inr (\<not> b)) else Inr False))"

definition add_chars :: "exc + string \<Rightarrow> stream_state \<Rightarrow> stream_state \<times> exc option" where
  "add_chars t = set_from (\<lambda>_. t) (\<lambda>t s. s\<lparr>ss_chars := ss_chars s + int (length t)\<rparr>)"

definition chat_chunk :: "body \<Rightarrow> stream_state \<Rightarrow> stream_state \<times> exc option" where
  "chat_chunk chunk = all_steps
    [set_from (\<lambda>_. chunk_report chunk) (\<lambda>found s. if truthy found then s\<lparr>ss_usage := found\<rparr> else s),
     set_from (\<lambda>s. if ss_refusal s then Inr True else chunk_refuses chunk) (\<lambda>b s. s\<lparr>ss_refusal := b\<rparr>),
     set_from uncharged_so_far (\<lambda>b s. s\<lparr>ss_zero := b\<rparr>),
     add_chars (chunk_output_text chunk)]"

section \<open>Native chunks\<close>

text \<open>\<open>k in v\<close>.\<close>

fun py_in :: "string \<Rightarrow> json \<Rightarrow> exc + bool" where
  "py_in k (JObj d) = Inr (has_key d k)"
| "py_in k (JList vs) = Inr (JStr k \<in> set vs)"
| "py_in k (JStr s) = Inr (occurs k s)"
| "py_in k _ = raise_py TypeError"

text \<open>\<open>if src in v: usage[dst] = v.get(src) or 0\<close>.\<close>

definition copy_count :: "json \<Rightarrow> string \<Rightarrow> string \<Rightarrow> stream_state \<Rightarrow> stream_state \<times> exc option" where
  "copy_count v src dst = set_from
    (\<lambda>_. rbind (py_in src v) (\<lambda>b. if b then rbind (dict_get v src) (\<lambda>x. Inr (Some (py_or x (JInt 0)))) else Inr None))
    (\<lambda>x s. case x of None \<Rightarrow> s | Some n \<Rightarrow> s\<lparr>ss_usage := JObj (dict_put dst n (dict_part (ss_usage s)))\<rparr>)"

definition with_value :: "exc + json \<Rightarrow> (json \<Rightarrow> (stream_state \<Rightarrow> stream_state \<times> exc option) list) \<Rightarrow>
    stream_state \<Rightarrow> stream_state \<times> exc option" where
  "with_value get steps s = (case get of Inl e \<Rightarrow> (s, Some e) | Inr v \<Rightarrow> all_steps (steps v) s)"

definition native_chunk :: "body \<Rightarrow> stream_state \<Rightarrow> stream_state \<times> exc option" where
  "native_chunk event = all_steps
    [if dget event ''type'' = JStr ''message_start'' then
       with_value (rbind (dict_get (get_or_empty event ''message'') ''usage'') (\<lambda>u. Inr (py_or u (JObj []))))
         (\<lambda>u. map (\<lambda>k. copy_count u k k)
           [''input_tokens'', ''output_tokens'', ''cache_creation_input_tokens'', ''cache_read_input_tokens''])
     else if dget event ''type'' = JStr ''message_delta'' then copy_count (get_or_empty event ''usage'') ''output_tokens'' ''output_tokens''
     else (\<lambda>s. (s, None)),
     add_chars (native_event_text event)]"

definition gemini_chunk :: "body \<Rightarrow> stream_state \<Rightarrow> stream_state \<times> exc option" where
  "gemini_chunk chunk = (let meta = dget chunk ''usageMetadata'' in all_steps
    [if truthy meta then all_steps [copy_count meta ''promptTokenCount'' ''input_tokens'',
        copy_count meta ''candidatesTokenCount'' ''output_tokens'']
     else (\<lambda>s. (s, None)),
     add_chars (gemini_chunk_text chunk)])"

section \<open>Relaying\<close>

text \<open>How the source ended: it finished, the provider raised, or the client went away.\<close>

datatype stream_end = Exhausted | Failed exc | Closed

fun relay :: "(body \<Rightarrow> stream_state \<Rightarrow> stream_state \<times> exc option) \<Rightarrow> body list \<Rightarrow> stream_end \<Rightarrow> stream_state \<Rightarrow>
    body list \<times> stream_state \<times> exc option" where
  "relay step [] fin s = ([], s, case fin of Failed e \<Rightarrow> Some e | _ \<Rightarrow> None)"
| "relay step (c # cs) fin s = (case step c s of
     (s', Some e) \<Rightarrow> ([], s', Some e)
   | (s', None) \<Rightarrow> (case relay step cs fin s' of (ys, s'', err) \<Rightarrow> (c # ys, s'', err)))"

section \<open>The settlement of a stream\<close>

text \<open>Where the settlement stood still until its deadline, if it did.\<close>

datatype stall = No_Stall | At_Write | At_Alerts

text \<open>What the finalizer reads, and what it is given besides the stream.\<close>

record finalizer =
  fz_latency :: float_py
  fz_write :: write_now
  fz_alerts :: alert_now
  fz_now :: datetime
  fz_error_name :: "exc \<Rightarrow> string"
  fz_stall :: stall

definition stream_estimate :: "body \<Rightarrow> int \<Rightarrow> exc + body" where
  "stream_estimate request chars = rbind (request_text request) (\<lambda>t.
     Inr [(''prompt_tokens'', JInt (usage_estimate_tokens (int (length t)))), (''completion_tokens'', JInt (usage_estimate_tokens chars))])"

definition stream_usage :: "body \<Rightarrow> stream_state \<Rightarrow> exc option \<Rightarrow> exc + body" where
  "stream_usage request s error = rbind (as_dict (ss_usage s)) (\<lambda>usage.
     rbind (has_tokens usage) (\<lambda>tokens.
     let produced_nothing = (error \<noteq> None \<and> ss_chars s = 0 \<and> \<not> tokens) in
     if \<not> tokens \<and> \<not> produced_nothing \<and> \<not> ss_zero s
       then rbind (stream_estimate request (ss_chars s)) (\<lambda>estimate. estimate_or estimate usage)
     else Inr usage))"

text \<open>The books, the alert repository, and the counts handed to \<open>on_settled\<close> if it was called.\<close>

type_synonym settled = "books \<times> alert_repo \<times> (int \<times> int) option"

definition settle_failed :: "call_info \<Rightarrow> finalizer \<Rightarrow> body \<Rightarrow> exc \<Rightarrow> books \<times> alert_repo \<Rightarrow> exc + settled" where
  "settle_failed ci fz usage e = (\<lambda>(b, r).
    rbind (token_usage usage) (\<lambda>billable.
    rbind (model_rates (ci_model ci)) (\<lambda>rates.
    rbind (compute_cost billable rates) (\<lambda>cost.
    rbind (has_tokens usage) (\<lambda>tokens.
    let p = prompt_tokens billable; c = completion_tokens billable;
        fail = trace_error ci (fz_latency fz) (fz_error_name fz e) p c cost (fz_now fz)
    in if \<not> tokens then Inr (fail b, r, None)
       else if fz_stall fz = At_Write then Inr (b, r, None)
       else Inr (fail (bill ci billable cost (fz_write fz) False b), r, Some (p, c)))))))"

definition settle_finished :: "meter_ports \<Rightarrow> call_info \<Rightarrow> finalizer \<Rightarrow> body \<Rightarrow> books \<times> alert_repo \<Rightarrow> exc + settled" where
  "settle_finished P ci fz usage = (\<lambda>(b, r).
    (case fz_stall fz of
       No_Stall \<Rightarrow> rbind (settle_ok P ci [(''usage'', JObj usage)] (fz_latency fz) None (fz_write fz) (fz_alerts fz) (b, r))
         (\<lambda>((p, c, cost), b', r'). Inr (b', r', Some (p, c)))
     | At_Write \<Rightarrow> rbind (settle_usage ci [(''usage'', JObj usage)] None (fz_write fz) b) (\<lambda>_. Inr (b, r, None))
     | At_Alerts \<Rightarrow> rbind (settle_usage ci [(''usage'', JObj usage)] None (fz_write fz) b) (\<lambda>(_, b'). Inr (b', r, None))))"

definition finalize_stream_billing :: "meter_ports \<Rightarrow> call_info \<Rightarrow> finalizer \<Rightarrow> body \<Rightarrow> stream_state \<Rightarrow> exc option \<Rightarrow>
    books \<times> alert_repo \<Rightarrow> exc + settled" where
  "finalize_stream_billing P ci fz request s error br = rbind (stream_usage request s error) (\<lambda>usage.
     case error of Some e \<Rightarrow> settle_failed ci fz usage e br | None \<Rightarrow> settle_finished P ci fz usage br)"

text \<open>
  A metered stream: the chunks relayed, the store after the release, and the settlement or the
  exception of the \<open>finally\<close> block; \<open>rel\<close> is the release closure, if the caller gave one.
\<close>

definition metered :: "(body \<Rightarrow> stream_state \<Rightarrow> stream_state \<times> exc option) \<Rightarrow> meter_ports \<Rightarrow> call_info \<Rightarrow> finalizer \<Rightarrow> body \<Rightarrow>
    ('st \<Rightarrow> 'st) option \<Rightarrow> body list \<Rightarrow> stream_end \<Rightarrow> 'st \<Rightarrow> books \<times> alert_repo \<Rightarrow> body list \<times> exc option \<times> 'st \<times> (exc + settled)" where
  "metered step P ci fz request rel chunks fin st br = (case relay step chunks fin stream_init of
     (ys, s, error) \<Rightarrow> (ys, error, (case rel of None \<Rightarrow> st | Some f \<Rightarrow> f st), finalize_stream_billing P ci fz request s error br))"

definition metered_stream where
  "metered_stream = metered chat_chunk"

definition metered_native_stream where
  "metered_native_stream = metered native_chunk"

definition metered_gemini_stream where
  "metered_gemini_stream = metered gemini_chunk"

section \<open>A stream settles once\<close>

lemma relay_prefix: "relay step cs fin s = (ys, s', err) \<Longrightarrow> (\<exists>zs. cs = ys @ zs) \<and> (err = None \<longrightarrow> ys = cs)"
proof (induction cs arbitrary: s ys)
  case (Cons c cs)
  then show ?case by (auto split: prod.splits option.splits)
qed auto

lemma settle_failed_effect:
  assumes "settle_failed ci fz usage e (b, r) = Inr (b', r', told)" "fz_stall fz = No_Stall"
  shows "(\<exists>evs. all_events b' = all_events b + mset evs \<and> length evs = (if told = None then 0 else 1) \<and>
      (\<forall>ev \<in> set evs. told = Some (ev_prompt_tokens ev, ev_completion_tokens ev))) \<and>
    (\<exists>t. bk_traces b' = bk_traces b @ [t] \<and> tr_status t = ''error'') \<and> r' = r \<and>
    (told = None \<longleftrightarrow> has_tokens usage = Inr False)"
proof -
  from assms obtain u rates cost k where p: "token_usage usage = Inr u" "compute_cost u rates = Inr cost" "has_tokens usage = Inr k"
    and r: "if k then b' = trace_error ci (fz_latency fz) (fz_error_name fz e) (prompt_tokens u) (completion_tokens u) cost (fz_now fz)
        (bill ci u cost (fz_write fz) False b) \<and> told = Some (prompt_tokens u, completion_tokens u)
      else b' = trace_error ci (fz_latency fz) (fz_error_name fz e) (prompt_tokens u) (completion_tokens u) cost (fz_now fz) b \<and> told = None"
    and r': "r' = r"
    by (auto simp: settle_failed_def Let_def split: if_splits)
  show ?thesis
  proof (cases k)
    case True
    with r r' p show ?thesis
      by (intro conjI exI [of _ "[billed_event ci u cost (fz_write fz) False]"])
        (auto simp: trace_error_def ok_trace_def all_events_bill billed_event_def Let_def)
  next
    case False
    with r r' p show ?thesis by (intro conjI exI [of _ "[]"]) (auto simp: trace_error_def ok_trace_def)
  qed
qed

lemma settle_finished_effect:
  assumes "settle_finished P ci fz usage (b, r) = Inr (b', r', told)" "fz_stall fz = No_Stall"
  shows "\<exists>ev. all_events b' = add_mset ev (all_events b) \<and> told = Some (ev_prompt_tokens ev, ev_completion_tokens ev) \<and>
    (\<exists>t. bk_traces b' = bk_traces b @ [t] \<and> tr_status t = ''ok'')"
proof -
  from assms obtain p c cost where s: "settle_ok P ci [(''usage'', JObj usage)] (fz_latency fz) None (fz_write fz) (fz_alerts fz) (b, r) =
      Inr ((p, c, cost), b', r')" and told: "told = Some (p, c)"
    by (auto simp: settle_finished_def)
  from s obtain b1 where s1: "settle_usage ci [(''usage'', JObj usage)] None (fz_write fz) b = Inr ((p, c, cost), b1)"
    and b': "b' = emit_trace (ok_trace ci p c cost (fz_latency fz) (wn_now (fz_write fz)) False) b1"
    by (auto simp: settle_ok_def Let_def)
  from settle_usage_Inr [OF s1] obtain u where "p = prompt_tokens u" "c = completion_tokens u" "b1 = bill ci u cost (fz_write fz) False b"
    by blast
  then show ?thesis
    by (intro exI [of _ "billed_event ci u cost (fz_write fz) False"])
      (simp add: b' told all_events_bill billed_event_def ok_trace_def Let_def)
qed


definition sample_finalizer :: finalizer where
  "sample_finalizer = \<lparr>fz_latency = 5, fz_write = sample_write, fz_alerts = no_alerts, fz_now = wn_now sample_write,
     fz_error_name = (\<lambda>_. ''E''), fz_stall = No_Stall\<rparr>"

definition no_rows :: alert_repo where
  "no_rows = \<lparr>ar_fired = [], ar_outbox = []\<rparr>"

lemma sample_stream:
  "\<exists>b r. metered_stream sample_ports sample_call_info sample_finalizer sample_request (Some Suc) [sample_response] Exhausted 0
     (empty_books, no_rows) = ([sample_response], None, 1, Inr (b, r, Some (1, 10)))"
proof -
  have r: "relay chat_chunk [sample_response] Exhausted stream_init =
      ([sample_response], stream_init\<lparr>ss_usage := dget sample_response ''usage''\<rparr>, None)" by code_simp
  have u: "stream_usage sample_request (stream_init\<lparr>ss_usage := dget sample_response ''usage''\<rparr>) None =
      Inr [(''prompt_tokens'', JInt 1), (''completion_tokens'', JInt 10)]" by code_simp
  obtain b r' where "settle_ok sample_ports sample_call_info sample_response 5 None sample_write no_alerts (empty_books, no_rows) =
      Inr ((1, 10, Dec 103 (-6)), b, r')"
    using sample_settles by (auto simp: no_rows_def)
  then have "settle_finished sample_ports sample_call_info sample_finalizer [(''prompt_tokens'', JInt 1), (''completion_tokens'', JInt 10)]
      (empty_books, no_rows) = Inr (b, r', Some (1, 10))"
    by (simp add: settle_finished_def sample_finalizer_def sample_response_def)
  then show ?thesis
    unfolding metered_stream_def metered_def r prod.case option.case finalize_stream_billing_def u rbind_simps by simp
qed


section \<open>What a stream is billed for\<close>

lemma set_from_None: "set_from get put s = (s', None) \<longleftrightarrow> (\<exists>x. get s = Inr x \<and> s' = put x s)"
  by (auto simp: set_from_def split: sum.splits)

lemma and_then_None: "and_then f g s = (s', None) \<longleftrightarrow> (\<exists>s1. f s = (s1, None) \<and> g s1 = (s', None))"
  by (auto simp: and_then_def split: prod.splits option.splits)

definition report_of :: "body \<Rightarrow> json" where
  "report_of chunk = (case chunk_report chunk of Inr v \<Rightarrow> v | Inl _ \<Rightarrow> JNull)"

lemma chat_chunk_usage:
  assumes "chat_chunk c s = (s', None)"
  shows "ss_usage s' = (if truthy (report_of c) then report_of c else ss_usage s)"
  using assms
  by (auto simp: chat_chunk_def and_then_None set_from_None add_chars_def report_of_def)

text \<open>
  A chat or Responses stream that was read to its end carries the last usage report in it, as the
  wire formats define it: an earlier, partial report never survives a later one, and a chunk
  without a report changes nothing.
\<close>

theorem stream_usage_is_last_report:
  assumes "relay chat_chunk chunks fin s = (ys, s', None)"
  shows "ss_usage s' = last (ss_usage s # filter truthy (map report_of chunks))"
  using assms
proof (induction chunks arbitrary: s ys)
  case (Cons c cs)
  from Cons.prems obtain s1 ys1 where 1: "chat_chunk c s = (s1, None)" "relay chat_chunk cs fin s1 = (ys1, s', None)"
    by (auto split: prod.splits option.splits)
  from Cons.IH [OF 1(2)] chat_chunk_usage [OF 1(1)] show ?case by simp
qed simp

theorem stream_usage_is_last_report_witness:
  "ss_usage (fst (snd (relay chat_chunk [[(''usage'', JObj [(''prompt_tokens'', JInt 1)])], sample_response, []] Exhausted stream_init))) =
     JObj [(''prompt_tokens'', JInt 1), (''completion_tokens'', JInt 10)]"
proof -
  have r: "relay chat_chunk [[(''usage'', JObj [(''prompt_tokens'', JInt 1)])], sample_response, []] Exhausted stream_init =
      ([[(''usage'', JObj [(''prompt_tokens'', JInt 1)])], sample_response, []],
       stream_init\<lparr>ss_usage := dget sample_response ''usage''\<rparr>, None)" by code_simp
  have "map report_of [[(''usage'', JObj [(''prompt_tokens'', JInt 1)])], sample_response, []] =
      [JObj [(''prompt_tokens'', JInt 1)], dget sample_response ''usage'', JNull]" by code_simp
  with stream_usage_is_last_report [OF r] show ?thesis
    unfolding r by (simp add: sample_response_def dget_def)
qed

lemma has_tokens_counts:
  "has_tokens [(''prompt_tokens'', JInt p), (''completion_tokens'', JInt c)] = Inr (p \<noteq> 0 \<or> c \<noteq> 0)"
  by (simp add: has_tokens_def int_or_zero_def dget_def)

text \<open>
  A stream that an error ended is billed exactly when it cost something upstream: when the
  provider reported tokens, or when output reached the gateway (then for the estimate, unless the
  provider reported an uncharged refusal); a request the provider rejected before any output books
  nothing.
\<close>

theorem failed_stream_billed_iff:
  assumes "finalize_stream_billing P ci fz request s (Some e) (b, r) = Inr (b', r', told)" "fz_stall fz = No_Stall"
    and "ss_usage s = JObj d" "has_tokens d = Inr tokens" "0 \<le> ss_chars s"
  shows "told \<noteq> None \<longleftrightarrow> tokens \<or> 0 < ss_chars s \<and> \<not> ss_zero s"
proof -
  from assms(1) obtain usage where u: "stream_usage request s (Some e) = Inr usage"
    "settle_failed ci fz usage e (b, r) = Inr (b', r', told)"
    by (auto simp: finalize_stream_billing_def)
  have t: "told = None \<longleftrightarrow> has_tokens usage = Inr False" using settle_failed_effect [OF u(2) assms(2)] by simp
  show ?thesis
  proof (cases "\<not> tokens \<and> 0 < ss_chars s \<and> \<not> ss_zero s")
    case True
    with u(1) assms(3,4) obtain tx :: string where "estimate_or [(''prompt_tokens'', JInt (usage_estimate_tokens (int (length tx)))),
        (''completion_tokens'', JInt (usage_estimate_tokens (ss_chars s)))] d = Inr usage"
      by (auto simp: stream_usage_def stream_estimate_def as_dict_def Let_def)
    moreover have "usage_estimate_tokens (ss_chars s) \<noteq> 0" using usage_estimate_bounds [of "ss_chars s"] True by auto
    ultimately have "has_tokens usage = Inr True" by (auto simp: estimate_or_def has_tokens_counts)
    with t True show ?thesis by simp
  next
    case False
    then have "usage = d"
      using u(1) assms(3-5) by (auto simp: stream_usage_def as_dict_def Let_def split: if_splits)
    with t False assms(4) show ?thesis by auto
  qed
qed

theorem failed_stream_billed_iff_witness:
  "\<exists>b r. finalize_stream_billing sample_ports sample_call_info sample_finalizer sample_request stream_init
     (Some (Builtin ValueError)) (empty_books, no_rows) = Inr (b, r, None) \<and> \<not> 0 < ss_chars stream_init"
proof -
  have u: "stream_usage sample_request stream_init (Some (Builtin ValueError)) = Inr []" by code_simp
  have t: "token_usage [] = Inr no_usage" "has_tokens [] = Inr False" by code_simp+
  have c: "compute_cost no_usage demo_rates = Inr (Dec 0 (-6))" by code_simp
  have m: "ci_model sample_call_info = priced_model" by (simp add: sample_call_info_def)
  obtain b r told where f: "finalize_stream_billing sample_ports sample_call_info sample_finalizer sample_request stream_init
     (Some (Builtin ValueError)) (empty_books, no_rows) = Inr (b, r, told)"
    by (simp add: finalize_stream_billing_def u settle_failed_def t c m sample_rates Let_def)
  have "ss_usage stream_init = JObj []" "0 \<le> ss_chars stream_init" by (simp_all add: stream_init_def)
  from failed_stream_billed_iff [OF f _ this(1) t(2) this(2)] have "told = None" "\<not> 0 < ss_chars stream_init"
    by (simp_all add: sample_finalizer_def stream_init_def del: not_None_eq)
  with f show ?thesis by blast
qed

end
