(* ===== verification/Guardrail_Payloads.thy ===== *)
theory Guardrail_Payloads
  imports Usage_Accounting
begin

text \<open>
  \<open>application/guardrails/payloads.py\<close>: the text of a request or a response that a guardrail judges,
  whether a redaction can be put back unambiguously, and putting it back. The code rewrites a deep
  copy in place through references into it; here the rewritten value is rebuilt. The lemmas show
  that extraction and re-insertion fit together like the two halves of a lens.
\<close>

section \<open>Extraction\<close>

definition content_text :: "json \<Rightarrow> string" where
  "content_text content = (case content of
     JStr s \<Rightarrow> s | JList blocks \<Rightarrow> join newline (block_texts blocks) | _ \<Rightarrow> [])"

definition is_user_message :: "json \<Rightarrow> bool" where
  "is_user_message message \<longleftrightarrow> oget message ''role'' = JStr ''user''"

text \<open>The dict of the last element that satisfies \<open>p\<close>; \<open>p\<close> holds of dicts only.\<close>

definition last_dict :: "(json \<Rightarrow> bool) \<Rightarrow> json list \<Rightarrow> body option" where
  "last_dict p vs = Option.bind (find p (rev vs)) as_obj"

definition last_user_message :: "body \<Rightarrow> body option" where
  "last_user_message request = last_dict is_user_message (list_or_empty (dget request ''messages''))"

text \<open>A Gemini turn without a role is the user's.\<close>

definition is_user_turn :: "json \<Rightarrow> bool" where
  "is_user_turn turn \<longleftrightarrow> (case turn of JObj d \<Rightarrow> dget_or d ''role'' (JStr ''user'') = JStr ''user'' | _ \<Rightarrow> False)"

definition last_gemini_turn :: "body \<Rightarrow> body option" where
  "last_gemini_turn request = last_dict is_user_turn (list_or_empty (dget request ''contents''))"

definition is_text_part :: "json \<Rightarrow> bool" where
  "is_text_part part \<longleftrightarrow> is_str (oget part ''text'')"

definition text_parts :: "json \<Rightarrow> json list" where
  "text_parts turn = filter is_text_part (list_or_empty (oget turn ''parts''))"

definition parts_text :: "json \<Rightarrow> string" where
  "parts_text turn = join newline (block_texts (text_parts turn))"

definition guard_request_text :: "body \<Rightarrow> string" where
  "guard_request_text request = (case last_user_message request of
     Some message \<Rightarrow> content_text (dget message ''content'')
   | None \<Rightarrow> (case dget request ''input'' of
       JStr s \<Rightarrow> s
     | JList items \<Rightarrow> join newline (map (\<lambda>item. content_text (oget item ''content'')) (filter is_obj items))
     | _ \<Rightarrow> (case last_gemini_turn request of Some turn \<Rightarrow> parts_text (JObj turn) | None \<Rightarrow> [])))"

definition choice_content :: "json \<Rightarrow> string list" where
  "choice_content choice = (case oget choice ''message'' of
     JObj message \<Rightarrow> [content_text (dget message ''content'')] | _ \<Rightarrow> [])"

definition guard_response_text :: "body \<Rightarrow> exc + string" where
  "guard_response_text response =
    rbind (iterate_or_empty (dget response ''choices'')) (\<lambda>choices.
    rbind (iterate_or_empty (dget response ''output'')) (\<lambda>items.
    rbind (iterate_or_empty (dget response ''candidates'')) (\<lambda>candidates.
    Inr (join newline (filter (\<lambda>p. p \<noteq> []) (
      concat (map choice_content choices) @
      map (\<lambda>item. content_text (oget item ''content'')) (filter is_obj items) @
      [content_text (dget response ''content'')] @
      map (\<lambda>c. parts_text (oget c ''content'')) (filter is_obj candidates)))))))"

section \<open>Putting a redaction back\<close>

definition can_redact_request :: "body \<Rightarrow> bool" where
  "can_redact_request request = (case last_user_message request of
     Some message \<Rightarrow> is_str (dget message ''content'')
   | None \<Rightarrow> is_str (dget request ''input'') \<or> (case last_gemini_turn request of
       Some turn \<Rightarrow> length (text_parts (JObj turn)) = 1 | None \<Rightarrow> False))"

fun map_last :: "(json \<Rightarrow> bool) \<Rightarrow> (json \<Rightarrow> json) \<Rightarrow> json list \<Rightarrow> json list" where
  "map_last p f [] = []"
| "map_last p f (v # vs) = (if p v \<and> (\<forall>w \<in> set vs. \<not> p w) then f v # vs else v # map_last p f vs)"

text \<open>\<open>v[k] = x\<close> where \<open>v\<close> is a dict.\<close>

definition set_field :: "string \<Rightarrow> json \<Rightarrow> json \<Rightarrow> json" where
  "set_field k x v = (case v of JObj d \<Rightarrow> JObj (dict_put k x d) | _ \<Rightarrow> v)"

text \<open>Every text part of the turn rewritten.\<close>

definition set_part_texts :: "string \<Rightarrow> json \<Rightarrow> json" where
  "set_part_texts text turn = (case oget turn ''parts'' of
     JList parts \<Rightarrow> set_field ''parts'' (JList (map (\<lambda>p. if is_text_part p then set_field ''text'' (JStr text) p else p) parts)) turn
   | _ \<Rightarrow> turn)"

definition redact_request :: "body \<Rightarrow> string \<Rightarrow> body" where
  "redact_request request text = (case last_user_message request of
     Some _ \<Rightarrow> dict_put ''messages'' (JList (map_last is_user_message (set_field ''content'' (JStr text))
         (list_or_empty (dget request ''messages'')))) request
   | None \<Rightarrow> if is_str (dget request ''input'') then dict_put ''input'' (JStr text) request
       else (case last_gemini_turn request of
           Some turn \<Rightarrow> if length (text_parts (JObj turn)) = 1
             then dict_put ''contents'' (JList (map_last is_user_turn (set_part_texts text)
                 (list_or_empty (dget request ''contents'')))) request
             else request
         | None \<Rightarrow> request))"

definition can_redact_response :: "body \<Rightarrow> bool" where
  "can_redact_response response = (case dget response ''choices'' of
     JList (c # cs) \<Rightarrow> (\<forall>x \<in> set (c # cs). is_str (oget (oget x ''message'') ''content''))
   | _ \<Rightarrow> (case dget response ''content'' of
       JList blocks \<Rightarrow> length blocks = 1 \<and> is_str (oget (hd blocks) ''text'')
     | _ \<Rightarrow> (case dget response ''candidates'' of
         JList [c] \<Rightarrow> is_obj (oget c ''content'') \<and> length (text_parts (oget c ''content'')) = 1
       | _ \<Rightarrow> False)))"

text \<open>\<open>choice["message"]["content"] = text\<close>.\<close>

definition redact_choice :: "string \<Rightarrow> json \<Rightarrow> exc + json" where
  "redact_choice text choice = (case choice of
     JObj d \<Rightarrow> (case map_of d ''message'' of
       None \<Rightarrow> raise_py KeyError
     | Some (JObj m) \<Rightarrow> Inr (JObj (dict_put ''message'' (JObj (dict_put ''content'' (JStr text) m)) d))
     | Some _ \<Rightarrow> raise_py TypeError)
   | _ \<Rightarrow> raise_py TypeError)"

definition redact_block :: "string \<Rightarrow> json \<Rightarrow> json" where
  "redact_block text block = (if is_text_part block then set_field ''text'' (JStr text) block else block)"

definition redact_candidate :: "string \<Rightarrow> json \<Rightarrow> json" where
  "redact_candidate text c = (if is_obj (oget c ''content'')
     then set_field ''content'' (set_part_texts text (oget c ''content'')) c else c)"

definition redact_response :: "body \<Rightarrow> string \<Rightarrow> exc + body" where
  "redact_response response text = (case dget response ''choices'' of
     JList (c # cs) \<Rightarrow> rbind (rmap (redact_choice text) (c # cs)) (\<lambda>cs'. Inr (dict_put ''choices'' (JList cs') response))
   | _ \<Rightarrow> (case dget response ''content'' of
       JList blocks \<Rightarrow> Inr (dict_put ''content'' (JList (map (redact_block text) blocks)) response)
     | _ \<Rightarrow> rbind (iterate_or_empty (dget response ''candidates'')) (\<lambda>_.
         Inr (case dget response ''candidates'' of
           JList cs \<Rightarrow> dict_put ''candidates'' (JList (map (redact_candidate text) cs)) response
         | _ \<Rightarrow> response))))"

section \<open>Rewriting the last match\<close>

lemma find_append: "find p (xs @ ys) = (case find p xs of None \<Rightarrow> find p ys | Some x \<Rightarrow> Some x)"
  by (induction xs) auto

lemma map_last_none:
  assumes "\<And>v. p v \<Longrightarrow> p (f v)"
  shows "(\<forall>w \<in> set (map_last p f vs). \<not> p w) \<longleftrightarrow> (\<forall>w \<in> set vs. \<not> p w)"
  by (induction vs) (auto dest: assms)

lemma find_map_last:
  assumes "\<And>v. p v \<Longrightarrow> p (f v)"
  shows "find p (rev (map_last p f vs)) = map_option f (find p (rev vs))"
proof (induction vs)
  case (Cons v vs)
  have "find p (rev vs) = None \<longleftrightarrow> (\<forall>w \<in> set vs. \<not> p w)" by (simp add: find_None_props)
  with Cons assms [of v] show ?case by (auto simp: find_append split: option.splits)
qed simp

lemma map_last_twice:
  assumes "\<And>v. p v \<Longrightarrow> p (f v)"
  shows "map_last p g (map_last p f vs) = map_last p (\<lambda>v. g (f v)) vs"
  using map_last_none [of p f, OF assms] assms by (induction vs) auto

lemma map_last_same: "find p (rev vs) = Some v \<Longrightarrow> f v = v \<Longrightarrow> map_last p f vs = vs"
proof (induction vs)
  case (Cons w vs)
  then show ?case
    by (cases "find p (rev vs)") (auto simp: find_append find_None_props split: if_splits dest: find_Some_props)
qed simp

lemma last_dict_map_last:
  assumes "\<And>v. p v \<Longrightarrow> p (f v)" "\<And>d. as_obj (f (JObj d)) = Some (g d)"
    and "\<And>v. p v \<Longrightarrow> is_obj v"
  shows "last_dict p (map_last p f vs) = map_option g (last_dict p vs)"
proof (cases "find p (rev vs)")
  case (Some v)
  then obtain d where "v = JObj d" using assms(3) find_Some_props [OF Some] by (auto simp: is_iff)
  with Some assms(2) find_map_last [of p f vs, OF assms(1)] show ?thesis by (simp add: last_dict_def)
qed (use find_map_last [of p f vs, OF assms(1)] in \<open>simp add: last_dict_def\<close>)

lemma set_field_obj [simp]: "set_field k x (JObj d) = JObj (dict_put k x d)"
  by (simp add: set_field_def)

lemma dict_put_same: "dget d k = v \<Longrightarrow> v \<noteq> JNull \<Longrightarrow> dict_put k v d = d"
  by (induction d) (auto simp: dget_def)

lemma dict_put_twice: "dict_put k v (dict_put k w d) = dict_put k v d"
  by (induction d) auto

section \<open>Extraction and re-insertion\<close>

lemma is_user_message_set: "is_user_message v \<Longrightarrow> is_user_message (set_field ''content'' x v)"
  by (cases v) (auto simp: is_user_message_def oget_def dict_simps)

lemma is_user_message_obj: "is_user_message v \<Longrightarrow> is_obj v"
  by (cases v) (auto simp: is_user_message_def oget_def)

lemma is_user_turn_obj: "is_user_turn v \<Longrightarrow> is_obj v"
  by (cases v) (auto simp: is_user_turn_def)

lemma is_user_turn_set: "is_user_turn v \<Longrightarrow> is_user_turn (set_part_texts t v)"
  by (cases v) (auto simp: is_user_turn_def set_part_texts_def dget_or_def dict_simps split: json.splits)

lemma is_text_part_obj: "is_text_part p \<Longrightarrow> \<exists>d s. p = JObj d \<and> dget d ''text'' = JStr s"
  by (cases p) (auto simp: is_text_part_def oget_def is_iff)

lemma is_text_part_set [simp]: "is_text_part p \<Longrightarrow> is_text_part (set_field ''text'' (JStr t) p)"
  by (cases p) (auto simp: is_text_part_def oget_def dict_simps)

lemma oget_set_field: "is_obj v \<Longrightarrow> oget (set_field k x v) k' = (if k' = k then x else oget v k')"
  by (cases v) (auto simp: oget_def dict_simps)

lemma oget_JList_obj: "oget v k = JList xs \<Longrightarrow> is_obj v"
  by (cases v) (auto simp: oget_def)

lemma text_parts_set:
  "text_parts (set_part_texts t turn) = map (set_field ''text'' (JStr t)) (text_parts turn)"
proof (cases "oget turn ''parts''")
  case (JList ps)
  have "filter is_text_part (map (\<lambda>p. if is_text_part p then set_field ''text'' (JStr t) p else p) ps) =
      map (set_field ''text'' (JStr t)) (filter is_text_part ps)"
    by (induction ps) auto
  with JList oget_JList_obj [OF JList] show ?thesis
    by (simp add: text_parts_def set_part_texts_def oget_set_field list_or_empty_def)
qed (simp_all add: text_parts_def set_part_texts_def list_or_empty_def)

lemma single_text_part:
  assumes "length (text_parts turn) = 1"
  obtains d s where "text_parts turn = [JObj d]" "dget d ''text'' = JStr s" "parts_text turn = s"
proof -
  obtain p where p: "text_parts turn = [p]" using assms by (cases "text_parts turn") auto
  then have "is_text_part p" by (auto simp: text_parts_def filter_eq_Cons_iff)
  with is_text_part_obj obtain d s where "p = JObj d" "dget d ''text'' = JStr s" by blast
  with p that show ?thesis by (auto simp: parts_text_def block_texts_def str_field_def)
qed

lemma set_part_texts_get:
  assumes "length (text_parts turn) = 1"
  shows "parts_text (set_part_texts t turn) = t"
proof -
  obtain d s where "text_parts turn = [JObj d]" using single_text_part [OF assms] .
  then show ?thesis by (simp add: parts_text_def text_parts_set block_texts_def str_field_def dict_simps)
qed

lemma set_part_texts_same:
  assumes "\<forall>p \<in> set (text_parts turn). set_field ''text'' (JStr t) p = p"
  shows "set_part_texts t turn = turn"
proof (cases "oget turn ''parts''")
  case (JList ps)
  with assms have "map (\<lambda>p. if is_text_part p then set_field ''text'' (JStr t) p else p) ps = ps"
    by (auto simp: text_parts_def list_or_empty_def intro: map_idI)
  with JList oget_JList_obj [OF JList] show ?thesis
    by (auto simp: set_part_texts_def is_iff oget_def dict_put_same)
qed (simp_all add: set_part_texts_def)

lemma set_part_texts_twice: "set_part_texts u (set_part_texts t turn) = set_part_texts u turn"
proof (cases "oget turn ''parts''")
  case (JList ps)
  have "set_field ''text'' (JStr u) (set_field ''text'' (JStr t) p) = set_field ''text'' (JStr u) p" for p
    by (cases p) (simp_all add: set_field_def dict_put_twice)
  then have m: "map (\<lambda>p. if is_text_part p then set_field ''text'' (JStr u) p else p)
      (map (\<lambda>p. if is_text_part p then set_field ''text'' (JStr t) p else p) ps) =
    map (\<lambda>p. if is_text_part p then set_field ''text'' (JStr u) p else p) ps"
    by simp
  obtain d where d: "turn = JObj d" using oget_JList_obj [OF JList] by (auto simp: is_iff)
  with JList have "dget d ''parts'' = JList ps" by (simp add: oget_def)
  then show ?thesis
    unfolding d by (simp add: set_part_texts_def oget_def dict_simps m dict_put_twice del: map_map)
qed (simp_all add: set_part_texts_def)

text \<open>Where the judged text sits: the last user message, the \<open>input\<close> string, or the one text part.\<close>

lemma last_user_message_JList:
  "last_user_message r = Some m \<Longrightarrow> \<exists>ms. dget r ''messages'' = JList ms \<and> last_dict is_user_message ms = Some m"
  by (cases "dget r ''messages''") (auto simp: last_user_message_def list_or_empty_def last_dict_def)

lemma last_gemini_turn_JList:
  "last_gemini_turn r = Some m \<Longrightarrow> \<exists>ts. dget r ''contents'' = JList ts \<and> last_dict is_user_turn ts = Some m"
  by (cases "dget r ''contents''") (auto simp: last_gemini_turn_def list_or_empty_def last_dict_def)

lemma last_dict_set_content:
  "last_dict is_user_message (map_last is_user_message (set_field ''content'' x) vs) =
     map_option (dict_put ''content'' x) (last_dict is_user_message vs)"
  by (rule last_dict_map_last) (auto simp: is_user_message_set is_user_message_obj)

lemma last_dict_set_parts:
  "last_dict is_user_turn (map_last is_user_turn (set_part_texts t) vs) =
     map_option (\<lambda>d. obj_items (set_part_texts t (JObj d))) (last_dict is_user_turn vs)"
proof (rule last_dict_map_last)
  show "as_obj (set_part_texts t (JObj d)) = Some (obj_items (set_part_texts t (JObj d)))" for d
    by (auto simp: set_part_texts_def split: json.splits)
qed (auto simp: is_user_turn_set is_user_turn_obj)

lemma last_dict_find: "last_dict p vs = Some d \<Longrightarrow> find p (rev vs) = Some (JObj d)"
  by (cases "find p (rev vs)") (auto simp: last_dict_def)

lemma obj_items_set_parts: "JObj (obj_items (set_part_texts t (JObj d))) = set_part_texts t (JObj d)"
  by (auto simp: set_part_texts_def split: json.splits)

lemma redact_messages:
  assumes "last_user_message r = Some m" "is_str (dget m ''content'')"
  shows "guard_request_text (redact_request r t) = t" "redact_request r (guard_request_text r) = r"
    "redact_request (redact_request r t) u = redact_request r u"
proof -
  obtain ms where ms: "dget r ''messages'' = JList ms" "last_dict is_user_message ms = Some m"
    using last_user_message_JList [OF assms(1)] by blast
  obtain s where s: "dget m ''content'' = JStr s" using assms(2) by (auto simp: is_iff)
  have redact: "redact_request r t = dict_put ''messages'' (JList (map_last is_user_message (set_field ''content'' (JStr t)) ms)) r" for t
    using assms(1) ms(1) by (simp add: redact_request_def list_or_empty_def)
  have after: "last_user_message (redact_request r t) = Some (dict_put ''content'' (JStr t) m)" for t
    using ms(2) by (simp add: redact last_user_message_def dict_simps list_or_empty_def last_dict_set_content)
  show "guard_request_text (redact_request r t) = t"
    using after by (simp add: guard_request_text_def dict_simps content_text_def)
  have "map_last is_user_message (set_field ''content'' (JStr s)) ms = ms"
    using last_dict_find [OF ms(2)] s by (intro map_last_same) (auto simp: dict_put_same)
  moreover have "guard_request_text r = s" using assms(1) s by (simp add: guard_request_text_def content_text_def)
  ultimately show "redact_request r (guard_request_text r) = r"
    using ms(1) by (simp add: redact dict_put_same)
  have "set_field ''content'' (JStr u) (set_field ''content'' (JStr t) v) = set_field ''content'' (JStr u) v" for v
    by (cases v) (simp_all add: set_field_def dict_put_twice)
  then show "redact_request (redact_request r t) u = redact_request r u"
    unfolding redact_request_def [of "redact_request r t"] after option.case
    by (simp add: redact dict_simps list_or_empty_def map_last_twice is_user_message_set dict_put_twice)
qed

lemma redact_input:
  assumes "last_user_message r = None" "dget r ''input'' = JStr s"
  shows "guard_request_text (redact_request r t) = t" "redact_request r (guard_request_text r) = r"
    "redact_request (redact_request r t) u = redact_request r u"
proof -
  have redact: "redact_request r t = dict_put ''input'' (JStr t) r" for t
    using assms by (simp add: redact_request_def)
  have after: "last_user_message (redact_request r t) = None" for t
    using assms(1) by (simp add: redact last_user_message_def dict_simps)
  show "guard_request_text (redact_request r t) = t" "redact_request r (guard_request_text r) = r"
    using after assms by (simp_all add: guard_request_text_def redact dict_simps dict_put_same)
  show "redact_request (redact_request r t) u = redact_request r u"
    unfolding redact_request_def [of "redact_request r t"] after option.case
    by (simp add: redact dict_simps dict_put_twice)
qed

lemma redact_contents:
  assumes "last_user_message r = None" "\<not> is_str (dget r ''input'')" "\<not> is_list (dget r ''input'')"
    and "last_gemini_turn r = Some turn" "length (text_parts (JObj turn)) = 1"
  shows "guard_request_text (redact_request r t) = t" "redact_request r (guard_request_text r) = r"
    "redact_request (redact_request r t) u = redact_request r u"
proof -
  obtain ts where ts: "dget r ''contents'' = JList ts" "last_dict is_user_turn ts = Some turn"
    using last_gemini_turn_JList [OF assms(4)] by blast
  let ?f = "\<lambda>t. map_last is_user_turn (set_part_texts t)"
  have redact: "redact_request r t = dict_put ''contents'' (JList (?f t ts)) r" for t
    using assms(1,2,4,5) ts(1) by (simp add: redact_request_def list_or_empty_def)
  have input: "dget (redact_request r t) ''input'' = dget r ''input''" for t by (simp add: redact dict_simps)
  have message: "last_user_message (redact_request r t) = None" for t
    using assms(1) by (simp add: redact last_user_message_def dict_simps)
  have after: "last_gemini_turn (redact_request r t) = Some (obj_items (set_part_texts t (JObj turn)))" for t
    using ts(2) by (simp add: redact last_gemini_turn_def dict_simps list_or_empty_def last_dict_set_parts)
  have judged: "guard_request_text q = (case last_gemini_turn q of Some turn \<Rightarrow> parts_text (JObj turn) | None \<Rightarrow> [])"
    if "last_user_message q = None" "dget q ''input'' = dget r ''input''" for q
    using that assms(2,3) by (cases "dget r ''input''") (simp_all add: guard_request_text_def)
  show "guard_request_text (redact_request r t) = t"
    unfolding judged [OF message input] after option.case obj_items_set_parts by (rule set_part_texts_get [OF assms(5)])
  have at: "guard_request_text r = parts_text (JObj turn)"
    using judged [OF assms(1) refl] assms(4) by simp
  obtain d s where p: "text_parts (JObj turn) = [JObj d]" "dget d ''text'' = JStr s" "parts_text (JObj turn) = s"
    using single_text_part [OF assms(5)] .
  then have "set_part_texts (guard_request_text r) (JObj turn) = JObj turn"
    by (intro set_part_texts_same) (simp add: at dict_put_same)
  then have "?f (guard_request_text r) ts = ts" by (intro map_last_same [OF last_dict_find [OF ts(2)]])
  then show "redact_request r (guard_request_text r) = r"
    using ts(1) by (simp add: redact dict_put_same)
  have one: "length (text_parts (JObj (obj_items (set_part_texts t (JObj turn))))) = 1"
    using assms(5) by (simp add: obj_items_set_parts text_parts_set)
  show "redact_request (redact_request r t) u = redact_request r u"
    unfolding redact_request_def [of "redact_request r t"] message option.case input after one
    using assms(2) by (simp add: redact dict_simps list_or_empty_def map_last_twice is_user_turn_set dict_put_twice set_part_texts_twice)
qed

lemma redactable_cases:
  assumes "can_redact_request r"
  obtains (message) m where "last_user_message r = Some m" "is_str (dget m ''content'')"
    | (input) s where "last_user_message r = None" "dget r ''input'' = JStr s"
    | (turn) turn where "last_user_message r = None" "\<not> is_str (dget r ''input'')" "last_gemini_turn r = Some turn"
        "length (text_parts (JObj turn)) = 1"
  using assms by (cases "last_user_message r") (auto simp: can_redact_request_def is_iff split: option.splits if_splits)

lemma redacted_request_text:
  assumes "can_redact_request r" "last_user_message r = None \<Longrightarrow> \<not> is_list (dget r ''input'')"
  shows "guard_request_text (redact_request r t) = t"
  using assms(1)
proof (cases rule: redactable_cases)
  case (message m)
  then show ?thesis by (rule redact_messages(1))
next
  case (input s)
  then show ?thesis by (rule redact_input(1))
next
  case (turn d)
  then show ?thesis using redact_contents(1) assms(2) by blast
qed


definition guarded_request :: body where
  "guarded_request = [(''model'', JStr ''m''), (''messages'', JList [
     JObj [(''role'', JStr ''system''), (''content'', JStr ''be brief'')],
     JObj [(''role'', JStr ''user''), (''content'', JStr ''call me at 555'')]])]"


lemma redaction_misses_input:
  "let r = [(''input'', JList [JObj [(''content'', JStr ''555'')]]), (''contents'', JList [JObj [(''parts'', JList [JObj [(''text'', JStr ''hi'')]])]])]
   in can_redact_request r \<and> guard_request_text r = ''555'' \<and> guard_request_text (redact_request r ''X'') = ''555''"
  by code_simp

section \<open>Responses\<close>

lemma falsy_content: "\<not> truthy v \<Longrightarrow> content_text v = []"
  by (cases v) (auto simp: content_text_def block_texts_def)

lemma falsy_iterate: "\<not> truthy v \<Longrightarrow> iterate_or_empty v = Inr []"
  by (simp add: iterate_or_empty_def)

lemma redact_choices:
  assumes "\<forall>x \<in> set cs. is_str (oget (oget x ''message'') ''content'')"
  shows "\<exists>cs'. rmap (redact_choice t) cs = Inr cs' \<and> map choice_content cs' = replicate (length cs) [t]"
  using assms
proof (induction cs)
  case (Cons c cs)
  then obtain d m where c: "c = JObj d" "dget d ''message'' = JObj m"
    by (cases c; cases "oget c ''message''") (auto simp: oget_def is_iff)
  then have "map_of d ''message'' = Some (JObj m)" by (auto simp: dget_def split: option.splits)
  then have "\<exists>c'. redact_choice t c = Inr c' \<and> choice_content c' = [t]"
    using c by (simp add: redact_choice_def choice_content_def oget_def dict_simps content_text_def)
  with Cons show ?case by auto
qed simp

lemma join_filter_replicate:
  "join newline (filter (\<lambda>p. p \<noteq> []) (replicate n t)) = (if t = [] then [] else join newline (replicate n t))"
  by (induction n) auto

text \<open>What the rewriting does to each wire shape, the keys of the other shapes carrying nothing.\<close>

definition replaced :: "string \<Rightarrow> body \<Rightarrow> string \<Rightarrow> nat \<Rightarrow> body \<Rightarrow> bool" where
  "replaced k r t n r' \<longleftrightarrow> redact_response r t = Inr r' \<and> 0 < n \<and> (\<forall>q. q \<noteq> k \<longrightarrow> map_of r' q = map_of r q) \<and>
    guard_response_text r' = Inr (if t = [] then [] else join newline (replicate n t))"

lemma replaced_choices:
  assumes "can_redact_response r" "\<not> truthy (dget r ''output'')" "\<not> truthy (dget r ''content'')" "\<not> truthy (dget r ''candidates'')"
  shows "\<exists>r' n. replaced ''choices'' r t n r'"
proof -
  obtain c cs where cs: "dget r ''choices'' = JList (c # cs)" "\<forall>x \<in> set (c # cs). is_str (oget (oget x ''message'') ''content'')"
    using assms by (auto simp: can_redact_response_def split: json.splits list.splits)
  obtain cs' where cs': "rmap (redact_choice t) (c # cs) = Inr cs'" "map choice_content cs' = replicate (length (c # cs)) [t]"
    using redact_choices [OF cs(2)] by blast
  let ?r = "dict_put ''choices'' (JList cs') r"
  have "redact_response r t = Inr ?r" using cs(1) cs'(1) by (simp add: redact_response_def del: rmap.simps)
  moreover have "concat (replicate n [t]) = replicate n t" for n by (induction n) auto
  then have "concat (map choice_content cs') = replicate (length (c # cs)) t" unfolding cs'(2) by blast
  moreover have "iterate_or_empty (JList cs') = Inr cs'" by (simp add: iterate_or_empty_def)
  ultimately show ?thesis
    using assms(2-4) by (intro exI [of _ ?r] exI [of _ "length (c # cs)"])
      (simp add: replaced_def guard_response_text_def dict_simps falsy_content falsy_iterate join_filter_replicate del: replicate.simps)
qed

lemma replaced_content:
  assumes "can_redact_response r" "\<not> truthy (dget r ''output'')" "\<not> truthy (dget r ''choices'')" "\<not> truthy (dget r ''candidates'')"
  shows "\<exists>r' n. replaced ''content'' r t n r'"
proof -
  obtain b where b: "dget r ''content'' = JList [b]" "is_str (oget b ''text'')"
    using assms by (auto simp: can_redact_response_def length_Suc_conv split: json.splits list.splits)
  have "redact_response r t = Inr (dict_put ''content'' (JList [redact_block t b]) r)"
    using b(1) assms(3) by (auto simp: redact_response_def split: json.splits list.splits)
  moreover have "content_text (JList [redact_block t b]) = t"
    using b(2) by (cases b) (auto simp: redact_block_def is_text_part_def content_text_def block_texts_def str_field_def dict_simps oget_def)
  ultimately show ?thesis
    using assms(2-4) by (intro exI [of _ "dict_put ''content'' (JList [redact_block t b]) r"] exI [of _ 1])
      (auto simp: replaced_def guard_response_text_def dict_simps falsy_iterate)
qed

lemma replaced_candidates:
  assumes "can_redact_response r" "\<not> truthy (dget r ''output'')" "\<not> truthy (dget r ''choices'')" "\<not> truthy (dget r ''content'')"
  shows "\<exists>r' n. replaced ''candidates'' r t n r'"
proof -
  obtain c where nl: "\<And>bs. dget r ''content'' \<noteq> JList bs" and c: "dget r ''candidates'' = JList [c]"
      "is_obj (oget c ''content'')" "length (text_parts (oget c ''content'')) = 1"
    using assms by (auto simp: can_redact_response_def length_Suc_conv split: json.splits list.splits)
  then obtain d where d: "c = JObj d" by (cases c) (auto simp: oget_def)
  let ?r = "dict_put ''candidates'' (JList [redact_candidate t c]) r"
  have "redact_response r t = Inr ?r"
    using c(1) assms(3) nl by (auto simp: redact_response_def iterate_or_empty_def split: json.splits list.splits)
  moreover have "parts_text (oget (redact_candidate t c) ''content'') = t" "is_obj (redact_candidate t c)"
    using c(2) set_part_texts_get [OF c(3)] d by (simp_all add: redact_candidate_def oget_def dict_simps)
  ultimately show ?thesis
    using assms(2-4) by (intro exI [of _ ?r] exI [of _ 1])
      (auto simp: replaced_def guard_response_text_def dict_simps falsy_iterate falsy_content iterate_or_empty_def)
qed

text \<open>
  A redaction applied to a response replaces every text the guardrail was shown, when the response
  is in one of the wire shapes (choices of a chat completion, one block of an Anthropic message, one
  Gemini candidate) and none of the other shapes' keys carries anything: the rewritten response
  shows the redacted text, once per choice, and nothing else.
\<close>

theorem redact_response_replaces_all:
  assumes "can_redact_response r" "k \<in> {''choices'', ''content'', ''candidates''}"
    and "\<And>k'. k' \<in> {''choices'', ''output'', ''content'', ''candidates''} \<Longrightarrow> k' \<noteq> k \<Longrightarrow> \<not> truthy (dget r k')"
  shows "\<exists>r' n. redact_response r t = Inr r' \<and> 0 < n \<and> (\<forall>q. q \<noteq> k \<longrightarrow> map_of r' q = map_of r q) \<and>
    guard_response_text r' = Inr (if t = [] then [] else join newline (replicate n t))"
  using assms(2,3) replaced_choices [OF assms(1), of t] replaced_content [OF assms(1), of t] replaced_candidates [OF assms(1), of t]
  unfolding replaced_def by (elim insertE emptyE) simp_all

definition guarded_response :: body where
  "guarded_response = [(''choices'', JList [JObj [(''message'', JObj [(''role'', JStr ''assistant''), (''content'', JStr ''call 555'')])]])]"

theorem redact_response_replaces_all_witness:
  "\<exists>r' n. redact_response guarded_response ''call X'' = Inr r' \<and> guard_response_text r' = Inr (join newline (replicate n ''call X''))"
proof -
  have "can_redact_response guarded_response" by code_simp
  from redact_response_replaces_all [OF this, of "''choices''" "''call X''"] show ?thesis
    by (auto simp: guarded_response_def dget_def)
qed

end
