(* ===== verification/Guardrail_Chain.thy ===== *)
theory Guardrail_Chain
  imports Guardrail_Payloads
begin

text \<open>
  The guardrail chain: verdicts and providers (\<open>domain/guardrails.py\<close>), the runner
  (\<open>application/guardrails/service.py\<close>), the judge and the webhook verdict
  (\<open>judge.py\<close>, \<open>webhook.py\<close>), stored rules with their scopes and validation
  (\<open>domain/entities/guardrail.py\<close>, \<open>domain/guardrail_config.py\<close>) and building a live chain from them
  (\<open>factory.py\<close>). What a provider asks of the network is an argument. The lemmas show that the
  chain is a pipeline, that a control which could not run never counts as passed, and that the
  most specific scope decides.
\<close>

section \<open>Verdicts and providers\<close>

datatype direction = Request_Side | Response_Side

datatype guard_decision = Allow | Redact | Refuse

datatype fail_policy = Fail_Open | Fail_Closed

record guard_payload =
  gp_direction :: direction
  gp_text :: string
  gp_raw :: body

record verdict =
  vd_decision :: guard_decision
  vd_provider :: string
  vd_categories :: "string list"
  vd_counts :: "(string, int) dict"
  vd_redacted_text :: "string option"
  vd_reason :: "string option"

text \<open>A provider: its name, \<open>supports\<close>, and \<open>check\<close>, which may raise.\<close>

record guard =
  gd_name :: string
  gd_supports :: "direction \<Rightarrow> bool"
  gd_check :: "guard_payload \<Rightarrow> exc + verdict"

record chained_guard =
  cg_provider :: guard
  cg_fail :: fail_policy

record chain_outcome =
  co_text :: string
  co_verdicts :: "verdict list"

definition redacted :: "chain_outcome \<Rightarrow> bool" where
  "redacted out \<longleftrightarrow> (\<exists>v \<in> set (co_verdicts out). vd_decision v = Redact)"

section \<open>Running the chain\<close>

definition plain_verdict :: "guard_decision \<Rightarrow> string \<Rightarrow> verdict" where
  "plain_verdict d name = \<lparr>vd_decision = d, vd_provider = name, vd_categories = [], vd_counts = [],
     vd_redacted_text = None, vd_reason = None\<rparr>"

text \<open>The class name of an exception is an argument; it goes into the refusal message only.\<close>

definition check_guard :: "(exc \<Rightarrow> string) \<Rightarrow> chained_guard \<Rightarrow> guard_payload \<Rightarrow> verdict" where
  "check_guard nm cg p = (case gd_check (cg_provider cg) p of
     Inr v \<Rightarrow> v
   | Inl e \<Rightarrow> if cg_fail cg = Fail_Closed
       then (plain_verdict Refuse (gd_name (cg_provider cg)))\<lparr>vd_reason := Some (''provider unavailable ('' @ nm e @ '')'')\<rparr>
       else plain_verdict Allow (gd_name (cg_provider cg)))"

definition refusal :: "verdict \<Rightarrow> string" where
  "refusal v = ''blocked by '' @ vd_provider v @
     (case vd_reason v of None \<Rightarrow> [] | Some r \<Rightarrow> if r = [] then [] else '': '' @ r) @
     (if vd_categories v = [] then [] else '' ('' @ join '', '' (vd_categories v) @ '')'')"

abbreviation guardrail_blocked :: "string list \<Rightarrow> exc + 'a" where
  "guardrail_blocked info \<equiv> raise_exc (Request GuardrailBlocked) info"

definition rewritten :: "verdict \<Rightarrow> string \<Rightarrow> string" where
  "rewritten v text = (case (vd_decision v, vd_redacted_text v) of (Redact, Some t) \<Rightarrow> t | _ \<Rightarrow> text)"

fun run_checks :: "(exc \<Rightarrow> string) \<Rightarrow> chained_guard list \<Rightarrow> guard_payload \<Rightarrow> string \<Rightarrow> verdict list \<Rightarrow> exc + chain_outcome" where
  "run_checks nm [] p text vs = Inr \<lparr>co_text = text, co_verdicts = vs\<rparr>"
| "run_checks nm (cg # cgs) p text vs = (let v = check_guard nm cg (p\<lparr>gp_text := text\<rparr>) in
     if vd_decision v = Refuse then guardrail_blocked [refusal v]
     else run_checks nm cgs p (rewritten v text) (vs @ [v]))"

definition applicable_guards :: "direction \<Rightarrow> chained_guard list \<Rightarrow> chained_guard list" where
  "applicable_guards d chain = filter (\<lambda>c. gd_supports (cg_provider c) d) chain"

definition run_chain :: "(exc \<Rightarrow> string) \<Rightarrow> chained_guard list \<Rightarrow> guard_payload \<Rightarrow> exc + chain_outcome" where
  "run_chain nm chain p = (let applicable = applicable_guards (gp_direction p) chain in
     if applicable = [] then Inr \<lparr>co_text = gp_text p, co_verdicts = []\<rparr>
     else run_checks nm applicable p (gp_text p) [])"

section \<open>What the two kinds of provider answer\<close>

definition judge_categories :: "string list" where
  "judge_categories = [''harassment'', ''hate'', ''self_harm'', ''sexual'', ''violence'', ''illicit'', ''prompt_injection'']"

definition default_char_budget :: int where
  "default_char_budget = 4000"

definition default_timeout_ms :: int where
  "default_timeout_ms = 2000"

text \<open>\<open>JudgeGuardrail._parse\<close>: the JSON text the judge model answered with.\<close>

definition judge_parse :: "json \<Rightarrow> exc + string list" where
  "judge_parse content = (case content of
     JStr s \<Rightarrow> (case loads s of
       None \<Rightarrow> raise_py ValueError
     | Some (JObj d) \<Rightarrow> (case map_of d ''categories'' of
         None \<Rightarrow> raise_py KeyError
       | Some (JList cs) \<Rightarrow> if filter (\<lambda>c. \<not> (\<exists>k \<in> set judge_categories. c = JStr k)) cs \<noteq> [] then raise_py ValueError
           else Inr (map (\<lambda>c. case c of JStr k \<Rightarrow> k | _ \<Rightarrow> []) cs)
       | Some _ \<Rightarrow> raise_py ValueError)
     | Some _ \<Rightarrow> raise_py TypeError)
   | _ \<Rightarrow> raise_py TypeError)"

record judge_config =
  jc_model :: string
  jc_name :: string
  jc_block_categories :: "string list"
  jc_directions :: "direction list"
  jc_char_budget :: json
  jc_timeout_ms :: json

text \<open>A knob that is a number: \<open>bool\<close> is one, and no float is an index.\<close>

fun is_number :: "json \<Rightarrow> bool" where
  "is_number (JInt i) = True" | "is_number (JBool b) = True" | "is_number (JFloat q) = True" | "is_number v = False"

fun index_of :: "json \<Rightarrow> int option" where
  "index_of (JInt i) = Some i" | "index_of (JBool b) = Some (if b then 1 else 0)" | "index_of v = None"

text \<open>\<open>text[:budget]\<close>; a negative bound counts from the end.\<close>

definition slice_to :: "int \<Rightarrow> 'a list \<Rightarrow> 'a list" where
  "slice_to n xs = take (nat (if n < 0 then int (length xs) + n else n)) xs"

definition quoted_text :: "judge_config \<Rightarrow> string \<Rightarrow> exc + string" where
  "quoted_text jc text = (case index_of (jc_char_budget jc) of
     None \<Rightarrow> raise_py TypeError
   | Some n \<Rightarrow> Inr (''<text>'' @ newline @ slice_to n text @ newline @ ''</text>''))"

text \<open>\<open>response["choices"][0]["message"]["content"]\<close>.\<close>

definition item_of :: "json \<Rightarrow> string \<Rightarrow> exc + json" where
  "item_of v k = (case v of
     JObj d \<Rightarrow> (case map_of d k of None \<Rightarrow> raise_py KeyError | Some x \<Rightarrow> Inr x) | _ \<Rightarrow> raise_py TypeError)"

definition first_of :: "json \<Rightarrow> exc + json" where
  "first_of v = (case v of
     JList [] \<Rightarrow> raise_py IndexError | JList (x # _) \<Rightarrow> Inr x
   | JStr [] \<Rightarrow> raise_py IndexError | JStr (c # _) \<Rightarrow> Inr (JStr [c])
   | JObj _ \<Rightarrow> raise_py KeyError | _ \<Rightarrow> raise_py TypeError)"

text \<open>
  \<open>JudgeGuardrail.check\<close>: \<open>ask timeout text\<close> is the bounded call of the judge model on the quoted
  text, or the timeout or other failure it ends with.
\<close>

definition judge_check :: "judge_config \<Rightarrow> (json \<Rightarrow> string \<Rightarrow> exc + body) \<Rightarrow> guard_payload \<Rightarrow> exc + verdict" where
  "judge_check jc ask p =
    rbind (if is_number (jc_timeout_ms jc) then quoted_text jc (gp_text p) else raise_py TypeError) (\<lambda>quoted.
    rbind (ask (jc_timeout_ms jc) quoted) (\<lambda>response.
    rbind (item_of (JObj response) ''choices'') (\<lambda>choices.
    rbind (first_of choices) (\<lambda>choice.
    rbind (item_of choice ''message'') (\<lambda>message.
    rbind (item_of message ''content'') (\<lambda>content.
    rbind (judge_parse content) (\<lambda>categories.
    let blocking = filter (\<lambda>c. c \<in> set (jc_block_categories jc)) categories;
        named = map (\<lambda>c. ''moderation.'' @ c) (if blocking \<noteq> [] then blocking else categories)
    in Inr ((plain_verdict (if blocking \<noteq> [] then Refuse else Allow) (jc_name jc))
         \<lparr>vd_categories := named, vd_counts := dict_merge [] (map (\<lambda>c. (c, 1)) named)\<rparr>))))))))"

definition judge_guard :: "judge_config \<Rightarrow> (json \<Rightarrow> string \<Rightarrow> exc + body) \<Rightarrow> guard" where
  "judge_guard jc ask = \<lparr>gd_name = jc_name jc, gd_supports = (\<lambda>d. d \<in> set (jc_directions jc)), gd_check = judge_check jc ask\<rparr>"

definition decision_of :: "json \<Rightarrow> guard_decision option" where
  "decision_of v = (case v of
     JStr s \<Rightarrow> if s = ''allow'' then Some Allow else if s = ''redact'' then Some Redact else if s = ''block'' then Some Refuse else None
   | _ \<Rightarrow> None)"

text \<open>\<open>WebhookGuardrail._parse\<close>: the JSON body the endpoint answered with.\<close>

definition webhook_parse :: "string \<Rightarrow> json \<Rightarrow> exc + verdict" where
  "webhook_parse name v = (case v of
     JObj d \<Rightarrow> (case decision_of (dget d ''decision'') of
       None \<Rightarrow> raise_py ValueError
     | Some decision \<Rightarrow> rbind (case map_of d ''categories'' of None \<Rightarrow> Inr [] | Some c \<Rightarrow> iterate c) (\<lambda>cs.
         let categories = concat (map (\<lambda>c. case c of JStr s \<Rightarrow> [s] | _ \<Rightarrow> []) cs);
             text = as_str (dget d ''redacted_text'')
         in if decision = Redact \<and> text = None then raise_py ValueError
            else Inr ((plain_verdict decision name)\<lparr>vd_categories := categories,
                 vd_counts := dict_merge [] (map (\<lambda>c. (c, 1)) categories), vd_redacted_text := text\<rparr>)))
   | _ \<Rightarrow> raise_py ValueError)"

text \<open>\<open>post\<close> is the signed and bounded call of the endpoint on the direction and the text.\<close>

definition webhook_guard :: "string \<Rightarrow> direction list \<Rightarrow> (direction \<Rightarrow> string \<Rightarrow> exc + json) \<Rightarrow> guard" where
  "webhook_guard name directions post = \<lparr>gd_name = name, gd_supports = (\<lambda>d. d \<in> set directions),
     gd_check = (\<lambda>p. rbind (post (gp_direction p) (gp_text p)) (webhook_parse name))\<rparr>"

section \<open>Stored rules\<close>

datatype guardrail_kind = Webhook_Kind | Judge_Kind

record guardrail_rule =
  gr_id :: string
  gr_team_id :: string
  gr_name :: string
  gr_kind :: guardrail_kind
  gr_direction :: direction
  gr_position :: int
  gr_fail_policy :: fail_policy
  gr_config :: body
  gr_model_id :: "string option"
  gr_router_id :: "string option"
  gr_enabled :: bool
  gr_has_secret :: bool

text \<open>A rule and its signing secret.\<close>

type_synonym active_rule = "guardrail_rule \<times> string option"

definition in_scope :: "direction \<Rightarrow> guardrail_rule \<Rightarrow> bool" where
  "in_scope d r \<longleftrightarrow> gr_enabled r \<and> gr_direction r = d"

text \<open>Sorted by position, then by name.\<close>

definition chain_order :: "guardrail_rule list \<Rightarrow> guardrail_rule list" where
  "chain_order rules = sort_key gr_position (sort_key gr_name rules)"

definition resolve_chain :: "guardrail_rule list \<Rightarrow> string \<Rightarrow> direction \<Rightarrow> string option \<Rightarrow> guardrail_rule list" where
  "resolve_chain rules model_id d router_id = (let
      applicable = filter (in_scope d) rules;
      by_router = (if router_id \<noteq> None then filter (\<lambda>r. gr_router_id r = router_id) applicable else []);
      by_model = filter (\<lambda>r. gr_router_id r = None \<and> gr_model_id r = Some model_id) applicable;
      team_wide = filter (\<lambda>r. gr_router_id r = None \<and> gr_model_id r = None) applicable;
      chosen = (if by_router \<noteq> [] then by_router else if by_model \<noteq> [] then by_model else team_wide)
    in chain_order chosen)"

section \<open>Validating a rule\<close>

abbreviation invalid_rule :: "string list \<Rightarrow> exc + 'a" where
  "invalid_rule info \<equiv> raise_exc (Request InvalidGuardrailRule) info"

definition max_name_length :: nat where "max_name_length = 100"
definition max_timeout_ms :: int where "max_timeout_ms = 10000"
definition min_timeout_ms :: int where "min_timeout_ms = 100"
definition min_char_budget :: int where "min_char_budget = 100"
definition max_char_budget :: int where "max_char_budget = 20000"

definition webhook_keys :: "string list" where
  "webhook_keys = [''url'', ''timeout_ms'']"

definition judge_keys :: "string list" where
  "judge_keys = [''judge_model'', ''block_categories'', ''char_budget'', ''timeout_ms'']"

definition reject_unknown :: "body \<Rightarrow> string list \<Rightarrow> exc + unit" where
  "reject_unknown config allowed = (let unknown = sorted_set (filter (\<lambda>k. k \<notin> set allowed) (keys config)) in
     if unknown \<noteq> [] then invalid_rule unknown else Inr ())"

definition validate_bounded_int :: "body \<Rightarrow> string \<Rightarrow> int \<Rightarrow> int \<Rightarrow> exc + unit" where
  "validate_bounded_int config key low high = (case dget config key of
     JNull \<Rightarrow> Inr ()
   | JInt v \<Rightarrow> if low \<le> v \<and> v \<le> high then Inr () else invalid_rule [key]
   | _ \<Rightarrow> invalid_rule [key])"

definition validate_webhook :: "body \<Rightarrow> string option \<Rightarrow> bool \<Rightarrow> exc + unit" where
  "validate_webhook config secret has_secret =
    rbind (reject_unknown config webhook_keys) (\<lambda>_.
    case dget config ''url'' of
      JStr url \<Rightarrow> if url = [] then invalid_rule [''url'']
        else if \<not> starts_with ''https://'' url then invalid_rule [''https'']
        else if secret = None \<and> \<not> has_secret then invalid_rule [''secret'']
        else validate_bounded_int config ''timeout_ms'' min_timeout_ms max_timeout_ms
    | _ \<Rightarrow> invalid_rule [''url''])"

definition validate_judge :: "body \<Rightarrow> exc + unit" where
  "validate_judge config =
    rbind (reject_unknown config judge_keys) (\<lambda>_.
    case dget config ''judge_model'' of
      JStr m \<Rightarrow> if m = [] then invalid_rule [''judge_model''] else
        rbind (case dget config ''block_categories'' of
            JNull \<Rightarrow> Inr ()
          | JList cs \<Rightarrow> if \<not> list_all is_str cs then invalid_rule [''block_categories'']
              else (let unknown = filter (\<lambda>c. \<not> (\<exists>k \<in> set judge_categories. c = JStr k)) cs in
                if unknown \<noteq> [] then invalid_rule [''block_categories''] else Inr ())
          | _ \<Rightarrow> invalid_rule [''block_categories'']) (\<lambda>_.
        rbind (validate_bounded_int config ''char_budget'' min_char_budget max_char_budget) (\<lambda>_.
        validate_bounded_int config ''timeout_ms'' min_timeout_ms max_timeout_ms))
    | _ \<Rightarrow> invalid_rule [''judge_model''])"

definition validate_rule :: "guardrail_rule \<Rightarrow> string option \<Rightarrow> exc + unit" where
  "validate_rule r secret =
    (if strip (gr_name r) = [] then invalid_rule [''name'']
     else if max_name_length < length (gr_name r) then invalid_rule [''name'']
     else if gr_position r < 0 then invalid_rule [''position'']
     else if gr_model_id r \<noteq> None \<and> gr_router_id r \<noteq> None then invalid_rule [''scope'']
     else if gr_kind r = Webhook_Kind then validate_webhook (gr_config r) secret (gr_has_secret r)
     else validate_judge (gr_config r))"

section \<open>Building a live chain\<close>

text \<open>
  What the factory is given besides the rules: the judge seam (not wired in some uses), and for a
  webhook url whether its host can be read and is not a private literal address, and the call.
\<close>

record guard_wiring =
  gw_complete :: "(string \<Rightarrow> json \<Rightarrow> string \<Rightarrow> exc + body) option"
  gw_host_ok :: "string \<Rightarrow> bool"
  gw_post :: "string \<Rightarrow> string \<Rightarrow> json \<Rightarrow> direction \<Rightarrow> string \<Rightarrow> exc + json"

text \<open>\<open>config[key] if config.get(key) is not None\<close>, else the provider's default.\<close>

definition knob :: "body \<Rightarrow> string \<Rightarrow> int \<Rightarrow> json" where
  "knob config key dflt = (if dget config key = JNull then JInt dflt else dget config key)"

text \<open>
  \<open>WebhookGuardrail(...)\<close> refuses a url that is not https, has no host or names a private address,
  and an empty secret.
\<close>

definition webhook_provider :: "guard_wiring \<Rightarrow> guardrail_rule \<Rightarrow> string option \<Rightarrow> exc + guard" where
  "webhook_provider W r secret = (case secret of
     None \<Rightarrow> raise_py ValueError
   | Some s \<Rightarrow> rbind (item_of (JObj (gr_config r)) ''url'') (\<lambda>u.
       let url = py_str u; timeout = knob (gr_config r) ''timeout_ms'' default_timeout_ms in
       if \<not> starts_with ''https://'' url \<or> \<not> gw_host_ok W url \<or> s = [] then raise_py ValueError
       else if \<not> is_number timeout then raise_py TypeError
       else Inr (webhook_guard (gr_name r) [gr_direction r] (gw_post W url s timeout))))"

text \<open>The configured categories as a frozenset, or the default when there are none.\<close>

definition block_list :: "json \<Rightarrow> exc + string list" where
  "block_list v = (if \<not> truthy v then Inr judge_categories
     else rbind (iterate v) (\<lambda>cs. if list_all hashable cs
       then Inr (concat (map (\<lambda>c. case c of JStr s \<Rightarrow> [s] | _ \<Rightarrow> []) cs)) else raise_py TypeError))"

definition judge_provider :: "guard_wiring \<Rightarrow> guardrail_rule \<Rightarrow> exc + guard" where
  "judge_provider W r = (case gw_complete W of
     None \<Rightarrow> raise_py ValueError
   | Some ask \<Rightarrow> let config = gr_config r in
       rbind (item_of (JObj config) ''judge_model'') (\<lambda>m.
       if py_str m = [] then raise_py ValueError
       else rbind (block_list (dget config ''block_categories'')) (\<lambda>blocked.
         Inr (judge_guard \<lparr>jc_model = py_str m, jc_name = gr_name r, jc_block_categories = blocked,
            jc_directions = [gr_direction r], jc_char_budget = knob config ''char_budget'' default_char_budget,
            jc_timeout_ms = knob config ''timeout_ms'' default_timeout_ms\<rparr> (ask (py_str m))))))"

definition provider_of :: "guard_wiring \<Rightarrow> active_rule \<Rightarrow> exc + guard" where
  "provider_of W entry = (case entry of (r, secret) \<Rightarrow>
     if gr_kind r = Webhook_Kind then webhook_provider W r secret else judge_provider W r)"

fun build_chain :: "guard_wiring \<Rightarrow> active_rule list \<Rightarrow> exc + chained_guard list" where
  "build_chain W [] = Inr []"
| "build_chain W (entry # es) = (case provider_of W entry of
     Inl e \<Rightarrow> if gr_fail_policy (fst entry) = Fail_Closed then guardrail_blocked [gr_name (fst entry)]
       else build_chain W es
   | Inr g \<Rightarrow> rbind (build_chain W es) (\<lambda>cs. Inr (\<lparr>cg_provider = g, cg_fail = gr_fail_policy (fst entry)\<rparr> # cs)))"

section \<open>The chain is a pipeline\<close>

text \<open>
  The specification: the texts between the providers, each verdict given on the text its
  predecessors left, none of them a refusal.
\<close>

inductive pipeline :: "(exc \<Rightarrow> string) \<Rightarrow> guard_payload \<Rightarrow> chained_guard list \<Rightarrow> string \<Rightarrow> verdict list \<Rightarrow> string \<Rightarrow> bool"
  for nm :: "exc \<Rightarrow> string" and p :: guard_payload where
  pipe_done: "pipeline nm p [] text [] text"
| pipe_step: "v = check_guard nm cg (p\<lparr>gp_text := text\<rparr>) \<Longrightarrow> vd_decision v \<noteq> Refuse \<Longrightarrow>
    pipeline nm p cgs (rewritten v text) vs out \<Longrightarrow> pipeline nm p (cg # cgs) text (v # vs) out"

inductive_cases pipeline_NilE: "pipeline nm p [] text vs out"
inductive_cases pipeline_ConsE: "pipeline nm p (cg # cgs) text vs out"

lemma run_checks_pipeline:
  "run_checks nm cgs p s vs = Inr out \<longleftrightarrow> (\<exists>ws. pipeline nm p cgs s ws (co_text out) \<and> co_verdicts out = vs @ ws)"
proof (induction cgs arbitrary: s vs)
  case Nil
  show ?case by (cases out) (auto intro: pipe_done elim: pipeline_NilE)
next
  case (Cons cg cgs)
  define v where "v = check_guard nm cg (p\<lparr>gp_text := s\<rparr>)"
  have step: "pipeline nm p (cg # cgs) s ws y \<longleftrightarrow> vd_decision v \<noteq> Refuse \<and>
      (\<exists>us. ws = v # us \<and> pipeline nm p cgs (rewritten v s) us y)" for ws y
    by (auto simp: v_def intro: pipe_step elim!: pipeline_ConsE)
  show ?case using Cons by (auto simp: step Let_def v_def [symmetric])
qed

lemma run_checks_refused:
  "run_checks nm cgs p s vs = Inl e \<Longrightarrow>
    \<exists>us cg ws t. cgs = us @ cg # ws \<and> (\<exists>vs'. pipeline nm p us s vs' t) \<and>
      vd_decision (check_guard nm cg (p\<lparr>gp_text := t\<rparr>)) = Refuse \<and>
      e = Domain (Request GuardrailBlocked) [refusal (check_guard nm cg (p\<lparr>gp_text := t\<rparr>))] NoRetry None"
proof (induction cgs arbitrary: s vs)
  case (Cons cg cgs)
  define v where "v = check_guard nm cg (p\<lparr>gp_text := s\<rparr>)"
  show ?case
  proof (cases "vd_decision v = Refuse")
    case True
    with Cons.prems show ?thesis
      by (intro exI [of _ "[]"] exI [of _ cg] exI [of _ cgs] exI [of _ s])
        (auto simp: v_def [symmetric] Let_def intro: pipe_done)
  next
    case False
    with Cons.prems have "run_checks nm cgs p (rewritten v s) (vs @ [v]) = Inl e" by (simp add: v_def [symmetric] Let_def)
    from Cons.IH [OF this] obtain us c ws t vs' where h: "cgs = us @ c # ws" "pipeline nm p us (rewritten v s) vs' t"
      "vd_decision (check_guard nm c (p\<lparr>gp_text := t\<rparr>)) = Refuse"
      "e = Domain (Request GuardrailBlocked) [refusal (check_guard nm c (p\<lparr>gp_text := t\<rparr>))] NoRetry None"
      by blast
    have "pipeline nm p (cg # us) s (v # vs') t" using pipe_step [OF _ False h(2)] by (simp add: v_def)
    with h show ?thesis by (intro exI [of _ "cg # us"] exI [of _ c] exI [of _ ws] exI [of _ t]) auto
  qed
qed simp

lemma run_chain_checks: "run_chain nm chain p = run_checks nm (applicable_guards (gp_direction p) chain) p (gp_text p) []"
  by (cases "applicable_guards (gp_direction p) chain") (simp_all add: run_chain_def Let_def)

lemma run_chain_pipeline:
  "run_chain nm chain p = Inr out \<longleftrightarrow>
     pipeline nm p (applicable_guards (gp_direction p) chain) (gp_text p) (co_verdicts out) (co_text out)"
  unfolding run_chain_checks run_checks_pipeline by simp


text \<open>A webhook that only redacts the digits of what it sees, and one that cannot be reached.\<close>

definition digit_redactor :: chained_guard where
  "digit_redactor = \<lparr>cg_provider = webhook_guard ''pii'' [Request_Side] (\<lambda>d text. Inr (JObj
     [(''decision'', JStr ''redact''), (''redacted_text'', JStr (filter (\<lambda>c. \<not> is_digit c) text))])), cg_fail = Fail_Closed\<rparr>"

definition unreachable_guard :: "fail_policy \<Rightarrow> chained_guard" where
  "unreachable_guard f = \<lparr>cg_provider = webhook_guard ''down'' [Request_Side] (\<lambda>d text. raise_py (OtherException ''ConnectError'')), cg_fail = f\<rparr>"

definition sample_payload :: guard_payload where
  "sample_payload = \<lparr>gp_direction = Request_Side, gp_text = ''call 555'', gp_raw = []\<rparr>"


section \<open>A control that did not run has not passed\<close>

lemma build_chain_Inr:
  "build_chain W es = Inr cs \<longleftrightarrow>
    (\<forall>entry \<in> set es. gr_fail_policy (fst entry) = Fail_Closed \<longrightarrow> (\<exists>g. provider_of W entry = Inr g)) \<and>
    cs = concat (map (\<lambda>entry. case provider_of W entry of
      Inr g \<Rightarrow> [\<lparr>cg_provider = g, cg_fail = gr_fail_policy (fst entry)\<rparr>] | Inl _ \<Rightarrow> []) es)"
  by (induction es arbitrary: cs) (auto split: sum.splits)

lemma build_chain_Inl:
  "build_chain W es = Inl e \<Longrightarrow> \<exists>info. e = Domain (Request GuardrailBlocked) info NoRetry None"
  by (induction es) (auto simp: rbind_eq_Inl split: sum.splits if_splits)

lemma pipeline_checks:
  "pipeline nm p cgs s vs out \<Longrightarrow> cg \<in> set cgs \<Longrightarrow> \<exists>t. vd_decision (check_guard nm cg (p\<lparr>gp_text := t\<rparr>)) \<noteq> Refuse"
  by (induction rule: pipeline.induct) auto

lemma closed_guard_refuses:
  assumes "cg \<in> set chain" "gd_supports (cg_provider cg) (gp_direction p)" "cg_fail cg = Fail_Closed"
    and "\<And>t. \<exists>e. gd_check (cg_provider cg) (p\<lparr>gp_text := t\<rparr>) = Inl e"
  shows "\<exists>info. run_chain nm chain p = Inl (Domain (Request GuardrailBlocked) info NoRetry None)"
proof (cases "run_chain nm chain p")
  case (Inl e)
  then show ?thesis using run_checks_refused unfolding run_chain_checks by blast
next
  case (Inr out)
  then have "pipeline nm p (applicable_guards (gp_direction p) chain) (gp_text p) (co_verdicts out) (co_text out)"
    by (simp add: run_chain_pipeline)
  from pipeline_checks [OF this, of cg] obtain t where "vd_decision (check_guard nm cg (p\<lparr>gp_text := t\<rparr>)) \<noteq> Refuse"
    using assms(1,2) by (auto simp: applicable_guards_def)
  moreover obtain e where "gd_check (cg_provider cg) (p\<lparr>gp_text := t\<rparr>) = Inl e" using assms(4) by blast
  ultimately show ?thesis using assms(3) by (simp add: check_guard_def plain_verdict_def)
qed

text \<open>
  C27. A rule whose policy is to fail closed decides every call it applies to: when it cannot be built
  (a missing secret, a config from before a validation rule) or its check fails on whatever text it
  is shown, the call is refused with \<open>GuardrailBlocked\<close>, whatever the other rules of the chain say.
\<close>

theorem closed_control_never_skipped:
  assumes "(r, secret) \<in> set es" "gr_fail_policy r = Fail_Closed"
    and "\<And>g. provider_of W (r, secret) = Inr g \<Longrightarrow>
      gd_supports g (gp_direction p) \<and> (\<forall>t. \<exists>e. gd_check g (p\<lparr>gp_text := t\<rparr>) = Inl e)"
  shows "\<exists>info. rbind (build_chain W es) (\<lambda>chain. run_chain nm chain p) = Inl (Domain (Request GuardrailBlocked) info NoRetry None)"
proof (cases "build_chain W es")
  case (Inl e)
  with build_chain_Inl [OF Inl] show ?thesis by simp
next
  case (Inr chain)
  then obtain g where g: "provider_of W (r, secret) = Inr g" and
    "\<lparr>cg_provider = g, cg_fail = Fail_Closed\<rparr> \<in> set chain"
    using assms(1,2) unfolding build_chain_Inr by force
  from closed_guard_refuses [OF this(2)] assms(3) [OF g] Inr show ?thesis by simp
qed

definition sample_rule :: guardrail_rule where
  "sample_rule = \<lparr>gr_id = ''g1'', gr_team_id = ''t'', gr_name = ''pii'', gr_kind = Webhook_Kind, gr_direction = Request_Side,
     gr_position = 0, gr_fail_policy = Fail_Closed, gr_config = [(''url'', JStr ''https://guard.example'')],
     gr_model_id = None, gr_router_id = None, gr_enabled = True, gr_has_secret = True\<rparr>"

definition unreachable_wiring :: guard_wiring where
  "unreachable_wiring = \<lparr>gw_complete = None, gw_host_ok = (\<lambda>_. True),
     gw_post = (\<lambda>_ _ _ _ _. raise_py (OtherException ''ConnectError''))\<rparr>"

lemma sample_provider: "\<exists>g. provider_of unreachable_wiring (sample_rule, Some ''s'') = Inr g \<and>
    gd_supports g Request_Side \<and> (\<forall>p. \<exists>e. gd_check g p = Inl e)"
proof -
  have "starts_with ''https://'' (py_str (JStr ''https://guard.example''))" by code_simp
  then show ?thesis
    by (simp add: provider_of_def webhook_provider_def sample_rule_def unreachable_wiring_def item_of_def knob_def
        dget_def webhook_guard_def)
qed

theorem closed_control_never_skipped_witness:
  "\<exists>info. rbind (build_chain unreachable_wiring [(sample_rule, Some ''s'')]) (\<lambda>chain. run_chain (\<lambda>_. ''ConnectError'') chain sample_payload) =
     Inl (Domain (Request GuardrailBlocked) info NoRetry None)"
proof (rule closed_control_never_skipped)
  show "(sample_rule, Some ''s'') \<in> set [(sample_rule, Some ''s'')]" by simp
  show "gr_fail_policy sample_rule = Fail_Closed" by (simp add: sample_rule_def)
  show "gd_supports g (gp_direction sample_payload) \<and> (\<forall>t. \<exists>e. gd_check g (sample_payload\<lparr>gp_text := t\<rparr>) = Inl e)"
    if "provider_of unreachable_wiring (sample_rule, Some ''s'') = Inr g" for g
    using that sample_provider by (auto simp: sample_payload_def)
qed

section \<open>The most specific scope decides\<close>

text \<open>Router, then model, then team; \<open>None\<close> for a rule of another router or model.\<close>

definition scope_rank :: "string \<Rightarrow> string option \<Rightarrow> guardrail_rule \<Rightarrow> nat option" where
  "scope_rank model_id router_id r =
    (if router_id \<noteq> None \<and> gr_router_id r = router_id then Some 0
     else if gr_router_id r = None \<and> gr_model_id r = Some model_id then Some 1
     else if gr_router_id r = None \<and> gr_model_id r = None then Some 2 else None)"

definition runs_before :: "guardrail_rule \<Rightarrow> guardrail_rule \<Rightarrow> bool" where
  "runs_before a b \<longleftrightarrow> gr_position a < gr_position b \<or> gr_position a = gr_position b \<and> gr_name a \<le> gr_name b"

lemma sort_key_stable_sorted:
  assumes "sorted_wrt (\<lambda>a b. g a \<le> g b) xs"
  shows "sorted_wrt (\<lambda>a b. f a < f b \<or> f a = f b \<and> g a \<le> g b) (sort_key f xs)"
  using assms
proof (induction xs)
  case (Cons x xs)
  have "sorted_wrt (\<lambda>a b. f a < f b \<or> f a = f b \<and> g a \<le> g b) (insort_key f x ys)"
    if "sorted_wrt (\<lambda>a b. f a < f b \<or> f a = f b \<and> g a \<le> g b) ys" "\<forall>y \<in> set ys. g x \<le> g y" for ys
    using that by (induction ys) (auto simp: set_insort_key)
  with Cons show ?case by simp
qed simp

lemma chain_order_sorted: "sorted_wrt runs_before (chain_order rs)"
proof -
  have "sorted_wrt (\<lambda>a b. gr_name a \<le> gr_name b) (sort_key gr_name rs)"
    using sorted_sort_key [of gr_name rs] by (simp add: sorted_map)
  from sort_key_stable_sorted [OF this, of gr_position] show ?thesis
    by (simp add: chain_order_def runs_before_def [abs_def])
qed

text \<open>
  The rules that run for a call are exactly those of the most specific scope that has any: of the
  router the caller named, else of the resolved model, else of the whole team; a rule of a broader
  scope neither adds to them nor replaces one. They run in order of position, ties by name.
\<close>

theorem resolve_chain_most_specific:
  "(r \<in> set (resolve_chain rules m d router) \<longleftrightarrow> r \<in> set rules \<and> in_scope d r \<and>
      (\<exists>k. scope_rank m router r = Some k \<and>
        (\<forall>r' \<in> set rules. in_scope d r' \<longrightarrow> (\<forall>k'. scope_rank m router r' = Some k' \<longrightarrow> k \<le> k')))) \<and>
   sorted_wrt runs_before (resolve_chain rules m d router)"
proof -
  let ?A = "filter (in_scope d) rules"
  let ?R = "filter (\<lambda>r. gr_router_id r = router) ?A"
  let ?M = "filter (\<lambda>r. gr_router_id r = None \<and> gr_model_id r = Some m) ?A"
  let ?least = "\<lambda>k. \<forall>r' \<in> set ?A. \<forall>k'. scope_rank m router r' = Some k' \<longrightarrow> k \<le> k'"
  have "set (chain_order rs) = set rs" for rs by (simp add: chain_order_def)
  then have mem: "r \<in> set (resolve_chain rules m d router) \<longleftrightarrow> r \<in> set ?A \<and>
    (if router \<noteq> None \<and> ?R \<noteq> [] then gr_router_id r = router
     else if ?M \<noteq> [] then gr_router_id r = None \<and> gr_model_id r = Some m
     else gr_router_id r = None \<and> gr_model_id r = None)"
    by (auto simp: resolve_chain_def Let_def)
  have least: "?least 0" "?least 1 \<longleftrightarrow> \<not> (router \<noteq> None \<and> ?R \<noteq> [])"
    "?least 2 \<longleftrightarrow> \<not> (router \<noteq> None \<and> ?R \<noteq> []) \<and> ?M = []"
    unfolding filter_empty_conv by (auto simp: scope_rank_def)
  have "r \<in> set ?A \<Longrightarrow> (\<exists>k. scope_rank m router r = Some k \<and> ?least k) \<longleftrightarrow>
    (router \<noteq> None \<and> gr_router_id r = router \<or> gr_router_id r = None \<and> gr_model_id r = Some m \<and> ?least 1 \<or>
     gr_router_id r = None \<and> gr_model_id r = None \<and> ?least 2)"
    using least(1) by (auto simp: scope_rank_def)
  moreover have "r \<in> set ?A \<Longrightarrow> gr_router_id r = router \<Longrightarrow> ?R \<noteq> []"
    "r \<in> set ?A \<Longrightarrow> gr_router_id r = None \<Longrightarrow> gr_model_id r = Some m \<Longrightarrow> ?M \<noteq> []"
    unfolding filter_empty_conv by auto
  ultimately have "r \<in> set (resolve_chain rules m d router) \<longleftrightarrow> r \<in> set ?A \<and> (\<exists>k. scope_rank m router r = Some k \<and> ?least k)"
    unfolding mem least by (auto split: if_splits)
  then show ?thesis by (auto simp: resolve_chain_def Let_def chain_order_sorted)
qed

theorem resolve_chain_most_specific_witness:
  "sample_rule \<in> set (resolve_chain [sample_rule\<lparr>gr_router_id := Some ''r1''\<rparr>, sample_rule] ''m'' Request_Side None)"
  using resolve_chain_most_specific [of sample_rule "[sample_rule\<lparr>gr_router_id := Some ''r1''\<rparr>, sample_rule]" "''m''" Request_Side None]
  by (auto simp: sample_rule_def in_scope_def scope_rank_def)

section \<open>A rule that was accepted can run\<close>

lemma knob_number:
  assumes "validate_bounded_int config key low high = Inr ()"
  shows "is_number (knob config key dflt)"
    and "\<exists>i. knob config key dflt = JInt i \<and> (dget config key = JNull \<and> i = dflt \<or> low \<le> i \<and> i \<le> high)"
  using assms by (auto simp: validate_bounded_int_def knob_def split: json.splits if_splits)

lemma validate_webhook_Inr:
  "validate_webhook config secret has_secret = Inr () \<Longrightarrow> \<exists>url. dget config ''url'' = JStr url \<and> starts_with ''https://'' url \<and>
     (secret \<noteq> None \<or> has_secret) \<and> validate_bounded_int config ''timeout_ms'' min_timeout_ms max_timeout_ms = Inr ()"
  by (auto simp: validate_webhook_def split: json.splits if_splits)

lemma validate_judge_Inr:
  assumes "validate_judge config = Inr ()"
  shows "\<exists>m cs. dget config ''judge_model'' = JStr m \<and> m \<noteq> [] \<and> block_list (dget config ''block_categories'') = Inr cs \<and>
    set cs \<subseteq> set judge_categories \<and> validate_bounded_int config ''char_budget'' min_char_budget max_char_budget = Inr ()"
proof -
  obtain m where m: "dget config ''judge_model'' = JStr m" "m \<noteq> []"
    and b: "validate_bounded_int config ''char_budget'' min_char_budget max_char_budget = Inr ()"
    and c: "dget config ''block_categories'' = JNull \<or> (\<exists>vs. dget config ''block_categories'' = JList vs \<and>
      (\<forall>v \<in> set vs. \<exists>k \<in> set judge_categories. v = JStr k))"
    using assms by (auto simp: validate_judge_def filter_empty_conv split: json.splits if_splits)
  have "\<exists>cs. block_list (dget config ''block_categories'') = Inr cs \<and> set cs \<subseteq> set judge_categories"
  proof (cases "truthy (dget config ''block_categories'')")
    case True
    with c obtain vs where vs: "dget config ''block_categories'' = JList vs" "\<forall>v \<in> set vs. \<exists>k \<in> set judge_categories. v = JStr k"
      by auto
    then have "list_all hashable vs" by (auto simp: list_all_iff)
    moreover have "set (concat (map (\<lambda>c. case c of JStr s \<Rightarrow> [s] | _ \<Rightarrow> []) vs)) \<subseteq> set judge_categories"
      using vs(2) by fastforce
    ultimately show ?thesis using True vs(1) by (simp add: block_list_def)
  qed (simp add: block_list_def)
  with m b show ?thesis by blast
qed

lemma item_of_dget: "dget d k = JStr s \<Longrightarrow> item_of (JObj d) k = Inr (JStr s)"
  by (auto simp: item_of_def dget_def split: option.splits)



text \<open>
  Validation only asks whether a secret was given: an empty one is accepted, and the rule then fails
  to build on every call, which skips it when its policy is to fail open.
\<close>

lemma empty_secret_disables_rule:
  "validate_rule (sample_rule\<lparr>gr_fail_policy := Fail_Open\<rparr>) (Some []) = Inr () \<and>
   build_chain unreachable_wiring [(sample_rule\<lparr>gr_fail_policy := Fail_Open\<rparr>, Some [])] = Inr []"
proof
  show "validate_rule (sample_rule\<lparr>gr_fail_policy := Fail_Open\<rparr>) (Some []) = Inr ()" by code_simp
  show "build_chain unreachable_wiring [(sample_rule\<lparr>gr_fail_policy := Fail_Open\<rparr>, Some [])] = Inr []"
    by (simp add: provider_of_def webhook_provider_def sample_rule_def item_of_def)
qed

end
