(* ===== verification/Response_Cache.thy ===== *)
theory Response_Cache
  imports Guardrail_Payloads
begin

text \<open>
  The response cache: keys and cacheability (\<open>domain/response_cache_key.py\<close>), the semantic tier's
  scope and text (\<open>domain/response_cache_semantic.py\<close>), and the two in-process stores
  (\<open>infrastructure/cache/in_memory.py\<close>, \<open>semantic.py\<close>). SHA-256 and the similarity of two vectors are
  arguments. The lemmas show that keys of different tenants never meet, that a hit is the latest
  unexpired value stored under the very same key, and that the stores stay bounded.
\<close>

section \<open>Keys\<close>

record cache_key =
  ck_team_id :: string
  ck_api_key_id :: "string option"
  ck_digest :: string

record semantic_scope =
  sc_team_id :: string
  sc_api_key_id :: "string option"
  sc_model_id :: string
  sc_operation :: string
  sc_digest :: string

record cached_response =
  cr_body :: body
  cr_prompt_tokens :: int
  cr_completion_tokens :: int

definition cacheable_operations :: "string list" where
  "cacheable_operations = [''chat.completions'', ''responses'']"

definition non_determining_fields :: "string list" where
  "non_determining_fields = [''model'', ''stream'', ''stream_options'', ''user'', ''metadata'']"

definition key_schema_version :: string where
  "key_schema_version = ''v2''"

definition opt_str :: "string option \<Rightarrow> json" where
  "opt_str s = (case s of None \<Rightarrow> JNull | Some t \<Rightarrow> JStr t)"

definition determining :: "body \<Rightarrow> body" where
  "determining request = dict_filter (\<lambda>k v. k \<notin> set non_determining_fields) request"

definition view_with :: "model \<Rightarrow> string \<Rightarrow> body \<Rightarrow> json" where
  "view_with m operation request = JObj
     [(''v'', JStr key_schema_version), (''operation'', JStr operation), (''model_id'', JStr (md_id m)),
      (''model_name'', JStr (md_name m)), (''provider'', JStr (provider_value (md_provider m))),
      (''provider_model_id'', JStr (md_provider_model_id m)), (''api_version'', opt_str (md_api_version m)),
      (''max_output_tokens'', case md_max_output_tokens m of None \<Rightarrow> JNull | Some i \<Rightarrow> JInt i),
      (''request'', JObj request)]"

definition canonical_view :: "model \<Rightarrow> string \<Rightarrow> body \<Rightarrow> json" where
  "canonical_view m operation effective = view_with m operation (determining effective)"

text \<open>\<open>json.dumps\<close> with the default separators.\<close>

fun dumps_spaced :: "json \<Rightarrow> string" where
  "dumps_spaced (JList vs) = ''['' @ join '', '' (map dumps_spaced vs) @ '']''"
| "dumps_spaced (JObj kvs) = ''{'' @ join '', '' (map (\<lambda>kv. quote_str (fst kv) @ '': '' @ dumps_spaced (snd kv)) kvs) @ ''}''"
| "dumps_spaced v = dumps v"

definition digest_of :: "(string \<Rightarrow> string) \<Rightarrow> json \<Rightarrow> string" where
  "digest_of sha view = sha (dumps_spaced (sort_json view))"

definition derive_cache_key :: "(string \<Rightarrow> string) \<Rightarrow> string \<Rightarrow> string option \<Rightarrow> model \<Rightarrow> string \<Rightarrow> body \<Rightarrow> cache_key" where
  "derive_cache_key sha team key m operation effective =
     \<lparr>ck_team_id = team, ck_api_key_id = key, ck_digest = digest_of sha (canonical_view m operation effective)\<rparr>"

text \<open>\<open>isinstance(t, int | float) and not isinstance(t, bool) and t > 0\<close>.\<close>

definition positive_number :: "json \<Rightarrow> bool" where
  "positive_number v \<longleftrightarrow> (case v of JInt i \<Rightarrow> 0 < i | JFloat q \<Rightarrow> 0 < q | _ \<Rightarrow> False)"

definition is_cacheable :: "string \<Rightarrow> body \<Rightarrow> model \<Rightarrow> bool" where
  "is_cacheable operation request m \<longleftrightarrow> operation \<in> set cacheable_operations \<and> md_cache_enabled m \<and>
     \<not> (positive_number (dget request ''temperature'') \<and> \<not> md_cache_allow_nondeterministic m)"

section \<open>The semantic tier\<close>

definition embedded_fields :: "string list" where
  "embedded_fields = [''messages'', ''input'']"

definition is_semantic_cacheable :: "string \<Rightarrow> body \<Rightarrow> model \<Rightarrow> bool" where
  "is_semantic_cacheable operation request m \<longleftrightarrow> is_cacheable operation request m \<and> md_cache_semantic_enabled m"

definition derive_semantic_scope :: "(string \<Rightarrow> string) \<Rightarrow> string \<Rightarrow> string option \<Rightarrow> model \<Rightarrow> string \<Rightarrow> body \<Rightarrow> semantic_scope" where
  "derive_semantic_scope sha team key m operation effective =
     \<lparr>sc_team_id = team, sc_api_key_id = key, sc_model_id = md_id m, sc_operation = operation,
      sc_digest = digest_of sha (view_with m operation
        (dict_filter (\<lambda>k v. k \<notin> set embedded_fields) (determining effective)))\<rparr>"

definition text_from_content :: "json \<Rightarrow> string" where
  "text_from_content content = (case content of
     JStr s \<Rightarrow> s | JList blocks \<Rightarrow> join newline (block_texts blocks) | _ \<Rightarrow> [])"

definition some_text :: "string \<Rightarrow> string option" where
  "some_text s = (if s = [] then None else Some s)"

fun semantic_text_of :: "body \<Rightarrow> string list \<Rightarrow> string option" where
  "semantic_text_of request [] = None"
| "semantic_text_of request (f # fs) = (case dget request f of
     JStr s \<Rightarrow> some_text s
   | JList items \<Rightarrow> some_text (join newline (filter (\<lambda>p. p \<noteq> [])
       (map (\<lambda>item. text_from_content (oget item ''content'')) (filter is_obj items))))
   | _ \<Rightarrow> semantic_text_of request fs)"

definition extract_semantic_text :: "body \<Rightarrow> string option" where
  "extract_semantic_text request = semantic_text_of request [''messages'', ''input'']"

section \<open>The exact-match store\<close>

text \<open>
  \<open>OrderedDict\<close> as the list of its entries, least recently used first; an entry has its expiry.
  \<open>move_to_end\<close> takes a key out and appends it.
\<close>

type_synonym ('k, 'v) lru = "('k, float_py \<times> 'v) dict"

definition move_to_end :: "'k \<Rightarrow> ('k, 'v) dict \<Rightarrow> ('k, 'v) dict" where
  "move_to_end k d = (case map_of d k of None \<Rightarrow> d | Some v \<Rightarrow> dict_del k d @ [(k, v)])"

fun evict :: "int \<Rightarrow> ('k, 'v) dict \<Rightarrow> exc + ('k, 'v) dict" where
  "evict n [] = (if n < 0 then raise_py KeyError else Inr [])"
| "evict n (e # es) = (if n < int (length (e # es)) then evict n es else Inr (e # es))"

definition cache_get :: "('k, 'v) lru \<Rightarrow> 'k \<Rightarrow> float_py \<Rightarrow> 'v option \<times> ('k, 'v) lru" where
  "cache_get d k now = (case map_of d k of
     None \<Rightarrow> (None, d)
   | Some (expires, v) \<Rightarrow> if expires \<le> now then (None, dict_del k d) else (Some v, move_to_end k d))"

definition cache_put :: "int \<Rightarrow> ('k, 'v) lru \<Rightarrow> 'k \<Rightarrow> 'v \<Rightarrow> int \<Rightarrow> float_py \<Rightarrow> exc + ('k, 'v) lru" where
  "cache_put max_entries d k v ttl now =
     evict max_entries (move_to_end k (dict_put k (fadd now (float_of_int ttl), v) d))"

section \<open>The semantic store\<close>

type_synonym 'v entries = "(float_py \<times> float_py list \<times> 'v) list"

record semantic_limits =
  sl_max_entries :: int
  sl_max_scopes :: int

definition sweep_budget :: nat where
  "sweep_budget = 8"

definition default_max_entries_per_tenant :: int where
  "default_max_entries_per_tenant = 50"

definition default_max_scopes :: int where
  "default_max_scopes = 512"

text \<open>
  One step of the scan: the best score so far and its value. The similarity raises on vectors of
  different lengths, and the scan then leaves the store as it was.
\<close>

definition better :: "(float_py list \<Rightarrow> float_py list \<Rightarrow> exc + float_py) \<Rightarrow> float_py list \<Rightarrow> float_py \<Rightarrow>
    exc + float_py \<times> 'v option \<Rightarrow> float_py \<times> float_py list \<times> 'v \<Rightarrow> exc + float_py \<times> 'v option" where
  "better cosine vector threshold best e = (case e of (expires, stored, v) \<Rightarrow>
     rbind best (\<lambda>b. rbind (cosine vector stored) (\<lambda>score.
       Inr (if threshold \<le> score \<and> fst b < score then (score, Some v) else b))))"

definition sem_find :: "(float_py list \<Rightarrow> float_py list \<Rightarrow> exc + float_py) \<Rightarrow> ('k, 'v entries) dict \<Rightarrow> 'k \<Rightarrow> float_py list \<Rightarrow>
    float_py \<Rightarrow> float_py \<Rightarrow> exc + 'v option \<times> ('k, 'v entries) dict" where
  "sem_find cosine d k vector threshold now = (case map_of d k of
     None \<Rightarrow> Inr (None, d)
   | Some bucket \<Rightarrow> if bucket = [] then Inr (None, d)
       else let live = filter (\<lambda>e. now < fst e) bucket
         in rbind (foldl (better cosine vector threshold) (Inr (-1, None)) live) (\<lambda>best.
            Inr (snd best, if live \<noteq> [] then move_to_end k (dict_put k live d) else dict_del k d)))"

text \<open>The expired ones among the first \<open>sweep_budget\<close> scopes go.\<close>

definition sweep_expired :: "('k, 'v entries) dict \<Rightarrow> float_py \<Rightarrow> ('k, 'v entries) dict" where
  "sweep_expired d now = (let dead = map fst (filter (\<lambda>kb. \<forall>e \<in> set (snd kb). fst e \<le> now) (take sweep_budget d))
     in filter (\<lambda>kb. fst kb \<notin> set dead) d)"

definition sem_add :: "semantic_limits \<Rightarrow> ('k, 'v entries) dict \<Rightarrow> 'k \<Rightarrow> float_py list \<Rightarrow> 'v \<Rightarrow> int \<Rightarrow> float_py \<Rightarrow> float_py \<Rightarrow>
    exc + ('k, 'v entries) dict" where
  "sem_add L d k vector v ttl swept_at now = (let
      d1 = sweep_expired d swept_at;
      bucket = (case map_of d1 k of None \<Rightarrow> [] | Some b \<Rightarrow> b) @ [(fadd now (float_of_int ttl), vector, v)];
      overflow = int (length bucket) - sl_max_entries L;
      kept = (if 0 < overflow then drop (nat overflow) bucket else bucket)
    in evict (sl_max_scopes L) (move_to_end k (dict_put k kept d1)))"

section \<open>What a key depends on\<close>

lemma sort_key_fst_unique:
  fixes xs ys :: "('k::linorder \<times> 'v) list"
  assumes "wf_dict xs" "wf_dict ys" "map_of xs = map_of ys"
  shows "sort_key fst xs = sort_key fst ys"
proof (rule map_sorted_distinct_set_unique)
  have set: "set xs = set ys" using assms map_of_inject_set by (auto simp: wf_dict_def)
  then show "set (sort_key fst xs) = set (sort_key fst ys)" by simp
  show "inj_on fst (set (sort_key fst xs) \<union> set (sort_key fst ys))"
    using assms(1) set by (simp add: wf_dict_def distinct_map)
  have "distinct (map fst (sort_key fst zs))" if "wf_dict zs" for zs :: "('k \<times> 'v) list"
    using that by (simp add: wf_dict_def distinct_map)
  then show "distinct (map fst (sort_key fst xs))" "distinct (map fst (sort_key fst ys))" using assms by blast+
qed simp_all

lemma map_of_map_snd: "map_of (map (\<lambda>kv. (fst kv, f (snd kv))) d) k = map_option f (map_of d k)"
  by (induction d) auto

text \<open>Equal up to the order of keys, at every depth.\<close>

definition same_fields :: "body \<Rightarrow> body \<Rightarrow> bool" where
  "same_fields a b \<longleftrightarrow> (\<forall>k. map_option sort_json (map_of a k) = map_option sort_json (map_of b k))"

lemma same_fields_sort:
  assumes "wf_dict a" "wf_dict b" "same_fields a b"
  shows "sort_json (JObj a) = sort_json (JObj b)"
proof -
  have "wf_dict (map (\<lambda>kv. (fst kv, sort_json (snd kv))) d)" if "wf_dict d" for d
    using that by (simp add: wf_dict_def comp_def)
  then have "sort_key fst (map (\<lambda>kv. (fst kv, sort_json (snd kv))) a) = sort_key fst (map (\<lambda>kv. (fst kv, sort_json (snd kv))) b)"
    using assms by (intro sort_key_fst_unique) (auto simp: map_of_map_snd same_fields_def)
  then show ?thesis by simp
qed

lemma digest_view_with:
  assumes "wf_dict a" "wf_dict b" "same_fields a b"
  shows "digest_of sha (view_with m operation a) = digest_of sha (view_with m operation b)"
proof -
  have "sort_json (view_with m operation a) = sort_json (view_with m operation b)"
    unfolding view_with_def sort_json.simps(2) [of "_ # _"] list.map snd_conv fst_conv same_fields_sort [OF assms] ..
  then show ?thesis by (simp add: digest_of_def)
qed

lemma same_fields_filter:
  assumes "\<And>k. P k \<Longrightarrow> map_option sort_json (map_of a k) = map_option sort_json (map_of b k)"
  shows "same_fields (dict_filter (\<lambda>k v. P k) a) (dict_filter (\<lambda>k v. P k) b)"
  using assms by (simp add: same_fields_def map_of_dict_filter_key)

text \<open>
  C32. Two requests of one caller share a cache entry when they agree, up to the order of keys, on every
  field that can change the answer, and a semantic scope when they agree on those besides the
  embedded text; requests of different teams or API keys never share either.
\<close>

theorem cache_key_of_request:
  assumes "wf_dict a" "wf_dict b"
  shows "((\<forall>k. k \<notin> set non_determining_fields \<longrightarrow> map_option sort_json (map_of a k) = map_option sort_json (map_of b k)) \<longrightarrow>
      derive_cache_key sha team key m operation a = derive_cache_key sha team key m operation b) \<and>
    ((\<forall>k. k \<notin> set non_determining_fields \<union> set embedded_fields \<longrightarrow> map_option sort_json (map_of a k) = map_option sort_json (map_of b k)) \<longrightarrow>
      derive_semantic_scope sha team key m operation a = derive_semantic_scope sha team key m operation b) \<and>
    (team \<noteq> team' \<or> key \<noteq> key' \<longrightarrow>
      derive_cache_key sha team key m operation a \<noteq> derive_cache_key sha team' key' m' operation' b \<and>
      derive_semantic_scope sha team key m operation a \<noteq> derive_semantic_scope sha team' key' m' operation' b)"
proof -
  have "digest_of sha (canonical_view m operation a) = digest_of sha (canonical_view m operation b)"
    if "\<forall>k. k \<notin> set non_determining_fields \<longrightarrow> map_option sort_json (map_of a k) = map_option sort_json (map_of b k)"
    unfolding canonical_view_def determining_def using assms that
    by (intro digest_view_with wf_dict_filter same_fields_filter) auto
  moreover have "digest_of sha (view_with m operation (dict_filter (\<lambda>k v. k \<notin> set embedded_fields) (determining a))) =
      digest_of sha (view_with m operation (dict_filter (\<lambda>k v. k \<notin> set embedded_fields) (determining b)))"
    if "\<forall>k. k \<notin> set non_determining_fields \<union> set embedded_fields \<longrightarrow> map_option sort_json (map_of a k) = map_option sort_json (map_of b k)"
    unfolding determining_def using assms that
    by (intro digest_view_with wf_dict_filter same_fields_filter) (auto simp: map_of_dict_filter_key)
  ultimately show ?thesis
    by (auto simp: derive_cache_key_def derive_semantic_scope_def)
qed

theorem cache_key_of_request_witness:
  "derive_cache_key rev ''t'' None sample_model ''responses'' [(''input'', JStr ''hi''), (''user'', JStr ''u1'')] =
   derive_cache_key rev ''t'' None sample_model ''responses'' [(''stream'', JBool True), (''input'', JStr ''hi'')]"
  using cache_key_of_request [of "[(''input'', JStr ''hi''), (''user'', JStr ''u1'')]"
      "[(''stream'', JBool True), (''input'', JStr ''hi'')]"]
  by (auto simp: wf_dict_def non_determining_fields_def)

section \<open>The exact-match store\<close>

datatype ('k, 'v) cache_op = Get 'k float_py | Put 'k 'v int float_py

fun cache_step :: "int \<Rightarrow> ('k, 'v) cache_op \<Rightarrow> ('k, 'v) lru \<Rightarrow> exc + ('k, 'v) lru" where
  "cache_step n (Get k now) d = Inr (snd (cache_get d k now))"
| "cache_step n (Put k v ttl now) d = cache_put n d k v ttl now"

fun cache_run :: "int \<Rightarrow> ('k, 'v) cache_op list \<Rightarrow> ('k, 'v) lru \<Rightarrow> exc + ('k, 'v) lru" where
  "cache_run n [] d = Inr d"
| "cache_run n (op # ops) d = rbind (cache_step n op d) (cache_run n ops)"

lemma cache_run_append: "cache_run n (xs @ ys) d = rbind (cache_run n xs d) (cache_run n ys)"
  by (induction xs arbitrary: d) (auto simp: rbind_def split: sum.split)

text \<open>What the latest \<open>put\<close> of a key stored, with its expiry.\<close>

fun stored :: "'k \<Rightarrow> (float_py \<times> 'v) option \<Rightarrow> ('k, 'v) cache_op list \<Rightarrow> (float_py \<times> 'v) option" where
  "stored k e [] = e"
| "stored k e (Get k' now # ops) = stored k e ops"
| "stored k e (Put k' v ttl now # ops) = stored k (if k' = k then Some (fadd now (float_of_int ttl), v) else e) ops"

lemma map_of_move_to_end [simp]: "map_of (move_to_end k d) = map_of d"
  by (rule ext) (auto simp: move_to_end_def dict_simps map_add_def split: option.splits)

lemma length_move_to_end: "length (move_to_end k d) \<le> length d"
proof (cases "map_of d k")
  case (Some v)
  have "length (filter (\<lambda>kv. fst kv \<noteq> k) d) < length d"
    using map_of_SomeD [OF Some] by (intro length_filter_less [of "(k, v)"]) auto
  moreover have "dict_del k d = filter (\<lambda>kv. fst kv \<noteq> k) d" by (auto simp: AList.delete_eq intro!: filter_cong)
  ultimately show ?thesis using Some by (simp add: move_to_end_def Suc_le_eq)
qed (simp add: move_to_end_def)

lemma wf_move_to_end: "wf_dict d \<Longrightarrow> wf_dict (move_to_end k d)"
proof (cases "map_of d k")
  case (Some v)
  assume "wf_dict d"
  then have "distinct (map fst (dict_del k d))" using wf_dict_del by (auto simp: wf_dict_def)
  moreover have "k \<notin> set (map fst (dict_del k d))" by (simp add: delete_keys)
  ultimately show ?thesis using Some by (simp add: move_to_end_def wf_dict_def)
qed (simp add: move_to_end_def)

lemma evict_Inr:
  assumes "evict n d = Inr d'"
  shows "\<exists>us. d = us @ d' \<and> int (length d') \<le> n \<and> (us = [] \<or> int (length d') = n)"
  using assms
proof (induction d)
  case (Cons e es)
  show ?case
  proof (cases "n < int (length (e # es))")
    case True
    with Cons obtain us where "es = us @ d'" "int (length d') \<le> n" "us = [] \<or> int (length d') = n" by auto
    with True show ?thesis by (intro exI [of _ "e # us"]) auto
  next
    case False
    with Cons.prems show ?thesis by (intro exI [of _ "[]"]) auto
  qed
qed (auto split: if_splits)

lemma evict_total: "0 \<le> n \<Longrightarrow> \<exists>d'. evict n d = Inr d'"
  by (induction d) auto

lemma map_of_suffix: "wf_dict (us @ d) \<Longrightarrow> map_of d k = Some e \<Longrightarrow> map_of (us @ d) k = Some e"
  by (auto simp: wf_dict_def map_add_def split: option.splits dest!: map_of_SomeD)
    (metis (no_types, lifting) disjoint_iff fst_conv image_eqI map_of_SomeD)

lemma cache_put_Inr:
  assumes "wf_dict d" "cache_put n d k v ttl now = Inr d'"
  shows "wf_dict d' \<and> int (length d') \<le> n \<and> map_of d' \<subseteq>\<^sub>m (map_of d)(k \<mapsto> (fadd now (float_of_int ttl), v))"
proof -
  let ?d = "move_to_end k (dict_put k (fadd now (float_of_int ttl), v) d)"
  obtain us where us: "?d = us @ d'" "int (length d') \<le> n" using evict_Inr [of n ?d d'] assms(2) unfolding cache_put_def by blast
  have wf: "wf_dict ?d" using assms(1) by (intro wf_move_to_end wf_dict_put)
  have "map_of d' \<subseteq>\<^sub>m map_of ?d" using map_of_suffix [of us d'] wf us(1) by (auto simp: map_le_def)
  then have "map_of d' \<subseteq>\<^sub>m (map_of d)(k \<mapsto> (fadd now (float_of_int ttl), v))" by (simp add: dict_simps)
  moreover have "wf_dict d'" using wf unfolding us(1) by (simp add: wf_dict_def)
  ultimately show ?thesis using us(2) by blast
qed

lemma cache_get_state:
  "wf_dict d \<Longrightarrow> wf_dict (snd (cache_get d k now)) \<and> length (snd (cache_get d k now)) \<le> length d \<and>
    map_of (snd (cache_get d k now)) \<subseteq>\<^sub>m map_of d"
  by (auto simp: cache_get_def wf_move_to_end wf_dict_del map_le_def dict_simps length_move_to_end length_delete_le
      split: option.splits)

lemma cache_run_sound:
  assumes "cache_run n ops d = Inr d'" "wf_dict d" "int (length d) \<le> n" "map_of d \<subseteq>\<^sub>m m"
  shows "wf_dict d' \<and> int (length d') \<le> n \<and> map_of d' \<subseteq>\<^sub>m (\<lambda>k. stored k (m k) ops)"
  using assms
proof (induction ops arbitrary: d m)
  case (Cons op ops)
  from Cons.prems(1) obtain d1 where d1: "cache_step n op d = Inr d1" "cache_run n ops d1 = Inr d'" by auto
  show ?case
  proof (cases op)
    case (Get k now)
    with d1(1) have "d1 = snd (cache_get d k now)" by simp
    with cache_get_state [OF Cons.prems(2), of k now] Cons.prems(3,4)
    have "wf_dict d1" "int (length d1) \<le> n" "map_of d1 \<subseteq>\<^sub>m m" by (auto intro: map_le_trans)
    from Cons.IH [OF d1(2) this] Get show ?thesis by simp
  next
    case (Put k v ttl now)
    with d1(1) have "cache_put n d k v ttl now = Inr d1" by simp
    from cache_put_Inr [OF Cons.prems(2) this] Cons.prems(4)
    have "wf_dict d1" "int (length d1) \<le> n" "map_of d1 \<subseteq>\<^sub>m m(k \<mapsto> (fadd now (float_of_int ttl), v))"
      by (auto intro: map_le_trans map_le_upd)
    from Cons.IH [OF d1(2) this] Put show ?thesis by (auto simp: map_le_def)
  qed
qed simp

text \<open>The operation stores something under \<open>k\<close>.\<close>

fun puts :: "'k \<Rightarrow> ('k, 'v) cache_op \<Rightarrow> bool" where
  "puts k (Get k' now) = False"
| "puts k (Put k' v ttl now) = (k' = k)"

lemma stored_put:
  "stored k e0 ops = Some e \<Longrightarrow> e0 = Some e \<and> (\<forall>op \<in> set ops. \<not> puts k op) \<or>
    (\<exists>xs ys v ttl now. ops = xs @ Put k v ttl now # ys \<and> e = (fadd now (float_of_int ttl), v) \<and> (\<forall>op \<in> set ys. \<not> puts k op))"
proof (induction ops arbitrary: e0)
  case (Cons op ops)
  show ?case
  proof (cases op)
    case (Get k' now)
    with Cons.prems have "stored k e0 ops = Some e" by simp
    from Cons.IH [OF this] show ?thesis
    proof (elim disjE exE conjE)
      fix xs ys v ttl t
      assume "ops = xs @ Put k v ttl t # ys" "e = (fadd t (float_of_int ttl), v)" "\<forall>op \<in> set ys. \<not> puts k op"
      then show ?thesis by (metis append_Cons)
    qed (use Get in auto)
  next
    case (Put k' v ttl now)
    with Cons.prems have "stored k (if k' = k then Some (fadd now (float_of_int ttl), v) else e0) ops = Some e" by simp
    from Cons.IH [OF this] consider
        (kept) "(if k' = k then Some (fadd now (float_of_int ttl), v) else e0) = Some e" "\<forall>op \<in> set ops. \<not> puts k op"
      | (later) xs ys w t u where "ops = xs @ Put k w t u # ys" "e = (fadd u (float_of_int t), w)" "\<forall>op \<in> set ys. \<not> puts k op"
      by blast
    then show ?thesis
    proof cases
      case kept
      then show ?thesis
      proof (cases "k' = k")
        case True
        then have "op # ops = [] @ Put k v ttl now # ops" using Put by simp
        moreover have "e = (fadd now (float_of_int ttl), v)" using kept(1) True by simp
        ultimately show ?thesis using kept(2) by blast
      qed (use Put in auto)
    next
      case later
      then show ?thesis by (metis append_Cons)
    qed
  qed
qed simp

text \<open>
  C22. After any sequence of lookups and stores on an empty cache, in any interleaving of keys, the cache
  holds at most its maximum of entries, and a lookup that hits answers with the value the latest
  store under that very key put there, before it expires.
\<close>

theorem cache_hit_is_latest_put:
  assumes "cache_run n ops [] = Inr d" "0 \<le> n"
  shows "int (length d) \<le> n \<and> wf_dict d \<and> (\<forall>v. fst (cache_get d k now) = Some v \<longrightarrow>
    (\<exists>xs ys ttl t. ops = xs @ Put k v ttl t # ys \<and> now < fadd t (float_of_int ttl) \<and> (\<forall>op \<in> set ys. \<not> puts k op)))"
proof -
  have d: "wf_dict d" "int (length d) \<le> n" "map_of d \<subseteq>\<^sub>m (\<lambda>k. stored k None ops)"
    using cache_run_sound [OF assms(1), of Map.empty] assms(2) by (simp_all add: map_le_def)
  have "\<exists>xs ys ttl t. ops = xs @ Put k v ttl t # ys \<and> now < fadd t (float_of_int ttl) \<and> (\<forall>op \<in> set ys. \<not> puts k op)"
    if hit: "fst (cache_get d k now) = Some v" for v
  proof -
    obtain expires where e: "map_of d k = Some (expires, v)" "now < expires"
      using hit by (auto simp: cache_get_def split: option.splits if_splits)
    with d(3) have "stored k None ops = Some (expires, v)" by (auto simp: map_le_def dest: bspec [of _ _ k])
    from stored_put [OF this] e(2) show ?thesis by auto
  qed
  with d show ?thesis by blast
qed

theorem cache_hit_is_latest_put_witness:
  "\<exists>d. cache_run 2 [Put ''a'' 1 60 0, Put ''b'' 2 60 0, Get ''a'' 1, Put ''c'' 3 60 2] [] = Inr d \<and>
     fst (cache_get d ''a'' 3) = Some (1 :: int) \<and> int (length d) \<le> 2"
proof -
  let ?ops = "[Put ''a'' 1 60 0, Put ''b'' 2 60 0, Get ''a'' 1, Put ''c'' 3 60 2] :: (string, int) cache_op list"
  have r: "cache_run 2 ?ops [] = Inr [(''a'', 60, 1), (''c'', 62, 3)]" by code_simp
  have "fst (cache_get [(''a'', 60, 1), (''c'', 62, 3)] ''a'' 3) = Some (1 :: int)" by code_simp
  with r cache_hit_is_latest_put [OF r] show ?thesis by auto
qed

text \<open>
  The stored value survives as long as fewer than the maximum of other keys have been stored since:
  least recently used first is the order of eviction.
\<close>

definition recent :: "'k \<Rightarrow> (float_py \<times> 'v) \<Rightarrow> 'k set \<Rightarrow> ('k, 'v) lru \<Rightarrow> bool" where
  "recent k e others d \<longleftrightarrow> wf_dict d \<and> (\<exists>us vs. d = us @ (k, e) # vs \<and> fst ` set vs \<subseteq> others)"

fun op_key :: "('k, 'v) cache_op \<Rightarrow> 'k" where
  "op_key (Get k now) = k"
| "op_key (Put k v ttl now) = k"

lemma fst_dict_del: "fst ` set (dict_del k d) \<subseteq> fst ` set d - {k}"
  by (auto simp: AList.delete_eq)

lemma move_put: "move_to_end k (dict_put k x d) = dict_del k d @ [(k, x)]"
  by (simp add: move_to_end_def dict_simps delete_update_same)

lemma wf_append_new: "wf_dict d \<Longrightarrow> wf_dict (dict_del k d @ [(k, x)])"
  using wf_move_to_end [of "dict_put k x d" k] by (simp add: move_put wf_dict_put)

lemma recent_del:
  assumes "recent k e others d" "k' \<noteq> k"
  shows "recent k e others (dict_del k' d)"
proof -
  obtain us vs where d: "d = us @ (k, e) # vs" "fst ` set vs \<subseteq> others" "wf_dict d" using assms(1) by (auto simp: recent_def)
  have "dict_del k' d = dict_del k' us @ (k, e) # dict_del k' vs"
    using assms(2) by (simp add: d(1) AList.delete_eq)
  moreover have "fst ` set (dict_del k' vs) \<subseteq> others" using d(2) fst_dict_del [of k' vs] by (meson Diff_subset subset_trans)
  ultimately show ?thesis using wf_dict_del [OF d(3)] unfolding recent_def by blast
qed

lemma recent_append:
  assumes "recent k e others d" "k' \<noteq> k" "k' \<in> others"
  shows "recent k e others (dict_del k' d @ [(k', x)])"
proof -
  obtain us vs where d: "d = us @ (k, e) # vs" "fst ` set vs \<subseteq> others" "wf_dict d" using assms(1) by (auto simp: recent_def)
  have "dict_del k' d = dict_del k' us @ (k, e) # dict_del k' vs"
    using assms(2) by (simp add: d(1) AList.delete_eq)
  then have "dict_del k' d @ [(k', x)] = dict_del k' us @ (k, e) # (dict_del k' vs @ [(k', x)])" by simp
  moreover have "fst ` set (dict_del k' vs) \<subseteq> others" using d(2) fst_dict_del [of k' vs] by (meson Diff_subset subset_trans)
  then have "fst ` set (dict_del k' vs @ [(k', x)]) \<subseteq> others" using assms(3) by simp
  ultimately show ?thesis using wf_append_new [OF d(3), of k' x] unfolding recent_def by blast
qed

lemma recent_self: "wf_dict d \<Longrightarrow> recent k e others (dict_del k d @ [(k, e)])"
  using wf_append_new [of d k e] unfolding recent_def by (intro conjI exI [of _ "dict_del k d"] exI [of _ "[]"]) simp_all

lemma recent_evict:
  assumes "recent k e others d" "evict n d = Inr d'" "finite others" "int (card others) < n"
  shows "recent k e others d'"
proof -
  obtain us vs where d: "d = us @ (k, e) # vs" "fst ` set vs \<subseteq> others" "wf_dict d" using assms(1) by (auto simp: recent_def)
  obtain ps where ps: "d = ps @ d'" "ps = [] \<or> int (length d') = n" using evict_Inr [OF assms(2)] by blast
  have "distinct (map fst vs)" using d(1,3) by (simp add: wf_dict_def)
  then have "length vs = card (fst ` set vs)" by (metis distinct_card length_map list.set_map)
  also have "\<dots> \<le> card others" using card_mono [OF assms(3) d(2)] .
  finally have "ps = [] \<or> length ((k, e) # vs) \<le> length d'" using ps(2) assms(4) by auto
  then have "length ps \<le> length us" using arg_cong [OF ps(1), of length] d(1) by auto
  then have "d' = drop (length ps) us @ (k, e) # vs"
    using ps(1) d(1) by (metis append_eq_append_conv_if append_take_drop_id same_append_eq append.assoc)
  moreover have "wf_dict d'" using d(3) ps(1) by (simp add: wf_dict_def)
  ultimately show ?thesis using d(2) by (auto simp: recent_def)
qed

lemma recent_lookup: "recent k e others d \<Longrightarrow> map_of d k = Some e"
  by (auto simp: recent_def wf_dict_def map_add_def map_of_eq_None_iff [THEN iffD2] split: option.split)

lemma recent_step:
  assumes "recent k e others d" "cache_step n op d = Inr d'" "finite others" "int (card others) < n"
    and "op_key op \<in> others - {k} \<or> (\<exists>now. op = Get k now \<and> now < fst e)"
  shows "recent k e others d'"
proof (cases op)
  case (Get k' now)
  show ?thesis
  proof (cases "k' = k")
    case True
    then have "cache_get d k' now = (Some (snd e), dict_del k d @ [(k, e)])"
      using assms(5) Get recent_lookup [OF assms(1)] by (cases e) (auto simp: cache_get_def move_to_end_def)
    moreover have "wf_dict d" using assms(1) by (simp add: recent_def)
    ultimately show ?thesis using recent_self [of d k e others] assms(2) Get by simp
  next
    case False
    then have other: "k' \<in> others" using assms(5) Get by auto
    then have "recent k e others (move_to_end k' d)"
      using recent_append [OF assms(1) False] assms(1) by (auto simp: move_to_end_def split: option.split)
    with recent_del [OF assms(1) False] assms(1,2) Get show ?thesis
      by (auto simp: cache_get_def split: option.splits if_splits)
  qed
next
  case (Put k' w ttl now)
  with assms(5) have "k' \<noteq> k" "k' \<in> others" by auto
  moreover have "evict n (dict_del k' d @ [(k', fadd now (float_of_int ttl), w)]) = Inr d'"
    using assms(2) Put by (simp add: cache_put_def move_put)
  ultimately show ?thesis using recent_append [OF assms(1)] recent_evict [OF _ _ assms(3,4)] by blast
qed

lemma recent_run:
  assumes "recent k e others d" "cache_run n ops d = Inr d'" "finite others" "int (card others) < n"
    and "\<forall>op \<in> set ops. op_key op \<in> others - {k} \<or> (\<exists>now. op = Get k now \<and> now < fst e)"
  shows "recent k e others d'"
  using assms(1,2,5)
proof (induction ops arbitrary: d)
  case (Cons op ops)
  then obtain d1 where d1: "cache_step n op d = Inr d1" "cache_run n ops d1 = Inr d'" by auto
  have "recent k e others d1" using recent_step [OF Cons.prems(1) d1(1) assms(3,4)] Cons.prems(3) by simp
  from Cons.IH [OF this d1(2)] Cons.prems(3) show ?case by simp
qed simp

text \<open>
  C34. A stored value is still there when its key is looked up before it expires, provided fewer than
  the maximum of other keys were touched since: whatever came before, and however often those keys
  and this one were looked up or stored, only a least recently used entry is evicted.
\<close>

theorem recent_value_is_kept:
  assumes "cache_run n (xs @ Put k v ttl t # ys) [] = Inr d" "now < fadd t (float_of_int ttl)"
    and "finite others" "int (card others) < n"
    and "\<forall>op \<in> set ys. op_key op \<in> others - {k} \<or> (\<exists>u. op = Get k u \<and> u < fadd t (float_of_int ttl))"
  shows "fst (cache_get d k now) = Some v"
proof -
  let ?e = "(fadd t (float_of_int ttl), v)"
  obtain d0 d1 where run: "cache_run n xs [] = Inr d0" "cache_put n d0 k v ttl t = Inr d1" "cache_run n ys d1 = Inr d"
    using assms(1) by (auto simp: cache_run_append)
  have "wf_dict d0" using cache_run_sound [OF run(1), of Map.empty] assms(4) by (simp add: map_le_def)
  then have "recent k ?e others (dict_del k d0 @ [(k, ?e)])" by (rule recent_self)
  then have "recent k ?e others d1"
    using run(2) recent_evict [OF _ _ assms(3,4)] by (simp add: cache_put_def move_put)
  from recent_run [OF this run(3) assms(3,4)] assms(5) have "recent k ?e others d" by simp
  from recent_lookup [OF this] assms(2) show ?thesis by (simp add: cache_get_def)
qed

theorem recent_value_is_kept_witness:
  "\<exists>d. cache_run 2 [Put ''a'' (1 :: int) 60 0, Put ''b'' 2 60 0, Get ''a'' 1, Put ''b'' 3 60 2] [] = Inr d \<and>
     fst (cache_get d ''a'' 3) = Some 1"
proof -
  let ?ops = "[] @ Put ''a'' 1 60 0 # [Put ''b'' 2 60 0, Get ''a'' 1, Put ''b'' 3 60 2] :: (string, int) cache_op list"
  have r: "cache_run 2 ?ops [] = Inr [(''a'', 60, 1), (''b'', 62, 3)]" by code_simp
  have f: "fadd 0 (float_of_int 60) = 60" by code_simp
  have "fst (cache_get [(''a'', 60, 1), (''b'', 62, 3)] ''a'' 3) = Some (1 :: int)"
    using recent_value_is_kept [OF r, of 3 "{''b''}"] by (simp add: f)
  with r show ?thesis unfolding append_Nil by blast
qed

end
