(* ===== verification/Completion_Dispatch.thy ===== *)
theory Completion_Dispatch
  imports Meter_Streams Guardrail_Chain Response_Cache
begin

text \<open>
  One provider call of \<open>CompletionService\<close> (\<open>application/completion_service.py\<close>): the cache lookup,
  the call, its settlement, the guardrails on the answer, the cache write and the release of the
  budget reservation, as \<open>_dispatch\<close> orders them. Repositories, caches, the guardrail resolver and
  the provider's answer are arguments. The lemmas show that every dispatch releases its
  reservation, that each answered call is billed exactly once whatever the guardrails say of it,
  and that nothing refused is ever cached.
\<close>

section \<open>The service and its world\<close>

text \<open>
  The two caches behind their ports; a call that raises leaves the store as it was. A vector is the
  JSON list the embeddings answer carries.
\<close>

record 'c cache_ports =
  ch_get :: "'c \<Rightarrow> cache_key \<Rightarrow> exc + cached_response option \<times> 'c"
  ch_put :: "'c \<Rightarrow> cache_key \<Rightarrow> cached_response \<Rightarrow> exc + 'c"
  ch_find :: "'c \<Rightarrow> semantic_scope \<Rightarrow> json list \<Rightarrow> exc + cached_response option \<times> 'c"
  ch_add :: "'c \<Rightarrow> semantic_scope \<Rightarrow> json list \<Rightarrow> cached_response \<Rightarrow> exc + 'c"

text \<open>
  What the constructor wires. \<open>sv_guardrails\<close> resolves the chain of a call; \<open>sv_embed\<close> is the
  embeddings call of a text; credentials are looked up by id. A model is looked up by what the body
  holds as its name.
\<close>

record 'c services =
  sv_ports :: meter_ports
  sv_guardrails :: "(uuid \<Rightarrow> uuid option \<Rightarrow> model \<Rightarrow> direction \<Rightarrow> uuid option \<Rightarrow> exc + chained_guard list) option"
  sv_caches :: "'c cache_ports"
  sv_response_cache :: bool
  sv_semantic_cache :: bool
  sv_embedding_model :: "string option"
  sv_model_by_name :: "uuid \<Rightarrow> json \<Rightarrow> exc + model option"
  sv_credential :: "uuid \<Rightarrow> exc + body option"
  sv_embed :: "model \<Rightarrow> string \<Rightarrow> exc + body"
  sv_router_wired :: bool
  sv_sha :: "string \<Rightarrow> string"
  sv_error_name :: "exc \<Rightarrow> string"

text \<open>
  The mutable parts: the books and the alert ledger, the reservation store, the cache, the calls
  made to providers (model and body sent), the usages handed to the routing decision and the rate
  limiter.
\<close>

record ('st, 'c) world =
  wd_books :: books
  wd_alerts :: alert_repo
  wd_store :: 'st
  wd_cache :: 'c
  wd_calls :: "(string \<times> body) list"
  wd_attached :: "(int \<times> int) list"
  wd_limiter :: limiter

text \<open>The reservation store as the service sees it.\<close>

record 'st store_ops =
  so_reserve :: "'st \<Rightarrow> reserve_call \<Rightarrow> reservation_outcome \<times> 'st"
  so_release :: "'st \<Rightarrow> reservation \<Rightarrow> 'st"
  so_faulty :: "reservation \<Rightarrow> bool"

text \<open>The arguments of one dispatch; \<open>dc_answer\<close> is what the provider answers if it is called.\<close>

record dispatch_call =
  dc_info :: call_info
  dc_request :: body
  dc_sent :: body
  dc_answer :: "exc + body"
  dc_reservation :: "admission option"
  dc_settle_view :: "body \<Rightarrow> exc + body"
  dc_cache_key :: "cache_key option"
  dc_semantic_text :: "string option"
  dc_router_id :: "uuid option"

text \<open>The clock readings, ids and write fates of one dispatch.\<close>

record dispatch_now =
  dn_latency :: float_py
  dn_write :: write_now
  dn_alerts :: alert_now
  dn_now :: datetime

section \<open>Small helpers\<close>

definition cache_usage_tokens :: "body \<Rightarrow> (int \<times> int) option" where
  "cache_usage_tokens usage = (let
      (p, c) = (if has_key usage ''prompt_tokens'' \<or> has_key usage ''completion_tokens''
        then (dget usage ''prompt_tokens'', dget usage ''completion_tokens'')
        else (dget usage ''input_tokens'', dget usage ''output_tokens''))
    in case (as_int p, as_int c) of (Some i, Some j) \<Rightarrow> Some (i, j) | _ \<Rightarrow> None)"

definition reject_unsupported_n :: "string \<Rightarrow> model \<Rightarrow> body \<Rightarrow> exc + unit" where
  "reject_unsupported_n operation m request =
    (if operation \<noteq> ''chat.completions'' \<or> honors_n (md_provider m) then Inr ()
     else case as_int (dget request ''n'') of
       Some n \<Rightarrow> if 1 < n then unsupported [provider_value (md_provider m), int_str n] else Inr ()
     | None \<Rightarrow> Inr ())"

definition gemini_usage :: "body \<Rightarrow> exc + body" where
  "gemini_usage response = (let meta = get_or_empty response ''usageMetadata'' in
     rbind (dict_get meta ''promptTokenCount'') (\<lambda>p. rbind (dict_get meta ''candidatesTokenCount'') (\<lambda>c.
     Inr [(''usage'', JObj [(''input_tokens'', p), (''output_tokens'', c)])])))"

text \<open>\<open>_synthetic_chat_chunks\<close>: a stored body as the stream it would have been. \<open>now\<close> is \<open>int(time.time())\<close>.\<close>

fun pieces :: "nat \<Rightarrow> string \<Rightarrow> string list" where
  "pieces 0 s = []"
| "pieces (Suc n) s = (if s = [] then [] else take 20 s # pieces n (drop 20 s))"

definition delta_chunk :: "body \<Rightarrow> body \<Rightarrow> json \<Rightarrow> body" where
  "delta_chunk base delta finish = dict_merge base
     [(''choices'', JList [JObj [(''index'', JInt 0), (''delta'', JObj delta), (''finish_reason'', finish)]])]"

definition synthetic_chat_chunks :: "body \<Rightarrow> model \<Rightarrow> int \<Rightarrow> exc + body list" where
  "synthetic_chat_chunks cached m now =
    rbind (first_of (py_or (dget cached ''choices'') (JList [JObj []]))) (\<lambda>choice.
    rbind (dict_get choice ''message'') (\<lambda>msg.
    rbind (as_dict (py_or msg (JObj []))) (\<lambda>message.
    rbind (dict_get choice ''finish_reason'') (\<lambda>fin.
    let finish = py_or fin (JStr ''stop'');
        base = [(''id'', dget_or cached ''id'' (JStr ''chatcmpl-cache'')), (''object'', JStr ''chat.completion.chunk''),
          (''created'', dget_or cached ''created'' (JInt now)), (''model'', JStr (md_provider_model_id m))];
        opening = delta_chunk base [(''role'', dget_or message ''role'' (JStr ''assistant''))] JNull;
        text = (case dget message ''content'' of JStr s \<Rightarrow> s | _ \<Rightarrow> []);
        tool_calls = dget message ''tool_calls''
    in Inr (opening # map (\<lambda>p. delta_chunk base [(''content'', JStr p)] JNull) (pieces (length text) text) @
         (if truthy tool_calls then [delta_chunk base [(''tool_calls'', tool_calls)] JNull] else []) @
         [delta_chunk base [] finish, dict_merge base [(''choices'', JList []), (''usage'', get_or_empty cached ''usage'')]])))))"

section \<open>Guardrails around the call\<close>

text \<open>\<open>_traced_block\<close>: a refusal leaves an error trace with zero usage.\<close>

definition traced_block :: "'c services \<Rightarrow> call_info \<Rightarrow> dispatch_now \<Rightarrow> (exc + 'a) \<Rightarrow> ('st, 'c) world \<Rightarrow> (exc + 'a) \<times> ('st, 'c) world" where
  "traced_block sv ci dn result w = (case result of
     Inr x \<Rightarrow> (Inr x, w)
   | Inl e \<Rightarrow> (Inl e, if exc_isinstance e (Request GuardrailBlocked)
       then w\<lparr>wd_books := trace_error ci (dn_latency dn) (sv_error_name sv e) 0 0 dec_zero (dn_now dn) (wd_books w)\<rparr> else w))"

text \<open>Judge a text, and put a redaction back if it can be.\<close>

definition screened :: "'c services \<Rightarrow> chained_guard list \<Rightarrow> direction \<Rightarrow> (exc + string) \<Rightarrow> body \<Rightarrow> (body \<Rightarrow> bool) \<Rightarrow>
    (body \<Rightarrow> string \<Rightarrow> exc + body) \<Rightarrow> exc + body" where
  "screened sv chain d text b can_redact redact =
    rbind text (\<lambda>t. rbind (run_chain (sv_error_name sv) chain \<lparr>gp_direction = d, gp_text = t, gp_raw = b\<rparr>) (\<lambda>out.
     if \<not> redacted out then Inr b else if \<not> can_redact b then guardrail_blocked [''cannot be rewritten'']
     else redact b (co_text out)))"

definition guarded :: "'c services \<Rightarrow> call_info \<Rightarrow> dispatch_now \<Rightarrow> direction \<Rightarrow> uuid option \<Rightarrow> (exc + string) \<Rightarrow> body \<Rightarrow>
    (body \<Rightarrow> bool) \<Rightarrow> (body \<Rightarrow> string \<Rightarrow> exc + body) \<Rightarrow> ('st, 'c) world \<Rightarrow> (exc + body) \<times> ('st, 'c) world" where
  "guarded sv ci dn d router text b can_redact redact w = (case sv_guardrails sv of
     None \<Rightarrow> (Inr b, w)
   | Some resolve \<Rightarrow> (case resolve (ci_team_id ci) (ci_api_key_id ci) (ci_model ci) d router of
       Inl e \<Rightarrow> (Inl e, w)
     | Inr chain \<Rightarrow> if chain = [] then (Inr b, w)
         else traced_block sv ci dn (screened sv chain d text b can_redact redact) w))"

definition guard_request :: "'c services \<Rightarrow> call_info \<Rightarrow> dispatch_now \<Rightarrow> body \<Rightarrow> uuid option \<Rightarrow> ('st, 'c) world \<Rightarrow>
    (exc + body) \<times> ('st, 'c) world" where
  "guard_request sv ci dn request router = guarded sv ci dn Request_Side router (Inr (guard_request_text request)) request
     can_redact_request (\<lambda>r t. Inr (redact_request r t))"

definition guard_response :: "'c services \<Rightarrow> call_info \<Rightarrow> dispatch_now \<Rightarrow> body \<Rightarrow> uuid option \<Rightarrow> ('st, 'c) world \<Rightarrow>
    (exc + body) \<times> ('st, 'c) world" where
  "guard_response sv ci dn response router = guarded sv ci dn Response_Side router (guard_response_text response) response
     can_redact_response redact_response"

definition refuse_stream_when_response_guarded :: "'c services \<Rightarrow> call_info \<Rightarrow> uuid option \<Rightarrow> exc + unit" where
  "refuse_stream_when_response_guarded sv ci router = (case sv_guardrails sv of
     None \<Rightarrow> Inr ()
   | Some resolve \<Rightarrow> rbind (resolve (ci_team_id ci) (ci_api_key_id ci) (ci_model ci) Response_Side router) (\<lambda>chain.
       if chain = [] then Inr () else guardrail_blocked [''streaming'']))"

section \<open>The cache tiers\<close>

text \<open>The embedding of a text, \<open>None\<close> when there is no usable embedder.\<close>

definition embed_for_semantic_cache :: "'c services \<Rightarrow> uuid \<Rightarrow> string \<Rightarrow> exc + json list option" where
  "embed_for_semantic_cache sv team text = (case sv_embedding_model sv of
     None \<Rightarrow> Inr None
   | Some name \<Rightarrow> rbind (sv_model_by_name sv team (JStr name)) (\<lambda>found. case found of
         None \<Rightarrow> Inr None
       | Some m \<Rightarrow> if \<not> md_enabled m \<or> md_type m \<noteq> Embeddings then Inr None
           else rbind (sv_credential sv (md_credential_id m)) (\<lambda>values. if values = None then Inr None
             else rbind (sv_embed sv m text) (\<lambda>response. Inr (case dget response ''data'' of
                 JList (x # _) \<Rightarrow> as_list (oget x ''embedding'')
               | _ \<Rightarrow> None)))))"

definition semantic_scope_of :: "'c services \<Rightarrow> call_info \<Rightarrow> body \<Rightarrow> semantic_scope" where
  "semantic_scope_of sv ci request = derive_semantic_scope (sv_sha sv) (ci_team_id ci) (ci_api_key_id ci) (ci_model ci)
     (ci_operation ci) (merge_params (ci_model ci) request)"

text \<open>Every exception of a cache is a miss, and the store stays as it was.\<close>

definition cache_get_safe :: "'c services \<Rightarrow> cache_key \<Rightarrow> 'c \<Rightarrow> cached_response option \<times> 'c" where
  "cache_get_safe sv k c = (case ch_get (sv_caches sv) c k of Inl e \<Rightarrow> (None, c) | Inr r \<Rightarrow> r)"

definition semantic_get :: "'c services \<Rightarrow> call_info \<Rightarrow> body \<Rightarrow> string \<Rightarrow> 'c \<Rightarrow> cached_response option \<times> 'c" where
  "semantic_get sv ci request text c = (case embed_for_semantic_cache sv (ci_team_id ci) text of
     Inr (Some vector) \<Rightarrow> (case ch_find (sv_caches sv) c (semantic_scope_of sv ci request) vector of
         Inl e \<Rightarrow> (None, c) | Inr r \<Rightarrow> r)
   | _ \<Rightarrow> (None, c))"

text \<open>\<open>usage_view.get("usage") or {}\<close>, read before the guarded part of the writes.\<close>

definition view_tokens :: "body \<Rightarrow> exc + (int \<times> int) option" where
  "view_tokens view = (case get_or_empty view ''usage'' of
     JObj usage \<Rightarrow> Inr (cache_usage_tokens usage)
   | JList vs \<Rightarrow> raise_py AttributeError
   | JStr s \<Rightarrow> raise_py AttributeError
   | _ \<Rightarrow> raise_py TypeError)"

definition cache_put_safe :: "'c services \<Rightarrow> cache_key \<Rightarrow> body \<Rightarrow> body \<Rightarrow> 'c \<Rightarrow> exc + 'c" where
  "cache_put_safe sv k response view c = rbind (view_tokens view) (\<lambda>tokens. Inr (case tokens of
     None \<Rightarrow> c
   | Some (p, q) \<Rightarrow> (case ch_put (sv_caches sv) c k \<lparr>cr_body = response, cr_prompt_tokens = p, cr_completion_tokens = q\<rparr> of
         Inl e \<Rightarrow> c | Inr c' \<Rightarrow> c')))"

definition semantic_put :: "'c services \<Rightarrow> call_info \<Rightarrow> body \<Rightarrow> string \<Rightarrow> body \<Rightarrow> body \<Rightarrow> 'c \<Rightarrow> exc + 'c" where
  "semantic_put sv ci request text response view c = rbind (view_tokens view) (\<lambda>tokens. Inr (case tokens of
     None \<Rightarrow> c
   | Some (p, q) \<Rightarrow> (case embed_for_semantic_cache sv (ci_team_id ci) text of
         Inr (Some vector) \<Rightarrow> (case ch_add (sv_caches sv) c (semantic_scope_of sv ci request) vector
             \<lparr>cr_body = response, cr_prompt_tokens = p, cr_completion_tokens = q\<rparr> of
           Inl e \<Rightarrow> c | Inr c' \<Rightarrow> c')
       | _ \<Rightarrow> c)))"

definition cache_key_for :: "'c services \<Rightarrow> uuid \<Rightarrow> uuid option \<Rightarrow> string \<Rightarrow> body \<Rightarrow> model \<Rightarrow> cache_key option" where
  "cache_key_for sv team key operation request m = (if \<not> sv_response_cache sv then None
     else let effective = merge_params m request in
       if is_cacheable operation effective m then Some (derive_cache_key (sv_sha sv) team key m operation effective) else None)"

definition semantic_text_for :: "'c services \<Rightarrow> string \<Rightarrow> body \<Rightarrow> model \<Rightarrow> string option" where
  "semantic_text_for sv operation request m = (if \<not> sv_semantic_cache sv \<or> sv_embedding_model sv = None then None
     else if is_semantic_cacheable operation request m then extract_semantic_text request else None)"

section \<open>One dispatch\<close>

definition response_counts :: "body \<Rightarrow> exc + (int \<times> int) option" where
  "response_counts response = rbind (as_dict (get_or_empty response ''usage'')) (\<lambda>usage.
     let p = dget_or usage ''prompt_tokens'' (dget usage ''input_tokens'');
         c = dget_or usage ''completion_tokens'' (dget usage ''output_tokens'')
     in Inr (case (index_of p, index_of c) of (Some i, Some j) \<Rightarrow> Some (i, j) | _ \<Rightarrow> None))"

definition attach_routing_usage :: "'c services \<Rightarrow> body \<Rightarrow> ('st, 'c) world \<Rightarrow> exc + ('st, 'c) world" where
  "attach_routing_usage sv response w = rbind (response_counts response) (\<lambda>counts. Inr (case counts of
     Some ij \<Rightarrow> if sv_router_wired sv then w\<lparr>wd_attached := wd_attached w @ [ij]\<rparr> else w
   | None \<Rightarrow> w))"

definition release_held :: "'c services \<Rightarrow> 'st store_ops \<Rightarrow> admission option \<Rightarrow> ('st, 'c) world \<Rightarrow> ('st, 'c) world" where
  "release_held sv so adm w = w\<lparr>wd_store := meter_release (mp_store_wired (sv_ports sv)) (so_release so) (so_faulty so) adm (wd_store w)\<rparr>"

definition dispatch_lookup :: "'c services \<Rightarrow> dispatch_call \<Rightarrow> 'c \<Rightarrow> cached_response option \<times> 'c" where
  "dispatch_lookup sv dc c = (case dc_cache_key dc of
     None \<Rightarrow> (None, c)
   | Some k \<Rightarrow> (case cache_get_safe sv k c of
       (Some r, c') \<Rightarrow> (Some r, c')
     | (None, c') \<Rightarrow> (case dc_semantic_text dc of
         None \<Rightarrow> (None, c') | Some t \<Rightarrow> semantic_get sv (dc_info dc) (dc_request dc) t c')))"

text \<open>A hit: settled at zero cost, released, screened on the way out.\<close>

definition dispatch_hit :: "'c services \<Rightarrow> 'st store_ops \<Rightarrow> dispatch_call \<Rightarrow> dispatch_now \<Rightarrow> cached_response \<Rightarrow> ('st, 'c) world \<Rightarrow>
    (exc + body) \<times> ('st, 'c) world" where
  "dispatch_hit sv so dc dn cached w = (let
      w1 = w\<lparr>wd_books := settle_cache_hit (dc_info dc) (cr_prompt_tokens cached) (cr_completion_tokens cached)
        (dn_latency dn) (dn_write dn) (wd_books w)\<rparr>
    in guard_response sv (dc_info dc) dn (cr_body cached) (dc_router_id dc) (release_held sv so (dc_reservation dc) w1))"

text \<open>The writes to both tiers; the first that cannot read the usage raises.\<close>

definition store_answer :: "'c services \<Rightarrow> dispatch_call \<Rightarrow> body \<Rightarrow> body \<Rightarrow> ('st, 'c) world \<Rightarrow> (exc + body) \<times> ('st, 'c) world" where
  "store_answer sv dc view answer w = (case dc_cache_key dc of
     None \<Rightarrow> (Inr answer, w)
   | Some k \<Rightarrow> (case cache_put_safe sv k answer view (wd_cache w) of
       Inl e \<Rightarrow> (Inl e, w)
     | Inr c1 \<Rightarrow> (case dc_semantic_text dc of
         None \<Rightarrow> (Inr answer, w\<lparr>wd_cache := c1\<rparr>)
       | Some t \<Rightarrow> (case semantic_put sv (dc_info dc) (dc_request dc) t answer view c1 of
           Inl e \<Rightarrow> (Inl e, w\<lparr>wd_cache := c1\<rparr>) | Inr c2 \<Rightarrow> (Inr answer, w\<lparr>wd_cache := c2\<rparr>)))))"

text \<open>What follows the provider's answer, up to the \<open>finally\<close>.\<close>

definition answered :: "'c services \<Rightarrow> dispatch_call \<Rightarrow> dispatch_now \<Rightarrow> body \<Rightarrow> ('st, 'c) world \<Rightarrow> (exc + body) \<times> ('st, 'c) world" where
  "answered sv dc dn response w = (case dc_settle_view dc response of
     Inl e \<Rightarrow> (Inl e, w)
   | Inr view \<Rightarrow> (case settle_ok (sv_ports sv) (dc_info dc) view (dn_latency dn) (Some (dc_request dc)) (dn_write dn)
         (dn_alerts dn) (wd_books w, wd_alerts w) of
       Inl e \<Rightarrow> (Inl e, w)
     | Inr (_, b, r) \<Rightarrow> (let w1 = w\<lparr>wd_books := b, wd_alerts := r\<rparr> in
         case attach_routing_usage sv response w1 of
           Inl e \<Rightarrow> (Inl e, w1)
         | Inr w2 \<Rightarrow> (case guard_response sv (dc_info dc) dn response (dc_router_id dc) w2 of
             (Inl e, w3) \<Rightarrow> (Inl e, w3)
           | (Inr answer, w3) \<Rightarrow> store_answer sv dc view answer w3))))"

text \<open>\<open>UpstreamResponseInvalid\<close> is settled on its billable part; any other failure is only traced.\<close>

definition failed :: "'c services \<Rightarrow> dispatch_call \<Rightarrow> dispatch_now \<Rightarrow> exc \<Rightarrow> ('st, 'c) world \<Rightarrow> (exc + body) \<times> ('st, 'c) world" where
  "failed sv dc dn e w = (if exc_isinstance e (Upstream UpstreamResponseInvalid)
     then (let billable = (case exc_billable e of Some b \<Rightarrow> b | None \<Rightarrow> []) in
       case settle_error (dc_info dc) billable (dn_latency dn) (sv_error_name sv e) (Some (dc_request dc)) (dn_write dn)
           (dn_now dn) (wd_books w) of
         Inl e' \<Rightarrow> (Inl e', w)
       | Inr (_, b) \<Rightarrow> (case attach_routing_usage sv billable (w\<lparr>wd_books := b\<rparr>) of
           Inl e' \<Rightarrow> (Inl e', w\<lparr>wd_books := b\<rparr>) | Inr w' \<Rightarrow> (Inl e, w')))
     else (Inl e, w\<lparr>wd_books := trace_error (dc_info dc) (dn_latency dn) (sv_error_name sv e) 0 0 dec_zero (dn_now dn) (wd_books w)\<rparr>))"

definition dispatch :: "'c services \<Rightarrow> 'st store_ops \<Rightarrow> dispatch_call \<Rightarrow> dispatch_now \<Rightarrow> ('st, 'c) world \<Rightarrow> (exc + body) \<times> ('st, 'c) world" where
  "dispatch sv so dc dn w = (case dispatch_lookup sv dc (wd_cache w) of (cached, c1) \<Rightarrow>
     let w1 = w\<lparr>wd_cache := c1\<rparr> in
     case cached of
       Some r \<Rightarrow> dispatch_hit sv so dc dn r w1
     | None \<Rightarrow> let w2 = w1\<lparr>wd_calls := wd_calls w1 @ [(md_id (ci_model (dc_info dc)), dc_sent dc)]\<rparr> in
         (case (case dc_answer dc of Inl e \<Rightarrow> failed sv dc dn e w2 | Inr response \<Rightarrow> answered sv dc dn response w2) of
            (res, w3) \<Rightarrow> (res, release_held sv so (dc_reservation dc) w3)))"

section \<open>What each step leaves alone\<close>

lemma trace_error_events [simp]: "all_events (trace_error ci latency et p c cost now b) = all_events b"
  by (simp add: trace_error_def)

text \<open>Only the traces of \<open>w'\<close> may differ from those of \<open>w\<close>.\<close>

definition only_traces :: "('st, 'c) world \<Rightarrow> ('st, 'c) world \<Rightarrow> bool" where
  "only_traces w w' \<longleftrightarrow> all_events (wd_books w') = all_events (wd_books w) \<and> wd_alerts w' = wd_alerts w \<and> wd_store w' = wd_store w \<and>
     wd_cache w' = wd_cache w \<and> wd_calls w' = wd_calls w \<and> wd_attached w' = wd_attached w \<and> wd_limiter w' = wd_limiter w"

lemma only_traces_refl [simp]: "only_traces w w"
  by (simp add: only_traces_def)

lemma guarded_world: "guarded sv ci dn d router t b cr rd w = (res, w') \<Longrightarrow> only_traces w w'"
  by (auto simp: guarded_def traced_block_def only_traces_def split: option.splits sum.splits if_splits)

lemma guard_response_world: "guard_response sv ci dn b router w = (res, w') \<Longrightarrow> only_traces w w'"
  unfolding guard_response_def by (rule guarded_world)

lemma guard_request_world: "guard_request sv ci dn b router w = (res, w') \<Longrightarrow> only_traces w w'"
  unfolding guard_request_def by (rule guarded_world)

lemma attach_world:
  "attach_routing_usage sv response w = Inr w' \<Longrightarrow>
    wd_books w' = wd_books w \<and> wd_alerts w' = wd_alerts w \<and> wd_store w' = wd_store w \<and> wd_cache w' = wd_cache w \<and> wd_calls w' = wd_calls w"
  by (auto simp: attach_routing_usage_def split: option.splits)

text \<open>The cache after storing bodies of \<open>B\<close> only.\<close>

inductive stored_bodies :: "'c services \<Rightarrow> body set \<Rightarrow> 'c \<Rightarrow> 'c \<Rightarrow> bool" for sv :: "'c services" and B :: "body set" where
  sb_same: "stored_bodies sv B c c"
| sb_put: "stored_bodies sv B c c1 \<Longrightarrow> ch_put (sv_caches sv) c1 k r = Inr c2 \<Longrightarrow> cr_body r \<in> B \<Longrightarrow> stored_bodies sv B c c2"
| sb_add: "stored_bodies sv B c c1 \<Longrightarrow> ch_add (sv_caches sv) c1 scope v r = Inr c2 \<Longrightarrow> cr_body r \<in> B \<Longrightarrow> stored_bodies sv B c c2"

lemma cache_put_safe_stores:
  "cache_put_safe sv k response view c = Inr c' \<Longrightarrow> stored_bodies sv {response} c c'"
  by (cases "view_tokens view")
    (auto simp: cache_put_safe_def split: option.split_asm sum.split_asm,
      (rule sb_same | (rule sb_put [OF sb_same], assumption, simp))+)

lemma semantic_put_stores:
  assumes "stored_bodies sv {response} c c1" "semantic_put sv ci request t response view c1 = Inr c2"
  shows "stored_bodies sv {response} c c2"
  using assms
  by (cases "view_tokens view")
    (auto simp: semantic_put_def split: option.split_asm sum.split_asm, (rule sb_add [OF assms(1)], assumption, simp)+)

lemma view_tokens_both:
  "cache_put_safe sv k answer view c = Inr c1 \<Longrightarrow> \<exists>c2. semantic_put sv ci request t answer view c1 = Inr c2"
  by (auto simp: cache_put_safe_def semantic_put_def)

lemma store_answer_world:
  assumes "store_answer sv dc view answer w = (res, w')"
  shows "wd_books w' = wd_books w \<and> wd_store w' = wd_store w \<and> wd_calls w' = wd_calls w \<and>
    (case res of Inl e \<Rightarrow> wd_cache w' = wd_cache w | Inr b \<Rightarrow> b = answer \<and> stored_bodies sv {answer} (wd_cache w) (wd_cache w'))"
proof (cases "dc_cache_key dc")
  case None
  with assms show ?thesis by (auto simp: store_answer_def intro: sb_same)
next
  case (Some k)
  show ?thesis
  proof (cases "cache_put_safe sv k answer view (wd_cache w)")
    case (Inl e)
    with Some assms show ?thesis by (auto simp: store_answer_def)
  next
    case (Inr c1)
    note s = cache_put_safe_stores [OF Inr]
    show ?thesis
    proof (cases "dc_semantic_text dc")
      case None
      with Some Inr assms s show ?thesis by (auto simp: store_answer_def)
    next
      case (Some t)
      obtain c2 where c2: "semantic_put sv (dc_info dc) (dc_request dc) t answer view c1 = Inr c2"
        using view_tokens_both [OF Inr] by blast
      with \<open>dc_cache_key dc = Some k\<close> Inr Some assms semantic_put_stores [OF s c2] show ?thesis
        by (auto simp: store_answer_def)
    qed
  qed
qed

section \<open>The books of a dispatch\<close>

text \<open>What came of the provider's answer: the events added, the cache, and the result.\<close>

lemma answered_effect:
  fixes w w' :: "('st, 'c) world"
  assumes "answered sv dc dn response w = (res, w')"
  shows "wd_store w' = wd_store w \<and> wd_calls w' = wd_calls w \<and>
    (\<exists>evs. all_events (wd_books w') = all_events (wd_books w) + mset evs \<and> length evs \<le> 1 \<and>
      (evs = [] \<longrightarrow> (\<exists>e. res = Inl e \<and> (dc_settle_view dc response = Inl e \<or> (\<exists>view. dc_settle_view dc response = Inr view \<and>
        settle_ok (sv_ports sv) (dc_info dc) view (dn_latency dn) (Some (dc_request dc)) (dn_write dn) (dn_alerts dn)
          (wd_books w, wd_alerts w) = Inl e))))) \<and>
    (case res of Inl e \<Rightarrow> wd_cache w' = wd_cache w | Inr b \<Rightarrow> stored_bodies sv {b} (wd_cache w) (wd_cache w') \<and>
      (\<exists>u u' :: ('st, 'c) world. guard_response sv (dc_info dc) dn response (dc_router_id dc) u = (Inr b, u')))"
proof (cases "dc_settle_view dc response")
  case (Inl e)
  with assms have "res = Inl e" "w' = w" by (simp_all add: answered_def)
  with Inl show ?thesis by (simp add: exI [of _ "[]"])
next
  case (Inr view)
  note v = Inr
  let ?s = "settle_ok (sv_ports sv) (dc_info dc) view (dn_latency dn) (Some (dc_request dc)) (dn_write dn) (dn_alerts dn) (wd_books w, wd_alerts w)"
  show ?thesis
  proof (cases ?s)
    case (Inl e)
    with v assms have "res = Inl e" "w' = w" by (simp_all add: answered_def)
    with v Inl show ?thesis by (simp add: exI [of _ "[]"])
  next
    case (Inr settled)
    obtain p c cost b r where s: "settled = ((p, c, cost), b, r)" by (metis prod.exhaust)
    obtain ev where ev: "all_events b = add_mset ev (all_events (wd_books w))"
      using settle_ok_books(1) [OF Inr [unfolded s]] by blast
    let ?w1 = "w\<lparr>wd_books := b, wd_alerts := r\<rparr>"
    have "wd_store w' = wd_store w \<and> wd_calls w' = wd_calls w \<and> all_events (wd_books w') = all_events b \<and>
      (case res of Inl e \<Rightarrow> wd_cache w' = wd_cache w | Inr b \<Rightarrow> stored_bodies sv {b} (wd_cache w) (wd_cache w') \<and>
        (\<exists>u u' :: ('st, 'c) world. guard_response sv (dc_info dc) dn response (dc_router_id dc) u = (Inr b, u')))"
    proof (cases "attach_routing_usage sv response ?w1")
      case (Inl e)
      with v Inr s assms show ?thesis by (auto simp: answered_def Let_def)
    next
      case (Inr w2)
      note a = attach_world [OF Inr]
      obtain g w3 where g: "guard_response sv (dc_info dc) dn response (dc_router_id dc) w2 = (g, w3)" by fastforce
      note o3 = guard_response_world [OF g, unfolded only_traces_def]
      show ?thesis
      proof (cases g)
        case (Inl e)
        with v \<open>?s = Inr settled\<close> s Inr a g o3 assms show ?thesis by (auto simp: answered_def Let_def)
      next
        case (Inr answer)
        with v \<open>?s = Inr settled\<close> s \<open>attach_routing_usage sv response ?w1 = Inr w2\<close> g assms
        have st: "store_answer sv dc view answer w3 = (res, w')" by (simp add: answered_def Let_def)
        have "\<exists>u u' :: ('st, 'c) world. guard_response sv (dc_info dc) dn response (dc_router_id dc) u = (Inr answer, u')" using g Inr by blast
        then show ?thesis using store_answer_world [OF st] a o3 by (cases res) auto
      qed
    qed
    with ev show ?thesis by (intro conjI exI [of _ "[ev]"]) auto
  qed
qed

lemma failed_effect:
  assumes "failed sv dc dn e w = (res, w')"
  shows "wd_store w' = wd_store w \<and> wd_calls w' = wd_calls w \<and> wd_cache w' = wd_cache w \<and> (\<exists>e'. res = Inl e') \<and>
    (\<exists>evs. all_events (wd_books w') = all_events (wd_books w) + mset evs \<and> length evs \<le> 1 \<and>
      (\<not> exc_isinstance e (Upstream UpstreamResponseInvalid) \<longrightarrow> evs = [] \<and> res = Inl e))"
proof (cases "exc_isinstance e (Upstream UpstreamResponseInvalid)")
  case False
  with assms have "res = Inl e" "all_events (wd_books w') = all_events (wd_books w)" "wd_store w' = wd_store w"
    "wd_calls w' = wd_calls w" "wd_cache w' = wd_cache w" by (auto simp: failed_def)
  then show ?thesis by (intro conjI exI [of _ "[]"]) simp_all
next
  case True
  let ?b = "case exc_billable e of Some b \<Rightarrow> b | None \<Rightarrow> []"
  let ?s = "settle_error (dc_info dc) ?b (dn_latency dn) (sv_error_name sv e) (Some (dc_request dc)) (dn_write dn) (dn_now dn) (wd_books w)"
  show ?thesis
  proof (cases ?s)
    case (Inl e')
    with True assms have "res = Inl e'" "w' = w" by (simp_all add: failed_def)
    with True show ?thesis by (simp add: exI [of _ "[]"])
  next
    case (Inr settled)
    obtain p c cost b where s: "settled = ((p, c, cost), b)" by (metis prod.exhaust)
    obtain ev where ev: "all_events b = add_mset ev (all_events (wd_books w))"
      using settle_error_books(1) [OF Inr [unfolded s]] by blast
    have eq: "failed sv dc dn e w = (case attach_routing_usage sv ?b (w\<lparr>wd_books := b\<rparr>) of
        Inl e' \<Rightarrow> (Inl e', w\<lparr>wd_books := b\<rparr>) | Inr w' \<Rightarrow> (Inl e, w'))"
      by (simp add: failed_def True Let_def Inr [unfolded s])
    have "(\<exists>e'. res = Inl e') \<and> wd_store w' = wd_store w \<and> wd_calls w' = wd_calls w \<and> wd_cache w' = wd_cache w \<and> wd_books w' = b"
    proof (cases "attach_routing_usage sv ?b (w\<lparr>wd_books := b\<rparr>)")
      case (Inl e')
      with eq assms show ?thesis by auto
    next
      case (Inr w2)
      with eq assms attach_world [OF Inr] show ?thesis by simp
    qed
    with ev True show ?thesis by (intro conjI exI [of _ "[ev]"]) simp_all
  qed
qed

lemma dispatch_hit_effect:
  assumes "dispatch_hit sv so dc dn cached w = (res, w')"
  shows "wd_store w' = meter_release (mp_store_wired (sv_ports sv)) (so_release so) (so_faulty so) (dc_reservation dc) (wd_store w) \<and>
    wd_calls w' = wd_calls w \<and> wd_cache w' = wd_cache w \<and>
    (\<exists>ev. all_events (wd_books w') = add_mset ev (all_events (wd_books w)) \<and> ev_cost ev = dec_zero \<and> ev_cache_hit ev)"
proof -
  let ?b = "settle_cache_hit (dc_info dc) (cr_prompt_tokens cached) (cr_completion_tokens cached) (dn_latency dn) (dn_write dn) (wd_books w)"
  have g: "guard_response sv (dc_info dc) dn (cr_body cached) (dc_router_id dc)
      (release_held sv so (dc_reservation dc) (w\<lparr>wd_books := ?b\<rparr>)) = (res, w')"
    using assms by (simp add: dispatch_hit_def Let_def)
  obtain ev where "all_events ?b = add_mset ev (all_events (wd_books w))" "ev_cost ev = dec_zero" "ev_cache_hit ev"
    using settle_cache_hit_books by blast
  then show ?thesis using guard_response_world [OF g] by (auto simp: only_traces_def release_held_def)
qed

text \<open>The body of a dispatch, before the \<open>finally\<close> that releases.\<close>

lemma dispatch_miss:
  assumes "dispatch sv so dc dn w = (res, w')" "dispatch_lookup sv dc (wd_cache w) = (None, c1)"
  obtains w2 w3 where "w2 = w\<lparr>wd_cache := c1, wd_calls := wd_calls w @ [(md_id (ci_model (dc_info dc)), dc_sent dc)]\<rparr>"
    "w' = release_held sv so (dc_reservation dc) w3"
    "(case dc_answer dc of Inl e \<Rightarrow> failed sv dc dn e w2 | Inr response \<Rightarrow> answered sv dc dn response w2) = (res, w3)"
  using assms by (auto simp: dispatch_def Let_def split: prod.splits)

text \<open>
  C1. Whatever happens to a call - a cache hit, an answer, an unusable answer that still costs, any
  other failure, a refusal by the guardrails, a settlement that raises - its reservation is
  released once. An answer that reaches the caller has been billed by exactly one event, at no cost
  when it came from the cache and without calling a provider; an answer the guardrails withhold has
  been billed too; and a call that failed for a reason other than an unusable answer is not billed.
\<close>

theorem dispatch_settles_once:
  assumes "dispatch sv so dc dn w = (res, w')"
  shows "wd_store w' = meter_release (mp_store_wired (sv_ports sv)) (so_release so) (so_faulty so) (dc_reservation dc) (wd_store w) \<and>
    (\<exists>evs. all_events (wd_books w') = all_events (wd_books w) + mset evs \<and> length evs \<le> 1 \<and>
      ((\<exists>b. res = Inr b) \<longrightarrow> length evs = 1) \<and>
      (if fst (dispatch_lookup sv dc (wd_cache w)) \<noteq> None
       then length evs = 1 \<and> (\<forall>ev \<in> set evs. ev_cost ev = dec_zero \<and> ev_cache_hit ev) \<and> wd_calls w' = wd_calls w
       else wd_calls w' = wd_calls w @ [(md_id (ci_model (dc_info dc)), dc_sent dc)] \<and>
         (case dc_answer dc of
            Inl e \<Rightarrow> (exc_isinstance e (Upstream UpstreamResponseInvalid) \<or> evs = [] \<and> res = Inl e)
          | Inr response \<Rightarrow> evs = [] \<longrightarrow> (\<exists>e. dc_settle_view dc response = Inl e \<or> (\<exists>view. dc_settle_view dc response = Inr view \<and>
              settle_ok (sv_ports sv) (dc_info dc) view (dn_latency dn) (Some (dc_request dc)) (dn_write dn) (dn_alerts dn)
                (wd_books w, wd_alerts w) = Inl e)))))"
proof -
  obtain cached c1 where l: "dispatch_lookup sv dc (wd_cache w) = (cached, c1)" by fastforce
  show ?thesis
  proof (cases cached)
    case (Some r)
    with l assms have h: "dispatch_hit sv so dc dn r (w\<lparr>wd_cache := c1\<rparr>) = (res, w')" by (simp add: dispatch_def)
    from dispatch_hit_effect [OF h] obtain ev where
      "all_events (wd_books w') = add_mset ev (all_events (wd_books w))" "ev_cost ev = dec_zero" "ev_cache_hit ev" by auto
    with dispatch_hit_effect [OF h] l Some show ?thesis by (intro conjI exI [of _ "[ev]"]) auto
  next
    case None
    obtain w2 w3 where w: "w2 = w\<lparr>wd_cache := c1, wd_calls := wd_calls w @ [(md_id (ci_model (dc_info dc)), dc_sent dc)]\<rparr>"
        "w' = release_held sv so (dc_reservation dc) w3"
      and step: "(case dc_answer dc of Inl e \<Rightarrow> failed sv dc dn e w2 | Inr response \<Rightarrow> answered sv dc dn response w2) = (res, w3)"
      using dispatch_miss [OF assms l [unfolded None]] .
    have rel: "wd_store w' = meter_release (mp_store_wired (sv_ports sv)) (so_release so) (so_faulty so) (dc_reservation dc) (wd_store w3)"
      "wd_books w' = wd_books w3" "wd_calls w' = wd_calls w3" by (simp_all add: w(2) release_held_def)
    show ?thesis
    proof (cases "dc_answer dc")
      case (Inl e)
      with step have f: "failed sv dc dn e w2 = (res, w3)" by simp
      from failed_effect [OF f] obtain evs where "all_events (wd_books w3) = all_events (wd_books w) + mset evs" "length evs \<le> 1"
        "\<not> exc_isinstance e (Upstream UpstreamResponseInvalid) \<longrightarrow> evs = [] \<and> res = Inl e" by (auto simp: w(1))
      with failed_effect [OF f] rel Inl l None show ?thesis by (intro conjI exI [of _ evs]) (auto simp: w(1))
    next
      case (Inr response)
      with step have a: "answered sv dc dn response w2 = (res, w3)" by simp
      from answered_effect [OF a] obtain evs where evs: "all_events (wd_books w3) = all_events (wd_books w) + mset evs" "length evs \<le> 1"
        "evs = [] \<longrightarrow> (\<exists>e. res = Inl e \<and> (dc_settle_view dc response = Inl e \<or> (\<exists>view. dc_settle_view dc response = Inr view \<and>
          settle_ok (sv_ports sv) (dc_info dc) view (dn_latency dn) (Some (dc_request dc)) (dn_write dn) (dn_alerts dn)
            (wd_books w, wd_alerts w) = Inl e)))" by (auto simp: w(1))
      have "length evs = 1" if "res = Inr b" for b using evs(2,3) that by (cases evs) auto
      with evs answered_effect [OF a] rel Inr l None show ?thesis by (intro conjI exI [of _ evs]) (auto simp: w(1))
    qed
  qed
qed

section \<open>What the guardrails refuse, nobody gets\<close>

text \<open>
  C10. On a miss, the cache only ever changes by storing the body that the caller is given, and that
  body is what the response guardrails let through of the provider's answer: an answer they refuse
  or rewrite is never stored as it came, and a call that fails stores nothing.
\<close>

theorem refused_answer_never_cached:
  fixes w w' :: "('st, 'c) world"
  assumes "dispatch sv so dc dn w = (res, w')" "dispatch_lookup sv dc (wd_cache w) = (None, c1)"
  shows "(case res of
      Inl e \<Rightarrow> wd_cache w' = c1
    | Inr b \<Rightarrow> stored_bodies sv {b} c1 (wd_cache w') \<and>
        (\<exists>response. dc_answer dc = Inr response \<and>
          (\<exists>u u' :: ('st, 'c) world. guard_response sv (dc_info dc) dn response (dc_router_id dc) u = (Inr b, u'))))"
proof -
  obtain w2 w3 where w: "w2 = w\<lparr>wd_cache := c1, wd_calls := wd_calls w @ [(md_id (ci_model (dc_info dc)), dc_sent dc)]\<rparr>"
      "w' = release_held sv so (dc_reservation dc) w3"
    and step: "(case dc_answer dc of Inl e \<Rightarrow> failed sv dc dn e w2 | Inr response \<Rightarrow> answered sv dc dn response w2) = (res, w3)"
    using dispatch_miss [OF assms] .
  have cache: "wd_cache w' = wd_cache w3" "wd_cache w2 = c1" by (simp_all add: w release_held_def)
  show ?thesis
  proof (cases "dc_answer dc")
    case (Inl e)
    with step have "failed sv dc dn e w2 = (res, w3)" by simp
    from failed_effect [OF this] cache show ?thesis by (cases res) simp_all
  next
    case (Inr response)
    with step have "answered sv dc dn response w2 = (res, w3)" by simp
    from answered_effect [OF this] cache Inr show ?thesis by (cases res) simp_all
  qed
qed

lemma guarded_outcome:
  assumes "sv_guardrails sv = Some resolve" "resolve (ci_team_id ci) (ci_api_key_id ci) (ci_model ci) d router = Inr chain"
    "chain \<noteq> []" "guarded sv ci dn d router (Inr t) b can_redact redact w = (Inr b', w')"
  obtains out where "run_chain (sv_error_name sv) chain \<lparr>gp_direction = d, gp_text = t, gp_raw = b\<rparr> = Inr out"
    "if redacted out then can_redact b \<and> redact b (co_text out) = Inr b' else b' = b"
proof -
  have "screened sv chain d (Inr t) b can_redact redact = Inr b'"
    using assms by (auto simp: guarded_def traced_block_def split: sum.split_asm)
  then show thesis
    using that by (cases "run_chain (sv_error_name sv) chain \<lparr>gp_direction = d, gp_text = t, gp_raw = b\<rparr>")
      (auto simp: screened_def split: if_split_asm)
qed

text \<open>
  A request that gets past the guardrails of its call is one its whole chain has seen and none has
  refused; where one of them redacted, what goes on to the provider reads as the chain left it, and
  otherwise it is the request unchanged. (For the body shapes whose judged text and rewritten text
  are the same place.)
\<close>

theorem guarded_request_is_approved:
  assumes "sv_guardrails sv = Some resolve" "resolve (ci_team_id ci) (ci_api_key_id ci) (ci_model ci) Request_Side router = Inr chain"
    "chain \<noteq> []" "guard_request sv ci dn request router w = (Inr b, w')"
    "last_user_message request = None \<Longrightarrow> \<not> is_list (dget request ''input'')"
  shows "\<exists>out. run_chain (sv_error_name sv) chain \<lparr>gp_direction = Request_Side, gp_text = guard_request_text request, gp_raw = request\<rparr> = Inr out \<and>
    (if redacted out then guard_request_text b = co_text out else b = request)"
proof -
  obtain out where out: "run_chain (sv_error_name sv) chain \<lparr>gp_direction = Request_Side, gp_text = guard_request_text request, gp_raw = request\<rparr> = Inr out"
    "if redacted out then can_redact_request request \<and> Inr (redact_request request (co_text out)) = (Inr b :: exc + body) else b = request"
    using guarded_outcome [OF assms(1-3) assms(4) [unfolded guard_request_def]] .
  then show ?thesis using redacted_request_text [OF _ assms(5)] by (intro exI [of _ out]) auto
qed

section \<open>A dispatch in full\<close>

text \<open>A service with one guardrail, no caches, and a store of claims.\<close>

definition sample_services :: "unit services" where
  "sample_services = \<lparr>sv_ports = sample_ports,
     sv_guardrails = Some (\<lambda>_ _ _ _ _. Inr [digit_redactor]),
     sv_caches = \<lparr>ch_get = (\<lambda>c _. Inr (None, c)), ch_put = (\<lambda>c _ _. Inr c), ch_find = (\<lambda>c _ _. Inr (None, c)), ch_add = (\<lambda>c _ _ _. Inr c)\<rparr>,
     sv_response_cache = False, sv_semantic_cache = False, sv_embedding_model = None, sv_model_by_name = (\<lambda>_ _. Inr None),
     sv_credential = (\<lambda>_. Inr None), sv_embed = (\<lambda>_ _. raise_py ValueError), sv_router_wired = False,
     sv_sha = (\<lambda>s. s), sv_error_name = (\<lambda>_. ''E'')\<rparr>"

definition memory_store :: "mem_store store_ops" where
  "memory_store = \<lparr>so_reserve = try_reserve, so_release = release, so_faulty = (\<lambda>_. False)\<rparr>"

definition sample_dispatch :: "(exc + body) \<Rightarrow> dispatch_call" where
  "sample_dispatch answer = \<lparr>dc_info = sample_call_info, dc_request = sample_request, dc_sent = sample_request, dc_answer = answer,
     dc_reservation = None, dc_settle_view = Inr, dc_cache_key = None, dc_semantic_text = None, dc_router_id = None\<rparr>"

definition sample_now :: dispatch_now where
  "sample_now = \<lparr>dn_latency = 5, dn_write = sample_write, dn_alerts = no_alerts, dn_now = wn_now sample_write\<rparr>"

definition sample_world :: "(mem_store, unit) world" where
  "sample_world = \<lparr>wd_books = empty_books, wd_alerts = no_rows, wd_store = [], wd_cache = (), wd_calls = [], wd_attached = [], wd_limiter = empty_limiter\<rparr>"

lemma sample_dispatch_settles:
  "\<exists>b r. settle_ok sample_ports sample_call_info sample_response 5 (Some sample_request) sample_write no_alerts (empty_books, no_rows) =
     Inr ((1, 10, Dec 103 (-6)), b, r)"
proof -
  have u: "response_billable priced_model sample_response (Some sample_request) = Inr (no_usage\<lparr>prompt_tokens := 1, completion_tokens := 10\<rparr>)"
    by code_simp
  have c: "compute_cost (no_usage\<lparr>prompt_tokens := 1, completion_tokens := 10\<rparr>) demo_rates = Inr (Dec 103 (-6))" by code_simp
  have m: "ci_model sample_call_info = priced_model" by (simp add: sample_call_info_def)
  show ?thesis by (simp add: settle_ok_def settle_usage_def m u c sample_rates Let_def)
qed

lemma sample_lookup: "dispatch_lookup sample_services (sample_dispatch answer) c = (None, ())"
  by (simp add: dispatch_lookup_def sample_dispatch_def)

theorem dispatch_settles_once_witness:
  "\<exists>ev. all_events (wd_books (snd (dispatch sample_services memory_store (sample_dispatch (Inr sample_response)) sample_now sample_world))) =
     {#ev#}"
proof -
  obtain res w' where d: "dispatch sample_services memory_store (sample_dispatch (Inr sample_response)) sample_now sample_world = (res, w')"
    by fastforce
  obtain b r where s: "settle_ok sample_ports sample_call_info sample_response 5 (Some sample_request) sample_write no_alerts (empty_books, no_rows) =
      Inr ((1, 10, Dec 103 (-6)), b, r)" using sample_dispatch_settles by blast
  then have "settle_ok (sv_ports sample_services) (dc_info (sample_dispatch (Inr sample_response))) sample_response (dn_latency sample_now)
      (Some (dc_request (sample_dispatch (Inr sample_response)))) (dn_write sample_now) (dn_alerts sample_now)
      (wd_books sample_world, wd_alerts sample_world) = Inr ((1, 10, Dec 103 (-6)), b, r)"
    and "\<And>v. dc_settle_view (sample_dispatch (Inr sample_response)) v = Inr v" "dc_answer (sample_dispatch (Inr sample_response)) = Inr sample_response"
    by (simp_all add: sample_dispatch_def sample_services_def sample_world_def sample_now_def)
  with dispatch_settles_once [OF d] obtain evs where "all_events (wd_books w') = all_events (wd_books sample_world) + mset evs"
      "length evs \<le> 1" "evs = [] \<longrightarrow> False"
    by (auto simp: sample_lookup)
  moreover have "all_events (wd_books sample_world) = {#}" by (simp add: sample_world_def empty_books_def all_events_def)
  ultimately show ?thesis using d by (cases evs) auto
qed

theorem refused_answer_never_cached_witness:
  "case fst (dispatch sample_services memory_store (sample_dispatch (Inl (Builtin ValueError))) sample_now sample_world) of
     Inl e \<Rightarrow> wd_cache (snd (dispatch sample_services memory_store (sample_dispatch (Inl (Builtin ValueError))) sample_now sample_world)) = ()
   | Inr b \<Rightarrow> False"
proof -
  obtain res w' where d: "dispatch sample_services memory_store (sample_dispatch (Inl (Builtin ValueError))) sample_now sample_world = (res, w')"
    by fastforce
  from refused_answer_never_cached [OF d sample_lookup] d show ?thesis
    by (cases res) (auto simp: sample_dispatch_def)
qed

theorem guarded_request_is_approved_witness:
  "\<exists>b. fst (guard_request sample_services sample_call_info sample_now guarded_request None sample_world) = Inr b \<and>
     guard_request_text b = ''call me at ''"
proof -
  obtain res w' where g: "guard_request sample_services sample_call_info sample_now guarded_request None sample_world = (res, w')" by fastforce
  have tx: "guard_request_text guarded_request = ''call me at 555''" "can_redact_request guarded_request" by code_simp+
  have run: "run_chain (\<lambda>_. ''E'') [digit_redactor] \<lparr>gp_direction = Request_Side, gp_text = ''call me at 555'', gp_raw = guarded_request\<rparr> =
      Inr \<lparr>co_text = ''call me at '', co_verdicts = [(plain_verdict Redact ''pii'')\<lparr>vd_redacted_text := Some ''call me at ''\<rparr>]\<rparr>" by code_simp
  have red: "redacted \<lparr>co_text = ''call me at '', co_verdicts = [(plain_verdict Redact ''pii'')\<lparr>vd_redacted_text := Some ''call me at ''\<rparr>]\<rparr>" by code_simp
  obtain b where b: "res = Inr b"
    using g run red tx by (auto simp: guard_request_def guarded_def sample_services_def screened_def traced_block_def)
  have "last_user_message guarded_request \<noteq> None" by code_simp
  with guarded_request_is_approved [OF _ _ _ g [unfolded b], of "\<lambda>_ _ _ _ _. Inr [digit_redactor]" "[digit_redactor]"] b g run red tx
  show ?thesis by (auto simp: sample_services_def)
qed

end
