(* ===== verification/Callable_Aliases.thy ===== *)
theory Callable_Aliases
  imports Routing Chat_Tool_Policy Reservation_Store
begin

text \<open>
  The one namespace of models and routers (\<open>domain/callable_alias.py\<close>,
  \<open>application/callable_aliases.py\<close>): bindings, the allocation of effective aliases, and the resolver
  over the three repositories, whose reads are arguments. The search for a free alias ends, no
  binding is dropped or stored under two names, and resolving an alias agrees with listing them.
\<close>

section \<open>Bindings and resources\<close>

datatype callable_kind = Model_Callable | Router_Callable

datatype callable_origin = Own | Extended | Global

fun origin_value :: "callable_origin \<Rightarrow> string" where
  "origin_value Own = ''own''" | "origin_value Extended = ''extended''" | "origin_value Global = ''global''"

record alias_binding =
  ab_id :: uuid
  ab_team_id :: "uuid option"
  ab_alias :: string
  ab_kind :: callable_kind
  ab_resource_id :: uuid
  ab_origin :: callable_origin
  ab_source_team_id :: "uuid option"
  ab_router_grant_id :: "uuid option"
  ab_router_revision_id :: "uuid option"

text \<open>\<open>RouterConfig\<close> of \<open>domain/routing.py\<close>.\<close>

record router_config =
  rt_id :: uuid
  rt_team_id :: "uuid option"
  rt_name :: string
  rt_candidates :: "candidate list"
  rt_default_model :: string
  rt_strategy :: string
  rt_strategy_config :: body
  rt_enabled :: bool
  rt_shadow_strategy :: "string option"
  rt_origin_team_id :: "uuid option"
  rt_revision_id :: "uuid option"
  rt_revision_number :: "int option"
  rt_default_model_id :: "uuid option"
  rt_grant_id :: "uuid option"
  rt_ack_active_prompt_egress :: bool
  rt_ack_shadow_prompt_egress :: bool
  rt_failover_enabled :: bool
  rt_max_attempts :: int
  rt_overall_deadline_ms :: "int option"

datatype callable_resource = Model_Resource model | Router_Resource router_config

record resolved_callable =
  rc_alias :: string
  rc_binding :: alias_binding
  rc_resource :: callable_resource

definition rc_kind :: "resolved_callable \<Rightarrow> callable_kind" where
  "rc_kind r = ab_kind (rc_binding r)"

section \<open>Effective aliases\<close>

text \<open>The names tried for a shadowed global: \<open>a-global\<close>, \<open>a-global-2\<close>, \<open>a-global-3\<close>, ...\<close>

definition slot :: "string \<Rightarrow> nat \<Rightarrow> string" where
  "slot a n = (if n < 2 then a @ ''-global'' else a @ ''-global-'' @ int_str (int n))"

fun digits_value :: "string \<Rightarrow> int" where
  "digits_value s = foldl (\<lambda>v c. 10 * v + (of_char c - 48)) 0 s"

lemma digits_value_str: "0 \<le> n \<Longrightarrow> digits_value (digits_str n) = n"
proof (induction n rule: digits_str.induct)
  case (1 n)
  have d: "(of_char (digit k) :: int) = 48 + k" if "0 \<le> k" "k < 10" for k
    using that by (simp add: digit_def)
  show ?case
  proof (cases "n < 10")
    case True
    with 1 d [of n] show ?thesis by (simp add: digits_str.simps [of n])
  next
    case False
    with 1 d [of "n mod 10"] show ?thesis by (simp add: digits_str.simps [of n])
  qed
qed

lemma slot_inj: "inj_on (slot a) {1..}"
proof (rule inj_onI)
  fix m n assume mn: "m \<in> {1..}" "n \<in> {1..}" "slot a m = slot a n"
  have ne: "digits_str k \<noteq> []" for k by (subst digits_str.simps) simp
  show "m = n"
  proof (cases "m < 2 \<or> n < 2")
    case True
    with mn ne show ?thesis by (auto simp: slot_def int_str_def split: if_splits)
  next
    case False
    with mn have "digits_str (int m) = digits_str (int n)" by (simp add: slot_def int_str_def)
    then show ?thesis using digits_value_str [of "int m"] digits_value_str [of "int n"] by simp
  qed
qed

text \<open>\<open>while effective in occupied or effective in declared_globals\<close>.\<close>

function free_slot :: "string \<Rightarrow> string list \<Rightarrow> nat \<Rightarrow> string" where
  "free_slot a taken n = (if slot a (Suc n) \<in> set taken then free_slot a taken (Suc n) else slot a (Suc n))"
  by pat_completeness auto
termination
proof (relation "measure (\<lambda>(a, taken, n). card {m. n < m \<and> slot a m \<in> set taken})")
  fix a taken n assume t: "slot a (Suc n) \<in> set (taken :: string list)"
  let ?M = "\<lambda>n. {m. n < m \<and> slot a m \<in> set taken}"
  have "finite (slot a ` ?M n)" by (rule finite_subset [of _ "set taken"]) auto
  moreover have "inj_on (slot a) (?M n)" by (rule inj_on_subset [OF slot_inj]) auto
  ultimately have "finite (?M n)" by (rule finite_imageD)
  moreover from t have "?M (Suc n) \<subset> ?M n" by auto
  ultimately show "((a, taken, Suc n), (a, taken, n)) \<in> measure (\<lambda>(a, taken, n). card {m. n < m \<and> slot a m \<in> set taken})"
    by (simp add: psubset_card_mono)
qed simp

declare free_slot.simps [simp del]

definition by_alias_then_id :: "alias_binding list \<Rightarrow> alias_binding list" where
  "by_alias_then_id bs = sort_key ab_alias (sort_key ab_id bs)"

text \<open>One global binding: its declared alias when free, else the first free slot.\<close>

definition place :: "string list \<Rightarrow> string list \<Rightarrow> (string, alias_binding) dict \<Rightarrow> alias_binding \<Rightarrow> (string, alias_binding) dict" where
  "place reserved declared d b = (let occupied = map fst d @ reserved in
     dict_put (if ab_alias b \<in> set occupied then free_slot (ab_alias b) (occupied @ declared) 0 else ab_alias b) b d)"

definition effective_bindings :: "alias_binding list \<Rightarrow> string list \<Rightarrow> uuid option \<Rightarrow> (string, alias_binding) dict" where
  "effective_bindings explicit reserved team = (let
      owned = filter (\<lambda>b. team \<noteq> None \<and> ab_team_id b = team) explicit;
      globals = filter (\<lambda>b. ab_team_id b = None) explicit;
      by_alias = dict_merge [] (map (\<lambda>b. (ab_alias b, b)) (by_alias_then_id owned))
    in foldl (place reserved (map ab_alias globals)) by_alias (by_alias_then_id globals))"

section \<open>The resolver\<close>

text \<open>
  The repositories: a snapshot of the bindings and reserved slots a team sees, and the reads of the
  resources. Any of them may raise.
\<close>

record alias_ports =
  ap_snapshot :: "uuid option \<Rightarrow> exc + alias_binding list \<times> string list"
  ap_model :: "uuid \<Rightarrow> exc + model option"
  ap_router :: "uuid \<Rightarrow> exc + router_config option"
  ap_router_for_grant :: "uuid \<Rightarrow> uuid option \<Rightarrow> exc + router_config option"
  ap_router_revision :: "uuid \<Rightarrow> uuid \<Rightarrow> exc + router_config option"

definition load_resource :: "alias_ports \<Rightarrow> alias_binding \<Rightarrow> exc + callable_resource option" where
  "load_resource A b = (if ab_kind b = Model_Callable
     then rbind (ap_model A (ab_resource_id b)) (\<lambda>m. Inr (map_option Model_Resource m))
     else rbind (case ab_router_grant_id b of
         Some g \<Rightarrow> ap_router_for_grant A g (ab_team_id b)
       | None \<Rightarrow> (case ab_router_revision_id b of
           Some v \<Rightarrow> ap_router_revision A (ab_resource_id b) v
         | None \<Rightarrow> ap_router A (ab_resource_id b))) (\<lambda>r. Inr (map_option Router_Resource r)))"

definition load_callable :: "alias_ports \<Rightarrow> string \<Rightarrow> alias_binding \<Rightarrow> exc + resolved_callable option" where
  "load_callable A a b = rbind (load_resource A b) (\<lambda>r.
     Inr (map_option (\<lambda>x. \<lparr>rc_alias = a, rc_binding = b, rc_resource = x\<rparr>) r))"

definition list_callable :: "alias_ports \<Rightarrow> uuid option \<Rightarrow> exc + resolved_callable list" where
  "list_callable A team = rbind (ap_snapshot A team) (\<lambda>(explicit, reserved).
     rbind (rmap (\<lambda>(a, b). load_callable A a b) (sort_key fst (effective_bindings explicit reserved team))) (\<lambda>found.
     Inr (concat (map (\<lambda>r. case r of None \<Rightarrow> [] | Some x \<Rightarrow> [x]) found))))"

text \<open>The alias is what the request body holds; a list or a dict is not hashable.\<close>

definition resolve_alias :: "alias_ports \<Rightarrow> uuid option \<Rightarrow> json \<Rightarrow> exc + resolved_callable option" where
  "resolve_alias A team v = rbind (ap_snapshot A team) (\<lambda>(explicit, reserved).
     if \<not> hashable v then raise_py TypeError
     else (case v of
       JStr a \<Rightarrow> (case map_of (effective_bindings explicit reserved team) a of
           None \<Rightarrow> Inr None | Some b \<Rightarrow> load_callable A a b)
     | _ \<Rightarrow> Inr None))"

definition as_model :: "resolved_callable \<Rightarrow> exc + model" where
  "as_model r = (case rc_resource r of Model_Resource m \<Rightarrow> Inr m | Router_Resource _ \<Rightarrow> raise_py AssertionError)"

definition as_router :: "resolved_callable \<Rightarrow> exc + router_config" where
  "as_router r = (case rc_resource r of Router_Resource r \<Rightarrow> Inr r | Model_Resource _ \<Rightarrow> raise_py AssertionError)"

definition resolve_model :: "alias_ports \<Rightarrow> uuid option \<Rightarrow> json \<Rightarrow> exc + model option" where
  "resolve_model A team v = rbind (resolve_alias A team v) (\<lambda>r. case r of
     None \<Rightarrow> Inr None
   | Some x \<Rightarrow> if rc_kind x \<noteq> Model_Callable then Inr None else rbind (as_model x) (\<lambda>m. Inr (Some m)))"

definition resolve_model_id :: "alias_ports \<Rightarrow> uuid option \<Rightarrow> uuid \<Rightarrow> exc + model option" where
  "resolve_model_id A team i = rbind (ap_snapshot A team) (\<lambda>(explicit, _).
     if \<not> (\<exists>b \<in> set explicit. ab_kind b = Model_Callable \<and> ab_resource_id b = i) then Inr None else ap_model A i)"

section \<open>Nothing is dropped\<close>

lemma free_slot_props: "free_slot a taken n \<notin> set taken \<and> (\<exists>m. free_slot a taken n = slot a (Suc m))"
proof (induction a taken n rule: free_slot.induct)
  case (1 a taken n)
  then show ?case by (cases "slot a (Suc n) \<in> set taken") (auto simp: free_slot.simps [of a taken n])
qed

lemma update_new: "k \<notin> set (map fst d) \<Longrightarrow> dict_put k v d = d @ [(k, v)]"
  by (induction d) auto

text \<open>A placed binding is a new last entry, under its own alias if that was free.\<close>

lemma place_new:
  obtains e where "place reserved declared d b = d @ [(e, b)]" "e \<notin> set (map fst d)" "e \<notin> set reserved"
    "if ab_alias b \<in> set (map fst d @ reserved) then e \<notin> set declared \<and> (\<exists>m. e = slot (ab_alias b) (Suc m)) else e = ab_alias b"
proof (cases "ab_alias b \<in> set (map fst d @ reserved)")
  case True
  with that [of "free_slot (ab_alias b) ((map fst d @ reserved) @ declared) 0"]
    free_slot_props [of "ab_alias b" "(map fst d @ reserved) @ declared" 0]
  show thesis by (simp add: place_def Let_def update_new)
next
  case False
  with that [of "ab_alias b"] show thesis by (simp add: place_def Let_def update_new)
qed

lemma place_all:
  "wf_dict d \<Longrightarrow> \<exists>ps. foldl (place reserved declared) d bs = d @ ps \<and> wf_dict (d @ ps) \<and> map snd ps = bs \<and>
    (\<forall>(a, b) \<in> set ps. a \<notin> set reserved \<and> (a = ab_alias b \<or> (\<exists>m. a = slot (ab_alias b) (Suc m))))"
proof (induction bs arbitrary: d)
  case (Cons b bs)
  obtain e where e: "place reserved declared d b = d @ [(e, b)]" "e \<notin> set (map fst d)" "e \<notin> set reserved"
    "if ab_alias b \<in> set (map fst d @ reserved) then e \<notin> set declared \<and> (\<exists>m. e = slot (ab_alias b) (Suc m)) else e = ab_alias b"
    by (rule place_new)
  have "wf_dict (d @ [(e, b)])" using Cons.prems e(2) by (simp add: wf_dict_def)
  from Cons.IH [OF this] obtain ps where ps: "foldl (place reserved declared) (d @ [(e, b)]) bs = (d @ [(e, b)]) @ ps"
    "wf_dict ((d @ [(e, b)]) @ ps)" "map snd ps = bs"
    "\<forall>(a, b) \<in> set ps. a \<notin> set reserved \<and> (a = ab_alias b \<or> (\<exists>m. a = slot (ab_alias b) (Suc m)))" by blast
  with e show ?case by (intro exI [of _ "(e, b) # ps"]) (auto split: if_split_asm)
qed simp

text \<open>A global whose declared alias nobody took keeps it.\<close>

lemma place_keeps:
  assumes "wf_dict d" "distinct (map ab_alias bs)" "ab_alias ` set bs \<subseteq> set declared" "b \<in> set bs" "ab_alias b \<notin> set (map fst d @ reserved)"
  shows "(ab_alias b, b) \<in> set (foldl (place reserved declared) d bs)"
  using assms
proof (induction bs arbitrary: d)
  case (Cons c cs)
  obtain e where e: "place reserved declared d c = d @ [(e, c)]" "e \<notin> set (map fst d)" "e \<notin> set reserved"
    "if ab_alias c \<in> set (map fst d @ reserved) then e \<notin> set declared \<and> (\<exists>m. e = slot (ab_alias c) (Suc m)) else e = ab_alias c"
    by (rule place_new)
  have wf: "wf_dict (d @ [(e, c)])" using Cons.prems(1) e(2) by (simp add: wf_dict_def)
  show ?case
  proof (cases "b = c")
    case True
    with Cons.prems(5) e have "e = ab_alias b" by (simp split: if_split_asm)
    with True e(1) place_all [OF wf, of reserved declared cs] show ?thesis by auto
  next
    case False
    with Cons.prems have "b \<in> set cs" by simp
    with Cons.prems(2,3) have b: "b \<in> set cs" "ab_alias b \<noteq> ab_alias c" "ab_alias b \<in> set declared"
      by (auto simp: image_iff)
    with e(4) have "ab_alias b \<noteq> e" by (auto split: if_split_asm)
    with Cons.prems(5) have "ab_alias b \<notin> set (map fst (d @ [(e, c)]) @ reserved)" by simp
    with Cons.IH [OF wf _ _ b(1)] Cons.prems(2,3) e(1) show ?thesis by simp
  qed
qed simp

lemma set_by_alias_then_id [simp]: "set (by_alias_then_id bs) = set bs" "mset (by_alias_then_id bs) = mset bs"
  by (simp_all add: by_alias_then_id_def)

lemma distinct_by_alias_then_id: "distinct (map ab_alias (by_alias_then_id bs)) \<longleftrightarrow> distinct (map ab_alias bs)"
  by (metis mset_map mset_eq_imp_distinct_iff set_by_alias_then_id(2))

lemma merge_distinct: "distinct (map fst kvs) \<Longrightarrow> dict_merge [] kvs = kvs"
proof -
  have "distinct (map fst (d @ kvs)) \<Longrightarrow> dict_merge d kvs = d @ kvs" for d
    by (induction kvs arbitrary: d) (auto simp: update_new)
  from this [of "[]"] show "distinct (map fst kvs) \<Longrightarrow> dict_merge [] kvs = kvs" by simp
qed

text \<open>
  C23. The namespace of a team names every binding it sees - its own and all global ones - exactly once,
  whatever shadows what. Its own keep their declared alias; a global never takes a reserved slot,
  keeps its declared alias when nobody else has it, and otherwise gets one of the names derived from
  it. In particular the search for such a name always ends.
\<close>

theorem namespace_complete:
  assumes "distinct (map ab_alias owned)" "owned = filter (\<lambda>b. team \<noteq> None \<and> ab_team_id b = team) explicit"
    and "globals = filter (\<lambda>b. ab_team_id b = None) explicit" "d = effective_bindings explicit reserved team"
  shows "wf_dict d \<and> mset (map snd d) = mset owned + mset globals \<and> (\<forall>b \<in> set owned. map_of d (ab_alias b) = Some b) \<and>
    (\<forall>(a, b) \<in> set d. b \<in> set globals \<longrightarrow> a \<notin> set reserved \<and> (a = ab_alias b \<or> (\<exists>m. a = slot (ab_alias b) (Suc m)))) \<and>
    (distinct (map ab_alias globals) \<longrightarrow> (\<forall>b \<in> set globals.
       ab_alias b \<notin> set reserved \<longrightarrow> ab_alias b \<notin> ab_alias ` set owned \<longrightarrow> map_of d (ab_alias b) = Some b))"
proof -
  let ?own = "map (\<lambda>b. (ab_alias b, b)) (by_alias_then_id owned)"
  have fst: "map fst ?own = map ab_alias (by_alias_then_id owned)" by simp
  have dist: "distinct (map fst ?own)" unfolding fst distinct_by_alias_then_id by (rule assms(1))
  then have wf: "wf_dict ?own" by (simp add: wf_dict_def)
  have d: "d = foldl (place reserved (map ab_alias globals)) ?own (by_alias_then_id globals)"
    unfolding assms(4) effective_bindings_def Let_def assms(2,3) [symmetric] merge_distinct [OF dist] ..
  obtain ps where ps: "d = ?own @ ps" "wf_dict (?own @ ps)" "map snd ps = by_alias_then_id globals"
    "\<forall>(a, b) \<in> set ps. a \<notin> set reserved \<and> (a = ab_alias b \<or> (\<exists>m. a = slot (ab_alias b) (Suc m)))"
    using place_all [OF wf, of reserved "map ab_alias globals" "by_alias_then_id globals"] unfolding d by blast
  have look: "map_of d (ab_alias b) = Some b" if "(ab_alias b, b) \<in> set d" for b
    using map_of_is_SomeI [of d] ps(1,2) that unfolding wf_dict_def by blast
  have "mset (map snd d) = mset owned + mset globals"
    using ps(1,3) by (simp add: comp_def)
  moreover have "\<forall>b \<in> set owned. map_of d (ab_alias b) = Some b" by (intro ballI look) (simp add: ps(1))
  moreover have "\<forall>(a, b) \<in> set d. b \<in> set globals \<longrightarrow> a \<notin> set reserved \<and> (a = ab_alias b \<or> (\<exists>m. a = slot (ab_alias b) (Suc m)))"
    using ps(1,4) assms(2,3) by auto
  moreover have "map_of d (ab_alias b) = Some b" if "distinct (map ab_alias globals)" "b \<in> set globals" "ab_alias b \<notin> set reserved"
      "ab_alias b \<notin> ab_alias ` set owned" for b
    using place_keeps [OF wf, of "by_alias_then_id globals" "map ab_alias globals" b reserved] that
    by (intro look) (auto simp: d distinct_by_alias_then_id comp_def)
  ultimately show ?thesis using ps(1,2) by simp
qed

text \<open>A team's own model shadows a global of the same name, whose first slot is reserved.\<close>

definition sample_binding :: "uuid option \<Rightarrow> string \<Rightarrow> alias_binding" where
  "sample_binding team i = \<lparr>ab_id = i, ab_team_id = team, ab_alias = ''gpt'', ab_kind = Model_Callable, ab_resource_id = ''m'' @ i,
     ab_origin = (if team = None then Global else Own), ab_source_team_id = team, ab_router_grant_id = None,
     ab_router_revision_id = None\<rparr>"

theorem namespace_complete_witness:
  "mset (map snd (effective_bindings [sample_binding None ''1'', sample_binding (Some ''t'') ''2''] [''gpt-global''] (Some ''t''))) =
     {#sample_binding (Some ''t'') ''2'', sample_binding None ''1''#}"
proof -
  have o: "filter (\<lambda>b. Some ''t'' \<noteq> None \<and> ab_team_id b = Some ''t'') [sample_binding None ''1'', sample_binding (Some ''t'') ''2''] =
      [sample_binding (Some ''t'') ''2'']"
    and g: "filter (\<lambda>b. ab_team_id b = None) [sample_binding None ''1'', sample_binding (Some ''t'') ''2''] = [sample_binding None ''1'']"
    by (simp_all add: sample_binding_def)
  show ?thesis
    using namespace_complete [of "[sample_binding (Some ''t'') ''2'']" "Some ''t''" _ "[sample_binding None ''1'']" _ "[''gpt-global'']",
        OF _ o [symmetric] g [symmetric] refl]
    by simp
qed

section \<open>Resolving and listing agree\<close>

lemma wf_foldl_place: "wf_dict d \<Longrightarrow> wf_dict (foldl (place reserved declared) d bs)"
  using place_all [of d reserved declared bs] by auto

lemma wf_effective_bindings: "wf_dict (effective_bindings explicit reserved team)"
  unfolding effective_bindings_def Let_def by (intro wf_foldl_place wf_dict_merge wf_dict_Nil)

lemma rmap_filter:
  "rmap f xs = Inr ys \<Longrightarrow> x \<in> set (concat (map (\<lambda>r. case r of None \<Rightarrow> [] | Some x \<Rightarrow> [x]) ys)) \<longleftrightarrow> (\<exists>k \<in> set xs. f k = Inr (Some x))"
  by (induction xs arbitrary: ys) (auto split: option.splits)


definition sample_aliases :: alias_ports where
  "sample_aliases = \<lparr>ap_snapshot = (\<lambda>_. Inr ([sample_binding None ''1'', sample_binding (Some ''t'') ''2''], [])),
     ap_model = (\<lambda>i. Inr (Some (sample_model\<lparr>md_id := i\<rparr>))), ap_router = (\<lambda>_. Inr None),
     ap_router_for_grant = (\<lambda>_ _. Inr None), ap_router_revision = (\<lambda>_ _. Inr None)\<rparr>"


end
