(* ===== verification/Completion_Prepare.thy ===== *)
theory Completion_Prepare
  imports Completion_Dispatch Callable_Aliases Responses_Policy
begin

text \<open>
  What \<open>CompletionService\<close> (\<open>application/completion_service.py\<close>) does before a provider is called:
  \<open>_prepare\<close> for the OpenAI surface - key rate limit, alias or router, usability, output ceiling,
  validation, guardrails, admission, credentials - and \<open>prepare_native\<close> for the native one, and the
  non-streaming endpoints that dispatch what they return. The choice a routing strategy makes among
  the candidates is an argument. The lemmas show that a call that is not made holds no reservation,
  and what a prepared call is guaranteed to be.
\<close>

section \<open>Resolution\<close>

text \<open>
  The alias resolver (\<open>None\<close> when it is not wired), the enabled router of a name, and the decision of
  \<open>RouterService.route\<close>; reads may raise.
\<close>

type_synonym request_validator = "(model \<Rightarrow> body \<Rightarrow> exc + body) option"

record callable_ports =
  cp_resolver :: "alias_ports option"
  cp_router_by_name :: "uuid \<Rightarrow> json \<Rightarrow> exc + router_config option"
  cp_route :: "router_config \<Rightarrow> body \<Rightarrow> uuid \<Rightarrow> uuid option \<Rightarrow> exc + routing_decision"

definition candidate_model :: "'c services \<Rightarrow> callable_ports \<Rightarrow> uuid \<Rightarrow> candidate \<Rightarrow> exc + model option" where
  "candidate_model sv cp team c = (case cp_resolver cp of
     Some A \<Rightarrow> (case model_id c of
         Some i \<Rightarrow> resolve_model_id A (Some team) i
       | None \<Rightarrow> resolve_model A (Some team) (JStr (model_name c)))
   | None \<Rightarrow> sv_model_by_name sv team (JStr (model_name c)))"

text \<open>The accepted candidates and the refusals of the others, in order.\<close>

fun screen_candidates :: "(candidate \<Rightarrow> exc + model option) \<Rightarrow> string \<Rightarrow> body \<Rightarrow> (model \<Rightarrow> body \<Rightarrow> exc + body) \<Rightarrow> candidate list \<Rightarrow>
    exc + candidate list \<times> exc list" where
  "screen_candidates look op request validate [] = Inr ([], [])"
| "screen_candidates look op request validate (c # cs) = rbind (look c) (\<lambda>found. case found of
     None \<Rightarrow> raise_exc (Catalog ModelNotFound) [model_name c]
   | Some m \<Rightarrow> (case validate m (clamp_output_tokens op request (md_max_output_tokens m)) of
         Inl e \<Rightarrow> if exc_isinstance e (Request UnsupportedOperation)
           then rbind (screen_candidates look op request validate cs) (\<lambda>(accepted, rejected). Inr (accepted, e # rejected)) else Inl e
       | Inr _ \<Rightarrow> rbind (screen_candidates look op request validate cs) (\<lambda>(accepted, rejected). Inr (c # accepted, rejected))))"

definition validated_router :: "'c services \<Rightarrow> callable_ports \<Rightarrow> router_config \<Rightarrow> uuid \<Rightarrow> string \<Rightarrow> body \<Rightarrow> request_validator \<Rightarrow>
    exc + router_config" where
  "validated_router sv cp router team op request validator = (case validator of
     None \<Rightarrow> Inr router
   | Some validate \<Rightarrow> rbind (screen_candidates (candidate_model sv cp team) op request validate (rt_candidates router)) (\<lambda>(accepted, rejected).
       if accepted = [] then (if rejected \<noteq> [] then Inl (hd rejected) else Inr router)
       else if length accepted = length (rt_candidates router) then Inr router
       else let d = (case find (\<lambda>c. model_name c = rt_default_model router) accepted of Some c \<Rightarrow> c | None \<Rightarrow> hd accepted)
         in Inr (router\<lparr>rt_candidates := accepted, rt_default_model := model_name d, rt_default_model_id := model_id d\<rparr>)))"

definition ensure_usable :: "model option \<Rightarrow> json \<Rightarrow> model_type \<Rightarrow> exc + model" where
  "ensure_usable found alias expected = (case found of
     None \<Rightarrow> raise_exc (Catalog ModelNotFound) [py_str alias]
   | Some m \<Rightarrow> if \<not> md_enabled m then raise_exc (Catalog ModelDisabled) [md_name m]
       else if md_type m \<noteq> expected then raise_exc (Catalog ModelTypeMismatch) [md_name m]
       else Inr m)"

definition usage_attribution :: "uuid \<Rightarrow> json \<Rightarrow> model \<Rightarrow> resolved_callable option \<Rightarrow> attribution" where
  "usage_attribution team alias m resolved = (case resolved of
     Some r \<Rightarrow> \<lparr>at_requested_alias = as_str alias, at_callable_origin = Some (origin_value (ab_origin (rc_binding r))),
         at_source_team_id = ab_source_team_id (rc_binding r)\<rparr>
   | None \<Rightarrow> \<lparr>at_requested_alias = as_str alias,
         at_callable_origin = Some (if md_team_id m = None then ''global'' else if md_team_id m = Some team then ''own'' else ''extended''),
         at_source_team_id = (case md_origin_team_id m of Some t \<Rightarrow> Some t | None \<Rightarrow> md_team_id m)\<rparr>)"

text \<open>A router in place of a model: screened, decided, and the decision looked up.\<close>

type_synonym routed = "(router_config \<times> routing_decision) option"

definition route_through :: "'c services \<Rightarrow> callable_ports \<Rightarrow> uuid \<Rightarrow> uuid option \<Rightarrow> string \<Rightarrow> body \<Rightarrow> request_validator \<Rightarrow>
    (routing_decision \<Rightarrow> exc + model option) \<Rightarrow> router_config \<Rightarrow> exc + model option \<times> routed" where
  "route_through sv cp team key op request validator pick router =
    rbind (validated_router sv cp router team op request validator) (\<lambda>screened.
    rbind (cp_route cp screened request team key) (\<lambda>decision.
    rbind (pick decision) (\<lambda>m. Inr (m, Some (screened, decision)))))"

text \<open>The decided model: by its stable id, or by name for definitions without one.\<close>

definition decided_model :: "alias_ports \<Rightarrow> uuid \<Rightarrow> routing_decision \<Rightarrow> exc + model option" where
  "decided_model A team d = (case chosen_id d of
     Some i \<Rightarrow> resolve_model_id A (Some team) i | None \<Rightarrow> resolve_model A (Some team) (JStr (chosen_name d)))"

definition choose_model :: "'c services \<Rightarrow> callable_ports \<Rightarrow> uuid \<Rightarrow> uuid option \<Rightarrow> string \<Rightarrow> body \<Rightarrow> model_type \<Rightarrow> request_validator \<Rightarrow>
    exc + model option \<times> routed \<times> resolved_callable option" where
  "choose_model sv cp team key op request expected validator = (let alias = dget request ''model'' in case cp_resolver cp of
     Some A \<Rightarrow> if \<not> truthy alias then Inr (None, None, None) else rbind (resolve_alias A (Some team) alias) (\<lambda>resolved. case resolved of
         None \<Rightarrow> Inr (None, None, None)
       | Some r \<Rightarrow> if rc_kind r = Model_Callable then rbind (as_model r) (\<lambda>m. Inr (Some m, None, Some r))
           else if sv_router_wired sv \<and> expected = Chat then rbind (as_router r) (\<lambda>router.
             if \<not> rt_enabled router then Inr (None, None, Some r)
             else rbind (route_through sv cp team key op request validator (decided_model A team) router) (\<lambda>(m, routed).
               Inr (m, routed, Some r)))
           else Inr (None, None, Some r))
   | None \<Rightarrow> rbind (if truthy alias then sv_model_by_name sv team alias else Inr None) (\<lambda>found. case found of
         Some m \<Rightarrow> Inr (Some m, None, None)
       | None \<Rightarrow> if truthy alias \<and> sv_router_wired sv \<and> expected = Chat
           then rbind (cp_router_by_name cp team alias) (\<lambda>named. case named of
               None \<Rightarrow> Inr (None, None, None)
             | Some router \<Rightarrow> rbind (route_through sv cp team key op request validator
                 (\<lambda>d. sv_model_by_name sv team (JStr (chosen_name d))) router) (\<lambda>(m, routed). Inr (m, routed, None)))
           else Inr (None, None, None)))"

section \<open>Preparing a call\<close>

record prepared =
  pd_model :: model
  pd_values :: body
  pd_reservation :: "admission option"
  pd_clean :: body
  pd_attribution :: attribution
  pd_routed :: routed

text \<open>The clock readings and ids: of the key rate limit, the guardrail trace and the two gates.\<close>

record prepare_now =
  pn_limiter :: float_py
  pn_guard :: dispatch_now
  pn_key_gate :: gate_now
  pn_team_gate :: gate_now

definition call_of :: "uuid \<Rightarrow> uuid option \<Rightarrow> model \<Rightarrow> string \<Rightarrow> attribution option \<Rightarrow> call_info" where
  "call_of team key m op a = \<lparr>ci_team_id = team, ci_api_key_id = key, ci_model = m, ci_operation = op, ci_attribution = a,
     ci_request_id = None\<rparr>"

definition router_of :: "routed \<Rightarrow> uuid option" where
  "router_of routed = map_option (\<lambda>rd. rt_id (fst rd)) routed"

text \<open>Up to the guardrails, nothing but reads: the model, its route, and the request for it.\<close>

definition shaped_request :: "'c services \<Rightarrow> callable_ports \<Rightarrow> uuid \<Rightarrow> uuid option \<Rightarrow> string \<Rightarrow> body \<Rightarrow> model_type \<Rightarrow> request_validator \<Rightarrow>
    bool \<Rightarrow> exc + model \<times> routed \<times> resolved_callable option \<times> body" where
  "shaped_request sv cp team key op request expected validator streaming =
    rbind (choose_model sv cp team key op request expected validator) (\<lambda>(found, routed, resolved).
    rbind (ensure_usable found (dget request ''model'') expected) (\<lambda>m.
    rbind (reject_unsupported_n op m request) (\<lambda>_.
    let clamped = clamp_output_tokens op request (md_max_output_tokens m) in
    rbind (case validator of None \<Rightarrow> Inr clamped | Some validate \<Rightarrow> validate m clamped) (\<lambda>clean.
    rbind (if streaming then refuse_stream_when_response_guarded sv (call_of team key m op None) (router_of routed) else Inr ()) (\<lambda>_.
    Inr (m, routed, resolved, clean))))))"

definition admit_call :: "'c services \<Rightarrow> 'st store_ops \<Rightarrow> uuid \<Rightarrow> uuid option \<Rightarrow> model \<Rightarrow> body \<Rightarrow> bool \<Rightarrow> bool \<Rightarrow> gate_now \<Rightarrow> gate_now \<Rightarrow>
    ('st, 'c) world \<Rightarrow> (exc + admission option) \<times> ('st, 'c) world" where
  "admit_call sv so team key m request skip_team skip_key gk gt w =
    (case admit (sv_ports sv) (so_reserve so) (so_release so) (so_faulty so) team m request key skip_team skip_key gk gt
        (wd_limiter w, wd_store w) of
       (res, l, st) \<Rightarrow> (res, w\<lparr>wd_limiter := l, wd_store := st\<rparr>))"

text \<open>The credential values of the model, or the release of what was reserved for it.\<close>

definition fetch_values :: "'c services \<Rightarrow> 'st store_ops \<Rightarrow> model \<Rightarrow> admission option \<Rightarrow> ('st, 'c) world \<Rightarrow> (exc + body) \<times> ('st, 'c) world" where
  "fetch_values sv so m reservation w = (case sv_credential sv (md_credential_id m) of
     Inr (Some values) \<Rightarrow> (Inr values, w)
   | Inr None \<Rightarrow> (raise_exc (Catalog CredentialNotFound) [md_credential_id m], release_held sv so reservation w)
   | Inl e \<Rightarrow> (Inl e, release_held sv so reservation w))"

definition prepare :: "'c services \<Rightarrow> callable_ports \<Rightarrow> 'st store_ops \<Rightarrow> uuid \<Rightarrow> uuid option \<Rightarrow> string \<Rightarrow> body \<Rightarrow> model_type \<Rightarrow>
    request_validator \<Rightarrow> bool \<Rightarrow> prepare_now \<Rightarrow> ('st, 'c) world \<Rightarrow> (exc + prepared) \<times> ('st, 'c) world" where
  "prepare sv cp so team key op request expected validator streaming pn w =
    (case enforce_key_rate_limit (sv_ports sv) key (pn_limiter pn) (wd_limiter w) of (limited, l) \<Rightarrow>
     let w1 = w\<lparr>wd_limiter := l\<rparr> in
     case rbind limited (\<lambda>_. shaped_request sv cp team key op request expected validator streaming) of
       Inl e \<Rightarrow> (Inl e, w1)
     | Inr (m, routed, resolved, clean) \<Rightarrow>
         (case guard_request sv (call_of team key m op None) (pn_guard pn) clean (router_of routed) w1 of
            (Inl e, w2) \<Rightarrow> (Inl e, w2)
          | (Inr approved, w2) \<Rightarrow>
              (case admit_call sv so team key m (merge_params m approved) False True (pn_key_gate pn) (pn_team_gate pn) w2 of
                 (Inl e, w3) \<Rightarrow> (Inl e, w3)
               | (Inr reservation, w3) \<Rightarrow> (case fetch_values sv so m reservation w3 of
                     (Inl e, w4) \<Rightarrow> (Inl e, w4)
                   | (Inr values, w4) \<Rightarrow> (Inr \<lparr>pd_model = m, pd_values = values, pd_reservation = reservation, pd_clean = approved,
                       pd_attribution = usage_attribution team (dget request ''model'') m resolved, pd_routed = routed\<rparr>, w4)))))"

text \<open>Native bodies: one model, no router, and the key rate limit is left to the admission.\<close>

definition native_model :: "'c services \<Rightarrow> callable_ports \<Rightarrow> uuid \<Rightarrow> json \<Rightarrow> exc + model option \<times> resolved_callable option" where
  "native_model sv cp team alias = (case cp_resolver cp of
     Some A \<Rightarrow> if \<not> truthy alias then Inr (None, None) else rbind (resolve_alias A (Some team) alias) (\<lambda>resolved. case resolved of
         Some r \<Rightarrow> if rc_kind r = Model_Callable then rbind (as_model r) (\<lambda>m. Inr (Some m, Some r)) else Inr (None, Some r)
       | None \<Rightarrow> Inr (None, None))
   | None \<Rightarrow> rbind (if truthy alias then sv_model_by_name sv team alias else Inr None) (\<lambda>m. Inr (m, None)))"

definition governed_native :: "'c services \<Rightarrow> callable_ports \<Rightarrow> uuid \<Rightarrow> uuid option \<Rightarrow> json \<Rightarrow> body \<Rightarrow> model_type \<Rightarrow> string \<Rightarrow> bool \<Rightarrow>
    exc + model \<times> resolved_callable option \<times> body \<times> body" where
  "governed_native sv cp team key alias data expected op streaming =
    rbind (native_model sv cp team alias) (\<lambda>(found, resolved).
    rbind (ensure_usable found alias expected) (\<lambda>m.
    rbind (sv_credential sv (md_credential_id m)) (\<lambda>creds.
    rbind (case creds of None \<Rightarrow> raise_exc (Catalog CredentialNotFound) [md_credential_id m] | Some v \<Rightarrow> Inr v) (\<lambda>values.
    rbind (reject_native_control_kwargs data) (\<lambda>_.
    rbind (clamp_native_output_tokens (md_provider m) data (md_max_output_tokens m)) (\<lambda>governed.
    rbind (if streaming then refuse_stream_when_response_guarded sv (call_of team key m op None) None else Inr ()) (\<lambda>_.
    Inr (m, resolved, values, governed))))))))"

definition prepare_native :: "'c services \<Rightarrow> callable_ports \<Rightarrow> uuid \<Rightarrow> uuid option \<Rightarrow> json \<Rightarrow> body \<Rightarrow> model_type \<Rightarrow> string \<Rightarrow> bool \<Rightarrow>
    dispatch_now \<Rightarrow> ('st, 'c) world \<Rightarrow> (exc + model \<times> body \<times> body \<times> attribution) \<times> ('st, 'c) world" where
  "prepare_native sv cp team key alias data expected op streaming dn w =
    (case governed_native sv cp team key alias data expected op streaming of
       Inl e \<Rightarrow> (Inl e, w)
     | Inr (m, resolved, values, governed) \<Rightarrow> (case guard_request sv (call_of team key m op None) dn governed None w of
         (Inl e, w1) \<Rightarrow> (Inl e, w1)
       | (Inr approved, w1) \<Rightarrow> (Inr (m, values, approved, usage_attribution team alias m resolved), w1)))"

section \<open>The endpoints that answer at once\<close>

text \<open>
  \<open>gw body model values\<close> is what the provider answers; \<open>op\<close> names the operation in the books.
  \<open>cached\<close>: whether the endpoint takes part in the response cache.
\<close>

type_synonym provider_call = "body \<Rightarrow> model \<Rightarrow> body \<Rightarrow> exc + body"

definition dispatch_of :: "'c services \<Rightarrow> provider_call \<Rightarrow> uuid \<Rightarrow> uuid option \<Rightarrow> string \<Rightarrow> bool \<Rightarrow> uuid option \<Rightarrow> prepared \<Rightarrow> dispatch_call" where
  "dispatch_of sv gw team key op cached router p = \<lparr>
     dc_info = call_of team key (pd_model p) op (Some (pd_attribution p)), dc_request = pd_clean p, dc_sent = pd_clean p,
     dc_answer = gw (pd_clean p) (pd_model p) (pd_values p), dc_reservation = pd_reservation p, dc_settle_view = Inr,
     dc_cache_key = (if cached then cache_key_for sv team key op (pd_clean p) (pd_model p) else None),
     dc_semantic_text = (if cached then semantic_text_for sv op (pd_clean p) (pd_model p) else None), dc_router_id = router\<rparr>"

definition serve :: "'c services \<Rightarrow> 'st store_ops \<Rightarrow> dispatch_now \<Rightarrow> ('p \<Rightarrow> dispatch_call) \<Rightarrow> (exc + 'p) \<times> ('st, 'c) world \<Rightarrow>
    (exc + body) \<times> ('st, 'c) world" where
  "serve sv so dn call ready = (case ready of
     (Inl e, w) \<Rightarrow> (Inl e, w) | (Inr p, w) \<Rightarrow> dispatch sv so (call p) dn w)"

definition responses :: "'c services \<Rightarrow> callable_ports \<Rightarrow> 'st store_ops \<Rightarrow> provider_call \<Rightarrow> uuid \<Rightarrow> uuid option \<Rightarrow> body \<Rightarrow>
    prepare_now \<Rightarrow> dispatch_now \<Rightarrow> ('st, 'c) world \<Rightarrow> (exc + body) \<times> ('st, 'c) world" where
  "responses sv cp so gw team key request pn dn w = serve sv so dn (dispatch_of sv gw team key ''responses'' True None)
     (prepare sv cp so team key ''responses'' (sanitize_request ''responses'' request) Chat (Some validate_responses_request) False pn w)"

definition embeddings :: "'c services \<Rightarrow> callable_ports \<Rightarrow> 'st store_ops \<Rightarrow> provider_call \<Rightarrow> uuid \<Rightarrow> uuid option \<Rightarrow> body \<Rightarrow>
    prepare_now \<Rightarrow> dispatch_now \<Rightarrow> ('st, 'c) world \<Rightarrow> (exc + body) \<times> ('st, 'c) world" where
  "embeddings sv cp so gw team key request pn dn w = serve sv so dn (dispatch_of sv gw team key ''embeddings'' False None)
     (prepare sv cp so team key ''embeddings'' (sanitize_request ''embeddings'' request) Embeddings None False pn w)"

definition images :: "'c services \<Rightarrow> callable_ports \<Rightarrow> 'st store_ops \<Rightarrow> provider_call \<Rightarrow> uuid \<Rightarrow> uuid option \<Rightarrow> body \<Rightarrow>
    prepare_now \<Rightarrow> dispatch_now \<Rightarrow> ('st, 'c) world \<Rightarrow> (exc + body) \<times> ('st, 'c) world" where
  "images sv cp so gw team key request pn dn w = serve sv so dn (dispatch_of sv gw team key ''images'' False None)
     (prepare sv cp so team key ''images'' (sanitize_request ''images'' request) Image None False pn w)"

text \<open>A native call: prepared, of the provider whose protocol it speaks, and admitted on its view.\<close>

record native_call =
  nc_prepared :: prepared
  nc_view :: body

definition ready_native :: "'c services \<Rightarrow> callable_ports \<Rightarrow> 'st store_ops \<Rightarrow> provider \<Rightarrow> string \<Rightarrow> uuid \<Rightarrow> uuid option \<Rightarrow> json \<Rightarrow> body \<Rightarrow>
    bool \<Rightarrow> prepare_now \<Rightarrow> ('st, 'c) world \<Rightarrow> (exc + native_call) \<times> ('st, 'c) world" where
  "ready_native sv cp so speaks op team key alias data streaming pn w =
    (case prepare_native sv cp team key alias data Chat op streaming (pn_guard pn) w of
       (Inl e, w1) \<Rightarrow> (Inl e, w1)
     | (Inr (m, values, governed, a), w1) \<Rightarrow>
         if md_provider m \<noteq> speaks then (raise_exc (Catalog ProviderMismatch) [md_name m, provider_value (md_provider m)], w1)
         else (case native_reservation_view (md_provider m) governed of
             Inl e \<Rightarrow> (Inl e, w1)
           | Inr view \<Rightarrow> (case admit_call sv so team key m view False False (pn_key_gate pn) (pn_team_gate pn) w1 of
               (Inl e, w2) \<Rightarrow> (Inl e, w2)
             | (Inr reservation, w2) \<Rightarrow> (Inr \<lparr>nc_prepared = \<lparr>pd_model = m, pd_values = values, pd_reservation = reservation,
                 pd_clean = governed, pd_attribution = a, pd_routed = None\<rparr>, nc_view = view\<rparr>, w2))))"

definition dispatch_native :: "'c services \<Rightarrow> provider_call \<Rightarrow> uuid \<Rightarrow> uuid option \<Rightarrow> string \<Rightarrow> (body \<Rightarrow> exc + body) \<Rightarrow> native_call \<Rightarrow> dispatch_call" where
  "dispatch_native sv gw team key op settle_view n =
     (dispatch_of sv gw team key op False None (nc_prepared n))\<lparr>dc_request := nc_view n, dc_settle_view := settle_view\<rparr>"

definition native_messages :: "'c services \<Rightarrow> callable_ports \<Rightarrow> 'st store_ops \<Rightarrow> provider_call \<Rightarrow> uuid \<Rightarrow> uuid option \<Rightarrow> body \<Rightarrow>
    prepare_now \<Rightarrow> dispatch_now \<Rightarrow> ('st, 'c) world \<Rightarrow> (exc + body) \<times> ('st, 'c) world" where
  "native_messages sv cp so gw team key data pn dn w = serve sv so dn (dispatch_native sv gw team key ''native.messages'' Inr)
     (ready_native sv cp so Anthropic ''native.messages'' team key (dget data ''model'') data False pn w)"

definition generate_content :: "'c services \<Rightarrow> callable_ports \<Rightarrow> 'st store_ops \<Rightarrow> provider_call \<Rightarrow> uuid \<Rightarrow> uuid option \<Rightarrow> string \<Rightarrow> body \<Rightarrow>
    prepare_now \<Rightarrow> dispatch_now \<Rightarrow> ('st, 'c) world \<Rightarrow> (exc + body) \<times> ('st, 'c) world" where
  "generate_content sv cp so gw team key alias data pn dn w = serve sv so dn
     (dispatch_native sv gw team key ''native.generate_content'' gemini_usage)
     (ready_native sv cp so Vertex_AI ''native.generate_content'' team key (JStr alias) data False pn w)"

section \<open>What preparing does to the world\<close>

lemma call_of_simps [simp]:
  "ci_team_id (call_of team key m op a) = team" "ci_api_key_id (call_of team key m op a) = key"
  "ci_model (call_of team key m op a) = m" "ci_operation (call_of team key m op a) = op"
  by (simp_all add: call_of_def)

text \<open>Everything but the limiter, the reservations and the traces.\<close>

definition unbilled :: "('st, 'c) world \<Rightarrow> ('st, 'c) world \<Rightarrow> bool" where
  "unbilled w w' \<longleftrightarrow> all_events (wd_books w') = all_events (wd_books w) \<and> wd_alerts w' = wd_alerts w \<and>
     wd_cache w' = wd_cache w \<and> wd_calls w' = wd_calls w \<and> wd_attached w' = wd_attached w"

lemma unbilled_refl [simp]: "unbilled w w"
  by (simp add: unbilled_def)

lemma unbilled_trans: "unbilled w w' \<Longrightarrow> unbilled w' w'' \<Longrightarrow> unbilled w w''"
  by (simp add: unbilled_def)

lemma only_traces_unbilled: "only_traces w w' \<Longrightarrow> unbilled w w' \<and> wd_store w' = wd_store w"
  by (simp add: unbilled_def only_traces_def)

lemma release_held_unbilled [simp]: "unbilled w (release_held sv so adm w)"
  by (simp add: unbilled_def release_held_def)

text \<open>The model rates a gate reads are those of a validated card.\<close>

lemma reservation_cost_rates: "reservation_cost m request = Inr c \<Longrightarrow> \<exists>r. model_rates m = Inr r"
  by (auto simp: reservation_cost_def split: if_split_asm)

definition honest_rates :: "model \<Rightarrow> bool" where
  "honest_rates m \<longleftrightarrow> (\<forall>r. model_rates m = Inr r \<longrightarrow> rates_nonneg r)"

lemma honest_reservation: "honest_rates m \<Longrightarrow> reservation_cost m request = Inr c \<Longrightarrow> 0 \<le> dec_to_float c"
  using reservation_cost_rates [of m request c] reservation_amount_nonneg [of m _ request c] by (auto simp: honest_rates_def)

context reservation_store
begin

lemma release_each_claims:
  "wf_store st \<Longrightarrow> wf_store (release_each release (\<lambda>_. False) rs st) \<and>
    claims (release_each release (\<lambda>_. False) rs st) t scope = claims st t scope |` (- {res_id r | r. r \<in> set rs \<and> res_scope r = scope})"
proof (induction rs arbitrary: st)
  case (Cons r rs)
  have "claims (release st r) t scope |` (- {res_id x | x. x \<in> set rs \<and> res_scope x = scope}) =
      claims st t scope |` (- {res_id x | x. x \<in> set (r # rs) \<and> res_scope x = scope})"
    by (auto simp: release_claims [OF Cons.prems] restrict_map_def fun_eq_iff)
  then show ?case using Cons.IH [OF wf_release [OF Cons.prems]] by simp
qed (simp add: restrict_map_def)

lemma claims_under_admission:
  "foldl (with_claim kept) c rs scope |` (- {res_id r | r. r \<in> set rs \<and> res_scope r = scope}) =
    c scope |` (- {res_id r | r. r \<in> set rs \<and> res_scope r = scope})"
proof (induction rs arbitrary: c)
  case (Cons r rs)
  let ?D = "\<lambda>rs. - {res_id r | r. r \<in> set rs \<and> res_scope r = scope}"
  have "foldl (with_claim kept) c (r # rs) scope |` ?D (r # rs) = (foldl (with_claim kept) (with_claim kept c r) rs scope |` ?D rs) |` ?D (r # rs)"
    by (auto simp: restrict_map_def fun_eq_iff)
  also have "\<dots> = with_claim kept c r scope |` ?D (r # rs)"
    unfolding Cons.IH by (auto simp: restrict_map_def fun_eq_iff)
  also have "\<dots> = c scope |` ?D (r # rs)"
    by (auto simp: restrict_map_def fun_eq_iff with_claim_def)
  finally show ?case .
qed simp

text \<open>Giving an admission back leaves no claim that was not there before it.\<close>

lemma released_admission:
  assumes "wf_store st'" "claims st' t = foldl (with_claim kept) c rs"
  shows "wf_store (release_each release (\<lambda>_. False) rs st') \<and> claims (release_each release (\<lambda>_. False) rs st') t scope \<subseteq>\<^sub>m c scope"
proof -
  have "claims (release_each release (\<lambda>_. False) rs st') t scope = c scope |` (- {res_id r | r. r \<in> set rs \<and> res_scope r = scope})"
    using release_each_claims [OF assms(1)] by (simp add: assms(2) claims_under_admission)
  then show ?thesis using release_each_claims [OF assms(1)] by (auto simp: map_le_def restrict_map_def split: if_split_asm)
qed

end

text \<open>The in-memory store of claims at \<open>t\<close>: the gates read their clocks before it and reserve past it.\<close>

definition timely :: "'c services \<Rightarrow> prepare_now \<Rightarrow> float_py \<Rightarrow> bool" where
  "timely sv pn t \<longleftrightarrow> gate_in_time mem_expiry (sv_ports sv) (pn_key_gate pn) t \<and> gate_in_time mem_expiry (sv_ports sv) (pn_team_gate pn) t"

text \<open>What the claims have become: no more than before, or exactly the returned reservations more.\<close>

definition claims_kept :: "float_py \<Rightarrow> mem_store \<Rightarrow> mem_store \<Rightarrow> bool" where
  "claims_kept t st st' \<longleftrightarrow> wf_mem st' \<and> (\<forall>scope. mem_claims st' t scope \<subseteq>\<^sub>m mem_claims st t scope)"

definition claims_taken :: "float_py \<Rightarrow> mem_store \<Rightarrow> admission option \<Rightarrow> mem_store \<Rightarrow> bool" where
  "claims_taken t st adm st' \<longleftrightarrow> wf_mem st' \<and> mem_claims st' t = foldl (with_claim (\<lambda>a. a)) (mem_claims st t)
     (case adm of None \<Rightarrow> [] | Some rs \<Rightarrow> rs)"

lemma claims_kept_refl: "wf_mem st \<Longrightarrow> claims_kept t st st"
  by (simp add: claims_kept_def)

lemma claims_kept_trans: "claims_kept t st st' \<Longrightarrow> claims_kept t st' st'' \<Longrightarrow> claims_kept t st st''"
  by (auto simp: claims_kept_def intro: map_le_trans)

lemma memory_store_simps [simp]:
  "so_reserve memory_store = try_reserve" "so_release memory_store = release" "so_faulty memory_store = (\<lambda>_. False)"
  by (simp_all add: memory_store_def)

lemma unwired_admits_nothing:
  "admit_budgets P reserve rel faulty team key m request gk gt st = (Inr adm, st') \<Longrightarrow> \<not> mp_store_wired P \<Longrightarrow> adm = None"
  by (auto simp: admit_budgets_def admit_key_def admit_team_def claims_of_def Let_def split: sum.splits option.splits prod.splits if_splits)

text \<open>A rate limit that refuses touches no reservation; otherwise the budgets decide.\<close>

lemma admit_call_cases:
  assumes "admit_call sv so team key m request skip_team skip_key gk gt w = (res, w')"
  obtains l e where "res = Inl e" "w' = w\<lparr>wd_limiter := l\<rparr>"
  | l st where "admit_budgets (sv_ports sv) (so_reserve so) (so_release so) (so_faulty so) team key m request gk gt (wd_store w) = (res, st)"
      "w' = w\<lparr>wd_limiter := l, wd_store := st\<rparr>"
  using assms by (auto simp: admit_call_def admit_def split: prod.splits sum.splits)

lemma admit_call_effect:
  assumes "wf_mem (wd_store w)" "honest_rates m" "gate_in_time mem_expiry (sv_ports sv) gk t" "gate_in_time mem_expiry (sv_ports sv) gt t"
    and "admit_call sv memory_store team key m request skip_team skip_key gk gt w = (res, w')"
  shows "unbilled w w' \<and> (case res of Inl e \<Rightarrow> claims_kept t (wd_store w) (wd_store w')
    | Inr adm \<Rightarrow> claims_taken t (wd_store w) adm (wd_store w') \<and> (adm \<noteq> None \<longrightarrow> mp_store_wired (sv_ports sv)) \<and>
        (\<forall>r \<in> set (case adm of None \<Rightarrow> [] | Some rs \<Rightarrow> rs). \<exists>cost. reservation_cost m request = Inr cost \<and> res_amount r = dec_to_float cost))"
  using assms(5)
proof (cases rule: admit_call_cases)
  case (1 l e)
  with assms(1) show ?thesis by (simp add: unbilled_def claims_kept_refl)
next
  case (2 l st)
  have b: "admit_budgets (sv_ports sv) try_reserve release (\<lambda>_. False) team key m request gk gt (wd_store w) = (res, st)"
    using 2(1) by simp
  note c = mem.admit_budgets_claims [OF assms(1) honest_reservation [OF assms(2)] assms(3,4) _ b]
  have "unbilled w w'" by (simp add: 2(2) unbilled_def)
  with c unwired_admits_nothing [of "sv_ports sv" try_reserve release "\<lambda>_. False" team key m request gk gt "wd_store w" _ st] b show ?thesis
    by (cases res; cases "projr res") (auto simp: 2(2) claims_kept_def claims_taken_def)
qed

lemma guard_request_unbilled:
  "guard_request sv ci dn b router w = (res, w') \<Longrightarrow> unbilled w w' \<and> wd_store w' = wd_store w"
  using guard_request_world only_traces_unbilled by blast

text \<open>Giving back what was taken, if the store is wired or nothing was.\<close>

lemma released_claims:
  assumes "claims_taken t st adm (wd_store w)" "adm \<noteq> None \<longrightarrow> mp_store_wired (sv_ports sv)"
  shows "claims_kept t st (wd_store (release_held sv memory_store adm w))"
proof (cases adm)
  case None
  with assms show ?thesis by (simp add: claims_taken_def claims_kept_def release_held_def meter_release_def)
next
  case (Some rs)
  with assms have "wf_mem (wd_store w)" "mem_claims (wd_store w) t = foldl (with_claim (\<lambda>a. a)) (mem_claims st t) rs"
    by (simp_all add: claims_taken_def)
  from mem.released_admission [OF this] Some assms show ?thesis
    by (simp add: claims_kept_def release_held_def meter_release_def)
qed

lemma fetch_values_effect:
  assumes "fetch_values sv memory_store m adm w = (res, w')" "claims_taken t st adm (wd_store w)" "adm \<noteq> None \<longrightarrow> mp_store_wired (sv_ports sv)"
  shows "unbilled w w' \<and> (case res of Inl e \<Rightarrow> claims_kept t st (wd_store w')
    | Inr values \<Rightarrow> w' = w \<and> sv_credential sv (md_credential_id m) = Inr (Some values))"
  using assms(1) released_claims [OF assms(2,3)]
  by (auto simp: fetch_values_def split: sum.splits option.splits)

text \<open>The steps of a preparation after the request is shaped.\<close>

lemma prepare_steps:
  assumes "prepare sv cp so team key op request expected validator streaming pn w = (res, w')"
  obtains (unshaped) e l where "res = Inl e" "w' = w\<lparr>wd_limiter := l\<rparr>"
  | (unapproved) m routed resolved clean e l where "shaped_request sv cp team key op request expected validator streaming = Inr (m, routed, resolved, clean)"
      "guard_request sv (call_of team key m op None) (pn_guard pn) clean (router_of routed) (w\<lparr>wd_limiter := l\<rparr>) = (Inl e, w')" "res = Inl e"
  | (unadmitted) m routed resolved clean approved e l w2 where "shaped_request sv cp team key op request expected validator streaming = Inr (m, routed, resolved, clean)"
      "guard_request sv (call_of team key m op None) (pn_guard pn) clean (router_of routed) (w\<lparr>wd_limiter := l\<rparr>) = (Inr approved, w2)"
      "admit_call sv so team key m (merge_params m approved) False True (pn_key_gate pn) (pn_team_gate pn) w2 = (Inl e, w')" "res = Inl e"
  | (admitted) m routed resolved clean approved adm l w2 w3 vs where "shaped_request sv cp team key op request expected validator streaming = Inr (m, routed, resolved, clean)"
      "guard_request sv (call_of team key m op None) (pn_guard pn) clean (router_of routed) (w\<lparr>wd_limiter := l\<rparr>) = (Inr approved, w2)"
      "admit_call sv so team key m (merge_params m approved) False True (pn_key_gate pn) (pn_team_gate pn) w2 = (Inr adm, w3)"
      "fetch_values sv so m adm w3 = (vs, w')"
      "res = rbind vs (\<lambda>values. Inr \<lparr>pd_model = m, pd_values = values, pd_reservation = adm, pd_clean = approved,
         pd_attribution = usage_attribution team (dget request ''model'') m resolved, pd_routed = routed\<rparr>)"
proof -
  obtain limited l where l: "enforce_key_rate_limit (sv_ports sv) key (pn_limiter pn) (wd_limiter w) = (limited, l)" by fastforce
  let ?w1 = "w\<lparr>wd_limiter := l\<rparr>"
  show thesis
  proof (cases "rbind limited (\<lambda>_. shaped_request sv cp team key op request expected validator streaming)")
    case (Inl e)
    with l assms show thesis by (intro unshaped [of e l]) (auto simp: prepare_def Let_def)
  next
    case (Inr x)
    obtain m routed resolved clean where x: "x = (m, routed, resolved, clean)" by (metis prod.exhaust)
    have s: "shaped_request sv cp team key op request expected validator streaming = Inr (m, routed, resolved, clean)"
      using Inr by (auto simp: x)
    obtain g w2 where g: "guard_request sv (call_of team key m op None) (pn_guard pn) clean (router_of routed) ?w1 = (g, w2)" by fastforce
    note eq = assms [unfolded prepare_def l prod.case Let_def Inr x sum.case g]
    show thesis
    proof (cases g)
      case (Inl e)
      with eq g s show thesis by (intro unapproved [of m routed resolved clean l e]) auto
    next
      case (Inr approved)
      obtain a w3 where a: "admit_call sv so team key m (merge_params m approved) False True (pn_key_gate pn) (pn_team_gate pn) w2 = (a, w3)"
        by fastforce
      note eq = eq [unfolded Inr sum.case a prod.case]
      show thesis
      proof (cases a)
        case (Inl e)
        with eq g s a \<open>g = Inr approved\<close> show thesis by (intro unadmitted [of m routed resolved clean l approved w2 e]) auto
      next
        case (Inr adm)
        obtain vs w4 where f: "fetch_values sv so m adm w3 = (vs, w4)" by fastforce
        with eq Inr g s a \<open>g = Inr approved\<close> show thesis
          by (intro admitted [of m routed resolved clean l approved w2 adm w3 vs]) (auto split: sum.splits)
      qed
    qed
  qed
qed

lemma prepare_effect:
  assumes "wf_mem (wd_store w)" "timely sv pn t"
    and "\<And>m x. shaped_request sv cp team key op request expected validator streaming = Inr (m, x) \<Longrightarrow> honest_rates m"
    and "prepare sv cp memory_store team key op request expected validator streaming pn w = (res, w')"
  shows "unbilled w w' \<and> (case res of Inl e \<Rightarrow> claims_kept t (wd_store w) (wd_store w')
    | Inr p \<Rightarrow> claims_taken t (wd_store w) (pd_reservation p) (wd_store w') \<and> (pd_reservation p \<noteq> None \<longrightarrow> mp_store_wired (sv_ports sv)) \<and>
        (\<forall>r \<in> set (case pd_reservation p of None \<Rightarrow> [] | Some rs \<Rightarrow> rs). \<exists>cost.
          reservation_cost (pd_model p) (merge_params (pd_model p) (pd_clean p)) = Inr cost \<and> res_amount r = dec_to_float cost))"
  using assms(4)
proof (cases rule: prepare_steps)
  case (unshaped e l)
  with assms(1) show ?thesis by (simp add: unbilled_def claims_kept_refl)
next
  case (unapproved m routed resolved clean e l)
  with assms(1) guard_request_unbilled [OF unapproved(2)] show ?thesis by (simp add: unbilled_def claims_kept_refl)
next
  case (unadmitted m routed resolved clean approved e l w2)
  note g = guard_request_unbilled [OF unadmitted(2)]
  have "wf_mem (wd_store w2)" using g assms(1) by simp
  from admit_call_effect [OF this assms(3) [OF unadmitted(1)] _ _ unadmitted(3)] assms(2) g unadmitted(4) show ?thesis
    by (auto simp: timely_def unbilled_def)
next
  case (admitted m routed resolved clean approved adm l w2 w3 vs)
  note g = guard_request_unbilled [OF admitted(2)]
  have "wf_mem (wd_store w2)" using g assms(1) by simp
  from admit_call_effect [OF this assms(3) [OF admitted(1)] _ _ admitted(3)] assms(2) g
  have a: "unbilled w w3" "claims_taken t (wd_store w) adm (wd_store w3)" "adm \<noteq> None \<longrightarrow> mp_store_wired (sv_ports sv)"
    "\<forall>r \<in> set (case adm of None \<Rightarrow> [] | Some rs \<Rightarrow> rs). \<exists>cost. reservation_cost m (merge_params m approved) = Inr cost \<and> res_amount r = dec_to_float cost"
    by (auto simp: timely_def unbilled_def)
  from fetch_values_effect [OF admitted(4) a(2,3)] a admitted(5) show ?thesis
    by (cases vs) (auto intro: unbilled_trans)
qed

lemma ready_native_effect:
  assumes "wf_mem (wd_store w)" "timely sv pn t"
    and "\<And>m x. governed_native sv cp team key alias data Chat op streaming = Inr (m, x) \<Longrightarrow> honest_rates m"
    and "ready_native sv cp memory_store speaks op team key alias data streaming pn w = (res, w')"
  shows "unbilled w w' \<and> (case res of Inl e \<Rightarrow> claims_kept t (wd_store w) (wd_store w')
    | Inr n \<Rightarrow> let p = nc_prepared n in md_provider (pd_model p) = speaks \<and> claims_taken t (wd_store w) (pd_reservation p) (wd_store w') \<and>
        (pd_reservation p \<noteq> None \<longrightarrow> mp_store_wired (sv_ports sv)) \<and>
        (\<forall>r \<in> set (case pd_reservation p of None \<Rightarrow> [] | Some rs \<Rightarrow> rs). \<exists>cost.
          reservation_cost (pd_model p) (nc_view n) = Inr cost \<and> res_amount r = dec_to_float cost))"
proof -
  obtain r w1 where r: "prepare_native sv cp team key alias data Chat op streaming (pn_guard pn) w = (r, w1)" by fastforce
  have u: "unbilled w w1 \<and> wd_store w1 = wd_store w"
    using r guard_request_unbilled by (fastforce simp: prepare_native_def split: sum.split_asm prod.split_asm)
  note eq = assms(4) [unfolded ready_native_def r]
  show ?thesis
  proof (cases r)
    case (Inl e)
    with eq u assms(1) show ?thesis by (auto simp: claims_kept_refl)
  next
    case (Inr x)
    obtain m vals governed a where x: "x = (m, vals, governed, a)" by (metis prod.exhaust)
    have rates: "honest_rates m"
      using r Inr x assms(3) by (fastforce simp: prepare_native_def split: sum.split_asm prod.split_asm)
    show ?thesis
    proof (cases "md_provider m \<noteq> speaks \<or> (\<exists>e. native_reservation_view (md_provider m) governed = Inl e)")
      case True
      with eq u assms(1) Inr x show ?thesis by (auto simp: claims_kept_refl split: if_split_asm)
    next
      case False
      then obtain view where view: "native_reservation_view (md_provider m) governed = Inr view" "md_provider m = speaks"
        by (cases "native_reservation_view (md_provider m) governed") auto
      obtain ad w2 where ad: "admit_call sv memory_store team key m view False False (pn_key_gate pn) (pn_team_gate pn) w1 = (ad, w2)"
        by fastforce
      have wf: "wf_mem (wd_store w1)" using u assms(1) by simp
      note eff = admit_call_effect [OF wf rates _ _ ad, of t]
      from eq [unfolded Inr x sum.case prod.case] view ad
      have "(case ad of Inl e \<Rightarrow> (Inl e, w2) | Inr reservation \<Rightarrow> (Inr \<lparr>nc_prepared = \<lparr>pd_model = m, pd_values = vals,
          pd_reservation = reservation, pd_clean = governed, pd_attribution = a, pd_routed = None\<rparr>, nc_view = view\<rparr>, w2)) = (res, w')"
        by simp
      with eff u assms(2) view show ?thesis
        by (cases ad) (auto simp: timely_def intro: unbilled_trans)
    qed
  qed
qed

section \<open>Whole calls\<close>

lemma dispatch_books:
  assumes "dispatch sv so dc dn w = (res, w')"
  shows "wd_store w' = wd_store (release_held sv so (dc_reservation dc) w)"
    and "\<exists>evs. all_events (wd_books w') = all_events (wd_books w) + mset evs \<and> length evs \<le> 1 \<and> (\<forall>b. res = Inr b \<longrightarrow> length evs = 1)"
    and "length (wd_calls w') \<le> Suc (length (wd_calls w))"
proof -
  obtain cached c1 where l: "dispatch_lookup sv dc (wd_cache w) = (cached, c1)" by fastforce
  have "wd_store w' = wd_store (release_held sv so (dc_reservation dc) w) \<and>
    (\<exists>evs. all_events (wd_books w') = all_events (wd_books w) + mset evs \<and> length evs \<le> 1 \<and> (\<forall>b. res = Inr b \<longrightarrow> length evs = 1)) \<and>
    length (wd_calls w') \<le> Suc (length (wd_calls w))"
  proof (cases cached)
    case (Some r)
    with l assms have h: "dispatch_hit sv so dc dn r (w\<lparr>wd_cache := c1\<rparr>) = (res, w')" by (simp add: dispatch_def)
    from dispatch_hit_effect [OF h] obtain ev where "all_events (wd_books w') = add_mset ev (all_events (wd_books w))" by auto
    with dispatch_hit_effect [OF h] show ?thesis by (intro conjI exI [of _ "[ev]"]) (auto simp: release_held_def)
  next
    case None
    obtain w2 w3 where w: "w2 = w\<lparr>wd_cache := c1, wd_calls := wd_calls w @ [(md_id (ci_model (dc_info dc)), dc_sent dc)]\<rparr>"
        "w' = release_held sv so (dc_reservation dc) w3"
      and step: "(case dc_answer dc of Inl e \<Rightarrow> failed sv dc dn e w2 | Inr response \<Rightarrow> answered sv dc dn response w2) = (res, w3)"
      using dispatch_miss [OF assms l [unfolded None]] .
    have "wd_store w3 = wd_store w \<and> wd_calls w3 = wd_calls w2 \<and>
        (\<exists>evs. all_events (wd_books w3) = all_events (wd_books w) + mset evs \<and> length evs \<le> 1 \<and> (\<forall>b. res = Inr b \<longrightarrow> length evs = 1))"
    proof (cases "dc_answer dc")
      case (Inl e)
      with step have "failed sv dc dn e w2 = (res, w3)" by simp
      from failed_effect [OF this] w(1) show ?thesis by auto
    next
      case (Inr response)
      with step have "answered sv dc dn response w2 = (res, w3)" by simp
      from answered_effect [OF this] w(1) obtain evs where "wd_store w3 = wd_store w" "wd_calls w3 = wd_calls w2"
          "all_events (wd_books w3) = all_events (wd_books w) + mset evs" "length evs \<le> 1" "evs = [] \<longrightarrow> (\<exists>e. res = Inl e)" by auto
      then show ?thesis by (cases evs) auto
    qed
    with w show ?thesis by (auto simp: release_held_def)
  qed
  then show "wd_store w' = wd_store (release_held sv so (dc_reservation dc) w)"
    "\<exists>evs. all_events (wd_books w') = all_events (wd_books w) + mset evs \<and> length evs \<le> 1 \<and> (\<forall>b. res = Inr b \<longrightarrow> length evs = 1)"
    "length (wd_calls w') \<le> Suc (length (wd_calls w))" by blast+
qed

text \<open>The call is over: no reservation of its own is live, and at most one event bills it.\<close>

definition call_over :: "float_py \<Rightarrow> (mem_store, 'c) world \<Rightarrow> (mem_store, 'c) world \<Rightarrow> bool" where
  "call_over t w w' \<longleftrightarrow> claims_kept t (wd_store w) (wd_store w') \<and>
     (\<exists>evs. all_events (wd_books w') = all_events (wd_books w) + mset evs \<and> length evs \<le> 1) \<and>
     length (wd_calls w') \<le> Suc (length (wd_calls w))"

lemma unbilled_call_over: "unbilled w w' \<Longrightarrow> claims_kept t (wd_store w) (wd_store w') \<Longrightarrow> call_over t w w'"
  by (simp add: call_over_def unbilled_def exI [of _ "[]"])

lemma dispatch_call_over:
  assumes "dispatch sv memory_store dc dn w1 = (res, w')" "unbilled w w1"
    and "claims_taken t (wd_store w) (dc_reservation dc) (wd_store w1)" "dc_reservation dc \<noteq> None \<longrightarrow> mp_store_wired (sv_ports sv)"
  shows "call_over t w w'"
  using dispatch_books [OF assms(1)] released_claims [OF assms(3,4)] assms(2) by (auto simp: call_over_def unbilled_def)

lemma served_call_over:
  assumes "serve sv memory_store dn call ready = (res, w')" "ready = (r, w1)" "unbilled w w1" "\<And>p. dc_reservation (call p) = adm p"
    and "case r of Inl e \<Rightarrow> claims_kept t (wd_store w) (wd_store w1)
      | Inr p \<Rightarrow> claims_taken t (wd_store w) (adm p) (wd_store w1) \<and> (adm p \<noteq> None \<longrightarrow> mp_store_wired (sv_ports sv))"
  shows "call_over t w w'"
proof (cases r)
  case (Inl e)
  with assms show ?thesis by (auto simp: serve_def intro: unbilled_call_over)
next
  case (Inr p)
  with assms(1,2) have "dispatch sv memory_store (call p) dn w1 = (res, w')" by (simp add: serve_def)
  from dispatch_call_over [OF this assms(3)] assms(4,5) Inr show ?thesis by simp
qed

text \<open>A model the repositories hold: every call is for one of them.\<close>

definition catalog_model :: "'c services \<Rightarrow> callable_ports \<Rightarrow> model \<Rightarrow> bool" where
  "catalog_model sv cp m \<longleftrightarrow> (\<exists>team alias. sv_model_by_name sv team alias = Inr (Some m)) \<or>
     (\<exists>A i. cp_resolver cp = Some A \<and> ap_model A i = Inr (Some m))"

lemma loaded_model: "load_resource A b = Inr (Some (Model_Resource m)) \<Longrightarrow> ap_model A (ab_resource_id b) = Inr (Some m)"
  by (cases "ab_kind b") (auto simp: load_resource_def)

lemma resolved_model_in_catalog:
  assumes "resolve_alias A team v = Inr (Some r)" "as_model r = Inr m"
  shows "\<exists>i. ap_model A i = Inr (Some m)"
proof -
  obtain a b where "load_callable A a b = Inr (Some r)"
    using assms(1) by (cases v) (auto simp: resolve_alias_def split: option.splits if_splits)
  moreover have "rc_resource r = Model_Resource m" using assms(2) by (auto simp: as_model_def split: callable_resource.splits)
  ultimately have "load_resource A b = Inr (Some (Model_Resource m))" by (auto simp: load_callable_def)
  then show ?thesis using loaded_model by blast
qed

lemma resolve_model_in_catalog: "resolve_model A team v = Inr (Some m) \<Longrightarrow> \<exists>i. ap_model A i = Inr (Some m)"
  using resolved_model_in_catalog by (auto simp: resolve_model_def split: option.splits if_splits)

lemma resolve_model_id_in_catalog: "resolve_model_id A team i = Inr (Some m) \<Longrightarrow> \<exists>i. ap_model A i = Inr (Some m)"
  by (auto simp: resolve_model_id_def split: if_splits)

lemma decided_model_in_catalog: "decided_model A team d = Inr (Some m) \<Longrightarrow> \<exists>i. ap_model A i = Inr (Some m)"
  using resolve_model_in_catalog resolve_model_id_in_catalog by (fastforce simp: decided_model_def split: option.splits)

lemma route_through_picks:
  "route_through sv cp team key op request validator pick router = Inr (found, routed) \<Longrightarrow> \<exists>d. pick d = Inr found"
  by (auto simp: route_through_def)

lemma chosen_in_catalog:
  assumes "choose_model sv cp team key op request expected validator = Inr (Some m, routed, resolved)"
  shows "catalog_model sv cp m"
proof (cases "cp_resolver cp")
  case None
  with assms have "sv_model_by_name sv team (dget request ''model'') = Inr (Some m) \<or> (\<exists>d :: routing_decision. sv_model_by_name sv team (JStr (chosen_name d)) = Inr (Some m))"
    by (auto simp: choose_model_def Let_def split: option.splits if_splits dest!: route_through_picks)
  then show ?thesis unfolding catalog_model_def by blast
next
  case (Some A)
  with assms have "(\<exists>v r. resolve_alias A (Some team) v = Inr (Some r) \<and> as_model r = Inr m) \<or> (\<exists>d. decided_model A team d = Inr (Some m))"
    by (auto simp: choose_model_def Let_def split: option.splits if_splits dest!: route_through_picks)
  then have "\<exists>i. ap_model A i = Inr (Some m)" using resolved_model_in_catalog decided_model_in_catalog by blast
  with Some show ?thesis by (auto simp: catalog_model_def)
qed

lemma usable_model: "ensure_usable found alias expected = Inr m \<longleftrightarrow> found = Some m \<and> md_enabled m \<and> md_type m = expected"
  by (auto simp: ensure_usable_def split: option.splits)

lemma shaped_model:
  assumes "shaped_request sv cp team key op request expected validator streaming = Inr (m, routed, resolved, clean)"
  shows "catalog_model sv cp m" "md_enabled m" "md_type m = expected"
  using assms chosen_in_catalog by (fastforce simp: shaped_request_def usable_model Let_def)+

lemma native_model_in_catalog: "native_model sv cp team alias = Inr (Some m, resolved) \<Longrightarrow> catalog_model sv cp m"
  using resolved_model_in_catalog
  by (fastforce simp: native_model_def catalog_model_def split: option.splits if_splits)

lemma governed_native_model:
  assumes "governed_native sv cp team key alias data expected op streaming = Inr (m, resolved, vals, governed)"
  shows "catalog_model sv cp m" "md_enabled m" "md_type m = expected" "reject_native_control_kwargs data = Inr ()"
    "clamp_native_output_tokens (md_provider m) data (md_max_output_tokens m) = Inr governed"
    "sv_credential sv (md_credential_id m) = Inr (Some vals)"
  using assms native_model_in_catalog by (fastforce simp: governed_native_def usable_model split: option.splits)+


text \<open>A catalog of one priced model whose credential is there.\<close>

definition stocked_services :: "unit services" where
  "stocked_services = sample_services\<lparr>sv_guardrails := None, sv_model_by_name := (\<lambda>_ _. Inr (Some priced_model)), sv_credential := (\<lambda>_. Inr (Some []))\<rparr>"

definition no_aliases :: callable_ports where
  "no_aliases = \<lparr>cp_resolver = None, cp_router_by_name = (\<lambda>_ _. Inr None), cp_route = (\<lambda>_ _ _ _. raise_py ValueError)\<rparr>"

definition sample_prepare :: prepare_now where
  "sample_prepare = \<lparr>pn_limiter = 10, pn_guard = sample_now, pn_key_gate = sample_gate, pn_team_gate = sample_gate\<rparr>"

lemma sample_timely: "timely stocked_services sample_prepare 10"
  using sample_gate_in_time by (simp add: timely_def sample_prepare_def stocked_services_def sample_services_def)

lemma priced_model_honest: "honest_rates priced_model"
  using sample_rates validated_card_nonneg demo_card by (auto simp: honest_rates_def)

lemma stocked_catalog: "catalog_model stocked_services no_aliases m \<Longrightarrow> m = priced_model"
  by (auto simp: catalog_model_def stocked_services_def sample_services_def no_aliases_def)


section \<open>What a provider is sent\<close>

text \<open>A redaction rewrites a field that is there, and one of three.\<close>

lemma redact_request_lookup:
  shows "k \<notin> {''messages'', ''input'', ''contents''} \<Longrightarrow> map_of (redact_request r t) k = map_of r k"
    and "has_key (redact_request r t) k = has_key r k"
proof -
  have "has_key r ''messages''" if "last_user_message r \<noteq> None"
    using that by (auto simp: last_user_message_def list_or_empty_def dget_def last_dict_def split: option.splits json.splits)
  moreover have "has_key r ''contents''" if "last_gemini_turn r \<noteq> None"
    using that by (auto simp: last_gemini_turn_def list_or_empty_def dget_def last_dict_def split: option.splits json.splits)
  moreover have "has_key r ''input''" if "is_str (dget r ''input'')"
    using that by (auto simp: dget_def split: option.splits)
  ultimately show "k \<notin> {''messages'', ''input'', ''contents''} \<Longrightarrow> map_of (redact_request r t) k = map_of r k"
    "has_key (redact_request r t) k = has_key r k"
    by (auto simp: redact_request_def dict_simps split: option.splits if_splits)
qed

lemma guard_request_result:
  "guard_request sv ci dn b router w = (Inr b', w') \<Longrightarrow> b' = b \<or> (\<exists>t. b' = redact_request b t)"
  by (auto simp: guard_request_def guarded_def traced_block_def screened_def split: option.split_asm sum.split_asm if_split_asm)

lemma guard_request_lookup:
  assumes "guard_request sv ci dn b router w = (Inr b', w')"
  shows "k \<notin> {''messages'', ''input'', ''contents''} \<Longrightarrow> map_of b' k = map_of b k" "has_key b' k = has_key b k"
  using guard_request_result [OF assms] redact_request_lookup(1) [of k b] redact_request_lookup(2) [of b _ k] by auto

lemma prepared_call:
  fixes w w' :: "('st, 'c) world"
  assumes "prepare sv cp so team key op request expected validator streaming pn w = (Inr p, w')"
  obtains resolved clean and u u' :: "('st, 'c) world"
    where "shaped_request sv cp team key op request expected validator streaming = Inr (pd_model p, pd_routed p, resolved, clean)"
    "guard_request sv (call_of team key (pd_model p) op None) (pn_guard pn) clean (router_of (pd_routed p)) u = (Inr (pd_clean p), u')"
    "sv_credential sv (md_credential_id (pd_model p)) = Inr (Some (pd_values p))"
  using assms
proof (cases rule: prepare_steps)
  case (admitted m routed resolved clean approved adm l w2 w3 vs)
  then obtain v where "vs = Inr v" by (cases vs) auto
  with admitted that [of resolved clean "w\<lparr>wd_limiter := l\<rparr>" w2] show thesis
    by (auto simp: fetch_values_def split: sum.splits option.splits)
qed auto

lemma clamped_int:
  assumes "map_of (clamp_output_tokens op (sanitize_request op request) mc) k = Some (JInt i)" "k \<in> set token_fields" "allowed_fields op = Some allowed"
  shows "i \<le> (case mc of Some c \<Rightarrow> c | None \<Rightarrow> 32000)"
proof -
  have s: "j \<le> 32000" if j: "map_of (sanitize_request op request) k = Some (JInt j)" for j
  proof -
    obtain v where "map_of request k = Some v" "clamp_int v 32000 = JInt j"
      using j assms(2) distinct_token_fields(2)
      by (cases "map_of request k") (auto simp: map_of_sanitize [OF assms(3)] ceiling_of_def clamp_to_simps split: if_splits)
    then show ?thesis by (cases v) auto
  qed
  show ?thesis
  proof (cases mc)
    case None
    with assms(1) s show ?thesis by (simp add: clamp_output_tokens_def)
  next
    case (Some c)
    have "j \<le> c" if "clamp_int v c = JInt j" for v j using that by (cases v) auto
    with Some assms(1,2) show ?thesis by (auto simp: map_of_clamp_output split: if_splits)
  qed
qed

text \<open>What the guardrails leave of a clamped chat request.\<close>

lemma approved_chat_body:
  assumes g: "guard_request sv ci dn (clamp_output_tokens ''chat.completions'' (sanitize_request ''chat.completions'' request) (md_max_output_tokens m)) router u =
      (Inr approved, u')"
  shows "(\<forall>k. has_key approved k \<longrightarrow> k \<in> set chat_fields) \<and>
    (\<forall>k \<in> set token_fields. \<forall>i. map_of approved k = Some (JInt i) \<longrightarrow> i \<le> (case md_max_output_tokens m of Some c \<Rightarrow> c | None \<Rightarrow> 32000)) \<and>
    (\<forall>i. map_of approved ''n'' = Some (JInt i) \<longrightarrow> i \<le> 8) \<and>
    (\<forall>k. k \<notin> {''messages'', ''n''} \<union> set token_fields \<longrightarrow> k \<in> set chat_fields \<longrightarrow> map_of approved k = map_of request k)"
proof -
  let ?op = "''chat.completions''" and ?r = "sanitize_request ''chat.completions'' request"
  let ?c = "clamp_output_tokens ?op ?r (md_max_output_tokens m)"
  have allowed: "allowed_fields ?op = Some chat_fields" by (simp add: allowed_fields_def)
  have out: "output_token_field ?op = Some ''max_tokens''" by (simp add: output_token_field_def)
  have tok: "set token_fields \<subseteq> set chat_fields \<union> {''max_output_tokens''}" "''max_tokens'' \<in> set token_fields" "''max_tokens'' \<in> set chat_fields"
    by (auto simp: token_fields_def chat_fields_def)
  have other: "map_of ?c k = map_of ?r k" if "k \<notin> set token_fields" for k
    using that tok(2) out by (cases "md_max_output_tokens m") (auto simp: clamp_output_tokens_def [of _ _ None] map_of_clamp_output)
  have keys: "k \<in> set chat_fields" if "has_key ?c k" for k
  proof (cases "md_max_output_tokens m")
    case None
    with that show ?thesis by (auto simp: clamp_output_tokens_def map_of_sanitize [OF allowed] split: if_splits)
  next
    case (Some c)
    with that tok(3) out show ?thesis by (auto simp: map_of_clamp_output map_of_sanitize [OF allowed] split: if_splits)
  qed
  have limits: "i \<le> (case md_max_output_tokens m of Some c \<Rightarrow> c | None \<Rightarrow> 32000)"
    if "k \<in> set token_fields" "map_of approved k = Some (JInt i)" for k i
    using that guard_request_lookup(1) [OF g, of k] clamped_int [OF _ that(1) allowed]
    by (auto simp: token_fields_def)
  have n: "i \<le> 8" if "map_of approved ''n'' = Some (JInt i)" for i
  proof -
    have "map_of ?r ''n'' = Some (JInt i)"
      using that guard_request_lookup(1) [OF g, of "''n''"] other [of "''n''"] distinct_token_fields(2) by simp
    then obtain x where "clamp_int x 8 = JInt i" by (auto simp: map_of_sanitize [OF allowed] ceiling_of_def clamp_to_simps split: if_splits)
    then show ?thesis by (cases x) auto
  qed
  have rest: "map_of approved k = map_of request k" if "k \<notin> {''messages'', ''n''} \<union> set token_fields" "k \<in> set chat_fields" for k
  proof -
    have "k \<notin> {''messages'', ''input'', ''contents''}" using that by (auto simp: chat_fields_def)
    with guard_request_lookup(1) [OF g] other [of k] that show ?thesis
      by (simp add: map_of_sanitize [OF allowed] ceiling_of_def clamp_to_simps option.map_id)
  qed
  have "k \<in> set chat_fields" if "has_key approved k" for k
    using that keys [of k] guard_request_lookup(2) [OF g, of k] by simp
  then show ?thesis using limits n rest by (intro conjI; blast)
qed


definition open_services :: "unit services" where
  "open_services = stocked_services\<lparr>sv_ports := sample_ports\<lparr>mp_budgets := None\<rparr>\<rparr>"

definition greedy_request :: body where
  "greedy_request = [(''model'', JStr ''gpt''), (''messages'', JList [JObj [(''role'', JStr ''user''), (''content'', JStr ''hi'')]]),
     (''max_tokens'', JInt 9000), (''extra_headers'', JObj [])]"


text \<open>
  C25. The same for a native call: it is for an enabled chat model of the provider whose protocol it
  speaks, carries no SDK control field and no private one, and its output limit - wherever the
  protocol keeps it - is an int within the model's ceiling and 32000, whatever guardrails rewrote.
\<close>

theorem native_body_within_limits:
  fixes w w' :: "('st, 'c) world"
  assumes "ready_native sv cp so speaks op team key alias data streaming pn w = (Inr n, w')" "native_output_field speaks = Some f"
  shows "let p = nc_prepared n; m = pd_model p in md_provider m = speaks \<and> md_enabled m \<and> md_type m = Chat \<and>
    sv_credential sv (md_credential_id m) = Inr (Some (pd_values p)) \<and>
    (\<forall>k. has_key (pd_clean p) k \<longrightarrow> k \<notin> set native_control_kwargs \<and> \<not> starts_with ''_'' k) \<and>
    (\<forall>c. md_max_output_tokens m = Some c \<longrightarrow> (\<exists>i. native_limit speaks (pd_clean p) = JInt i \<and> i \<le> c \<and> i \<le> 32000)) \<and>
    (\<forall>i. native_limit speaks data = JInt i \<longrightarrow> (\<exists>j. native_limit speaks (pd_clean p) = JInt j \<and> j \<le> i \<and> j \<le> 32000)) \<and>
    native_reservation_view speaks (pd_clean p) = Inr (nc_view n)"
proof -
  define p where "p = nc_prepared n"
  define m where "m = pd_model p"
  obtain resolved b and u u' :: "('st, 'c) world" where g: "governed_native sv cp team key alias data Chat op streaming = Inr (m, resolved, pd_values p, b)"
    and s: "guard_request sv (call_of team key m op None) (pn_guard pn) b None u = (Inr (pd_clean p), u')"
    and view: "native_reservation_view speaks (pd_clean p) = Inr (nc_view n)" "md_provider m = speaks"
    using assms(1) unfolding p_def m_def
    by (auto simp: ready_native_def prepare_native_def split: sum.split_asm prod.split_asm if_split_asm)
  note gm = governed_native_model [OF g, unfolded view(2)]
  have f: "f \<in> {''max_tokens'', ''maxOutputTokens''}" "f = ''max_tokens'' \<or> speaks = Vertex_AI"
    using assms(2) by (auto simp: native_output_field_def split: provider.splits)
  have kept: "map_of (pd_clean p) k = map_of b k" if "k \<in> {''max_tokens'', ''maxOutputTokens'', ''generationConfig''}" for k
    using that guard_request_lookup(1) [OF s, of k] by auto
  have "dget (pd_clean p) k = dget b k" if "k \<in> {''max_tokens'', ''maxOutputTokens'', ''generationConfig''}" for k
    unfolding dget_def kept [OF that] ..
  then have "dget (pd_clean p) f = dget b f" "dget (pd_clean p) ''generationConfig'' = dget b ''generationConfig''" using f(1) by blast+
  then have limit: "native_limit speaks (pd_clean p) = native_limit speaks b"
    unfolding native_limit_def assms(2) by simp
  obtain v where v: "\<And>i. native_limit speaks data = JInt i \<Longrightarrow> v = JInt i"
    "\<And>w. governed_value v (md_max_output_tokens m) = Some w \<Longrightarrow> native_limit speaks b = w"
    "\<And>k. k \<notin> {f, ''generationConfig''} \<Longrightarrow> map_of b k = map_of data k"
    using clamp_native_limit [OF gm(5) assms(2)] by blast
  have safe: "k \<notin> set native_control_kwargs \<and> \<not> starts_with ''_'' k" if "has_key (pd_clean p) k" for k
  proof (cases "k \<in> {f, ''generationConfig''}")
    case True
    with f show ?thesis by (auto simp: native_control_kwargs_def starts_with_def)
  next
    case False
    with v(3) [of k] that guard_request_lookup(2) [OF s, of k] have "k \<in> set (keys data)"
      by (auto simp: keys_def dest: map_of_SomeD intro: rev_image_eqI)
    moreover have "filter (\<lambda>k. k \<in> set native_control_kwargs \<or> starts_with ''_'' k) (keys data) = []"
      using gm(4) unfolding reject_native_control_kwargs_def Let_def
      by (cases "filter (\<lambda>k. k \<in> set native_control_kwargs \<or> starts_with ''_'' k) (keys data)") (auto split: if_split_asm)
    ultimately show ?thesis by (auto simp: filter_empty_conv)
  qed
  have "\<exists>i. native_limit speaks (pd_clean p) = JInt i \<and> i \<le> c \<and> i \<le> 32000" if "md_max_output_tokens m = Some c" for c
    using governed_value_bounds(1) [OF that, of v] v(2) unfolding limit by blast
  moreover have "\<exists>j. native_limit speaks (pd_clean p) = JInt j \<and> j \<le> i \<and> j \<le> 32000" if "native_limit speaks data = JInt i" for i
    using governed_value_bounds(2) [of i "md_max_output_tokens m"] v(1) [OF that] v(2) unfolding limit by blast
  ultimately show ?thesis
    using gm(2,3,6) safe view unfolding Let_def p_def [symmetric] m_def [symmetric] by (intro conjI; blast)
qed

definition gemini_services :: "unit services" where
  "gemini_services = open_services\<lparr>sv_model_by_name := (\<lambda>_ _. Inr (Some (priced_model\<lparr>md_provider := Vertex_AI\<rparr>)))\<rparr>"

theorem native_body_within_limits_witness:
  "\<exists>n w'. ready_native gemini_services no_aliases memory_store Vertex_AI ''native.generate_content'' ''t'' None (JStr ''gpt'')
      [(''generationConfig'', JObj [(''maxOutputTokens'', JNull)])] False sample_prepare (sample_world :: (mem_store, unit) world) = (Inr n, w') \<and>
    (\<exists>i. native_limit Vertex_AI (pd_clean (nc_prepared n)) = JInt i \<and> i \<le> 100)"
proof -
  let ?ready = "ready_native gemini_services no_aliases memory_store Vertex_AI ''native.generate_content'' ''t'' None (JStr ''gpt'')
      [(''generationConfig'', JObj [(''maxOutputTokens'', JNull)])] False sample_prepare (sample_world :: (mem_store, unit) world)"
  have "case fst ?ready of Inr n \<Rightarrow> md_max_output_tokens (pd_model (nc_prepared n)) = Some 100 | Inl e \<Rightarrow> False" by code_simp
  then obtain n w' where n: "?ready = (Inr n, w')" "md_max_output_tokens (pd_model (nc_prepared n)) = Some 100"
    by (cases ?ready) (auto split: sum.splits)
  have "native_output_field Vertex_AI = Some ''maxOutputTokens''" by (simp add: native_output_field_def)
  from native_body_within_limits [OF n(1) this] n show ?thesis by (auto simp: Let_def)
qed

section \<open>Screening a router\<close>

definition serves :: "(candidate \<Rightarrow> exc + model option) \<Rightarrow> string \<Rightarrow> body \<Rightarrow> (model \<Rightarrow> body \<Rightarrow> exc + body) \<Rightarrow> candidate \<Rightarrow> bool" where
  "serves look op request validate c \<longleftrightarrow> (\<exists>m q. look c = Inr (Some m) \<and> validate m (clamp_output_tokens op request (md_max_output_tokens m)) = Inr q)"

lemma screened_candidates:
  "screen_candidates look op request validate cs = Inr (accepted, rejected) \<Longrightarrow>
    accepted = filter (serves look op request validate) cs \<and> length accepted + length rejected = length cs"
proof (induction cs arbitrary: accepted rejected)
  case (Cons c cs)
  then obtain m where m: "look c = Inr (Some m)" by (auto split: option.splits)
  show ?case
  proof (cases "validate m (clamp_output_tokens op request (md_max_output_tokens m))")
    case (Inl e)
    then have "\<not> serves look op request validate c" using m by (simp add: serves_def)
    with Cons m Inl show ?thesis by (auto split: if_split_asm)
  next
    case (Inr q)
    then have "serves look op request validate c" using m by (auto simp: serves_def)
    with Cons m Inr show ?thesis by auto
  qed
qed simp

text \<open>
  C24. Screening a router for a request keeps exactly the candidates whose model accepts it, in the order
  they were declared, and nothing else about the router but its default, which stays when its
  candidate stays and is otherwise the first candidate kept. A router is only refused as a whole when
  none is left, or when a candidate cannot be looked up.
\<close>

theorem router_screened:
  assumes "validated_router sv cp router team op request (Some validate) = Inr r" "rt_candidates router \<noteq> []"
  defines "ok \<equiv> serves (candidate_model sv cp team) op request validate"
  shows "rt_candidates r = filter ok (rt_candidates router) \<and> rt_candidates r \<noteq> [] \<and>
    r = router\<lparr>rt_candidates := rt_candidates r, rt_default_model := rt_default_model r, rt_default_model_id := rt_default_model_id r\<rparr> \<and>
    (r = router \<or> (\<exists>d \<in> set (rt_candidates r). rt_default_model r = model_name d \<and> rt_default_model_id r = model_id d \<and>
      ((\<exists>c \<in> set (rt_candidates r). model_name c = rt_default_model router) \<longrightarrow> model_name d = rt_default_model router)))"
proof -
  obtain accepted rejected where s: "screen_candidates (candidate_model sv cp team) op request validate (rt_candidates router) = Inr (accepted, rejected)"
    using assms(1) by (auto simp: validated_router_def)
  note a = screened_candidates [OF s, folded ok_def]
  have ne: "accepted \<noteq> []"
    using assms(1,2) a s by (cases rejected) (auto simp: validated_router_def split: if_split_asm)
  show ?thesis
  proof (cases "length accepted = length (rt_candidates router)")
    case True
    then have "r = router" using assms(1) s ne by (simp add: validated_router_def)
    moreover have "accepted = rt_candidates router"
      using a True by (metis filter_id_conv length_filter_less less_irrefl)
    ultimately show ?thesis using a ne by simp
  next
    case False
    define d where "d = (case find (\<lambda>c. model_name c = rt_default_model router) accepted of Some c \<Rightarrow> c | None \<Rightarrow> hd accepted)"
    have r: "r = router\<lparr>rt_candidates := accepted, rt_default_model := model_name d, rt_default_model_id := model_id d\<rparr>"
      using assms(1) s ne False by (simp add: validated_router_def Let_def d_def)
    have "d \<in> set accepted \<and> ((\<exists>c \<in> set accepted. model_name c = rt_default_model router) \<longrightarrow> model_name d = rt_default_model router)"
    proof (cases "find (\<lambda>c. model_name c = rt_default_model router) accepted")
      case None
      then have "d = hd accepted" by (simp add: d_def)
      with None ne show ?thesis by (simp add: find_None_props)
    next
      case (Some c)
      with find_Some_props [OF Some] show ?thesis by (simp add: d_def)
    qed
    with r a ne show ?thesis by auto
  qed
qed

definition sample_candidate :: "string \<Rightarrow> candidate" where
  "sample_candidate name = \<lparr>model_name = name, description = [], quality_tier = SIMPLE, model_id = None, model_origin = None,
     source_team_id = None, supports_vision = False, supports_tools = False, supports_json_schema = False,
     context_window_tokens = None, input_cost_per_token = None, output_cost_per_token = None, weight = None\<rparr>"

definition sample_router :: router_config where
  "sample_router = \<lparr>rt_id = ''r'', rt_team_id = Some ''t'', rt_name = ''smart'', rt_candidates = [sample_candidate ''a'', sample_candidate ''b''],
     rt_default_model = ''a'', rt_strategy = ''rules'', rt_strategy_config = [], rt_enabled = True, rt_shadow_strategy = None,
     rt_origin_team_id = None, rt_revision_id = None, rt_revision_number = None, rt_default_model_id = None, rt_grant_id = None,
     rt_ack_active_prompt_egress = False, rt_ack_shadow_prompt_egress = False, rt_failover_enabled = False, rt_max_attempts = 3,
     rt_overall_deadline_ms = None\<rparr>"

text \<open>\<open>a\<close> is a model that refuses, \<open>b\<close> one that accepts; \<open>smart\<close> is a router over both.\<close>

definition routed_services :: "unit services" where
  "routed_services = open_services\<lparr>sv_router_wired := True, sv_model_by_name := (\<lambda>_ v.
     if v = JStr ''a'' \<or> v = JStr ''b'' then Inr (Some (priced_model\<lparr>md_name := (case v of JStr s \<Rightarrow> s | _ \<Rightarrow> []), md_provider := if v = JStr ''a'' then Bedrock else OpenAI\<rparr>))
     else Inr None)\<rparr>"

theorem router_screened_witness:
  "\<exists>r. validated_router routed_services no_aliases sample_router ''t'' ''chat.completions'' [] (Some (\<lambda>m q.
      if md_provider m = Bedrock then unsupported [] else Inr q)) = Inr r \<and> map model_name (rt_candidates r) = [''b''] \<and> rt_default_model r = ''b''"
proof -
  let ?v = "\<lambda>m q. if md_provider m = Bedrock then unsupported [] else Inr q"
  obtain r where r: "validated_router routed_services no_aliases sample_router ''t'' ''chat.completions'' [] (Some ?v) = Inr r"
    "length (rt_candidates r) \<noteq> 2"
    by (simp add: validated_router_def sample_router_def candidate_model_def no_aliases_def routed_services_def sample_candidate_def exc_isinstance_def
        isinstance_def eval_nat_numeral)
  have "filter (serves (candidate_model routed_services no_aliases ''t'') ''chat.completions'' [] ?v) (rt_candidates sample_router) = [sample_candidate ''b'']"
    by (simp add: sample_router_def serves_def candidate_model_def no_aliases_def routed_services_def sample_candidate_def)
  moreover have "rt_candidates sample_router \<noteq> []" by (simp add: sample_router_def)
  ultimately show ?thesis using router_screened [OF r(1)] r by (auto simp: sample_router_def sample_candidate_def)
qed

text \<open>
  A response rule of a router does not bind \<open>/v1/responses\<close>: the chat endpoint hands the router to
  the dispatch, the responses endpoint does not, so its answer is screened as if no router had been
  named - and here handed out, though the rule of the router the caller named would refuse it.
\<close>

definition router_guard :: chained_guard where
  "router_guard = \<lparr>cg_provider = \<lparr>gd_name = ''dlp'', gd_supports = (\<lambda>_. True), gd_check = (\<lambda>p. Inr (plain_verdict Refuse ''dlp''))\<rparr>,
     cg_fail = Fail_Closed\<rparr>"

definition guarded_services :: "unit services" where
  "guarded_services = routed_services\<lparr>sv_guardrails := Some (\<lambda>_ _ _ d router.
     Inr (if d = Response_Side \<and> router = Some ''r'' then [router_guard] else []))\<rparr>"

definition routing_ports :: callable_ports where
  "routing_ports = \<lparr>cp_resolver = None, cp_router_by_name = (\<lambda>_ v. Inr (if v = JStr ''smart'' then Some sample_router else None)),
     cp_route = (\<lambda>router _ _ _. Inr \<lparr>chosen_name = ''b'', chosen_strategy = ''rules'', chosen_tier = None, chosen_score = None,
       chosen_signals = [], chosen_id = None\<rparr>)\<rparr>"

lemma responses_skip_router_rules:
  "\<exists>p w'. prepare guarded_services routing_ports memory_store ''t'' None ''responses'' [(''model'', JStr ''smart''), (''input'', JStr ''hi'')] Chat
      (Some validate_responses_request) False sample_prepare (sample_world :: (mem_store, unit) world) = (Inr p, w') \<and>
    router_of (pd_routed p) = Some ''r'' \<and>
    (let dc = dispatch_of guarded_services (\<lambda>_ _ _. Inr sample_response) ''t'' None ''responses'' True None p in
      fst (guard_response guarded_services (dc_info dc) sample_now sample_response (dc_router_id dc) w') = Inr sample_response \<and>
      (\<exists>info. fst (guard_response guarded_services (dc_info dc) sample_now sample_response (router_of (pd_routed p)) w') = guardrail_blocked info))"
proof -
  let ?prep = "prepare guarded_services routing_ports memory_store ''t'' None ''responses'' [(''model'', JStr ''smart''), (''input'', JStr ''hi'')] Chat
      (Some validate_responses_request) False sample_prepare (sample_world :: (mem_store, unit) world)"
  have "case fst ?prep of Inr p \<Rightarrow> router_of (pd_routed p) = Some ''r'' | Inl e \<Rightarrow> False" by code_simp
  then obtain p w' where p: "?prep = (Inr p, w')" "router_of (pd_routed p) = Some ''r''"
    by (cases ?prep) (auto split: sum.splits)
  have judged: "guard_response_text sample_response = Inr []" by code_simp
  have g: "sv_guardrails guarded_services = Some (\<lambda>_ _ _ d router. Inr (if d = Response_Side \<and> router = Some ''r'' then [router_guard] else []))"
    by (simp add: guarded_services_def)
  have "guard_response guarded_services ci sample_now sample_response None w' = (Inr sample_response, w')" for ci
    by (simp add: guard_response_def guarded_def g)
  moreover have "\<exists>info. fst (guard_response guarded_services ci sample_now sample_response (Some ''r'') w') = guardrail_blocked info" for ci
    by (simp add: guard_response_def guarded_def g traced_block_def screened_def judged run_chain_def applicable_guards_def router_guard_def
        check_guard_def plain_verdict_def Let_def)
  ultimately show ?thesis using p by (auto simp: Let_def dispatch_of_def)
qed

end
