(* ===== verification/Completion_Failover.thy ===== *)
theory Completion_Failover
  imports Completion_Prepare Circuit_Breaker
begin

text \<open>
  Chat completions and their failover chain (\<open>chat_completion\<close>, \<open>_remaining_failover_candidates\<close>,
  \<open>_breaker_filtered\<close>, \<open>_within_deadline\<close>, \<open>_chat_completion_with_failover\<close> of
  \<open>application/completion_service.py\<close>): the candidates in order, one provider call per attempt, the
  breaker told of each, and the wall-clock budget of the chain. Whatever the attempts do, at most one
  event bills the request and no reservation of it stays; the two ways in which an expired budget
  breaks that are at the end.
\<close>

section \<open>The fallback candidates\<close>

record 'b breaker_ops =
  bo_allow :: "'b \<Rightarrow> string \<Rightarrow> float_py \<Rightarrow> string \<Rightarrow> exc + breaker_lease \<times> 'b"
  bo_fail :: "'b \<Rightarrow> string \<Rightarrow> string option \<Rightarrow> float_py \<Rightarrow> 'b"
  bo_succeed :: "'b \<Rightarrow> string \<Rightarrow> string option \<Rightarrow> 'b"

definition memory_breaker :: "breaker_config \<Rightarrow> breaker_states breaker_ops" where
  "memory_breaker cfg = \<lparr>bo_allow = cb_allow cfg, bo_fail = cb_record_failure cfg, bo_succeed = cb_record_success\<rparr>"

definition remaining_candidates :: "'c services \<Rightarrow> callable_ports \<Rightarrow> uuid \<Rightarrow> router_config \<Rightarrow> routing_decision \<Rightarrow> body \<Rightarrow>
    exc + model list" where
  "remaining_candidates sv cp team router decision request =
    rbind (build_routing_context request (Some team) None) (\<lambda>ctx.
    rbind (rmap (candidate_model sv cp team)
        (filter (\<lambda>c. model_name c \<noteq> chosen_name decision) (filter_candidates ctx (rt_candidates router)))) (\<lambda>found.
    Inr (filter (\<lambda>m. md_enabled m \<and> md_type m = Chat) (map the (filter (\<lambda>m. m \<noteq> None) found)))))"

text \<open>\<open>draw i\<close>: the clock reading and the fresh token of the \<open>i\<close>-th lease asked for.\<close>

fun breaker_filtered :: "'b breaker_ops \<Rightarrow> (nat \<Rightarrow> float_py \<times> string) \<Rightarrow> nat \<Rightarrow> model list \<Rightarrow> model list \<times> (string, string) dict \<Rightarrow> 'b \<Rightarrow>
    (exc + model list \<times> (string, string) dict) \<times> 'b" where
  "breaker_filtered bo draw i [] acc b = (Inr acc, b)"
| "breaker_filtered bo draw i (m # ms) (allowed, tokens) b = (case bo_allow bo b (md_id m) (fst (draw i)) (snd (draw i)) of
     Inl e \<Rightarrow> (Inl e, b)
   | Inr (lease, b') \<Rightarrow> breaker_filtered bo draw (Suc i) ms
       (if \<not> lease_allowed lease then (allowed, tokens)
        else (allowed @ [m], case lease_token lease of None \<Rightarrow> tokens | Some t \<Rightarrow> dict_put (md_id m) t tokens)) b')"

definition filtered_by :: "'b breaker_ops option \<Rightarrow> (nat \<Rightarrow> float_py \<times> string) \<Rightarrow> model list \<Rightarrow> 'b \<Rightarrow>
    (exc + model list \<times> (string, string) dict) \<times> 'b" where
  "filtered_by breaker draw ms b = (case breaker of
     None \<Rightarrow> (Inr (ms, []), b) | Some bo \<Rightarrow> breaker_filtered bo draw 0 ms ([], []) b)"

section \<open>One attempt\<close>

text \<open>
  Where the chain's budget runs out during an attempt: not at all, before the call is settled (its
  transaction is rolled back), or after that, while the answer is judged.
\<close>

datatype cutoff = Uncut | Cut_Unsettled | Cut_Screening

text \<open>
  The readings of one attempt: the clock at the check between two attempts and at its start, what
  the provider answers, and where the budget cuts it off.
\<close>

record attempt_now =
  an_checked :: float_py
  an_guard :: dispatch_now
  an_key_gate :: gate_now
  an_team_gate :: gate_now
  an_started :: float_py
  an_gateway :: provider_call
  an_cut :: cutoff
  an_dispatch :: dispatch_now
  an_failed_at :: float_py

abbreviation upstream_timeout :: "exc + 'a" where
  "upstream_timeout \<equiv> raise_exc (Upstream UpstreamTimeout) [''failover deadline exceeded'']"

definition cut_dispatch :: "'c services \<Rightarrow> 'st store_ops \<Rightarrow> dispatch_call \<Rightarrow> dispatch_now \<Rightarrow> cutoff \<Rightarrow> ('st, 'c) world \<Rightarrow>
    (exc + body) \<times> ('st, 'c) world" where
  "cut_dispatch sv so dc dn c w = (case c of
     Uncut \<Rightarrow> dispatch sv so dc dn w
   | Cut_Unsettled \<Rightarrow> (upstream_timeout, release_held sv so (dc_reservation dc)
       (w\<lparr>wd_calls := wd_calls w @ [(md_id (ci_model (dc_info dc)), dc_sent dc)]\<rparr>))
   | Cut_Screening \<Rightarrow> (if sv_guardrails sv = None then dispatch sv so dc dn w
       else case dispatch (sv\<lparr>sv_guardrails := None\<rparr>) so dc dn w of (Inr _, w') \<Rightarrow> (upstream_timeout, w') | r \<Rightarrow> r))"

text \<open>\<open>_within_deadline\<close>; a \<open>TimeoutError\<close> of the call itself is taken for the budget's.\<close>

definition within_deadline :: "router_config \<Rightarrow> float_py \<Rightarrow> attempt_now \<Rightarrow> (cutoff \<Rightarrow> (exc + 'x) \<times> 'w) \<Rightarrow> 'w \<Rightarrow> (exc + 'x) \<times> 'w" where
  "within_deadline router start an run w = (case rt_overall_deadline_ms router of
     None \<Rightarrow> run Uncut
   | Some d \<Rightarrow> if fsub (fdiv (of_int d) 1000) (fsub (an_started an) start) \<le> 0 then (upstream_timeout, w)
       else case run (an_cut an) of
         (res, w') \<Rightarrow> (if res = raise_py (OtherException ''TimeoutError'') then upstream_timeout else res, w'))"

definition retryable :: "exc \<Rightarrow> bool" where
  "retryable e = (case e of Builtin _ \<Rightarrow> False
     | Domain c _ _ _ \<Rightarrow> is_failover_eligible c \<and> \<not> isinstance c (Upstream UpstreamResponseInvalid))"

datatype 'x attempt = Answered 'x | Stopped exc | Failed_Over exc

definition attempt_call :: "'c services \<Rightarrow> 'st store_ops \<Rightarrow> 'b breaker_ops option \<Rightarrow> uuid \<Rightarrow> uuid option \<Rightarrow> router_config \<Rightarrow>
    (string, string) dict \<Rightarrow> float_py \<Rightarrow> attempt_now \<Rightarrow> prepared \<Rightarrow> ('st, 'c) world \<times> 'b \<Rightarrow> body attempt \<times> ('st, 'c) world \<times> 'b" where
  "attempt_call sv so breaker team key router tokens start an p s = (case s of (w, b) \<Rightarrow>
     let dc = dispatch_of sv (an_gateway an) team key ''chat.completions'' False (Some (rt_id router)) p;
         i = md_id (pd_model p) in
     case within_deadline router start an (\<lambda>c. cut_dispatch sv so dc (an_dispatch an) c w) w of
       (Inr answer, w') \<Rightarrow> (Answered answer, w', case breaker of None \<Rightarrow> b | Some bo \<Rightarrow> bo_succeed bo b i (map_of tokens i))
     | (Inl e, w') \<Rightarrow> if retryable e
         then (Failed_Over e, w', case breaker of None \<Rightarrow> b | Some bo \<Rightarrow> bo_fail bo b i (map_of tokens i) (an_failed_at an))
         else (Stopped e, w', b))"

text \<open>The next candidate: clamped, validated and judged anew, its credential, and its own reservation.\<close>

definition next_prepared :: "'c services \<Rightarrow> 'st store_ops \<Rightarrow> uuid \<Rightarrow> uuid option \<Rightarrow> router_config \<Rightarrow> body \<Rightarrow> attempt_now \<Rightarrow> prepared \<Rightarrow> model \<Rightarrow>
    ('st, 'c) world \<Rightarrow> (exc + prepared) \<times> ('st, 'c) world" where
  "next_prepared sv so team key router sanitized an p m w =
    (case validate_chat_request m (clamp_output_tokens ''chat.completions'' sanitized (md_max_output_tokens m)) of
       Inl e \<Rightarrow> (Inl e, w)
     | Inr clean \<Rightarrow> (case guard_request sv (call_of team key m ''chat.completions'' None) (an_guard an) clean (Some (rt_id router)) w of
         (Inl e, w1) \<Rightarrow> (Inl e, w1)
       | (Inr approved, w1) \<Rightarrow> (case rbind (sv_credential sv (md_credential_id m))
             (\<lambda>v. case v of None \<Rightarrow> raise_exc (Catalog CredentialNotFound) [md_credential_id m] | Some x \<Rightarrow> Inr x) of
           Inl e \<Rightarrow> (Inl e, w1)
         | Inr values \<Rightarrow> (case admit_call sv so team key m (merge_params m approved) True True (an_key_gate an) (an_team_gate an) w1 of
             (Inl e, w2) \<Rightarrow> (Inl e, w2)
           | (Inr reservation, w2) \<Rightarrow> (Inr (p\<lparr>pd_model := m, pd_values := values, pd_reservation := reservation, pd_clean := approved\<rparr>), w2)))))"

section \<open>The chain\<close>

definition past_deadline :: "router_config \<Rightarrow> float_py \<Rightarrow> attempt_now \<Rightarrow> bool" where
  "past_deadline router start an = (case rt_overall_deadline_ms router of
     None \<Rightarrow> False | Some d \<Rightarrow> of_int d \<le> fmul (fsub (an_checked an) start) 1000)"

text \<open>
  The loop from attempt \<open>n\<close> on, whose call \<open>p\<close> is prepared: \<open>call\<close> makes an attempt, \<open>ready\<close> prepares
  the next candidate, \<open>late\<close> is the check between the two. Returned with the result: \<open>attempts_made\<close>.
\<close>

fun attempts :: "(nat \<Rightarrow> 'p \<Rightarrow> 's \<Rightarrow> 'x attempt \<times> 's) \<Rightarrow> (nat \<Rightarrow> 'p \<Rightarrow> 'm \<Rightarrow> 's \<Rightarrow> (exc + 'p) \<times> 's) \<Rightarrow> (nat \<Rightarrow> bool) \<Rightarrow>
    nat \<Rightarrow> 'p \<Rightarrow> 'm list \<Rightarrow> 's \<Rightarrow> (exc + 'x) \<times> nat \<times> 's" where
  "attempts call ready late n p ms s = (case call n p s of
     (Answered answer, s1) \<Rightarrow> (Inr answer, Suc n, s1)
   | (Stopped e, s1) \<Rightarrow> (Inl e, Suc n, s1)
   | (Failed_Over e, s1) \<Rightarrow> (case ms of
       [] \<Rightarrow> (Inl e, Suc n, s1)
     | m # ms' \<Rightarrow> if late (Suc n) then (Inl e, Suc (Suc n), s1)
         else case ready (Suc n) p m s1 of
           (Inl e', s2) \<Rightarrow> (Inl e', Suc (Suc n), s2)
         | (Inr p', s2) \<Rightarrow> attempts call ready late (Suc n) p' ms' s2))"

declare attempts.simps [simp del]

record failover_now =
  fn_draw :: "nat \<Rightarrow> float_py \<times> string"
  fn_start :: float_py
  fn_attempt :: "nat \<Rightarrow> attempt_now"

text \<open>
  \<open>None\<close> when the chain is not entered; otherwise what \<open>record_failover\<close> is told. The body of the
  loop runs \<open>min(router.max_attempts, 1 + len(remaining))\<close> times. \<open>call tokens\<close> makes the attempts:
  the chain of a chat completion and that of a stream differ in nothing else.
\<close>

definition walk_chain :: "'c services \<Rightarrow> callable_ports \<Rightarrow> 'st store_ops \<Rightarrow> 'b breaker_ops option \<Rightarrow> uuid \<Rightarrow> uuid option \<Rightarrow> body \<Rightarrow>
    router_config \<Rightarrow> routing_decision \<Rightarrow> failover_now \<Rightarrow>
    ((string, string) dict \<Rightarrow> nat \<Rightarrow> prepared \<Rightarrow> ('st, 'c) world \<times> 'b \<Rightarrow> 'x attempt \<times> ('st, 'c) world \<times> 'b) \<Rightarrow> prepared \<Rightarrow> ('st, 'c) world \<times> 'b \<Rightarrow>
    (exc + 'x) \<times> nat option \<times> ('st, 'c) world \<times> 'b" where
  "walk_chain sv cp so breaker team key sanitized router decision fn call p s = (case s of (w, b) \<Rightarrow>
     (case remaining_candidates sv cp team router decision sanitized of
       Inl e \<Rightarrow> (Inl e, None, s)
     | Inr ms \<Rightarrow> (case filtered_by breaker (fn_draw fn) ms b of
         (Inl e, b1) \<Rightarrow> (Inl e, None, w, b1)
       | (Inr (allowed, tokens), b1) \<Rightarrow>
           let limit = min (rt_max_attempts router) (1 + int (length allowed)) in
           if limit \<le> 0 then (raise_py AssertionError, Some 0, w, b1)
           else case attempts (call tokens)
               (\<lambda>n p m (w, b). case next_prepared sv so team key router sanitized (fn_attempt fn n) p m w of (r, w') \<Rightarrow> (r, w', b))
               (\<lambda>n. past_deadline router (fn_start fn) (fn_attempt fn n)) 0 p (take (nat limit - 1) allowed) (w, b1) of
             (res, made, s') \<Rightarrow> (res, Some made, s'))))"

definition with_failover :: "'c services \<Rightarrow> callable_ports \<Rightarrow> 'st store_ops \<Rightarrow> 'b breaker_ops option \<Rightarrow> uuid \<Rightarrow> uuid option \<Rightarrow> body \<Rightarrow>
    router_config \<Rightarrow> routing_decision \<Rightarrow> failover_now \<Rightarrow> prepared \<Rightarrow> ('st, 'c) world \<times> 'b \<Rightarrow>
    (exc + body) \<times> nat option \<times> ('st, 'c) world \<times> 'b" where
  "with_failover sv cp so breaker team key sanitized router decision fn = walk_chain sv cp so breaker team key sanitized router decision fn
     (\<lambda>tokens n. attempt_call sv so breaker team key router tokens (fn_start fn) (fn_attempt fn n))"

definition chat_completion :: "'c services \<Rightarrow> callable_ports \<Rightarrow> 'st store_ops \<Rightarrow> 'b breaker_ops option \<Rightarrow> provider_call \<Rightarrow> uuid \<Rightarrow> uuid option \<Rightarrow>
    body \<Rightarrow> prepare_now \<Rightarrow> dispatch_now \<Rightarrow> failover_now \<Rightarrow> ('st, 'c) world \<times> 'b \<Rightarrow> (exc + body) \<times> nat option \<times> ('st, 'c) world \<times> 'b" where
  "chat_completion sv cp so breaker gw team key request pn dn fn s = (case s of (w, b) \<Rightarrow>
     let sanitized = sanitize_request ''chat.completions'' request in
     case prepare sv cp so team key ''chat.completions'' sanitized Chat (Some validate_chat_request) False pn w of
       (Inl e, w1) \<Rightarrow> (Inl e, None, w1, b)
     | (Inr p, w1) \<Rightarrow> (case pd_routed p of
         Some (router, decision) \<Rightarrow> if rt_failover_enabled router
           then with_failover sv cp so breaker team key sanitized router decision fn p (w1, b)
           else (case dispatch sv so (dispatch_of sv gw team key ''chat.completions'' True (Some (rt_id router)) p) dn w1 of
             (res, w2) \<Rightarrow> (res, None, w2, b))
       | None \<Rightarrow> (case dispatch sv so (dispatch_of sv gw team key ''chat.completions'' True None p) dn w1 of
             (res, w2) \<Rightarrow> (res, None, w2, b))))"

section \<open>Errors that come after the bill\<close>

lemma retryable_simps [simp]:
  "\<not> retryable (Builtin x)" "\<not> retryable (Domain (Request r) info ra owed)"
  by (simp_all add: retryable_def is_failover_eligible_iff)

text \<open>What an attempt can raise that makes the chain move on.\<close>

definition moves_on :: "exc \<Rightarrow> bool" where
  "moves_on e \<longleftrightarrow> retryable e \<or> e = Builtin (OtherException ''TimeoutError'')"

text \<open>The classification without the exception for an answer that has been billed.\<close>

definition failover_eligible :: "exc \<Rightarrow> bool" where
  "failover_eligible e = (case e of Builtin _ \<Rightarrow> False | Domain c _ _ _ \<Rightarrow> is_failover_eligible c)"

definition upstream_like :: "exc \<Rightarrow> bool" where
  "upstream_like e \<longleftrightarrow> failover_eligible e \<or> e = Builtin (OtherException ''TimeoutError'')"

lemma moves_on_upstream: "moves_on e \<Longrightarrow> upstream_like e"
  by (auto simp: moves_on_def upstream_like_def retryable_def failover_eligible_def split: exc.splits)

text \<open>The resolution of a guardrail chain raises nothing that looks like a provider's failure.\<close>

definition sober :: "'c services \<Rightarrow> bool" where
  "sober sv \<longleftrightarrow> (\<forall>f team key m d r e. sv_guardrails sv = Some f \<longrightarrow> f team key m d r = Inl e \<longrightarrow> \<not> upstream_like e)"

definition tame :: "(exc + 'a) \<Rightarrow> bool" where
  "tame r \<longleftrightarrow> (\<forall>e. r = Inl e \<longrightarrow> \<not> upstream_like e)"

lemma tame_Inr [simp]: "tame (Inr x)"
  by (simp add: tame_def)

lemma tame_raise [simp]: "tame (guardrail_blocked info)" "x \<noteq> OtherException ''TimeoutError'' \<Longrightarrow> tame (raise_py x)"
  by (simp_all add: tame_def upstream_like_def failover_eligible_def is_failover_eligible_iff)

lemma tame_rbind: "tame r \<Longrightarrow> (\<And>x. r = Inr x \<Longrightarrow> tame (f x)) \<Longrightarrow> tame (rbind r f)"
  by (cases r) (simp_all add: tame_def)

lemma tame_rmap: "(\<And>x. tame (f x)) \<Longrightarrow> tame (rmap f xs)"
  by (induction xs) (auto intro!: tame_rbind)

lemma tame_iterate: "tame (iterate_or_empty v)"
  by (cases v) (simp_all add: iterate_or_empty_def)

lemma tame_run_checks: "tame (run_checks nm chain p t vs)"
  by (induction nm chain p t vs rule: run_checks.induct) (simp_all add: Let_def)

lemma tame_run_chain: "tame (run_chain nm chain p)"
  by (simp add: run_chain_def Let_def tame_run_checks)

lemma tame_response_text: "tame (guard_response_text b)"
  unfolding guard_response_text_def by (intro tame_rbind tame_iterate tame_Inr)

lemma tame_redact_response: "tame (redact_response b t)"
proof -
  have c: "tame (redact_choice t c)" for c
    by (cases c) (simp_all add: redact_choice_def split: json.split option.split)
  have rest: "tame (case dget b ''content'' of JList blocks \<Rightarrow> Inr (dict_put ''content'' (JList (map (redact_block t) blocks)) b)
     | _ \<Rightarrow> rbind (iterate_or_empty (dget b ''candidates'')) (\<lambda>_. Inr (case dget b ''candidates'' of
         JList cs \<Rightarrow> dict_put ''candidates'' (JList (map (redact_candidate t) cs)) b | _ \<Rightarrow> b)))"
    by (cases "dget b ''content''") (simp_all add: tame_rbind [OF tame_iterate])
  show ?thesis
  proof (cases "\<exists>x xs. dget b ''choices'' = JList (x # xs)")
    case True
    then obtain x xs where d: "dget b ''choices'' = JList (x # xs)" by blast
    have "tame (rbind (rmap (redact_choice t) (x # xs)) (\<lambda>cs'. Inr (dict_put ''choices'' (JList cs') b)))"
      by (intro tame_rbind tame_rmap c tame_Inr)
    with d show ?thesis by (simp add: redact_response_def)
  next
    case False
    then have "redact_response b t = (case dget b ''content'' of JList blocks \<Rightarrow> Inr (dict_put ''content'' (JList (map (redact_block t) blocks)) b)
       | _ \<Rightarrow> rbind (iterate_or_empty (dget b ''candidates'')) (\<lambda>_. Inr (case dget b ''candidates'' of
           JList cs \<Rightarrow> dict_put ''candidates'' (JList (map (redact_candidate t) cs)) b | _ \<Rightarrow> b)))"
      unfolding redact_response_def by (cases "dget b ''choices''") (simp_all add: neq_Nil_conv split: list.split)
    with rest show ?thesis by simp
  qed
qed

lemma tame_guard_response:
  assumes "sober sv" "guard_response sv ci dn b router w = (res, w')"
  shows "tame res"
proof (cases "sv_guardrails sv")
  case (Some f)
  have s: "tame (screened sv chain d (guard_response_text b) b can_redact_response redact_response)" for chain d
    unfolding screened_def by (intro tame_rbind tame_response_text tame_run_chain) (simp_all add: tame_redact_response)
  have "tame (f (ci_team_id ci) (ci_api_key_id ci) (ci_model ci) Response_Side router)"
    using assms(1) Some by (auto simp: sober_def tame_def)
  with Some assms(2) s show ?thesis
    by (auto simp: guard_response_def guarded_def traced_block_def tame_def split: sum.splits if_splits)
qed (use assms(2) in \<open>auto simp: guard_response_def guarded_def\<close>)

lemma tame_attach: "tame (attach_routing_usage sv b w)"
  unfolding attach_routing_usage_def response_counts_def as_dict_def Let_def
  by (intro tame_rbind) (auto split: json.splits)

section \<open>Effects of the steps\<close>

lemma failed_moves_on:
  fixes w :: "('st, 'c) world"
  assumes "failed sv dc dn e w = (Inl e', w')" "moves_on e'"
  shows "all_events (wd_books w') = all_events (wd_books w)"
proof (cases "exc_isinstance e (Upstream UpstreamResponseInvalid)")
  case True
  then have "\<not> moves_on e" by (cases e) (auto simp: exc_isinstance_def moves_on_def retryable_def)
  moreover have "attach_routing_usage sv b u \<noteq> Inl e'" for b and u :: "('st, 'c) world" using tame_attach [of sv b u] moves_on_upstream [OF assms(2)] by (auto simp: tame_def)
  ultimately show ?thesis using True assms by (auto simp: failed_def Let_def split: sum.splits)
qed (use assms in \<open>auto simp: failed_def\<close>)

lemma answered_moves_on:
  assumes "answered sv dc dn response w = (Inl e, w')" "moves_on e" "sober sv" "dc_cache_key dc = None"
  shows "all_events (wd_books w') = all_events (wd_books w)"
proof (cases "dc_settle_view dc response")
  case (Inr view)
  note v = Inr
  show ?thesis
  proof (cases "settle_ok (sv_ports sv) (dc_info dc) view (dn_latency dn) (Some (dc_request dc)) (dn_write dn) (dn_alerts dn) (wd_books w, wd_alerts w)")
    case (Inr x)
    then obtain c b r where x: "settle_ok (sv_ports sv) (dc_info dc) view (dn_latency dn) (Some (dc_request dc)) (dn_write dn) (dn_alerts dn)
        (wd_books w, wd_alerts w) = Inr (c, b, r)" by (metis prod.exhaust)
    have "\<not> upstream_like e"
      using assms(1,4) v x tame_attach [of sv response] tame_guard_response [OF assms(3)]
      by (fastforce simp: answered_def Let_def store_answer_def tame_def split: sum.split_asm prod.split_asm)
    with moves_on_upstream [OF assms(2)] show ?thesis by contradiction
  qed (use assms(1) v in \<open>auto simp: answered_def\<close>)
qed (use assms(1) in \<open>auto simp: answered_def\<close>)

text \<open>A dispatch without the cache: one call, its reservation given back, at most one event.\<close>

lemma uncached_dispatch:
  assumes "dispatch sv so dc dn w = (res, w')" "dc_cache_key dc = None"
  shows "wd_store w' = wd_store (release_held sv so (dc_reservation dc) w)"
    and "wd_calls w' = wd_calls w @ [(md_id (ci_model (dc_info dc)), dc_sent dc)]"
    and "\<exists>evs. all_events (wd_books w') = all_events (wd_books w) + mset evs \<and> length evs \<le> 1 \<and>
      (\<forall>b. res = Inr b \<longrightarrow> length evs = 1) \<and> (\<forall>e. res = Inl e \<and> moves_on e \<and> sober sv \<longrightarrow> evs = [])"
proof -
  have l: "dispatch_lookup sv dc (wd_cache w) = (None, wd_cache w)" by (simp add: dispatch_lookup_def assms(2))
  obtain w2 w3 where w: "w2 = w\<lparr>wd_cache := wd_cache w, wd_calls := wd_calls w @ [(md_id (ci_model (dc_info dc)), dc_sent dc)]\<rparr>"
      "w' = release_held sv so (dc_reservation dc) w3"
      "(case dc_answer dc of Inl e \<Rightarrow> failed sv dc dn e w2 | Inr response \<Rightarrow> answered sv dc dn response w2) = (res, w3)"
    using dispatch_miss [OF assms(1) l] .
  have "wd_store w3 = wd_store w2 \<and> wd_calls w3 = wd_calls w2 \<and>
    (\<exists>evs. all_events (wd_books w3) = all_events (wd_books w2) + mset evs \<and> length evs \<le> 1 \<and>
      (\<forall>b. res = Inr b \<longrightarrow> length evs = 1) \<and> (\<forall>e. res = Inl e \<and> moves_on e \<and> sober sv \<longrightarrow> evs = []))"
  proof (cases "dc_answer dc")
    case (Inl e)
    with w(3) have f: "failed sv dc dn e w2 = (res, w3)" by simp
    from failed_effect [OF f] obtain e' evs where r: "res = Inl e'" "wd_store w3 = wd_store w2" "wd_calls w3 = wd_calls w2"
      "all_events (wd_books w3) = all_events (wd_books w2) + mset evs" "length evs \<le> 1" by blast
    moreover have "moves_on e' \<Longrightarrow> evs = []" using failed_moves_on [OF f [unfolded r(1)]] r(4) by simp
    ultimately show ?thesis by blast
  next
    case (Inr response)
    with w(3) have a: "answered sv dc dn response w2 = (res, w3)" by simp
    from answered_effect [OF a] obtain evs where r: "wd_store w3 = wd_store w2" "wd_calls w3 = wd_calls w2"
      "all_events (wd_books w3) = all_events (wd_books w2) + mset evs" "length evs \<le> 1" "evs = [] \<longrightarrow> (\<exists>e. res = Inl e)" by blast
    have "\<And>b. res = Inr b \<Longrightarrow> length evs = 1" using r(4,5) by (cases evs) auto
    moreover have "\<And>e. res = Inl e \<Longrightarrow> moves_on e \<Longrightarrow> sober sv \<Longrightarrow> evs = []"
      using answered_moves_on [OF _ _ _ assms(2)] a r(3) by fastforce
    ultimately show ?thesis using r by blast
  qed
  then show "wd_store w' = wd_store (release_held sv so (dc_reservation dc) w)"
    "wd_calls w' = wd_calls w @ [(md_id (ci_model (dc_info dc)), dc_sent dc)]"
    "\<exists>evs. all_events (wd_books w') = all_events (wd_books w) + mset evs \<and> length evs \<le> 1 \<and>
      (\<forall>b. res = Inr b \<longrightarrow> length evs = 1) \<and> (\<forall>e. res = Inl e \<and> moves_on e \<and> sober sv \<longrightarrow> evs = [])"
    using w(1,2) by (auto simp: release_held_def)
qed

text \<open>The budget leaves an attempt time to start, and does not run out after its bill is written.\<close>

definition punctual :: "router_config \<Rightarrow> float_py \<Rightarrow> attempt_now \<Rightarrow> bool" where
  "punctual router start an \<longleftrightarrow> (case rt_overall_deadline_ms router of None \<Rightarrow> True
     | Some d \<Rightarrow> 0 < fsub (fdiv (of_int d) 1000) (fsub (an_started an) start) \<and> an_cut an \<noteq> Cut_Screening)"

lemma retryable_timeout [simp]: "retryable (Domain (Upstream UpstreamTimeout) info ra owed)"
  by (simp add: retryable_def is_failover_eligible_iff isinstance_iff)

text \<open>What an attempt does to the world, and what the breaker hears of it.\<close>

definition heard :: "'b breaker_ops option \<Rightarrow> (string, string) dict \<Rightarrow> attempt_now \<Rightarrow> string \<Rightarrow> 'x attempt \<Rightarrow> 'b \<Rightarrow> 'b" where
  "heard breaker tokens an i r b = (case breaker of None \<Rightarrow> b | Some bo \<Rightarrow> (case r of
     Answered _ \<Rightarrow> bo_succeed bo b i (map_of tokens i)
   | Failed_Over _ \<Rightarrow> bo_fail bo b i (map_of tokens i) (an_failed_at an)
   | Stopped _ \<Rightarrow> b))"

lemma attempt_call_effect:
  assumes "punctual router start an" "sober sv"
    and "attempt_call sv so breaker team key router tokens start an p (w, b) = (r, w', b')"
  shows "wd_store w' = wd_store (release_held sv so (pd_reservation p) w)"
    and "wd_calls w' = wd_calls w @ [(md_id (pd_model p), pd_clean p)]"
    and "\<exists>evs. all_events (wd_books w') = all_events (wd_books w) + mset evs \<and> length evs \<le> 1 \<and>
      (\<forall>x. r = Answered x \<longrightarrow> length evs = 1) \<and> (\<forall>e. r = Failed_Over e \<longrightarrow> evs = [] \<and> retryable e)"
    and "b' = heard breaker tokens an (md_id (pd_model p)) r b"
proof -
  let ?dc = "dispatch_of sv (an_gateway an) team key ''chat.completions'' False (Some (rt_id router)) p"
  let ?run = "\<lambda>c. cut_dispatch sv so ?dc (an_dispatch an) c w"
  obtain res where res: "within_deadline router start an ?run w = (res, w')"
    and r: "r = (case res of Inr x \<Rightarrow> Answered x | Inl e \<Rightarrow> if retryable e then Failed_Over e else Stopped e)"
    and b: "b' = heard breaker tokens an (md_id (pd_model p)) r b"
  proof -
    obtain res u where u: "within_deadline router start an ?run w = (res, u)" by fastforce
    from assms(3) u show thesis
      by (intro that [of res]) (cases res; auto simp: attempt_call_def heard_def Let_def split: if_splits option.splits)+
  qed
  show "b' = heard breaker tokens an (md_id (pd_model p)) r b" by (rule b)
  obtain co res0 where c: "co \<noteq> Cut_Screening" "?run co = (res0, w')" "res0 = res \<or> res0 = raise_py (OtherException ''TimeoutError'') \<and> res = upstream_timeout"
  proof (cases "rt_overall_deadline_ms router")
    case None
    with res that [of Uncut res] show thesis by (simp add: within_deadline_def)
  next
    case (Some d)
    obtain res0 where "?run (an_cut an) = (res0, w')"
      and "res = (if res0 = raise_py (OtherException ''TimeoutError'') then upstream_timeout else res0)"
      using res assms(1) Some by (auto simp: within_deadline_def punctual_def split: prod.splits)
    with that [of "an_cut an" res0] assms(1) Some show thesis by (auto simp: punctual_def split: if_splits)
  qed
  have "wd_store w' = wd_store (release_held sv so (pd_reservation p) w) \<and> wd_calls w' = wd_calls w @ [(md_id (pd_model p), pd_clean p)] \<and>
    (\<exists>evs. all_events (wd_books w') = all_events (wd_books w) + mset evs \<and> length evs \<le> 1 \<and>
      (\<forall>b. res0 = Inr b \<longrightarrow> length evs = 1) \<and> (\<forall>e. res0 = Inl e \<and> moves_on e \<longrightarrow> evs = []))"
  proof (cases co)
    case Uncut
    with c(2) have d: "dispatch sv so ?dc (an_dispatch an) w = (res0, w')" by (simp add: cut_dispatch_def)
    have "dc_cache_key ?dc = None" by (simp add: dispatch_of_def)
    from uncached_dispatch [OF d this] assms(2) show ?thesis by (auto simp: dispatch_of_def)
  next
    case Cut_Unsettled
    with c(2) show ?thesis
      by (auto simp: cut_dispatch_def release_held_def dispatch_of_def intro!: exI [of _ "[]"])
  qed (use c(1) in blast)
  then show "wd_store w' = wd_store (release_held sv so (pd_reservation p) w)"
    "wd_calls w' = wd_calls w @ [(md_id (pd_model p), pd_clean p)]"
    "\<exists>evs. all_events (wd_books w') = all_events (wd_books w) + mset evs \<and> length evs \<le> 1 \<and>
      (\<forall>x. r = Answered x \<longrightarrow> length evs = 1) \<and> (\<forall>e. r = Failed_Over e \<longrightarrow> evs = [] \<and> retryable e)"
    using c(3) by (auto simp: r moves_on_def split: sum.splits if_splits)
qed

lemma next_prepared_effect:
  assumes "wf_mem (wd_store w)" "honest_rates m"
    and "gate_in_time mem_expiry (sv_ports sv) (an_key_gate an) t" "gate_in_time mem_expiry (sv_ports sv) (an_team_gate an) t"
    and "next_prepared sv memory_store team key router sanitized an p m w = (res, w')"
  shows "unbilled w w' \<and> (case res of Inl e \<Rightarrow> claims_kept t (wd_store w) (wd_store w')
    | Inr q \<Rightarrow> claims_taken t (wd_store w) (pd_reservation q) (wd_store w') \<and> (pd_reservation q \<noteq> None \<longrightarrow> mp_store_wired (sv_ports sv)))"
proof (cases "validate_chat_request m (clamp_output_tokens ''chat.completions'' sanitized (md_max_output_tokens m))")
  case (Inl e)
  with assms(1,5) show ?thesis by (auto simp: next_prepared_def claims_kept_refl)
next
  case (Inr clean)
  obtain g w1 where g: "guard_request sv (call_of team key m ''chat.completions'' None) (an_guard an) clean (Some (rt_id router)) w = (g, w1)"
    by fastforce
  note u = guard_request_unbilled [OF g]
  note eq = assms(5) [unfolded next_prepared_def Inr sum.case g prod.case]
  let ?creds = "rbind (sv_credential sv (md_credential_id m))
      (\<lambda>v. case v of None \<Rightarrow> raise_exc (Catalog CredentialNotFound) [md_credential_id m] | Some x \<Rightarrow> Inr x)"
  show ?thesis
  proof (cases "(\<exists>e. g = Inl e) \<or> (\<exists>e. ?creds = Inl e)")
    case True
    with eq u assms(1) show ?thesis by (auto simp: claims_kept_refl split: sum.splits)
  next
    case False
    then obtain approved vs where v: "g = Inr approved" "?creds = Inr vs" by (cases g; cases ?creds) auto
    obtain a w2 where a: "admit_call sv memory_store team key m (merge_params m approved) True True (an_key_gate an) (an_team_gate an) w1 = (a, w2)"
      by fastforce
    have "wf_mem (wd_store w1)" using u assms(1) by simp
    from admit_call_effect [OF this assms(2-4) a] eq [unfolded v sum.case a prod.case] u show ?thesis
      by (cases a) (auto intro: unbilled_trans)
  qed
qed

lemma next_prepared_model: "next_prepared sv so team key router sanitized an p m w = (Inr q, w') \<Longrightarrow> pd_model q = m"
  by (auto simp: next_prepared_def split: sum.split_asm prod.split_asm)

lemma next_prepared_unbilled:
  assumes "next_prepared sv so team key router sanitized an p m w = (res, w')"
  shows "unbilled w w'"
proof (cases "validate_chat_request m (clamp_output_tokens ''chat.completions'' sanitized (md_max_output_tokens m))")
  case (Inr clean)
  obtain g w1 where g: "guard_request sv (call_of team key m ''chat.completions'' None) (an_guard an) clean (Some (rt_id router)) w = (g, w1)"
    by fastforce
  note u = guard_request_unbilled [OF g]
  note eq = assms [unfolded next_prepared_def Inr sum.case g prod.case]
  let ?creds = "rbind (sv_credential sv (md_credential_id m))
      (\<lambda>v. case v of None \<Rightarrow> raise_exc (Catalog CredentialNotFound) [md_credential_id m] | Some x \<Rightarrow> Inr x)"
  show ?thesis
  proof (cases "(\<exists>e. g = Inl e) \<or> (\<exists>e. ?creds = Inl e)")
    case True
    with eq u show ?thesis by (auto split: sum.splits)
  next
    case False
    then obtain approved vs where v: "g = Inr approved" "?creds = Inr vs" by (cases g; cases ?creds) auto
    obtain a w2 where a: "admit_call sv so team key m (merge_params m approved) True True (an_key_gate an) (an_team_gate an) w1 = (a, w2)"
      by fastforce
    then have "unbilled w1 w2" by (auto simp: admit_call_def unbilled_def split: prod.splits)
    with eq [unfolded v sum.case a prod.case] u show ?thesis by (cases a) (auto intro: unbilled_trans)
  qed
qed (use assms in \<open>auto simp: next_prepared_def\<close>)

text \<open>
  An invariant rule for the loop: \<open>H n\<close> holds when attempt \<open>n\<close> is prepared, \<open>F n\<close> when attempt \<open>n - 1\<close>
  failed and the next is about to be prepared, \<open>Q\<close> when it is over.
\<close>

lemma attempts_rule:
  assumes call: "\<And>n p s r s'. H n p s \<Longrightarrow> n < length chain \<Longrightarrow> call n p s = (r, s') \<Longrightarrow>
      (case r of Failed_Over e \<Rightarrow> F (Suc n) e s' | Stopped e \<Rightarrow> Q (Suc n) (Inl e) s' | Answered x \<Rightarrow> Q (Suc n) (Inr x) s')"
    and ready: "\<And>n e p s r s'. F n e s \<Longrightarrow> n < length chain \<Longrightarrow> ready n p (chain ! n) s = (r, s') \<Longrightarrow>
      (case r of Inl e' \<Rightarrow> Q (Suc n) (Inl e') s' | Inr q \<Rightarrow> H n q s')"
    and last: "\<And>e s. F (length chain) e s \<Longrightarrow> Q (length chain) (Inl e) s"
    and late: "\<And>n e s. F n e s \<Longrightarrow> n < length chain \<Longrightarrow> Q (Suc n) (Inl e) s"
    and "H n p s" "n < length chain" "ms = drop (Suc n) chain" "attempts call ready late_at n p ms s = (res, made, s')"
  shows "Q made res s'"
  using assms(5-8)
proof (induction ms arbitrary: n p s)
  case Nil
  obtain r s1 where r: "call n p s = (r, s1)" by fastforce
  have n: "Suc n = length chain" using Nil.prems(2,3) by simp
  from call [OF Nil.prems(1,2) r] Nil.prems(4) r n last show ?case
    by (auto simp: attempts.simps split: attempt.splits)
next
  case (Cons m ms)
  obtain r s1 where r: "call n p s = (r, s1)" by fastforce
  have m: "Suc n < length chain" "m = chain ! Suc n" "ms = drop (Suc (Suc n)) chain"
    using Cons.prems(3) by (metis Cons_nth_drop_Suc drop_eq_Nil2 list.discI list.inject not_le)+
  note c = call [OF Cons.prems(1,2) r]
  show ?case
  proof (cases r)
    case (Failed_Over e)
    with c have F: "F (Suc n) e s1" by simp
    show ?thesis
    proof (cases "late_at (Suc n)")
      case True
      with Failed_Over r Cons.prems(4) late [OF F m(1)] show ?thesis by (simp add: attempts.simps)
    next
      case False
      obtain q s2 where q: "ready (Suc n) p (chain ! Suc n) s1 = (q, s2)" by fastforce
      from ready [OF F m(1) q] Cons.IH [OF _ m(1,3), of _ s2] Failed_Over False r q Cons.prems(4) m(2) show ?thesis
        by (cases q) (simp_all add: attempts.simps [of _ _ _ n])
    qed
  qed (use c r Cons.prems(4) in \<open>simp_all add: attempts.simps\<close>)
qed

section \<open>One logical request\<close>

text \<open>
  The chain of a router can be walked: its candidates can be looked up, it allows an attempt, and
  every attempt reads its gates in time.
\<close>

definition sound_chain :: "'c services \<Rightarrow> callable_ports \<Rightarrow> 'b breaker_ops option \<Rightarrow> uuid \<Rightarrow> body \<Rightarrow> failover_now \<Rightarrow> 'b \<Rightarrow> float_py \<Rightarrow>
    router_config \<Rightarrow> routing_decision \<Rightarrow> bool" where
  "sound_chain sv cp breaker team sanitized fn b t router decision \<longleftrightarrow> 1 \<le> rt_max_attempts router \<and>
     (\<exists>ms x. remaining_candidates sv cp team router decision sanitized = Inr ms \<and> fst (filtered_by breaker (fn_draw fn) ms b) = Inr x) \<and>
     (\<forall>n. gate_in_time mem_expiry (sv_ports sv) (an_key_gate (fn_attempt fn n)) t \<and>
       gate_in_time mem_expiry (sv_ports sv) (an_team_gate (fn_attempt fn n)) t)"

lemma sound_chainD:
  assumes "sound_chain sv cp breaker team sanitized fn b t router decision"
  obtains ms allowed tokens b1 where "remaining_candidates sv cp team router decision sanitized = Inr ms"
    "filtered_by breaker (fn_draw fn) ms b = (Inr (allowed, tokens), b1)"
    "\<not> min (rt_max_attempts router) (1 + int (length allowed)) \<le> 0"
    "\<And>n. gate_in_time mem_expiry (sv_ports sv) (an_key_gate (fn_attempt fn n)) t"
    "\<And>n. gate_in_time mem_expiry (sv_ports sv) (an_team_gate (fn_attempt fn n)) t"
proof -
  obtain ms x where x: "remaining_candidates sv cp team router decision sanitized = Inr ms"
      "fst (filtered_by breaker (fn_draw fn) ms b) = Inr x"
    using assms by (auto simp: sound_chain_def)
  obtain allowed tokens b1 where "filtered_by breaker (fn_draw fn) ms b = (Inr (allowed, tokens), b1)"
    using x(2) by (cases "filtered_by breaker (fn_draw fn) ms b"; cases x) auto
  with x(1) that assms show thesis by (auto simp: sound_chain_def)
qed

text \<open>The models of a chain come from the catalog, and the breaker only drops some of them.\<close>

lemma candidate_model_in_catalog: "candidate_model sv cp team c = Inr (Some m) \<Longrightarrow> catalog_model sv cp m"
  using resolve_model_in_catalog resolve_model_id_in_catalog
  by (fastforce simp: candidate_model_def catalog_model_def split: option.splits)

lemma rmap_members: "rmap f xs = Inr ys \<Longrightarrow> y \<in> set ys \<Longrightarrow> \<exists>x \<in> set xs. f x = Inr y"
  by (induction xs arbitrary: ys) auto

lemma remaining_in_catalog:
  assumes "remaining_candidates sv cp team router decision request = Inr ms" "m \<in> set ms"
  shows "catalog_model sv cp m \<and> md_enabled m \<and> md_type m = Chat"
proof -
  from assms obtain cs found where "rmap (candidate_model sv cp team) cs = Inr found" "Some m \<in> set found" "md_enabled m" "md_type m = Chat"
    by (auto simp: remaining_candidates_def)
  with rmap_members candidate_model_in_catalog show ?thesis by metis
qed

lemma breaker_filtered_subset:
  "breaker_filtered bo draw i ms acc b = (Inr (allowed, tokens), b') \<Longrightarrow> set allowed \<subseteq> set (fst acc) \<union> set ms"
  by (induction bo draw i ms acc b rule: breaker_filtered.induct) (force split: sum.split_asm prod.split_asm if_split_asm)+

lemma filtered_subset: "filtered_by breaker draw ms b = (Inr (allowed, tokens), b') \<Longrightarrow> set allowed \<subseteq> set ms"
  using breaker_filtered_subset [of _ draw 0 ms "([], [])"] by (fastforce simp: filtered_by_def split: option.splits)

text \<open>At most one bill, and exactly one for a full answer.\<close>

definition billed_by :: "('x \<Rightarrow> bool) \<Rightarrow> (exc + 'x) \<Rightarrow> ('st, 'c) world \<Rightarrow> ('st, 'c) world \<Rightarrow> bool" where
  "billed_by full res w w' \<longleftrightarrow> (\<exists>evs. all_events (wd_books w') = all_events (wd_books w) + mset evs \<and> length evs \<le> 1 \<and>
     (\<forall>x. res = Inr x \<and> full x \<longrightarrow> length evs = 1))"

lemma billed_byI: "all_events (wd_books w') = all_events (wd_books w) \<Longrightarrow> billed_by full (Inl e) w w'"
  by (auto simp: billed_by_def intro!: exI [of _ "[]"])

text \<open>A chain whose attempts give their reservation back and bill at most once, an attempt that moves on not at all.\<close>

definition settles :: "'c services \<Rightarrow> ('x \<Rightarrow> bool) \<Rightarrow> prepared \<Rightarrow> (mem_store, 'c) world \<Rightarrow> 'x attempt \<Rightarrow> (mem_store, 'c) world \<Rightarrow> bool" where
  "settles sv full q w r w' \<longleftrightarrow> wd_store w' = wd_store (release_held sv memory_store (pd_reservation q) w) \<and>
     (\<exists>evs. all_events (wd_books w') = all_events (wd_books w) + mset evs \<and> length evs \<le> 1 \<and>
       (\<forall>x. r = Answered x \<and> full x \<longrightarrow> length evs = 1) \<and> (\<forall>e. r = Failed_Over e \<longrightarrow> evs = []))"

lemma walked_chain:
  fixes w w1 w' :: "(mem_store, 'c) world" and b b' :: 'b
  assumes sound: "sound_chain sv cp breaker team sanitized fn b t router decision"
    and settles: "\<And>tokens n q u c r u' c'. call tokens n q (u, c) = (r, u', c') \<Longrightarrow> settles sv full q u r u'" and wf: "wf_mem (wd_store w)"
    and honest: "\<forall>m. catalog_model sv cp m \<longrightarrow> honest_rates m"
    and held: "unbilled w w1" "claims_taken t (wd_store w) (pd_reservation p) (wd_store w1)"
      "pd_reservation p \<noteq> None \<longrightarrow> mp_store_wired (sv_ports sv)"
    and run: "walk_chain sv cp memory_store breaker team key sanitized router decision fn call p (w1, b) = (res, made, w', b')"
  shows "claims_kept t (wd_store w) (wd_store w') \<and> billed_by full res w w'"
proof -
  obtain ms allowed tokens b1 where c: "remaining_candidates sv cp team router decision sanitized = Inr ms"
    "filtered_by breaker (fn_draw fn) ms b = (Inr (allowed, tokens), b1)" "\<not> min (rt_max_attempts router) (1 + int (length allowed)) \<le> 0"
    and t: "\<And>n. gate_in_time mem_expiry (sv_ports sv) (an_key_gate (fn_attempt fn n)) t"
    "\<And>n. gate_in_time mem_expiry (sv_ports sv) (an_team_gate (fn_attempt fn n)) t"
    using sound_chainD [OF sound] by blast
  let ?ready = "\<lambda>n p m (w, b). case next_prepared sv memory_store team key router sanitized (fn_attempt fn n) p m w of (r, w') \<Rightarrow> (r, w', b)"
  let ?ms = "take (nat (min (rt_max_attempts router) (1 + int (length allowed))) - 1) allowed"
  let ?chain = "pd_model p # ?ms"
  let ?H = "\<lambda>n (q :: prepared) (s :: (mem_store, 'c) world \<times> 'b). all_events (wd_books (fst s)) = all_events (wd_books w) \<and>
    (\<exists>st. claims_kept t (wd_store w) st \<and> claims_taken t st (pd_reservation q) (wd_store (fst s))) \<and>
    (pd_reservation q \<noteq> None \<longrightarrow> mp_store_wired (sv_ports sv))"
  let ?F = "\<lambda>(n :: nat) (e :: exc) (s :: (mem_store, 'c) world \<times> 'b). 0 < n \<and> all_events (wd_books (fst s)) = all_events (wd_books w) \<and>
    claims_kept t (wd_store w) (wd_store (fst s))"
  let ?Q = "\<lambda>(n :: nat) r (s :: (mem_store, 'c) world \<times> 'b). claims_kept t (wd_store w) (wd_store (fst s)) \<and> billed_by full r w (fst s)"
  from run c obtain made' where a: "attempts (call tokens) ?ready (\<lambda>n. past_deadline router (fn_start fn) (fn_attempt fn n)) 0 p ?ms (w1, b1) =
      (res, made', w', b')"
    by (auto simp: walk_chain_def Let_def split: prod.splits)
  have "?Q made' res (w', b')"
  proof (rule attempts_rule [where H = ?H and F = ?F and Q = ?Q and chain = ?chain, OF _ _ _ _ _ _ _ a])
    fix n q s r s' assume H: "?H n q s" and step: "call tokens n q s = (r, s')"
    from step have "call tokens n q (fst s, snd s) = (r, fst s', snd s')" by simp
    from settles [OF this] have e: "settles sv full q (fst s) r (fst s')" .
    obtain st where st: "claims_kept t (wd_store w) st" "claims_taken t st (pd_reservation q) (wd_store (fst s))" using H by blast
    have "claims_kept t st (wd_store (fst s'))" using e released_claims [OF st(2), of sv] H by (simp add: settles_def)
    with st(1) have kept: "claims_kept t (wd_store w) (wd_store (fst s'))" by (rule claims_kept_trans)
    with e H
    show "case r of Failed_Over e \<Rightarrow> ?F (Suc n) e s' | Stopped e \<Rightarrow> ?Q (Suc n) (Inl e) s' | Answered x \<Rightarrow> ?Q (Suc n) (Inr x) s'"
      by (cases r) (auto simp: billed_by_def settles_def)
  next
    fix n e q s r s' assume F: "?F n e s" and n: "n < length ?chain" and step: "?ready n q (?chain ! n) s = (r, s')"
    from F n have "?chain ! n = ?ms ! (n - 1)" "n - 1 < length ?ms" by (cases n; simp)+
    then have "?chain ! n \<in> set ?ms" using nth_mem by metis
    then have "?chain ! n \<in> set ms" using filtered_subset [OF c(2)] by (meson in_set_takeD subsetD)
    then have h: "honest_rates (?chain ! n)" using remaining_in_catalog [OF c(1)] honest by blast
    obtain u where u: "next_prepared sv memory_store team key router sanitized (fn_attempt fn n) q (?chain ! n) (fst s) = (r, u)" "s' = (u, snd s)"
      using step by (cases s) (auto split: prod.splits)
    have "wf_mem (wd_store (fst s))" using F by (simp add: claims_kept_def)
    from next_prepared_effect [OF this h t u(1)] F u(2) show "case r of Inl e' \<Rightarrow> ?Q (Suc n) (Inl e') s' | Inr q \<Rightarrow> ?H n q s'"
      by (cases r) (auto simp: unbilled_def intro: billed_byI claims_kept_trans)
  next
    have "claims_kept t (wd_store w) (wd_store w)" if "wf_mem (wd_store w)" using that by (rule claims_kept_refl)
    with held wf show "?H 0 p (w1, b1)" by (auto simp: unbilled_def)
  qed (auto intro: billed_byI)
  then show ?thesis by simp
qed

lemma attempt_settles:
  assumes "punctual router start an" "sober sv"
    and "attempt_call sv memory_store breaker team key router tokens start an p (w, b) = (r, w', b')"
  shows "settles sv (\<lambda>_. True) p w r w'"
  using attempt_call_effect(1,3) [OF assms] by (auto simp: settles_def)


text \<open>Two models behind a router; the first provider is down, the second answers.\<close>

definition failover_services :: "unit services" where
  "failover_services = open_services\<lparr>sv_router_wired := True, sv_model_by_name := (\<lambda>_ v.
     if v = JStr ''a'' then Inr (Some (priced_model\<lparr>md_id := ''ma''\<rparr>)) else if v = JStr ''b'' then Inr (Some (priced_model\<lparr>md_id := ''mb''\<rparr>))
     else Inr None)\<rparr>"

definition failover_router :: "int option \<Rightarrow> router_config" where
  "failover_router d = sample_router\<lparr>rt_failover_enabled := True, rt_overall_deadline_ms := d\<rparr>"

definition decided_a :: routing_decision where
  "decided_a = \<lparr>chosen_name = ''a'', chosen_strategy = ''rules'', chosen_tier = None, chosen_score = None, chosen_signals = [], chosen_id = None\<rparr>"

definition failover_ports :: "int option \<Rightarrow> callable_ports" where
  "failover_ports d = \<lparr>cp_resolver = None, cp_router_by_name = (\<lambda>_ v. Inr (if v = JStr ''smart'' then Some (failover_router d) else None)),
     cp_route = (\<lambda>router _ _ _. Inr decided_a)\<rparr>"

definition sample_attempt :: "(exc + body) \<Rightarrow> attempt_now" where
  "sample_attempt answer = \<lparr>an_checked = 0, an_guard = sample_now, an_key_gate = sample_gate, an_team_gate = sample_gate\<lparr>gn_id := ''r2''\<rparr>,
     an_started = 0, an_gateway = (\<lambda>_ _ _. answer), an_cut = Uncut, an_dispatch = sample_now, an_failed_at = 20\<rparr>"

definition first_down :: failover_now where
  "first_down = \<lparr>fn_draw = (\<lambda>_. (20, ''trial'')), fn_start = 0, fn_attempt = (\<lambda>n.
     sample_attempt (if n = 0 then raise_exc (Upstream UpstreamUnavailable) [] else Inr sample_response))\<rparr>"

definition smart_request :: body where
  "smart_request = [(''model'', JStr ''smart''), (''messages'', JList [JObj [(''role'', JStr ''user''), (''content'', JStr ''hi'')]])]"

definition sample_breaker :: breaker_config where
  "sample_breaker = \<lparr>failure_threshold = 1, cooldown_seconds = 5\<rparr>"


text \<open>The chat completion up to the provider, for the sample's router.\<close>

lemma smart_prepared:
  obtains p where "prepare failover_services (failover_ports d) memory_store ''t'' None ''chat.completions'' smart_request Chat
      (Some validate_chat_request) False sample_prepare sample_world = (Inr p, sample_world)"
    "md_id (pd_model p) = ''ma''" "pd_routed p = Some (failover_router d, decided_a)" "pd_reservation p = None"
proof -
  let ?r = "prepare failover_services (failover_ports d) memory_store ''t'' None ''chat.completions'' smart_request Chat
      (Some validate_chat_request) False sample_prepare sample_world"
  have "case fst ?r of Inr p \<Rightarrow> md_id (pd_model p) = ''ma'' \<and> pd_routed p = Some (failover_router d, decided_a) \<and> pd_reservation p = None | Inl e \<Rightarrow> False"
    by code_simp
  moreover have "snd ?r = sample_world" by code_simp
  ultimately show thesis by (cases ?r) (auto split: sum.splits intro: that)
qed

lemma failover_services_simps [simp]:
  "sv_guardrails failover_services = None" "sv_ports failover_services = sample_ports\<lparr>mp_budgets := None\<rparr>"
  by (simp_all add: failover_services_def open_services_def stocked_services_def sample_services_def)

lemma sober_failover_services [simp]: "sober failover_services"
  by (simp add: sober_def)

lemma smart_chain:
  obtains m where "remaining_candidates failover_services (failover_ports d) ''t'' (failover_router d) decided_a smart_request = Inr [m]" "md_id m = ''mb''"
proof -
  have "case remaining_candidates failover_services (failover_ports d) ''t'' (failover_router d) decided_a smart_request of
      Inr [m] \<Rightarrow> md_id m = ''mb'' | _ \<Rightarrow> False"
    by code_simp
  with that show thesis by (auto split: sum.splits list.splits)
qed

lemma fresh_breaker_allows:
  "filtered_by (Some (memory_breaker cfg)) draw [m] [] = (Inr ([m], []), [(md_id m, fresh_state)])"
  by (simp add: filtered_by_def memory_breaker_def cb_allow_def setdefault_state_def fresh_state_def)

lemma smart_sound:
  "sound_chain failover_services (failover_ports None) (Some (memory_breaker sample_breaker)) ''t'' smart_request first_down [] 10 (failover_router None) decided_a"
proof -
  obtain m where m: "remaining_candidates failover_services (failover_ports None) ''t'' (failover_router None) decided_a smart_request = Inr [m]"
    using smart_chain by blast
  have "gate_in_time mem_expiry (sv_ports failover_services) sample_gate 10"
    "gate_in_time mem_expiry (sv_ports failover_services) (sample_gate\<lparr>gn_id := ''r2''\<rparr>) 10"
    using sample_gate_in_time by (simp_all add: gate_in_time_def mem_expiry_def gate_call_def)
  with m fresh_breaker_allows [of sample_breaker "fn_draw first_down" m] show ?thesis
    by (simp add: sound_chain_def failover_router_def sample_router_def punctual_def first_down_def sample_attempt_def)
qed

lemma failover_catalog: "catalog_model failover_services (failover_ports d) m \<Longrightarrow> honest_rates m"
  using priced_model_honest
  by (auto simp: catalog_model_def failover_services_def failover_ports_def honest_rates_def model_rates_def split: if_split_asm)


text \<open>
  What the first attempts of a chain leave behind, given their outcomes: one call each, and one
  report to the breaker for each that answered or failed over.
\<close>

definition attempt_log :: "'b breaker_ops option \<Rightarrow> (string, string) dict \<Rightarrow> failover_now \<Rightarrow> model list \<Rightarrow> 'b \<Rightarrow> ('st, 'c) world \<Rightarrow>
    'x attempt list \<Rightarrow> ('st, 'c) world \<times> 'b \<Rightarrow> bool" where
  "attempt_log breaker tokens fn chain b1 w rs s \<longleftrightarrow>
     (\<exists>calls. wd_calls (fst s) = wd_calls w @ calls \<and> map fst calls = map md_id (take (length rs) chain)) \<and>
     snd s = foldl (\<lambda>b i. heard breaker tokens (fn_attempt fn i) (md_id (chain ! i)) (rs ! i) b) b1 [0..<length rs]"

lemma attempt_logged:
  assumes "attempt_log breaker tokens fn chain b1 w rs s" "length rs < length chain"
    and "wd_calls u = wd_calls (fst s) @ [(md_id (pd_model q), pd_clean q)]" "pd_model q = chain ! length rs"
    and "c = heard breaker tokens (fn_attempt fn (length rs)) (md_id (chain ! length rs)) r (snd s)"
  shows "attempt_log breaker tokens fn chain b1 w (rs @ [r]) (u, c)"
proof -
  obtain calls where calls: "wd_calls (fst s) = wd_calls w @ calls" "map fst calls = map md_id (take (length rs) chain)"
    using assms(1) by (auto simp: attempt_log_def)
  then have "map fst (calls @ [(md_id (pd_model q), pd_clean q)]) = map md_id (take (Suc (length rs)) chain)"
    using assms(2,4) by (simp add: take_Suc_conv_app_nth)
  moreover have "foldl (\<lambda>b i. heard breaker tokens (fn_attempt fn i) (md_id (chain ! i)) ((rs @ [r]) ! i) b) b1 [0..<length rs] =
      foldl (\<lambda>b i. heard breaker tokens (fn_attempt fn i) (md_id (chain ! i)) (rs ! i) b) b1 [0..<length rs]"
    by (rule foldl_cong) (simp_all add: nth_append)
  ultimately show ?thesis using assms(1,3,5) calls(1) unfolding attempt_log_def
    by (intro conjI exI [of _ "calls @ [(md_id (pd_model q), pd_clean q)]"]) auto
qed




definition sample_prepared :: prepared where
  "sample_prepared = \<lparr>pd_model = priced_model, pd_values = [], pd_reservation = None, pd_clean = [],
     pd_attribution = \<lparr>at_requested_alias = None, at_callable_origin = None, at_source_team_id = None\<rparr>, pd_routed = None\<rparr>"


section \<open>When the budget runs out\<close>

text \<open>
  An attempt that finds no time left is not made, so nothing releases what was reserved for it: its
  world is left as it was, the claim of its own reservation in it.
\<close>

lemma expired_attempt_keeps_reservation:
  assumes "rt_overall_deadline_ms router = Some d" "fsub (fdiv (of_int d) 1000) (fsub (an_started an) start) \<le> 0"
  shows "attempt_call sv so (Some bo) team key router tokens start an p (w, b) =
    (Failed_Over (Domain (Upstream UpstreamTimeout) [''failover deadline exceeded''] NoRetry None), w,
     bo_fail bo b (md_id (pd_model p)) (map_of tokens (md_id (pd_model p))) (an_failed_at an))"
  using assms by (simp add: attempt_call_def within_deadline_def Let_def)

text \<open>
  A budget that runs out while an answer is judged turns a billed call into an eligible error: the
  chain goes on to the next candidate and bills the request a second time.
\<close>

lemma cut_screening_is_billed:
  assumes "rt_overall_deadline_ms router = Some d" "0 < fsub (fdiv (of_int d) 1000) (fsub (an_started an) start)"
    and "an_cut an = Cut_Screening" "sv_guardrails sv \<noteq> None"
    and "dispatch (sv\<lparr>sv_guardrails := None\<rparr>) so (dispatch_of sv (an_gateway an) team key ''chat.completions'' False (Some (rt_id router)) p)
      (an_dispatch an) w = (Inr x, w')"
  shows "(\<exists>e b'. attempt_call sv so breaker team key router tokens start an p (w, b) = (Failed_Over e, w', b')) \<and>
    (\<exists>ev. all_events (wd_books w') = add_mset ev (all_events (wd_books w)))"
proof -
  let ?dc = "dispatch_of sv (an_gateway an) team key ''chat.completions'' False (Some (rt_id router)) p"
  have "dc_cache_key ?dc = None" by (simp add: dispatch_of_def)
  from uncached_dispatch(3) [OF assms(5) this] obtain evs where evs: "all_events (wd_books w') = all_events (wd_books w) + mset evs" "length evs = 1"
    by auto
  then obtain ev where "evs = [ev]" by (auto simp: length_Suc_conv)
  with evs have "all_events (wd_books w') = add_mset ev (all_events (wd_books w))" by simp
  moreover have "cut_dispatch sv so ?dc (an_dispatch an) Cut_Screening w = (upstream_timeout, w')"
    using assms(4,5) by (auto simp: cut_dispatch_def)
  ultimately show ?thesis using assms(1-3) by (auto simp: attempt_call_def within_deadline_def Let_def)
qed

text \<open>
  A candidate that is only probed keeps its trial: the in-memory breaker then refuses it whatever
  other requests do and however long it waits, as nobody else holds the token.
\<close>

lemma probed_candidate_stuck:
  assumes "wf_states st" "breaker_phase st k = POpen" "cb_allow cfg st k now tok = Inr (lease, st')" "lease_allowed lease"
    and "\<forall>ev \<in> set evs. \<not> resolves k tok ev"
  shows "\<exists>st1 st2. breaker_run (breaker_step (cb_allow cfg) (cb_record_failure cfg) cb_record_success) st' evs = Inr st1 \<and>
    cb_allow cfg st1 k later tok' = Inr (refused, st2)"
  using cb.no_second_trial [OF assms] by blast

end
