(* ===== verification/Completion_Streams.thy ===== *)
theory Completion_Streams
  imports Completion_Failover
begin

text \<open>
  The streaming endpoints (\<open>open_chat_stream\<close>, \<open>open_responses_stream\<close>, \<open>open_native_messages_stream\<close>,
  \<open>open_generate_content_stream\<close>, \<open>_metered*\<close>, \<open>_prime\<close>, \<open>_open_chat_stream_with_failover\<close> of
  \<open>application/completion_service.py\<close>). A stream is modelled by its whole life: what the provider
  sends and how it ends, and how many chunks the client takes before it goes away. Whatever happens
  to it, at most one event bills it and its reservation is given back; a replay from the cache
  carries the stored text.
\<close>

section \<open>A metered stream\<close>

text \<open>
  \<open>sn_leaves = Some k\<close>: the client goes away after \<open>k + 1\<close> chunks (the first is always pulled, by
  \<open>_prime\<close>); a response that is dropped unread is closed by the event loop, like \<open>Some 0\<close>.
  \<open>sn_clock\<close> is \<open>int(time.time())\<close>.
\<close>

record stream_now =
  sn_finalizer :: finalizer
  sn_leaves :: "nat option"
  sn_hit :: dispatch_now
  sn_clock :: int

type_synonym stream_gateway = "body \<Rightarrow> model \<Rightarrow> body \<Rightarrow> exc + body list \<times> stream_end"

definition consumed :: "nat option \<Rightarrow> body list \<times> stream_end \<Rightarrow> body list \<times> stream_end" where
  "consumed leaves src = (case leaves of
     Some k \<Rightarrow> if k < length (fst src) then (take (Suc k) (fst src), stream_end.Closed) else src
   | None \<Rightarrow> src)"

text \<open>
  The generator of \<open>_metered\<close> and its native mirrors, primed and read: an error before the first chunk
  is raised to the caller, a later one ends the stream. \<open>attach\<close>: the settled counts go to the
  routing decision.
\<close>

definition run_metered :: "'c services \<Rightarrow> 'st store_ops \<Rightarrow> (body \<Rightarrow> stream_state \<Rightarrow> stream_state \<times> exc option) \<Rightarrow> bool \<Rightarrow> call_info \<Rightarrow> finalizer \<Rightarrow>
    body \<Rightarrow> admission option \<Rightarrow> body list \<times> stream_end \<Rightarrow> ('st, 'c) world \<Rightarrow> (exc + body list \<times> exc option) \<times> ('st, 'c) world" where
  "run_metered sv so step attach ci fz view reservation src w =
    (case metered step (sv_ports sv) ci fz view
        (Some (meter_release (mp_store_wired (sv_ports sv)) (so_release so) (so_faulty so) reservation)) (fst src) (snd src)
        (wd_store w) (wd_books w, wd_alerts w) of
       (ys, error, st, settled) \<Rightarrow> (let
           (raised, w') = (case settled of
               Inl e \<Rightarrow> (Some e, w\<lparr>wd_store := st\<rparr>)
             | Inr (b, r, told) \<Rightarrow> (error, w\<lparr>wd_store := st, wd_books := b, wd_alerts := r,
                 wd_attached := wd_attached w @ (case told of Some ij \<Rightarrow> if attach \<and> sv_router_wired sv then [ij] else [] | None \<Rightarrow> [])\<rparr>))
         in (case (ys, raised) of ([], Some e) \<Rightarrow> Inl e | _ \<Rightarrow> Inr (ys, raised), w')))"

text \<open>Opening a stream: an error gives the reservation back, otherwise the generator does.\<close>

definition open_metered :: "'c services \<Rightarrow> 'st store_ops \<Rightarrow> (body \<Rightarrow> stream_state \<Rightarrow> stream_state \<times> exc option) \<Rightarrow> bool \<Rightarrow> call_info \<Rightarrow> stream_now \<Rightarrow>
    body \<Rightarrow> body \<Rightarrow> admission option \<Rightarrow> (exc + body list \<times> stream_end) \<Rightarrow> ('st, 'c) world \<Rightarrow> (exc + body list \<times> exc option) \<times> ('st, 'c) world" where
  "open_metered sv so step attach ci sn view sent reservation opened w =
    (let w1 = w\<lparr>wd_calls := wd_calls w @ [(md_id (ci_model ci), sent)]\<rparr> in case opened of
       Inl e \<Rightarrow> (Inl e, release_held sv so reservation w1)
     | Inr src \<Rightarrow> run_metered sv so step attach ci (sn_finalizer sn) view reservation (consumed (sn_leaves sn) src) w1)"

text \<open>\<open>_metered_cache_hit_stream\<close>, primed and read: released and settled at no cost however it ends.\<close>

definition replay_hit :: "'c services \<Rightarrow> 'st store_ops \<Rightarrow> call_info \<Rightarrow> stream_now \<Rightarrow> cached_response \<Rightarrow> admission option \<Rightarrow> ('st, 'c) world \<Rightarrow>
    (exc + body list \<times> exc option) \<times> ('st, 'c) world" where
  "replay_hit sv so ci sn cached reservation w = (let
      w1 = release_held sv so reservation w;
      w2 = w1\<lparr>wd_books := settle_cache_hit ci (cr_prompt_tokens cached) (cr_completion_tokens cached)
        (dn_latency (sn_hit sn)) (dn_write (sn_hit sn)) (wd_books w1)\<rparr>
    in (case synthetic_chat_chunks (cr_body cached) (ci_model ci) (sn_clock sn) of
          Inl e \<Rightarrow> Inl e | Inr chunks \<Rightarrow> Inr (fst (consumed (sn_leaves sn) (chunks, Exhausted)), None), w2))"

section \<open>The endpoints\<close>

definition stream_info :: "uuid \<Rightarrow> uuid option \<Rightarrow> string \<Rightarrow> prepared \<Rightarrow> call_info" where
  "stream_info team key op p = call_of team key (pd_model p) op (Some (pd_attribution p))"

definition open_prepared :: "'c services \<Rightarrow> 'st store_ops \<Rightarrow> stream_gateway \<Rightarrow> uuid \<Rightarrow> uuid option \<Rightarrow> string \<Rightarrow> stream_now \<Rightarrow> prepared \<Rightarrow> ('st, 'c) world \<Rightarrow>
    (exc + body list \<times> exc option) \<times> ('st, 'c) world" where
  "open_prepared sv so gw team key op sn p w = open_metered sv so chat_chunk True (stream_info team key op p) sn (pd_clean p) (pd_clean p)
     (pd_reservation p) (gw (pd_clean p) (pd_model p) (pd_values p)) w"

definition open_responses_stream :: "'c services \<Rightarrow> callable_ports \<Rightarrow> 'st store_ops \<Rightarrow> stream_gateway \<Rightarrow> uuid \<Rightarrow> uuid option \<Rightarrow> body \<Rightarrow> prepare_now \<Rightarrow>
    stream_now \<Rightarrow> ('st, 'c) world \<Rightarrow> (exc + body list \<times> exc option) \<times> ('st, 'c) world" where
  "open_responses_stream sv cp so gw team key request pn sn w =
    (case prepare sv cp so team key ''responses'' (sanitize_request ''responses'' request) Chat (Some validate_responses_request) True pn w of
       (Inl e, w1) \<Rightarrow> (Inl e, w1) | (Inr p, w1) \<Rightarrow> open_prepared sv so gw team key ''responses'' sn p w1)"

definition open_native :: "'c services \<Rightarrow> 'st store_ops \<Rightarrow> (body \<Rightarrow> stream_state \<Rightarrow> stream_state \<times> exc option) \<Rightarrow> stream_gateway \<Rightarrow> uuid \<Rightarrow> uuid option \<Rightarrow>
    string \<Rightarrow> stream_now \<Rightarrow> (exc + native_call) \<times> ('st, 'c) world \<Rightarrow> (exc + body list \<times> exc option) \<times> ('st, 'c) world" where
  "open_native sv so step gw team key op sn ready = (case ready of
     (Inl e, w) \<Rightarrow> (Inl e, w)
   | (Inr n, w) \<Rightarrow> (let p = nc_prepared n in open_metered sv so step False (stream_info team key op p) sn (nc_view n) (pd_clean p)
       (pd_reservation p) (gw (pd_clean p) (pd_model p) (pd_values p)) w))"

definition open_native_messages_stream :: "'c services \<Rightarrow> callable_ports \<Rightarrow> 'st store_ops \<Rightarrow> stream_gateway \<Rightarrow> uuid \<Rightarrow> uuid option \<Rightarrow> body \<Rightarrow>
    prepare_now \<Rightarrow> stream_now \<Rightarrow> ('st, 'c) world \<Rightarrow> (exc + body list \<times> exc option) \<times> ('st, 'c) world" where
  "open_native_messages_stream sv cp so gw team key data pn sn w = open_native sv so native_chunk gw team key ''native.messages'' sn
     (ready_native sv cp so Anthropic ''native.messages'' team key (dget data ''model'') data True pn w)"

definition open_generate_content_stream :: "'c services \<Rightarrow> callable_ports \<Rightarrow> 'st store_ops \<Rightarrow> stream_gateway \<Rightarrow> uuid \<Rightarrow> uuid option \<Rightarrow> string \<Rightarrow> body \<Rightarrow>
    prepare_now \<Rightarrow> stream_now \<Rightarrow> ('st, 'c) world \<Rightarrow> (exc + body list \<times> exc option) \<times> ('st, 'c) world" where
  "open_generate_content_stream sv cp so gw team key alias data pn sn w = open_native sv so gemini_chunk gw team key ''native.generate_content'' sn
     (ready_native sv cp so Vertex_AI ''native.generate_content'' team key (JStr alias) data True pn w)"

section \<open>Failover before the first byte\<close>

text \<open>
  One attempt: opening and priming, each within the budget. \<open>sa_cut_open\<close>, \<open>sa_cut_prime\<close>: the budget
  runs out in that phase. A generator that is never started is finalized, which gives back its
  reservation.
\<close>

record stream_attempt =
  sa_opening :: stream_gateway
  sa_opened_at :: float_py
  sa_cut_open :: bool
  sa_primed_at :: float_py
  sa_cut_prime :: bool
  sa_stream :: stream_now
  sa_failed_at :: float_py

definition timed :: "attempt_now \<Rightarrow> float_py \<Rightarrow> bool \<Rightarrow> attempt_now" where
  "timed an t c = an\<lparr>an_started := t, an_cut := if c then Cut_Unsettled else Uncut\<rparr>"

definition stream_attempt_call :: "'c services \<Rightarrow> 'st store_ops \<Rightarrow> 'b breaker_ops option \<Rightarrow> uuid \<Rightarrow> uuid option \<Rightarrow> router_config \<Rightarrow>
    (string, string) dict \<Rightarrow> float_py \<Rightarrow> attempt_now \<Rightarrow> stream_attempt \<Rightarrow> prepared \<Rightarrow> ('st, 'c) world \<times> 'b \<Rightarrow>
    (body list \<times> exc option) attempt \<times> ('st, 'c) world \<times> 'b" where
  "stream_attempt_call sv so breaker team key router tokens start an sa p s = (case s of (w, b) \<Rightarrow> (let
      ci = stream_info team key ''chat.completions'' p;
      i = md_id (pd_model p);
      called = w\<lparr>wd_calls := wd_calls w @ [(i, pd_clean p)]\<rparr>;
      failed = (\<lambda>e w'. if failover_eligible e
        then (Failed_Over e, w', case breaker of None \<Rightarrow> b | Some bo \<Rightarrow> bo_fail bo b i (map_of tokens i) (sa_failed_at sa))
        else (Stopped e, w', b))
    in case within_deadline router start (timed an (sa_opened_at sa) (sa_cut_open sa))
          (\<lambda>c. (if c = Uncut then sa_opening sa (pd_clean p) (pd_model p) (pd_values p) else upstream_timeout, called)) w of
         (Inl e, w1) \<Rightarrow> failed e (release_held sv so (pd_reservation p) w1)
       | (Inr src, w1) \<Rightarrow>
           let fz = sn_finalizer (sa_stream sa);
               run = run_metered sv so chat_chunk True ci fz (pd_clean p) (pd_reservation p) in
           case within_deadline router start (timed an (sa_primed_at sa) (sa_cut_prime sa))
               (\<lambda>c. if c = Uncut then run (consumed (sn_leaves (sa_stream sa)) src) w1
                 else case run ([], stream_end.Closed) w1 of (Inl e, w2) \<Rightarrow> (Inl e, w2) | (Inr _, w2) \<Rightarrow> (upstream_timeout, w2))
               (release_held sv so (pd_reservation p) w1) of
             (Inl e, w2) \<Rightarrow> failed e w2
           | (Inr primed, w2) \<Rightarrow> (Answered primed, w2, case breaker of None \<Rightarrow> b | Some bo \<Rightarrow> bo_succeed bo b i (map_of tokens i))))"

definition open_chat_stream :: "'c services \<Rightarrow> callable_ports \<Rightarrow> 'st store_ops \<Rightarrow> 'b breaker_ops option \<Rightarrow> stream_gateway \<Rightarrow> uuid \<Rightarrow> uuid option \<Rightarrow> body \<Rightarrow>
    prepare_now \<Rightarrow> stream_now \<Rightarrow> failover_now \<Rightarrow> (nat \<Rightarrow> stream_attempt) \<Rightarrow> ('st, 'c) world \<times> 'b \<Rightarrow>
    (exc + body list \<times> exc option) \<times> nat option \<times> ('st, 'c) world \<times> 'b" where
  "open_chat_stream sv cp so breaker gw team key request pn sn fn sa s = (case s of (w, b) \<Rightarrow>
     let sanitized = sanitize_request ''chat.completions'' request in
     case prepare sv cp so team key ''chat.completions'' sanitized Chat (Some validate_chat_request) True pn w of
       (Inl e, w1) \<Rightarrow> (Inl e, None, w1, b)
     | (Inr p, w1) \<Rightarrow>
         (case (case pd_routed p of Some (router, decision) \<Rightarrow> if rt_failover_enabled router then Some (router, decision) else None | None \<Rightarrow> None) of
            Some (router, decision) \<Rightarrow> walk_chain sv cp so breaker team key sanitized router decision fn
              (\<lambda>tokens n. stream_attempt_call sv so breaker team key router tokens (fn_start fn) (fn_attempt fn n) (sa n)) p (w1, b)
          | None \<Rightarrow>
              (case (case cache_key_for sv team key ''chat.completions'' (pd_clean p) (pd_model p) of
                  None \<Rightarrow> (None, wd_cache w1) | Some k \<Rightarrow> cache_get_safe sv k (wd_cache w1)) of
                 (Some cached, c) \<Rightarrow> (case replay_hit sv so (stream_info team key ''chat.completions'' p) sn cached (pd_reservation p) (w1\<lparr>wd_cache := c\<rparr>) of
                     (res, w2) \<Rightarrow> (res, None, w2, b))
               | (None, c) \<Rightarrow> (case open_prepared sv so gw team key ''chat.completions'' sn p (w1\<lparr>wd_cache := c\<rparr>) of
                     (res, w2) \<Rightarrow> (res, None, w2, b)))))"

section \<open>What a metered stream leaves behind\<close>

lemma settle_usage_event:
  assumes "settle_usage ci view request wn b = Inr (x, b')"
  shows "\<exists>ev. all_events b' = add_mset ev (all_events b)"
proof -
  obtain p c cost where "x = (p, c, cost)" by (metis prod.exhaust)
  with assms settle_usage_Inr [of ci view request wn b p c cost b'] obtain u where "b' = bill ci u cost wn False b" by blast
  then show ?thesis by (intro exI [of _ "billed_event ci u cost wn False"]) (simp add: all_events_bill)
qed

lemma settle_failed_events:
  assumes "settle_failed ci fz usage e (b, r) = Inr (b', r', told)"
  shows "\<exists>evs. all_events b' = all_events b + mset evs \<and> length evs \<le> 1 \<and> (has_tokens usage = Inr False \<longrightarrow> evs = [])"
proof (cases "fz_stall fz = At_Write \<and> has_tokens usage = Inr True")
  case True
  with assms have "b' = b" by (auto simp: settle_failed_def Let_def)
  with True show ?thesis by (intro exI [of _ "[]"]) simp
next
  case False
  from assms obtain u rates cost k where "token_usage usage = Inr u" "model_rates (ci_model ci) = Inr rates" "compute_cost u rates = Inr cost" "has_tokens usage = Inr k"
    by (auto simp: settle_failed_def Let_def)
  with assms False have "b' = trace_error ci (fz_latency fz) (fz_error_name fz e) (prompt_tokens u) (completion_tokens u) cost (fz_now fz)
      (if k then bill ci u cost (fz_write fz) False b else b)"
    by (auto simp: settle_failed_def Let_def split: if_splits)
  then show ?thesis using \<open>has_tokens usage = Inr k\<close>
    by (cases k) (auto simp: all_events_bill intro: exI [of _ "[billed_event ci u cost (fz_write fz) False]"] exI [of _ "[]"])
qed

lemma settle_finished_events:
  assumes "settle_finished P ci fz usage (b, r) = Inr (b', r', told)"
  shows "\<exists>evs. all_events b' = all_events b + mset evs \<and> length evs \<le> 1 \<and> (fz_stall fz = No_Stall \<longrightarrow> length evs = 1)"
proof (cases "fz_stall fz")
  case No_Stall
  from settle_finished_effect [OF assms this] obtain ev where "all_events b' = add_mset ev (all_events b)" by blast
  then show ?thesis by (intro exI [of _ "[ev]"]) simp
next
  case At_Write
  with assms have "b' = b" by (auto simp: settle_finished_def)
  with At_Write show ?thesis by (intro exI [of _ "[]"]) simp
next
  case At_Alerts
  with assms obtain x where "settle_usage ci [(''usage'', JObj usage)] None (fz_write fz) b = Inr (x, b')"
    by (auto simp: settle_finished_def)
  from settle_usage_event [OF this] obtain ev where "all_events b' = add_mset ev (all_events b)" by blast
  with At_Alerts show ?thesis by (intro exI [of _ "[ev]"]) simp
qed

lemma metered_effect:
  assumes "metered step P ci fz view (Some f) cs fin st (b, r) = (ys, error, st', settled)"
  shows "st' = f st" and "settled = Inr (b', r', told) \<Longrightarrow> \<exists>evs. all_events b' = all_events b + mset evs \<and> length evs \<le> 1 \<and>
    (error = None \<and> fz_stall fz = No_Stall \<longrightarrow> length evs = 1)"
proof -
  obtain s where r: "relay step cs fin stream_init = (ys, s, error)" "st' = f st"
    and f: "finalize_stream_billing P ci fz view s error (b, r) = settled"
    using assms by (auto simp: metered_def split: prod.splits)
  show "st' = f st" by (rule r(2))
  assume s: "settled = Inr (b', r', told)"
  with f obtain usage where "(case error of Some e \<Rightarrow> settle_failed ci fz usage e (b, r) | None \<Rightarrow> settle_finished P ci fz usage (b, r)) = Inr (b', r', told)"
    by (auto simp: finalize_stream_billing_def)
  with settle_failed_events settle_finished_events
  show "\<exists>evs. all_events b' = all_events b + mset evs \<and> length evs \<le> 1 \<and> (error = None \<and> fz_stall fz = No_Stall \<longrightarrow> length evs = 1)"
    by (cases error) (fastforce, fastforce)
qed

text \<open>A provider that fails before its first chunk costs nothing.\<close>

lemma metered_nothing:
  assumes "metered step P ci fz view rel [] (Failed e) st (b, r) = (ys, error, st', Inr (b', r', told))"
  shows "all_events b' = all_events b"
proof -
  have tokens: "has_tokens [] = Inr False" by code_simp
  have "stream_usage view stream_init (Some e) = Inr []"
    by (simp add: stream_usage_def stream_init_def as_dict_def tokens)
  with assms have "settle_failed ci fz [] e (b, r) = Inr (b', r', told)" by (simp add: metered_def finalize_stream_billing_def)
  from settle_failed_events [OF this] tokens show ?thesis by auto
qed

text \<open>A chunk that cannot be read raises a built-in error.\<close>

definition plain :: "('s \<Rightarrow> 's \<times> exc option) \<Rightarrow> bool" where
  "plain f \<longleftrightarrow> (\<forall>s s' e. f s = (s', Some e) \<longrightarrow> \<not> upstream_like e)"

lemma plain_set_from: "(\<And>s. tame (get s)) \<Longrightarrow> plain (set_from get put)"
  by (auto simp: plain_def set_from_def tame_def split: sum.splits)

lemma plain_all_steps: "(\<And>f. f \<in> set fs \<Longrightarrow> plain f) \<Longrightarrow> plain (all_steps fs)"
proof (induction fs)
  case (Cons f fs)
  then have "plain f" "plain (all_steps fs)" by simp_all
  then show ?case by (auto simp: plain_def and_then_def split: prod.splits option.splits)
qed (simp add: plain_def)

lemma tame_raises [simp]: "tame (raise_py TypeError)" "tame (raise_py AttributeError)" "tame (raise_py ValueError)" "tame (raise_py KeyError)"
  "tame (raise_py IndexError)"
  by simp_all

lemma tame_dict_get [simp]: "tame (dict_get v k)" "tame (dict_get_or v k d)" "tame (as_dict v)"
  by (cases v; simp add: dict_get_def dict_get_or_def as_dict_def)+

lemma tame_has_tokens: "tame (has_tokens d)"
proof -
  have "tame (py_int v)" for v by (cases v) (auto simp: int_of_str_def Let_def split: prod.split)
  then have "tame (int_or_zero d k)" for k by (simp add: int_or_zero_def)
  then have "tame (any_nonzero d ks)" for ks by (induction ks) (auto intro: tame_rbind)
  then show ?thesis by (simp only: has_tokens_def)
qed

lemma tame_output_text: "tame (chunk_output_text chunk)"
proof -
  have "tame (choice_text c)" for c
    by (cases c) (auto simp: choice_text_def intro!: tame_rbind)
  then show ?thesis by (auto simp: chunk_output_text_def intro!: tame_rbind tame_rmap tame_iterate)
qed

lemma plain_chat_chunk: "plain (chat_chunk chunk)"
proof -
  have "tame (chunk_report chunk)" by (simp add: chunk_report_def)
  moreover have "tame (chunk_refuses chunk)"
    by (auto simp: chunk_refuses_def intro!: tame_rbind tame_iterate)
  moreover have "tame (uncharged_so_far s)" for s
    by (auto simp: uncharged_so_far_def intro!: tame_rbind tame_has_tokens)
  ultimately show ?thesis
    unfolding chat_chunk_def add_chars_def by (intro plain_all_steps) (auto intro!: plain_set_from tame_output_text)
qed

text \<open>A generator that yields nothing and raises what makes a chain move on has booked nothing.\<close>

lemma metered_moves_on:
  assumes "metered chat_chunk P ci fz view rel cs fin st (b, r) = ([], Some e, st', Inr (b', r', told))" "upstream_like e"
  shows "all_events b' = all_events b"
proof (cases cs)
  case Nil
  with assms have "fin = Failed e" by (cases fin) (auto simp: metered_def)
  with assms Nil metered_nothing show ?thesis by metis
next
  case (Cons c cs')
  have "relay chat_chunk (c # cs') fin stream_init = ([], s, Some e) \<Longrightarrow> \<not> upstream_like e" for s
    using plain_chat_chunk [of c] by (auto simp: plain_def split: prod.splits option.splits)
  with assms Cons show ?thesis by (auto simp: metered_def split: prod.splits)
qed

lemma run_metered_effect:
  assumes "run_metered sv so step attach ci fz view adm src w = (res, w')"
  shows "wd_store w' = wd_store (release_held sv so adm w)" and "wd_calls w' = wd_calls w"
    and "\<exists>evs. all_events (wd_books w') = all_events (wd_books w) + mset evs \<and> length evs \<le> 1 \<and>
      (\<forall>ys. res = Inr (ys, None) \<and> fz_stall fz = No_Stall \<longrightarrow> length evs = 1) \<and>
      (\<forall>e. step = chat_chunk \<and> res = Inl e \<and> upstream_like e \<longrightarrow> evs = [])"
proof -
  let ?rel = "meter_release (mp_store_wired (sv_ports sv)) (so_release so) (so_faulty so) adm"
  obtain ys error st settled where m: "metered step (sv_ports sv) ci fz view (Some ?rel) (fst src) (snd src) (wd_store w) (wd_books w, wd_alerts w) =
      (ys, error, st, settled)" by (metis prod.exhaust)
  note eff = metered_effect [OF m]
  note eq = assms [unfolded run_metered_def m prod.case]
  have "wd_store w' = wd_store (release_held sv so adm w) \<and> wd_calls w' = wd_calls w \<and>
    (\<exists>evs. all_events (wd_books w') = all_events (wd_books w) + mset evs \<and> length evs \<le> 1 \<and>
      (\<forall>ys. res = Inr (ys, None) \<and> fz_stall fz = No_Stall \<longrightarrow> length evs = 1) \<and>
      (\<forall>e. step = chat_chunk \<and> res = Inl e \<and> upstream_like e \<longrightarrow> evs = []))"
  proof (cases settled)
    case (Inl e)
    with eq eff(1) show ?thesis by (auto simp: release_held_def split: list.splits intro!: exI [of _ "[]"])
  next
    case (Inr x)
    obtain b r told where x: "settled = Inr (b, r, told)" using Inr by (metis prod.exhaust)
    from eff(2) [OF x] obtain evs where evs: "all_events b = all_events (wd_books w) + mset evs" "length evs \<le> 1"
      "error = None \<and> fz_stall fz = No_Stall \<longrightarrow> length evs = 1" by blast
    have w': "wd_store w' = wd_store (release_held sv so adm w)" "wd_calls w' = wd_calls w" "wd_books w' = b"
      using eq eff(1) x by (auto simp: release_held_def)
    have res: "res = (case (ys, error) of ([], Some e) \<Rightarrow> Inl e | _ \<Rightarrow> Inr (ys, error))" using eq x by auto
    have "evs = []" if "step = chat_chunk" "res = Inl e" "upstream_like e" for e
    proof -
      have "ys = []" "error = Some e" using res that(2) by (auto split: list.splits option.splits)
      with metered_moves_on [of "sv_ports sv" ci fz view "Some ?rel" "fst src" "snd src" "wd_store w" "wd_books w" "wd_alerts w" e st b r told]
        m x that evs(1) show ?thesis by simp
    qed
    moreover have "error = None" if "res = Inr (ys', None)" for ys' using res that by (auto split: list.splits option.splits)
    ultimately show ?thesis using w' evs by auto
  qed
  then show "wd_store w' = wd_store (release_held sv so adm w)" "wd_calls w' = wd_calls w"
    "\<exists>evs. all_events (wd_books w') = all_events (wd_books w) + mset evs \<and> length evs \<le> 1 \<and>
      (\<forall>ys. res = Inr (ys, None) \<and> fz_stall fz = No_Stall \<longrightarrow> length evs = 1) \<and>
      (\<forall>e. step = chat_chunk \<and> res = Inl e \<and> upstream_like e \<longrightarrow> evs = [])"
    by blast+
qed

lemma within_deadline_cases:
  assumes "within_deadline router start an run w = (res, w')"
  obtains (late) "res = upstream_timeout" "w' = w"
  | (ran) c res0 where "run c = (res0, w')" "c = Uncut \<or> c = an_cut an \<and> rt_overall_deadline_ms router \<noteq> None"
      "res0 = res \<or> res0 = raise_py (OtherException ''TimeoutError'') \<and> res = upstream_timeout"
proof (cases "rt_overall_deadline_ms router")
  case None
  with assms ran [of Uncut res] show thesis by (simp add: within_deadline_def)
next
  case (Some d)
  show thesis
  proof (cases "fsub (fdiv (of_int d) 1000) (fsub (an_started an) start) \<le> 0")
    case True
    with assms Some late show thesis by (simp add: within_deadline_def)
  next
    case False
    obtain res0 u where u: "run (an_cut an) = (res0, u)" by fastforce
    with assms Some False have "u = w'" "res = (if res0 = raise_py (OtherException ''TimeoutError'') then upstream_timeout else res0)"
      by (simp_all add: within_deadline_def)
    with u Some ran [of "an_cut an" res0] show thesis by (auto split: if_splits)
  qed
qed

text \<open>An attempt at a stream gives its reservation back, and one that moves on has billed nothing.\<close>

lemma stream_attempt_settles:
  fixes w w' :: "(mem_store, 'c) world"
  assumes "rt_overall_deadline_ms router = None \<or> \<not> sa_cut_prime sa" "fz_stall (sn_finalizer (sa_stream sa)) = No_Stall"
    and "stream_attempt_call sv memory_store breaker team key router tokens start an sa p (w, b) = (r, w', b')"
  shows "settles sv (\<lambda>x. snd x = None) p w r w'"
proof -
  let ?ci = "stream_info team key ''chat.completions'' p"
  let ?called = "w\<lparr>wd_calls := wd_calls w @ [(md_id (pd_model p), pd_clean p)]\<rparr>"
  let ?fz = "sn_finalizer (sa_stream sa)"
  let ?run = "run_metered sv memory_store chat_chunk True ?ci ?fz (pd_clean p) (pd_reservation p)"
  let ?open = "\<lambda>c. (if c = Uncut then sa_opening sa (pd_clean p) (pd_model p) (pd_values p) else upstream_timeout, ?called)"
  obtain op w1 where o: "within_deadline router start (timed an (sa_opened_at sa) (sa_cut_open sa)) ?open w = (op, w1)" by fastforce
  have w1: "wd_store w1 = wd_store w" "all_events (wd_books w1) = all_events (wd_books w)"
    using o by (cases rule: within_deadline_cases; auto)+
  note eq = assms(3) [unfolded stream_attempt_call_def prod.case Let_def o]
  show ?thesis
  proof (cases op)
    case (Inl e)
    with eq w1 show ?thesis
      by (auto simp: settles_def release_held_def split: if_split_asm intro!: exI [of _ "[]"])
  next
    case (Inr src)
    let ?prime = "\<lambda>c. if c = Uncut then ?run (consumed (sn_leaves (sa_stream sa)) src) w1
      else case ?run ([], stream_end.Closed) w1 of (Inl e, w2) \<Rightarrow> (Inl e, w2) | (Inr _, w2) \<Rightarrow> (upstream_timeout, w2)"
    obtain pr w2 where pr: "within_deadline router start (timed an (sa_primed_at sa) (sa_cut_prime sa)) ?prime
        (release_held sv memory_store (pd_reservation p) w1) = (pr, w2)" by fastforce
    have w2: "wd_store w2 = wd_store (release_held sv memory_store (pd_reservation p) w) \<and>
      (\<exists>evs. all_events (wd_books w2) = all_events (wd_books w) + mset evs \<and> length evs \<le> 1 \<and>
        (\<forall>ys. pr = Inr (ys, None) \<longrightarrow> length evs = 1) \<and> (\<forall>e. pr = Inl e \<and> failover_eligible e \<longrightarrow> evs = []))"
      using pr
    proof (cases rule: within_deadline_cases)
      case late
      with w1 show ?thesis by (auto simp: release_held_def intro!: exI [of _ "[]"])
    next
      case (ran c res0)
      have "c = Uncut" using ran(2) assms(1) by (auto simp: timed_def)
      with ran(1) have run: "?run (consumed (sn_leaves (sa_stream sa)) src) w1 = (res0, w2)" by simp
      note eff = run_metered_effect [OF run]
      from eff(3) obtain evs where evs: "all_events (wd_books w2) = all_events (wd_books w1) + mset evs" "length evs \<le> 1"
        "\<forall>ys. res0 = Inr (ys, None) \<longrightarrow> length evs = 1" "\<forall>e. res0 = Inl e \<and> upstream_like e \<longrightarrow> evs = []"
        using assms(2) by blast
      have "evs = []" if "pr = Inl e" "failover_eligible e" for e
        using ran(3) evs(4) that by (auto simp: upstream_like_def)
      moreover have "length evs = 1" if "pr = Inr (ys, None)" for ys using ran(3) evs(3) that by auto
      ultimately show ?thesis using w1 eff(1) evs(1,2) by (auto simp: release_held_def)
    qed
    show ?thesis
      using eq [unfolded Inr sum.case pr prod.case] w2
      by (cases pr) (auto simp: settles_def split: if_split_asm)
  qed
qed

section \<open>Whole streams\<close>

text \<open>The stream is over: no reservation of its own is live, at most one event bills it, exactly one if it did not fail.\<close>

definition stream_over :: "float_py \<Rightarrow> (mem_store, 'c) world \<Rightarrow> (exc + body list \<times> exc option) \<times> (mem_store, 'c) world \<Rightarrow> bool" where
  "stream_over t w out \<longleftrightarrow> claims_kept t (wd_store w) (wd_store (snd out)) \<and> billed_by (\<lambda>x. snd x = None) (fst out) w (snd out)"

lemma billed_by_unbilled: "unbilled w w1 \<Longrightarrow> billed_by full res w1 w' \<Longrightarrow> billed_by full res w w'"
  by (simp add: billed_by_def unbilled_def)

lemma open_metered_over:
  assumes "open_metered sv memory_store step attach ci sn view sent adm opened w1 = (res, w')" "fz_stall (sn_finalizer sn) = No_Stall"
    and "all_events (wd_books w1) = all_events (wd_books w)" "claims_taken t (wd_store w) adm (wd_store w1)" "adm \<noteq> None \<longrightarrow> mp_store_wired (sv_ports sv)"
  shows "stream_over t w (res, w')"
proof -
  let ?w1 = "w1\<lparr>wd_calls := wd_calls w1 @ [(md_id (ci_model ci), sent)]\<rparr>"
  have kept: "claims_kept t (wd_store w) (wd_store (release_held sv memory_store adm ?w1))"
    using released_claims [OF _ assms(5), of t "wd_store w" ?w1] assms(4) by simp
  show ?thesis
  proof (cases opened)
    case (Inl e)
    with assms(1,3) kept show ?thesis
      by (auto simp: open_metered_def stream_over_def release_held_def intro!: billed_byI)
  next
    case (Inr src)
    with assms(1) have r: "run_metered sv memory_store step attach ci (sn_finalizer sn) view adm (consumed (sn_leaves sn) src) ?w1 = (res, w')"
      by (simp add: open_metered_def Let_def)
    from run_metered_effect(1,3) [OF r] assms(2,3) kept show ?thesis
      by (auto simp: stream_over_def billed_by_def)
  qed
qed

lemma replay_hit_over:
  assumes "replay_hit sv memory_store ci sn cached adm w1 = (res, w')"
    and "all_events (wd_books w1) = all_events (wd_books w)" "claims_taken t (wd_store w) adm (wd_store w1)" "adm \<noteq> None \<longrightarrow> mp_store_wired (sv_ports sv)"
  shows "stream_over t w (res, w')"
proof -
  have "claims_kept t (wd_store w) (wd_store (release_held sv memory_store adm w1))"
    using released_claims [OF assms(3,4)] .
  moreover obtain ev where "all_events (wd_books w') = add_mset ev (all_events (wd_books w))"
    using assms(1,2) settle_cache_hit_books [of ci "cr_prompt_tokens cached" "cr_completion_tokens cached" "dn_latency (sn_hit sn)" "dn_write (sn_hit sn)" "wd_books w1"]
    by (auto simp: replay_hit_def Let_def release_held_def)
  ultimately show ?thesis using assms(1)
    by (auto simp: stream_over_def billed_by_def replay_hit_def Let_def release_held_def intro!: exI [of _ "[ev]"])
qed

lemma failed_over: "unbilled w w' \<Longrightarrow> claims_kept t (wd_store w) (wd_store w') \<Longrightarrow> stream_over t w (Inl e, w')"
  by (auto simp: stream_over_def unbilled_def intro: billed_byI)


definition sample_stream_now :: stream_now where
  "sample_stream_now = \<lparr>sn_finalizer = sample_finalizer, sn_leaves = Some 0, sn_hit = sample_now, sn_clock = 7\<rparr>"

definition sample_stream_attempt :: stream_attempt where
  "sample_stream_attempt = \<lparr>sa_opening = (\<lambda>_ _ _. Inr ([sample_response, sample_response], Exhausted)), sa_opened_at = 0, sa_cut_open = False,
     sa_primed_at = 0, sa_cut_prime = False, sa_stream = sample_stream_now, sa_failed_at = 20\<rparr>"


text \<open>
  A budget that runs out while a stream is primed bills the estimated prompt of a call that yielded
  nothing, and the chain moves on to bill the next candidate as well.
\<close>

lemma cut_priming_is_billed:
  assumes "rt_overall_deadline_ms router = Some d" "0 < fsub (fdiv (of_int d) 1000) (fsub (sa_opened_at sa) start)"
    and "0 < fsub (fdiv (of_int d) 1000) (fsub (sa_primed_at sa) start)" "\<not> sa_cut_open sa" "sa_cut_prime sa"
    and "sa_opening sa (pd_clean p) (pd_model p) (pd_values p) = Inr src"
    and "run_metered sv so chat_chunk True (stream_info team key ''chat.completions'' p) (sn_finalizer (sa_stream sa)) (pd_clean p) (pd_reservation p)
      ([], stream_end.Closed) (w\<lparr>wd_calls := wd_calls w @ [(md_id (pd_model p), pd_clean p)]\<rparr>) = (Inr ([], None), w')"
    and "fz_stall (sn_finalizer (sa_stream sa)) = No_Stall"
  shows "(\<exists>e b'. stream_attempt_call sv so breaker team key router tokens start an sa p (w, b) = (Failed_Over e, w', b')) \<and>
    (\<exists>ev. all_events (wd_books w') = add_mset ev (all_events (wd_books w)))"
proof -
  from run_metered_effect(3) [OF assms(7)] assms(8) obtain evs where evs: "all_events (wd_books w') = all_events (wd_books w) + mset evs" "length evs = 1"
    by auto
  then obtain ev where "evs = [ev]" by (auto simp: length_Suc_conv)
  with evs have "all_events (wd_books w') = add_mset ev (all_events (wd_books w))" by simp
  moreover have "failover_eligible (Domain (Upstream UpstreamTimeout) info NoRetry None)" for info
    by (simp add: failover_eligible_def is_failover_eligible_iff)
  ultimately show ?thesis using assms(1-7)
    by (auto simp: stream_attempt_call_def within_deadline_def timed_def Let_def)
qed

section \<open>Replaying a stored answer\<close>

text \<open>What a client reads of a chunk: a field of its first choice's delta, and its finish reason.\<close>

definition chunk_choice :: "body \<Rightarrow> json" where
  "chunk_choice chunk = (case dget chunk ''choices'' of JList (c # _) \<Rightarrow> c | _ \<Rightarrow> JNull)"

definition chunk_delta :: "string \<Rightarrow> body \<Rightarrow> json" where
  "chunk_delta k chunk = oget (oget (chunk_choice chunk) ''delta'') k"

definition chunk_text :: "body \<Rightarrow> string" where
  "chunk_text chunk = (case chunk_delta ''content'' chunk of JStr s \<Rightarrow> s | _ \<Rightarrow> [])"

definition chunk_finish :: "body \<Rightarrow> json" where
  "chunk_finish chunk = oget (chunk_choice chunk) ''finish_reason''"

definition present :: "(body \<Rightarrow> json) \<Rightarrow> body list \<Rightarrow> json list" where
  "present f chunks = filter (\<lambda>j. j \<noteq> JNull) (map f chunks)"

lemma concat_pieces: "length s \<le> n \<Longrightarrow> concat (pieces n s) = s"
  by (induction n s rule: pieces.induct) auto

lemma pieces_short: "p \<in> set (pieces n s) \<Longrightarrow> length p \<le> 20"
  by (induction n s rule: pieces.induct) (auto split: if_splits)

lemma present_append [simp]: "present f (xs @ ys) = present f xs @ present f ys"
  and present_Cons [simp]: "present f (c # xs) = (if f c = JNull then present f xs else f c # present f xs)"
  and present_Nil [simp]: "present f [] = []"
  by (simp_all add: present_def)

lemma present_none: "(\<And>c. c \<in> set xs \<Longrightarrow> f c = JNull) \<Longrightarrow> present f xs = []"
  by (simp add: present_def filter_empty_conv)

lemma chunk_of_delta [simp]: "chunk_choice (delta_chunk base delta finish) =
    JObj [(''index'', JInt 0), (''delta'', JObj delta), (''finish_reason'', finish)]"
  by (simp add: chunk_choice_def delta_chunk_def dget_put)

lemma read_delta [simp]: "chunk_delta k (delta_chunk base delta finish) = dget delta k"
    "chunk_finish (delta_chunk base delta finish) = finish"
  by (simp_all add: chunk_delta_def chunk_finish_def oget_def) (simp_all add: dget_def)

lemma read_usage_chunk [simp]:
  fixes base :: body and u :: json
  defines "c \<equiv> dict_put ''usage'' u (dict_put ''choices'' (JList []) base)"
  shows "chunk_delta k c = JNull" "chunk_finish c = JNull" "chunk_text c = []" "dget c ''usage'' = u"
  by (simp_all add: c_def chunk_delta_def chunk_finish_def chunk_text_def chunk_choice_def oget_def dget_put)

lemma read_text [simp]: "chunk_text (delta_chunk base delta finish) = (case dget delta ''content'' of JStr s \<Rightarrow> s | _ \<Rightarrow> [])"
  by (simp add: chunk_text_def)

lemma truthy_not_null: "truthy j \<Longrightarrow> j \<noteq> JNull"
  by (cases j) auto

lemma dget_single: "dget [(a, v)] k = (if k = a then v else JNull)" and dget_Nil: "dget [] k = JNull"
  by (simp_all add: dget_def)

text \<open>
  C28. A stored completion replayed as a stream says what was stored: the deltas' text, in pieces of at
  most twenty characters, is the stored text, the tool calls come in one delta if there are any, one
  chunk carries the finish reason, and the last one the usage.
\<close>

theorem replay_reassembles:
  assumes "synthetic_chat_chunks cached m now = Inr chunks"
    and "dget cached ''choices'' = JList (JObj choice # others)" "dget choice ''message'' = JObj message"
  shows "concat (map chunk_text chunks) = (case dget message ''content'' of JStr s \<Rightarrow> s | _ \<Rightarrow> []) \<and>
    (\<forall>c \<in> set chunks. length (chunk_text c) \<le> 20) \<and>
    present (chunk_delta ''tool_calls'') chunks = (if truthy (dget message ''tool_calls'') then [dget message ''tool_calls''] else []) \<and>
    present chunk_finish chunks = [py_or (dget choice ''finish_reason'') (JStr ''stop'')] \<and>
    dget (last chunks) ''usage'' = get_or_empty cached ''usage''"
proof -
  define s where "s = (case dget message ''content'' of JStr s \<Rightarrow> s | _ \<Rightarrow> [])"
  define tools where "tools = dget message ''tool_calls''"
  define fin where "fin = py_or (dget choice ''finish_reason'') (JStr ''stop'')"
  have whole: "as_dict (py_or (JObj message) (JObj [])) = Inr message" by (cases message) (simp_all add: py_or_def as_dict_def)
  define base where "base = [(''id'', dget_or cached ''id'' (JStr ''chatcmpl-cache'')), (''object'', JStr ''chat.completion.chunk''),
    (''created'', dget_or cached ''created'' (JInt now)), (''model'', JStr (md_provider_model_id m))]"
  define role where "role = dget_or message ''role'' (JStr ''assistant'')"
  have listed: "py_or (JList (JObj choice # others)) d = JList (JObj choice # others)" for d by (simp add: py_or_def)
  have chunks: "chunks = delta_chunk base [(''role'', role)] JNull #
      map (\<lambda>p. delta_chunk base [(''content'', JStr p)] JNull) (pieces (length s) s) @
      (if truthy tools then [delta_chunk base [(''tool_calls'', tools)] JNull] else []) @
      [delta_chunk base [] fin, dict_merge base [(''choices'', JList []), (''usage'', get_or_empty cached ''usage'')]]"
    using assms(1) unfolding synthetic_chat_chunks_def Let_def assms(2) listed base_def [symmetric] tools_def
    by (auto simp: whole assms(3) dict_get_def first_of_def s_def tools_def fin_def role_def simp del: dict_merge.simps split del: if_split)
  have fin: "fin \<noteq> JNull" by (auto simp: fin_def py_or_def)
  have short: "\<forall>p \<in> set (pieces (length s) s). length p \<le> 20" using pieces_short by blast
  have texts: "map chunk_text (map (\<lambda>p. delta_chunk base [(''content'', JStr p)] JNull) ps) = ps" for ps
    by (simp add: comp_def dget_single map_idI)
  have quiet: "present (chunk_delta ''tool_calls'') (map (\<lambda>p. delta_chunk base [(''content'', JStr p)] JNull) ps) = []"
    "present chunk_finish (map (\<lambda>p. delta_chunk base [(''content'', JStr p)] JNull) ps) = []" for ps
    by (auto simp: dget_single intro!: present_none)
  show ?thesis
    unfolding s_def [symmetric] tools_def [symmetric] fin_def [symmetric] chunks
    using fin short texts quiet truthy_not_null
    by (simp add: dget_single dget_Nil concat_pieces) 
qed

definition sample_stored :: body where
  "sample_stored = [(''id'', JStr ''c''), (''choices'', JList [JObj [(''message'', JObj [(''role'', JStr ''assistant''),
      (''content'', JStr ''a text of more than twenty characters'')]), (''finish_reason'', JStr ''length'')]]), (''usage'', JObj [(''prompt_tokens'', JInt 3)])]"

theorem replay_reassembles_witness:
  "case synthetic_chat_chunks sample_stored priced_model 7 of Inl e \<Rightarrow> False
   | Inr chunks \<Rightarrow> concat (map chunk_text chunks) = ''a text of more than twenty characters'' \<and> length chunks = 5 \<and>
       present chunk_finish chunks = [JStr ''length''] \<and> dget (last chunks) ''usage'' = JObj [(''prompt_tokens'', JInt 3)]"
proof -
  let ?message = "[(''role'', JStr ''assistant''), (''content'', JStr ''a text of more than twenty characters'')]"
  let ?choice = "[(''message'', JObj ?message), (''finish_reason'', JStr ''length'')]"
  have "case synthetic_chat_chunks sample_stored priced_model 7 of Inl e \<Rightarrow> False | Inr chunks \<Rightarrow> length chunks = 5" by code_simp
  then obtain chunks where c: "synthetic_chat_chunks sample_stored priced_model 7 = Inr chunks" "length chunks = 5"
    by (auto split: sum.split_asm)
  have "dget sample_stored ''choices'' = JList (JObj ?choice # [])" "dget ?choice ''message'' = JObj ?message"
    and u: "get_or_empty sample_stored ''usage'' = JObj [(''prompt_tokens'', JInt 3)]"
    by (simp_all add: sample_stored_def dget_def get_or_empty_def py_or_def)
  from replay_reassembles [OF c(1) this(1,2)] c u show ?thesis
    by (simp add: dget_def py_or_def)
qed

end
