(* ===== verification/Webhook_Signature.thy ===== *)
theory Webhook_Signature
  imports Usage_Accounting Callable_Aliases
begin

text \<open>
  What the gateway signs when it calls a webhook and how a receiver checks it
  (\<open>domain/webhook_signature.py\<close>). \<open>mac secret message\<close> is the hex digest of the HMAC-SHA256, whose
  only property that matters is that it is written in hexadecimal digits.
\<close>

definition signature_header :: string where "signature_header = ''X-Gateway-Signature''"
definition event_id_header :: string where "event_id_header = ''X-Gateway-Event-Id''"
definition default_tolerance_seconds :: int where "default_tolerance_seconds = 300"

record signed_payload =
  sp_body :: string
  sp_headers :: "(string, string) dict"

definition signed_digest :: "(string \<Rightarrow> string \<Rightarrow> string) \<Rightarrow> string \<Rightarrow> string \<Rightarrow> int \<Rightarrow> string" where
  "signed_digest mac message secret timestamp = mac secret (int_str timestamp @ ''.'' @ message)"

definition sign_body :: "(string \<Rightarrow> string \<Rightarrow> string) \<Rightarrow> string \<Rightarrow> string \<Rightarrow> int \<Rightarrow> string \<Rightarrow> signed_payload" where
  "sign_body mac message secret timestamp event_id = \<lparr>sp_body = message,
     sp_headers = [(signature_header, ''t='' @ int_str timestamp @ '',v1='' @ signed_digest mac message secret timestamp),
       (event_id_header, event_id)]\<rparr>"

text \<open>\<open>s.split(c)\<close>; \<open>piece.split("=", 1)\<close> of the pieces that have one, the last value of a name standing.\<close>

fun split_on :: "char \<Rightarrow> string \<Rightarrow> string list" where
  "split_on c [] = [[]]"
| "split_on c (x # xs) = (if x = c then [] # split_on c xs
     else (case split_on c xs of p # ps \<Rightarrow> (x # p) # ps | [] \<Rightarrow> [[x]]))"

definition header_parts :: "string \<Rightarrow> (string, string) dict" where
  "header_parts header = foldl (\<lambda>d piece. dict_put (takeWhile (\<lambda>x. x \<noteq> CHR ''='') piece) (tl (dropWhile (\<lambda>x. x \<noteq> CHR ''='') piece)) d) []
     (filter (\<lambda>piece. CHR ''='' \<in> set piece) (split_on (CHR '','') header))"

definition part :: "(string, string) dict \<Rightarrow> string \<Rightarrow> string" where
  "part d k = (case map_of d k of Some v \<Rightarrow> v | None \<Rightarrow> [])"

text \<open>\<open>hmac.compare_digest\<close> refuses strings outside ASCII.\<close>

definition ascii :: "string \<Rightarrow> bool" where
  "ascii s \<longleftrightarrow> (\<forall>c \<in> set s. (of_char c :: nat) < 128)"

definition compare_digest :: "string \<Rightarrow> string \<Rightarrow> exc + bool" where
  "compare_digest a b = (if ascii a \<and> ascii b then Inr (a = b) else raise_py TypeError)"

definition verify_signature :: "(string \<Rightarrow> string \<Rightarrow> string) \<Rightarrow> string \<Rightarrow> string \<Rightarrow> string \<Rightarrow> int \<Rightarrow> int \<Rightarrow> exc + bool" where
  "verify_signature mac message header secret now tolerance = (let parts = header_parts header in
     case int_of_str (part parts ''t'') of
       Inl _ \<Rightarrow> Inr False
     | Inr timestamp \<Rightarrow> if tolerance < \<bar>now - timestamp\<bar> then Inr False
         else compare_digest (signed_digest mac message secret timestamp) (part parts ''v1''))"

section \<open>Numbers survive printing\<close>

lemma digits_str_digits: "0 \<le> n \<Longrightarrow> c \<in> set (digits_str n) \<Longrightarrow> is_digit c"
proof (induction n rule: digits_str.induct)
  case (1 n)
  have d: "is_digit (digit k)" if "0 \<le> k" "k < 10" for k
  proof -
    have "of_char (digit k) = 48 + k" using that by (simp add: digit_def)
    then have "(of_char (digit k) :: nat) = nat (48 + k)" by (metis nat_int of_nat_of_char)
    moreover have "48 \<le> nat (48 + k)" "nat (48 + k) \<le> 57" using that by linarith+
    ultimately show ?thesis by (simp add: is_digit_def Let_def)
  qed
  show ?case
  proof (cases "n < 10")
    case True
    with 1 d [of n] show ?thesis by (simp add: digits_str.simps [of n])
  next
    case False
    with 1 d [of "n mod 10"] show ?thesis by (auto simp: digits_str.simps [of n])
  qed
qed

lemma digits_str_Nil: "digits_str n \<noteq> []"
  by (subst digits_str.simps) simp

lemma digit_plain: "is_digit c \<Longrightarrow> \<not> is_space c \<and> c \<noteq> CHR ''-'' \<and> c \<noteq> CHR ''+'' \<and> c \<noteq> CHR '','' \<and> c \<noteq> CHR ''=''"
  by (auto simp: is_digit_def is_space_def Let_def)

lemma digit_groups_digits: "\<forall>c \<in> set s. is_digit c \<Longrightarrow> s \<noteq> [] \<or> b \<Longrightarrow> digit_groups s b"
  by (induction s arbitrary: b) auto

lemma strip_plain: "\<forall>c \<in> set s. \<not> is_space c \<Longrightarrow> strip s = s"
proof -
  have d: "dropWhile is_space s = s" if "\<forall>c \<in> set s. \<not> is_space c" for s
    using that by (cases s) simp_all
  assume "\<forall>c \<in> set s. \<not> is_space c"
  then show ?thesis using d [of s] d [of "rev s"] by (simp add: strip_def)
qed

lemma int_str_plain: "c \<in> set (int_str n) \<Longrightarrow> \<not> is_space c \<and> c \<noteq> CHR '','' \<and> c \<noteq> CHR ''=''"
proof -
  assume "c \<in> set (int_str n)"
  then have "is_digit c \<or> c = CHR ''-''"
    using digits_str_digits [of n c] digits_str_digits [of "- n" c] by (auto simp: int_str_def split: if_splits)
  then show ?thesis using digit_plain by (auto simp: is_space_def)
qed

lemma int_of_int_str:
  assumes "length (int_str n) \<le> 4300"
  shows "int_of_str (int_str n) = Inr n"
proof -
  have ds: "\<forall>c \<in> set (digits_str k). is_digit c" "digit_groups (digits_str k) False" "filter is_digit (digits_str k) = digits_str k"
    "digits_val (digits_str k) = k" if "0 \<le> k" for k
    using digits_str_digits [OF that] digits_str_Nil [of k] digits_value_str [OF that]
    by (auto intro!: digit_groups_digits simp: digits_val_def)
  have s: "strip (int_str n) = int_str n" using int_str_plain by (intro strip_plain) blast
  show ?thesis
  proof (cases "n < 0")
    case True
    then have "int_of_str (int_str n) = (if length (digits_str (- n)) \<le> 4300 then Inr (- digits_val (digits_str (- n))) else raise_py ValueError)"
      using ds [of "- n"] s by (simp add: int_of_str_def int_str_def Let_def)
    then show ?thesis using True assms ds(4) [of "- n"] by (simp add: int_str_def)
  next
    case False
    then obtain c r where c: "digits_str n = c # r" using digits_str_Nil by (metis list.exhaust)
    then have "is_digit c" using ds(1) [of n] False by simp
    then have "int_of_str (int_str n) = (if length (digits_str n) \<le> 4300 then Inr (digits_val (digits_str n)) else raise_py ValueError)"
      using ds(2,3) [of n] s c digit_plain [of c] False by (auto simp: int_of_str_def int_str_def Let_def)
    then show ?thesis using False assms ds(4) [of n] by (simp add: int_str_def)
  qed
qed

section \<open>Signing and checking\<close>

lemma split_on_plain: "c \<notin> set s \<Longrightarrow> split_on c s = [s]"
  by (induction s) auto

lemma split_on_join: "c \<notin> set s \<Longrightarrow> split_on c (s @ c # t) = s # split_on c t"
  by (induction s) auto

lemma cut_plain: "c \<notin> set k \<Longrightarrow> takeWhile (\<lambda>x. x \<noteq> c) (k @ c # v) = k \<and> tl (dropWhile (\<lambda>x. x \<noteq> c) (k @ c # v)) = v"
  by (induction k) auto

lemma signed_parts:
  assumes "CHR '','' \<notin> set v"
  shows "header_parts (''t='' @ int_str t @ '',v1='' @ v) = [(''t'', int_str t), (''v1'', v)]"
proof -
  have clean: "CHR '','' \<notin> set (''t='' @ int_str t)" "CHR '','' \<notin> set (''v1='' @ v)"
    using assms int_str_plain [of _ t] by auto
  have "split_on (CHR '','') ((''t='' @ int_str t) @ CHR '','' # (''v1='' @ v)) = [''t='' @ int_str t, ''v1='' @ v]"
    unfolding split_on_join [OF clean(1)] split_on_plain [OF clean(2)] ..
  then have "split_on (CHR '','') (''t='' @ int_str t @ '',v1='' @ v) = [''t='' @ int_str t, ''v1='' @ v]" by simp
  then show ?thesis by (simp add: header_parts_def)
qed

definition hex_text :: "string \<Rightarrow> bool" where
  "hex_text s \<longleftrightarrow> (\<forall>c \<in> set s. hex_val c \<noteq> None)"

lemma hex_plain: "hex_text s \<Longrightarrow> ascii s \<and> CHR '','' \<notin> set s"
  by (auto simp: hex_text_def ascii_def hex_val_def Let_def split: if_splits)

text \<open>
  C19. A receiver accepts what was signed for it as long as the clocks agree up to the tolerance, and
  whatever it accepts carries a timestamp that recent and the digest of that timestamp with this
  body: a captured call cannot be given a fresh timestamp.
\<close>

theorem signature_verifies:
  assumes "hex_text (mac secret (int_str t @ ''.'' @ message))" "length (int_str t) \<le> 4300"
  shows "verify_signature mac message (part (sp_headers (sign_body mac message secret t event_id)) signature_header) secret now tolerance
      = Inr (\<bar>now - t\<bar> \<le> tolerance) \<and>
    (verify_signature mac message header secret now tolerance = Inr True \<longrightarrow>
      (\<exists>t'. int_of_str (part (header_parts header) ''t'') = Inr t' \<and> \<bar>now - t'\<bar> \<le> tolerance \<and>
        part (header_parts header) ''v1'' = mac secret (int_str t' @ ''.'' @ message)))"
proof -
  let ?v = "mac secret (int_str t @ ''.'' @ message)"
  have "header_parts (''t='' @ int_str t @ '',v1='' @ ?v) = [(''t'', int_str t), (''v1'', ?v)]"
    using signed_parts hex_plain [OF assms(1)] by blast
  then have "verify_signature mac message (''t='' @ int_str t @ '',v1='' @ ?v) secret now tolerance = Inr (\<bar>now - t\<bar> \<le> tolerance)"
    using int_of_int_str [OF assms(2)] hex_plain [OF assms(1)]
    by (simp add: verify_signature_def part_def compare_digest_def signed_digest_def not_le)
  moreover have "part (sp_headers (sign_body mac message secret t event_id)) signature_header = ''t='' @ int_str t @ '',v1='' @ ?v"
    by (simp add: part_def sign_body_def signature_header_def event_id_header_def signed_digest_def)
  moreover have "\<exists>t'. int_of_str (part (header_parts header) ''t'') = Inr t' \<and> \<bar>now - t'\<bar> \<le> tolerance \<and>
      part (header_parts header) ''v1'' = mac secret (int_str t' @ ''.'' @ message)"
    if "verify_signature mac message header secret now tolerance = Inr True"
    using that by (auto simp: verify_signature_def Let_def compare_digest_def signed_digest_def split: sum.split_asm if_split_asm)
  ultimately show ?thesis by metis
qed

theorem signature_verifies_witness:
  "verify_signature (\<lambda>_ _. ''ab01'') ''body'' (part (sp_headers (sign_body (\<lambda>_ _. ''ab01'') ''body'' ''s'' 1000 ''e'')) signature_header) ''s'' 1200
     default_tolerance_seconds = Inr True"
proof -
  have h: "hex_text ''ab01''" "length (int_str 1000) \<le> 4300" by code_simp+
  from signature_verifies [of "\<lambda>_ _. ''ab01''" "''s''" 1000 "''body''" "''e''" 1200 default_tolerance_seconds "[]"] h
  show ?thesis by (simp add: default_tolerance_seconds_def)
qed

end
