(* ===== verification/Routing_Strategies.thy ===== *)
theory Routing_Strategies
  imports Routing Guardrail_Chain Webhook_Signature
begin

text \<open>
  The strategies a router can choose a candidate with (\<open>application/routing/complexity.py\<close>,
  \<open>hybrid.py\<close>, \<open>judge.py\<close>, \<open>embeddings.py\<close>, \<open>webhook.py\<close>): how each reads its configuration, what it
  asks of the outside world, and how it turns the answer into a decision. A configuration is the JSON
  an admin stored, with every type error it can cause; what is asked (a judge model, an embedding
  model, an endpoint) is a function on an arbitrary state, because asking bills. Whatever a strategy
  decides names one of the candidates it was given.
\<close>

section \<open>Rule-based complexity: keywords\<close>

definition default_code_keywords :: "string list" where
  "default_code_keywords = [''function'', ''class'', ''def'', ''const'', ''let'', ''var'', ''import'', ''export'', ''return'', ''async'',
     ''await'', ''try'', ''catch'', ''exception'', ''error'', ''debug'', ''api'', ''endpoint'', ''request'', ''response'',
     ''database'', ''sql'', ''query'', ''schema'', ''algorithm'', ''implement'', ''refactor'', ''optimize'', ''python'',
     ''javascript'', ''typescript'', ''java'', ''rust'', ''golang'', ''react'', ''vue'', ''angular'', ''node'', ''docker'',
     ''kubernetes'', ''git'', ''commit'', ''merge'', ''branch'', ''pull request'', ''funzione'', ''classe'', ''errore'',
     ''eccezione'', ''implementa'', ''implementare'', ''ottimizza'', ''ottimizzare'', ''algoritmo'', ''codice'',
     ''variabile'', ''compila'', ''richiesta'', ''risposta'', ''interroga'']"

definition default_reasoning_keywords :: "string list" where
  "default_reasoning_keywords = [''step by step'', ''think through'', ''let'' @ [CHR 0x27] @ ''s think'', ''reason through'', ''analyze this'',
     ''break down'', ''explain your reasoning'', ''show your work'', ''chain of thought'', ''think carefully'',
     ''consider all'', ''evaluate'', ''pros and cons'', ''compare and contrast'', ''weigh the options'', ''logical'',
     ''deduce'', ''infer'', ''conclude'', ''passo dopo passo'', ''passo passo'', ''ragiona'', ''ragioniamo'',
     ''analizza questo'', ''scomponi'', ''spiega il tuo ragionamento'', ''mostra i passaggi'', ''catena di pensiero'',
     ''pensa attentamente'', ''considera tutte'', ''valuta'', ''pro e contro'', ''confronta'', ''deduci'', ''inferisci'',
     ''concludi'', ''logico'']"

definition default_technical_keywords :: "string list" where
  "default_technical_keywords = [''architecture'', ''distributed'', ''scalable'', ''microservice'', ''machine learning'', ''neural network'',
     ''deep learning'', ''encryption'', ''authentication'', ''authorization'', ''performance'', ''latency'',
     ''throughput'', ''benchmark'', ''concurrency'', ''parallel'', ''threading'', ''memory'', ''cpu'', ''gpu'',
     ''optimization'', ''protocol'', ''tcp'', ''http'', ''grpc'', ''websocket'', ''container'', ''orchestration'',
     ''architettura'', ''distribuito'', ''scalabile'', ''microservizi'', ''apprendimento automatico'', ''rete neurale'',
     ''crittografia'', ''autenticazione'', ''autorizzazione'', ''prestazioni'', ''latenza'', ''concorrenza'',
     ''parallelo'', ''memoria'', ''ottimizzazione'', ''protocollo'']"

definition default_simple_keywords :: "string list" where
  "default_simple_keywords = [''what is'', ''what'' @ [CHR 0x27] @ ''s'', ''define'', ''definition of'', ''who is'', ''who was'', ''when did'',
     ''when was'', ''where is'', ''where was'', ''how many'', ''how much'', ''yes or no'', ''true or false'', ''simple'',
     ''brief'', ''short'', ''quick'', ''hello'', ''hi'', ''hey'', ''thanks'', ''thank you'', ''goodbye'', ''bye'',
     ''okay'', ''cos'' @ [CHR 0x27] @ [CHR 0xE8], ''che cos'' @ [CHR 0x27] @ [CHR 0xE8], ''cosa '' @ [CHR 0xE8],
     ''definisci'', ''definizione di'', ''chi '' @ [CHR 0xE8], ''chi era'', ''quando '' @ [CHR 0xE8],
     ''dov'' @ [CHR 0x27] @ [CHR 0xE8], ''dove si trova'', ''quanti'', ''quante'', ''quanto costa'',
     ''s'' @ [CHR 0xEC] @ '' o no'', ''vero o falso'', ''semplice'', ''breve'', ''corto'', ''veloce'', ''ciao'', ''salve'',
     ''grazie'', ''arrivederci'']"

text \<open>\<open>\w\<close> and \<open>\b\<close> of the regular expressions, on characters below 256.\<close>

definition is_word :: "char \<Rightarrow> bool" where
  "is_word c \<longleftrightarrow> (let n = of_char c :: nat in
     48 \<le> n \<and> n \<le> 57 \<or> 65 \<le> n \<and> n \<le> 90 \<or> n = 95 \<or> 97 \<le> n \<and> n \<le> 122 \<or> n = 170 \<or> n = 178 \<or> n = 179 \<or> n = 181 \<or>
     185 \<le> n \<and> n \<le> 190 \<and> n \<noteq> 187 \<or> 192 \<le> n \<and> n \<noteq> 215 \<and> n \<noteq> 247)"

definition starts_word :: "string \<Rightarrow> bool" where
  "starts_word s = (case s of [] \<Rightarrow> False | c # _ \<Rightarrow> is_word c)"

definition ends_word :: "bool \<Rightarrow> string \<Rightarrow> bool" where
  "ends_word prev s = (if s = [] then prev else is_word (last s))"

text \<open>\<open>re.search(r"\b" + re.escape(w) + r"\b", text)\<close>; \<open>prev\<close>: the character before is one of a word.\<close>

fun word_search :: "bool \<Rightarrow> string \<Rightarrow> string \<Rightarrow> bool" where
  "word_search prev w s \<longleftrightarrow> starts_with w s \<and> prev \<noteq> starts_word s \<and>
       ends_word prev w \<noteq> starts_word (drop (length w) s) \<or>
     (case s of [] \<Rightarrow> False | c # s' \<Rightarrow> word_search (is_word c) w s')"

declare word_search.simps [simp del]

definition keyword_matches :: "string \<Rightarrow> string \<Rightarrow> bool" where
  "keyword_matches text keyword = (let lowered = lower keyword in
     if CHR '' '' \<notin> set lowered then word_search False lowered text else occurs lowered text)"

fun matching :: "string \<Rightarrow> json list \<Rightarrow> exc + string list" where
  "matching text [] = Inr []"
| "matching text (JStr k # ks) = rbind (matching text ks) (\<lambda>ms. Inr (if keyword_matches text k then k # ms else ms))"
| "matching text (_ # ks) = raise_py AttributeError"

record dimension =
  dm_name :: string
  dm_score :: float_py
  dm_signal :: "string option"

definition score_keywords :: "string \<Rightarrow> json list \<Rightarrow> string \<Rightarrow> string \<Rightarrow> nat \<times> nat \<Rightarrow> float_py \<times> float_py \<times> float_py \<Rightarrow>
    exc + dimension \<times> nat" where
  "score_keywords text keywords name label thresholds scores = (case (thresholds, scores) of ((low, high), none, score_low, score_high) \<Rightarrow>
     rbind (matching text keywords) (\<lambda>matches. let
         signal = Some (label @ '' ('' @ join '', '' (take 3 matches) @ '')'');
         n = length matches
       in Inr (if high \<le> n then \<lparr>dm_name = name, dm_score = score_high, dm_signal = signal\<rparr>
           else if low \<le> n then \<lparr>dm_name = name, dm_score = score_low, dm_signal = signal\<rparr>
           else \<lparr>dm_name = name, dm_score = none, dm_signal = None\<rparr>, n)))"

text \<open>
  The five patterns of \<open>_MULTI_STEP_PATTERNS\<close> on a text in lower case: \<open>first.*?then\<close> and
  \<open>prima.*?poi\<close> within a line, \<open>step\s*\d\<close>, \<open>\d+\.\s\<close>, \<open>[a-z]\)\s\<close>.
\<close>

fun later_in_line :: "string \<Rightarrow> string \<Rightarrow> bool" where
  "later_in_line w s \<longleftrightarrow> starts_with w s \<or> (case s of [] \<Rightarrow> False | c # s' \<Rightarrow> (of_char c :: nat) \<noteq> 10 \<and> later_in_line w s')"

declare later_in_line.simps [simp del]

definition pattern_here :: "string \<Rightarrow> bool" where
  "pattern_here s \<longleftrightarrow>
     starts_with ''first'' s \<and> later_in_line ''then'' (drop 5 s) \<or>
     starts_with ''prima'' s \<and> later_in_line ''poi'' (drop 5 s) \<or>
     starts_with ''step'' s \<and> (case dropWhile is_space (drop 4 s) of [] \<Rightarrow> False | c # _ \<Rightarrow> is_digit c) \<or>
     (case s of a # b # c # _ \<Rightarrow> is_digit a \<and> b = CHR ''.'' \<and> is_space c \<or>
         97 \<le> (of_char a :: nat) \<and> (of_char a :: nat) \<le> 122 \<and> b = CHR '')'' \<and> is_space c | _ \<Rightarrow> False)"

fun multi_step :: "string \<Rightarrow> bool" where
  "multi_step [] = False"
| "multi_step (c # s) \<longleftrightarrow> pattern_here (c # s) \<or> multi_step s"

section \<open>Rule-based complexity: configuration\<close>

definition default_dimension_weights :: body where
  "default_dimension_weights = [(''tokenCount'', JFloat (rnd (1/10))), (''codePresence'', JFloat (rnd (3/10))),
     (''reasoningMarkers'', JFloat (1/4)), (''technicalTerms'', JFloat (1/4)), (''simpleIndicators'', JFloat (rnd (1/20))),
     (''multiStepPatterns'', JFloat (rnd (3/100))), (''questionComplexity'', JFloat (rnd (1/50)))]"

definition default_tier_boundaries :: body where
  "default_tier_boundaries = [(''simple_medium'', JFloat (rnd (3/20))), (''medium_complex'', JFloat (rnd (7/20))),
     (''complex_reasoning'', JFloat (rnd (3/5)))]"

definition default_token_thresholds :: body where
  "default_token_thresholds = [(''simple'', JInt 15), (''complex'', JInt 400)]"

record complexity =
  cx_weights :: body
  cx_boundaries :: body
  cx_thresholds :: body
  cx_code :: "json list"
  cx_reasoning :: "json list"
  cx_technical :: "json list"
  cx_simple :: "json list"
  cx_tiers :: body

text \<open>\<open>config or {}\<close>, on which \<open>.get\<close> is called; \<open>{**defaults, **config.get(k, {})}\<close>; \<open>tuple(config.get(k) or words)\<close>.\<close>

definition config_of :: "json \<Rightarrow> exc + body" where
  "config_of v = (case py_or v (JObj []) of JObj d \<Rightarrow> Inr d | _ \<Rightarrow> raise_py AttributeError)"

definition overlaid :: "body \<Rightarrow> body \<Rightarrow> string \<Rightarrow> exc + body" where
  "overlaid defaults config k = (case dget_or config k (JObj []) of JObj d \<Rightarrow> Inr (dict_merge defaults d) | _ \<Rightarrow> raise_py TypeError)"

definition word_list :: "body \<Rightarrow> string \<Rightarrow> string list \<Rightarrow> exc + json list" where
  "word_list config k words = (if truthy (dget config k) then iterate (dget config k) else Inr (map JStr words))"

text \<open>
  \<open>dict(v)\<close>: a dict, or pairs. Only names of tiers are looked up in it, so a pair whose key is no
  string can be left out once it is known to be hashable.
\<close>

fun pairs_dict :: "body \<Rightarrow> json list \<Rightarrow> exc + body" where
  "pairs_dict d [] = Inr d"
| "pairs_dict d (p # ps) = rbind (iterate p) (\<lambda>xs. case xs of
     [k, v] \<Rightarrow> (case k of JList _ \<Rightarrow> raise_py TypeError | JObj _ \<Rightarrow> raise_py TypeError
       | JStr s \<Rightarrow> pairs_dict (dict_put s v d) ps | _ \<Rightarrow> pairs_dict d ps)
   | _ \<Rightarrow> raise_py ValueError)"

definition dict_py :: "json \<Rightarrow> exc + body" where
  "dict_py v = (case v of JObj d \<Rightarrow> Inr d | _ \<Rightarrow> rbind (iterate v) (pairs_dict []))"

definition complexity_strategy :: "json \<Rightarrow> exc + complexity" where
  "complexity_strategy v =
    rbind (config_of v) (\<lambda>config.
    rbind (overlaid default_dimension_weights config ''dimension_weights'') (\<lambda>weights.
    rbind (overlaid default_tier_boundaries config ''tier_boundaries'') (\<lambda>boundaries.
    rbind (overlaid default_token_thresholds config ''token_thresholds'') (\<lambda>thresholds.
    rbind (word_list config ''code_keywords'' default_code_keywords) (\<lambda>code.
    rbind (word_list config ''reasoning_keywords'' default_reasoning_keywords) (\<lambda>reasoning.
    rbind (word_list config ''technical_keywords'' default_technical_keywords) (\<lambda>technical.
    rbind (word_list config ''simple_keywords'' default_simple_keywords) (\<lambda>simple.
    rbind (dict_py (dget_or config ''tiers'' (JObj []))) (\<lambda>tiers.
    Inr \<lparr>cx_weights = weights, cx_boundaries = boundaries, cx_thresholds = thresholds, cx_code = code, cx_reasoning = reasoning,
      cx_technical = technical, cx_simple = simple, cx_tiers = tiers\<rparr>)))))))))"

section \<open>Rule-based complexity: classification\<close>

text \<open>A JSON number as the rational it is, for comparisons, which are exact, and as a float.\<close>

definition number_of :: "json \<Rightarrow> exc + rat" where
  "number_of v = (case v of JInt i \<Rightarrow> Inr (of_int i) | JBool b \<Rightarrow> Inr (if b then 1 else 0) | JFloat q \<Rightarrow> Inr q | _ \<Rightarrow> raise_py TypeError)"

definition weighted_score :: "body \<Rightarrow> dimension \<Rightarrow> exc + float_py" where
  "weighted_score weights d = rbind (number_of (dget_or weights (dm_name d) (JInt 0))) (\<lambda>w. Inr (fmul (dm_score d) (rnd w)))"

definition token_dimension :: "body \<Rightarrow> int \<Rightarrow> exc + dimension" where
  "token_dimension thresholds tokens =
    rbind (number_of (dget thresholds ''simple'')) (\<lambda>low.
    if of_int tokens < low then Inr \<lparr>dm_name = ''tokenCount'', dm_score = -1, dm_signal = Some (''short ('' @ int_str tokens @ '' tokens)'')\<rparr>
    else rbind (number_of (dget thresholds ''complex'')) (\<lambda>high.
      Inr (if high < of_int tokens then \<lparr>dm_name = ''tokenCount'', dm_score = 1, dm_signal = Some (''long ('' @ int_str tokens @ '' tokens)'')\<rparr>
        else \<lparr>dm_name = ''tokenCount'', dm_score = 0, dm_signal = None\<rparr>)))"

definition question_dimension :: "string \<Rightarrow> dimension" where
  "question_dimension prompt = (let n = count_list prompt (CHR ''?'') in
     if 3 < n then \<lparr>dm_name = ''questionComplexity'', dm_score = 1/2, dm_signal = Some (int_str (int n) @ '' questions'')\<rparr>
     else \<lparr>dm_name = ''questionComplexity'', dm_score = 0, dm_signal = None\<rparr>)"

definition multi_step_dimension :: "string \<Rightarrow> dimension" where
  "multi_step_dimension text' = (if multi_step text'
     then \<lparr>dm_name = ''multiStepPatterns'', dm_score = 1/2, dm_signal = Some ''multi-step''\<rparr>
     else \<lparr>dm_name = ''multiStepPatterns'', dm_score = 0, dm_signal = None\<rparr>)"

definition tier_for :: "body \<Rightarrow> float_py \<Rightarrow> exc + quality_tier" where
  "tier_for boundaries score =
    rbind (number_of (dget boundaries ''simple_medium'')) (\<lambda>a. if score < a then Inr SIMPLE else
    rbind (number_of (dget boundaries ''medium_complex'')) (\<lambda>b. if score < b then Inr MEDIUM else
    rbind (number_of (dget boundaries ''complex_reasoning'')) (\<lambda>c. Inr (if score < c then COMPLEX else REASONING))))"

definition dimensions_of :: "complexity \<Rightarrow> string \<Rightarrow> string option \<Rightarrow> exc + dimension list \<times> nat" where
  "dimensions_of cx prompt system = (let
      full_text = lower ((case system of None \<Rightarrow> [] | Some s \<Rightarrow> s) @ '' '' @ prompt);
      user = lower prompt
    in rbind (token_dimension (cx_thresholds cx) (estimate_tokens prompt)) (\<lambda>tokens.
       rbind (score_keywords full_text (cx_code cx) ''codePresence'' ''code'' (1, 2) (0, 1/2, 1)) (\<lambda>(code, _).
       rbind (score_keywords user (cx_reasoning cx) ''reasoningMarkers'' ''reasoning'' (1, 2) (0, rnd (7/10), 1)) (\<lambda>(reasoning, markers).
       rbind (score_keywords full_text (cx_technical cx) ''technicalTerms'' ''technical'' (2, 4) (0, 1/2, 1)) (\<lambda>(technical, _).
       rbind (score_keywords full_text (cx_simple cx) ''simpleIndicators'' ''simple'' (1, 2) (0, -1, -1)) (\<lambda>(simple, _).
       Inr ([tokens, code, reasoning, technical, simple, multi_step_dimension full_text, question_dimension prompt], markers)))))))"

definition classify :: "complexity \<Rightarrow> string \<Rightarrow> string option \<Rightarrow> exc + quality_tier \<times> float_py \<times> string list" where
  "classify cx prompt system =
    rbind (dimensions_of cx prompt system) (\<lambda>(dimensions, markers). let signals = List.map_filter dm_signal dimensions in
    rbind (rmap (weighted_score (cx_weights cx)) dimensions) (\<lambda>terms. let score = fsum terms in
    if 2 \<le> markers then Inr (REASONING, score, signals)
    else rbind (tier_for (cx_boundaries cx) score) (\<lambda>tier. Inr (tier, score, signals))))"

fun tier_value :: "quality_tier \<Rightarrow> string" where
  "tier_value SIMPLE = ''SIMPLE''" | "tier_value MEDIUM = ''MEDIUM''" | "tier_value COMPLEX = ''COMPLEX''" | "tier_value REASONING = ''REASONING''"

definition complexity_select :: "complexity \<Rightarrow> routing_context \<Rightarrow> candidate list \<Rightarrow> exc + routing_decision" where
  "complexity_select cx ctx candidates =
    rbind (classify cx (user_text ctx) (system_prompt ctx)) (\<lambda>(tier, score, signals).
    let override = dget (cx_tiers cx) (tier_value tier);
        decided = (\<lambda>name signals. Inr \<lparr>chosen_name = name, chosen_strategy = ''complexity'', chosen_tier = Some tier,
          chosen_score = Some score, chosen_signals = signals, chosen_id = None\<rparr>)
    in case find (\<lambda>c. JStr (model_name c) = override \<and> truthy override) candidates of
         Some c \<Rightarrow> decided (model_name c) signals
       | None \<Rightarrow> (case nearest_tier_candidate tier candidates of
           None \<Rightarrow> raise_py ValueError
         | Some c \<Rightarrow> decided (model_name c) (if quality_tier c \<noteq> tier
             then signals @ [''tier '' @ tier_value tier @ '' unserved; nearest '' @ tier_value (quality_tier c)] else signals)))"

section \<open>Strategies that ask\<close>

text \<open>A strategy as the router runs it: \<open>'s\<close> is what asking may change.\<close>

type_synonym 's selector = "routing_context \<Rightarrow> candidate list \<Rightarrow> 's \<Rightarrow> (exc + routing_decision) \<times> 's"

definition plain_decision :: "string \<Rightarrow> string \<Rightarrow> string list \<Rightarrow> routing_decision" where
  "plain_decision name strategy signals = \<lparr>chosen_name = name, chosen_strategy = strategy, chosen_tier = None, chosen_score = None,
     chosen_signals = signals, chosen_id = None\<rparr>"

section \<open>Hybrid\<close>

record hybrid =
  hy_escalation_name :: string
  hy_escalation_config :: json
  hy_margin :: float_py
  hy_rule_based :: complexity
  hy_boundaries :: body

definition default_margin :: float_py where
  "default_margin = rnd (2/25)"

definition hybrid_strategy :: "json \<Rightarrow> exc + hybrid" where
  "hybrid_strategy v =
    rbind (config_of v) (\<lambda>config. case dget config ''escalation_strategy'' of
      JStr name \<Rightarrow> if name \<notin> {''judge'', ''webhook''} then raise_py ValueError else
        (case number_of (dget_or config ''margin'' (JFloat default_margin)) of
          Inl _ \<Rightarrow> raise_py ValueError
        | Inr margin \<Rightarrow> if margin \<le> 0 then raise_py ValueError else
            rbind (complexity_strategy (JObj config)) (\<lambda>cx.
            rbind (overlaid default_tier_boundaries config ''tier_boundaries'') (\<lambda>boundaries.
            Inr \<lparr>hy_escalation_name = name, hy_escalation_config = dget_or config ''escalation'' (JObj []), hy_margin = rnd margin,
              hy_rule_based = cx, hy_boundaries = boundaries\<rparr>)))
    | _ \<Rightarrow> raise_py ValueError)"

text \<open>\<open>any(abs(score - b) <= margin for b in boundaries.values())\<close>, which stops at the first that is.\<close>

fun is_uncertain :: "float_py \<Rightarrow> float_py \<Rightarrow> json list \<Rightarrow> exc + bool" where
  "is_uncertain margin score [] = Inr False"
| "is_uncertain margin score (b # bs) = rbind (number_of b) (\<lambda>x.
     if \<bar>fsub score (rnd x)\<bar> \<le> margin then Inr True else is_uncertain margin score bs)"

definition hybrid_select :: "hybrid \<Rightarrow> 's selector option \<Rightarrow> 's selector" where
  "hybrid_select hy escalation ctx candidates s = (case complexity_select (hy_rule_based hy) ctx candidates of
     Inl e \<Rightarrow> (Inl e, s)
   | Inr d \<Rightarrow> (let score = (case chosen_score d of Some x \<Rightarrow> x | None \<Rightarrow> 0);
         final = (\<lambda>name signals. Inr \<lparr>chosen_name = name, chosen_strategy = ''hybrid'', chosen_tier = chosen_tier d,
           chosen_score = chosen_score d, chosen_signals = chosen_signals d @ signals, chosen_id = None\<rparr>)
       in case is_uncertain (hy_margin hy) score (map snd (hy_boundaries hy)) of
            Inl e \<Rightarrow> (Inl e, s)
          | Inr False \<Rightarrow> (final (chosen_name d) [''gray-zone: no''], s)
          | Inr True \<Rightarrow> (case escalation of
              None \<Rightarrow> (raise_py ValueError, s)
            | Some escalate \<Rightarrow> (case escalate ctx candidates s of
                (Inl e, s') \<Rightarrow> (Inl e, s')
              | (Inr e, s') \<Rightarrow> (final (chosen_name e) ((''gray-zone: escalated to '' @ hy_escalation_name hy) # chosen_signals e), s')))))"

section \<open>A judge model\<close>

record routing_judge =
  rj_model :: string
  rj_char_budget :: int

definition nonempty_str :: "json \<Rightarrow> exc + string" where
  "nonempty_str v = (case v of JStr s \<Rightarrow> if s \<noteq> [] then Inr s else raise_py ValueError | _ \<Rightarrow> raise_py ValueError)"

definition judge_strategy :: "json \<Rightarrow> exc + routing_judge" where
  "judge_strategy v =
    rbind (config_of v) (\<lambda>config.
    rbind (nonempty_str (dget config ''judge_model'')) (\<lambda>model.
    rbind (py_int (dget_or config ''char_budget'' (JInt 4000))) (\<lambda>budget.
    Inr \<lparr>rj_model = model, rj_char_budget = budget\<rparr>)))"

definition judge_prompt_v1 :: string where
  "judge_prompt_v1 = ''You route user requests to the most appropriate model. Pick the CHEAPEST candidate that can still answer well: prefer lower '' @
     ''tiers (SIMPLE < MEDIUM < COMPLEX < REASONING) unless the task clearly needs more. Answer with the required JSON only.''"

definition judge_request :: "routing_judge \<Rightarrow> routing_context \<Rightarrow> candidate list \<Rightarrow> body" where
  "judge_request j ctx candidates = (let
      described = map (\<lambda>c. ''- '' @ model_name c @ '' ['' @ tier_value (quality_tier c) @ '']: '' @ description c) candidates;
      user = ''Candidates:'' @ newline @ join newline described @ newline @ newline @ ''User request (may be truncated):'' @ newline @
        slice_to (rj_char_budget j) (user_text ctx)
    in [(''model'', JStr (rj_model j)),
      (''messages'', JList [JObj [(''role'', JStr ''system''), (''content'', JStr judge_prompt_v1)],
        JObj [(''role'', JStr ''user''), (''content'', JStr user)]]),
      (''response_format'', JObj [(''type'', JStr ''json_schema''), (''json_schema'', JObj [(''name'', JStr ''routing_choice''), (''strict'', JBool True),
        (''schema'', JObj [(''type'', JStr ''object''),
          (''properties'', JObj [(''choice'', JObj [(''type'', JStr ''string''), (''enum'', JList (map (\<lambda>c. JStr (model_name c)) candidates))])]),
          (''required'', JList [JStr ''choice'']), (''additionalProperties'', JBool False)])])])])"

text \<open>\<open>json.loads(content)["choice"]\<close>, looked up in a set of names, for which it must be hashable.\<close>

definition named_in :: "string list \<Rightarrow> json \<Rightarrow> exc + string" where
  "named_in names picked = (case picked of
     JStr name \<Rightarrow> if name \<in> set names then Inr name else raise_py ValueError
   | JList _ \<Rightarrow> raise_py TypeError | JObj _ \<Rightarrow> raise_py TypeError | _ \<Rightarrow> raise_py ValueError)"

definition loads_py :: "json \<Rightarrow> exc + json" where
  "loads_py content = (case content of
     JStr s \<Rightarrow> (case loads s of None \<Rightarrow> raise_py ValueError | Some v \<Rightarrow> Inr v) | _ \<Rightarrow> raise_py TypeError)"

definition judge_choice :: "body \<Rightarrow> candidate list \<Rightarrow> exc + string" where
  "judge_choice response candidates =
    rbind (item_of (JObj response) ''choices'') (\<lambda>choices.
    rbind (first_of choices) (\<lambda>choice.
    rbind (item_of choice ''message'') (\<lambda>message.
    rbind (item_of message ''content'') (\<lambda>content.
    rbind (loads_py content) (\<lambda>answer.
    rbind (item_of answer ''choice'') (named_in (map model_name candidates)))))))"

definition judge_select :: "routing_judge \<Rightarrow> (string \<Rightarrow> body \<Rightarrow> 's \<Rightarrow> (exc + body) \<times> 's) option \<Rightarrow> 's selector" where
  "judge_select j ask_judge ctx candidates s = (case ask_judge of
     None \<Rightarrow> (raise_py ValueError, s)
   | Some ask \<Rightarrow> (case ask (rj_model j) (judge_request j ctx candidates) s of
       (Inl e, s') \<Rightarrow> (Inl e, s')
     | (Inr response, s') \<Rightarrow> (rbind (judge_choice response candidates) (\<lambda>name.
         Inr (plain_decision name ''judge'' [''judge '' @ rj_model j @ '' chose '' @ name])), s')))"

section \<open>A webhook\<close>

text \<open>
  What the URL libraries say of an address, the HMAC and the clock a request is signed with, and the
  delivery: \<open>wp_post url headers body\<close> resolves the host, refuses blocked addresses, posts and decodes
  the answer, or raises.
\<close>

record webhook_ports =
  wp_hostname :: "string \<Rightarrow> exc + string option"
  wp_literal_blocked :: "string \<Rightarrow> bool"
  wp_netloc :: "string \<Rightarrow> exc + string"
  wp_encode :: "body \<Rightarrow> string"
  wp_mac :: "string \<Rightarrow> string \<Rightarrow> string"
  wp_time :: int
  wp_post :: "string \<Rightarrow> (string, string) dict \<Rightarrow> string \<Rightarrow> exc + json"

record webhook =
  wh_url :: string
  wh_host_header :: string
  wh_bearer_token :: json
  wh_signing_secret :: json
  wh_timeout_seconds :: float_py

definition webhook_strategy :: "webhook_ports \<Rightarrow> json \<Rightarrow> exc + webhook" where
  "webhook_strategy W v =
    rbind (config_of v) (\<lambda>config. case dget config ''url'' of
      JStr url \<Rightarrow> if \<not> starts_with ''https://'' url then raise_py ValueError else
        rbind (wp_hostname W url) (\<lambda>hostname. case hostname of
          None \<Rightarrow> raise_py ValueError
        | Some host \<Rightarrow> if host = [] then raise_py ValueError
            else if wp_literal_blocked W host then raise_py ValueError
            else rbind (wp_netloc W url) (\<lambda>netloc.
              rbind (number_of (dget_or config ''timeout_ms'' (JInt 2000))) (\<lambda>ms.
              Inr \<lparr>wh_url = url, wh_host_header = netloc, wh_bearer_token = dget config ''bearer_token'',
                wh_signing_secret = dget config ''signing_secret'', wh_timeout_seconds = fdiv ms 1000\<rparr>)))
    | _ \<Rightarrow> raise_py ValueError)"

definition webhook_payload :: "string \<Rightarrow> routing_context \<Rightarrow> candidate list \<Rightarrow> body" where
  "webhook_payload event_id ctx candidates = [(''event_id'', JStr event_id), (''task'', JStr (user_text ctx)),
     (''system_prompt'', case system_prompt ctx of None \<Rightarrow> JNull | Some s \<Rightarrow> JStr s),
     (''models'', JList (map (\<lambda>c. JStr (model_name c)) candidates)),
     (''metadata'', JObj [(''estimated_tokens'', JInt (estimated_input_tokens ctx))])]"

text \<open>\<open>_parse_choice\<close>: an index from 1, or a name; \<open>bool\<close> is not an index.\<close>

definition parse_choice :: "json \<Rightarrow> string list \<Rightarrow> exc + string" where
  "parse_choice v names = (case v of
     JObj d \<Rightarrow> (case map_of d ''choice'' of
         Some (JInt i) \<Rightarrow> if 1 \<le> i \<and> i \<le> int (length names) then Inr (names ! nat (i - 1)) else raise_py ValueError
       | Some (JStr name) \<Rightarrow> if name \<in> set names then Inr name else raise_py ValueError
       | _ \<Rightarrow> raise_py ValueError)
   | _ \<Rightarrow> raise_py ValueError)"

definition signature_headers :: "webhook_ports \<Rightarrow> webhook \<Rightarrow> string \<Rightarrow> string \<Rightarrow> exc + (string, string) dict" where
  "signature_headers W wh message event_id = (if \<not> truthy (wh_signing_secret wh) then Inr []
     else case wh_signing_secret wh of
       JStr secret \<Rightarrow> Inr (sp_headers (sign_body (wp_mac W) message secret (wp_time W) event_id))
     | _ \<Rightarrow> raise_py AttributeError)"

definition webhook_select :: "webhook_ports \<Rightarrow> webhook \<Rightarrow> string \<Rightarrow> 's selector" where
  "webhook_select W wh event_id ctx candidates s = (let
      message = wp_encode W (webhook_payload event_id ctx candidates);
      auth = (if truthy (wh_bearer_token wh) then [(''Authorization'', ''Bearer '' @ py_str (wh_bearer_token wh))] else [])
    in case signature_headers W wh message event_id of
         Inl e \<Rightarrow> (Inl e, s)
       | Inr signed \<Rightarrow> (rbind (wp_post W (wh_url wh) (dict_merge (dict_merge auth signed)
             [(''Host'', wh_host_header wh), (''Content-Type'', ''application/json'')]) message) (\<lambda>answer.
           rbind (parse_choice answer (map model_name candidates)) (\<lambda>name.
           Inr (plain_decision name ''webhook'' [''webhook chose '' @ name]))), s))"

section \<open>Embeddings\<close>

text \<open>
  \<open>math.sqrt\<close>, correctly rounded: the integer root of the argument scaled to at least 120 bits, with
  a half added when it is not exact, lies on the same side of every rounding boundary as the root.
\<close>

function isqrt :: "int \<Rightarrow> int" where
  "isqrt n = (if n \<le> 0 then 0 else let r = 2 * isqrt (n div 4) in if (r + 1) * (r + 1) \<le> n then r + 1 else r)"
  by pat_completeness auto
termination
  by (relation "measure nat") auto

declare isqrt.simps [simp del]

definition fsqrt :: "float_py \<Rightarrow> float_py" where
  "fsqrt x = (if x \<le> 0 then 0 else let
      s = 60 - fl_exp x div 2; scaled = x * 2 powi (2 * s); r = isqrt \<lfloor>scaled\<rfloor>
    in rnd ((if of_int (r * r) = scaled then of_int r else of_int r + 1/2) / 2 powi s))"

text \<open>\<open>zip(a, b, strict=True)\<close>, multiplied; an int in a vector is read as a float.\<close>

fun products :: "json list \<Rightarrow> json list \<Rightarrow> exc + float_py list" where
  "products [] [] = Inr []"
| "products (x # xs) (y # ys) = rbind (number_of x) (\<lambda>a. rbind (number_of y) (\<lambda>b.
     rbind (products xs ys) (\<lambda>ps. Inr (fmul (rnd a) (rnd b) # ps))))"
| "products _ _ = raise_py ValueError"

definition cosine :: "json \<Rightarrow> json \<Rightarrow> exc + float_py" where
  "cosine a b =
    rbind (iterate a) (\<lambda>xs. rbind (iterate b) (\<lambda>ys.
    rbind (products xs ys) (\<lambda>dots. rbind (products xs xs) (\<lambda>lefts. rbind (products ys ys) (\<lambda>rights.
    let norm = fmul (fsqrt (fsum lefts)) (fsqrt (fsum rights)) in Inr (if norm = 0 then 0 else fdiv (fsum dots) norm))))))"

record semantic_route =
  sr_name :: string
  sr_target_model :: string
  sr_utterances :: "string list"
  sr_threshold :: float_py

definition nonempty_list :: "json \<Rightarrow> exc + json list" where
  "nonempty_list v = (case v of JList xs \<Rightarrow> if xs = [] then raise_py ValueError else Inr xs | _ \<Rightarrow> raise_py ValueError)"

definition threshold_of :: "json \<Rightarrow> exc + float_py" where
  "threshold_of v = (case number_of v of Inl _ \<Rightarrow> raise_py ValueError | Inr t \<Rightarrow> if 0 < t \<and> t \<le> 1 then Inr (rnd t) else raise_py ValueError)"

definition parse_route :: "json \<Rightarrow> exc + semantic_route" where
  "parse_route v = (case v of
     JObj item \<Rightarrow>
       rbind (nonempty_str (dget item ''name'')) (\<lambda>name.
       rbind (nonempty_str (dget item ''target_model'')) (\<lambda>target.
       rbind (rbind (nonempty_list (dget item ''utterances'')) (rmap nonempty_str)) (\<lambda>utterances.
       rbind (threshold_of (dget_or item ''threshold'' (JFloat (rnd (4/5))))) (\<lambda>t.
       Inr \<lparr>sr_name = name, sr_target_model = target, sr_utterances = utterances, sr_threshold = t\<rparr>))))
   | _ \<Rightarrow> raise_py ValueError)"

record semantic_routes =
  em_model :: string
  em_routes :: "semantic_route list"

definition embeddings_strategy :: "json \<Rightarrow> exc + semantic_routes" where
  "embeddings_strategy v =
    rbind (config_of v) (\<lambda>config.
    rbind (nonempty_str (dget config ''embedding_model'')) (\<lambda>model.
    rbind (rbind (nonempty_list (dget config ''routes'')) (rmap parse_route)) (\<lambda>routes.
    Inr \<lparr>em_model = model, em_routes = routes\<rparr>)))"

text \<open>
  \<open>_ROUTE_CACHE\<close>, oldest first. Its key is the hash of the model and the routes, which are kept
  here themselves; a route's vectors are what the embedding model answered for its utterances.
\<close>

type_synonym route_vectors = "(semantic_route \<times> json list) list"
type_synonym route_cache = "(semantic_routes, route_vectors) dict"
type_synonym 'w embed = "string \<Rightarrow> string list \<Rightarrow> 'w \<Rightarrow> (exc + json list) \<times> 'w"

definition max_cache_entries :: nat where
  "max_cache_entries = 32"

fun embed_routes :: "'w embed \<Rightarrow> string \<Rightarrow> semantic_route list \<Rightarrow> 'w \<Rightarrow> (exc + route_vectors) \<times> 'w" where
  "embed_routes ask model [] w = (Inr [], w)"
| "embed_routes ask model (r # rs) w = (case ask model (sr_utterances r) w of
     (Inl e, w1) \<Rightarrow> (Inl e, w1)
   | (Inr vectors, w1) \<Rightarrow> (case embed_routes ask model rs w1 of
       (Inl e, w2) \<Rightarrow> (Inl e, w2) | (Inr entries, w2) \<Rightarrow> (Inr ((r, vectors) # entries), w2)))"

definition vectors_of :: "semantic_routes \<Rightarrow> 'w embed \<Rightarrow> route_cache \<times> 'w \<Rightarrow> (exc + route_vectors) \<times> route_cache \<times> 'w" where
  "vectors_of em ask s = (case s of (cache, w) \<Rightarrow> (case map_of cache em of
     Some entries \<Rightarrow> (Inr entries, dict_del em cache @ [(em, entries)], w)
   | None \<Rightarrow> (case embed_routes ask (em_model em) (em_routes em) w of
       (Inl e, w1) \<Rightarrow> (Inl e, cache, w1)
     | (Inr entries, w1) \<Rightarrow> (let filled = cache @ [(em, entries)] in
         (Inr entries, drop (length filled - max_cache_entries) filled, w1)))))"

definition best_cosine :: "json \<Rightarrow> json list \<Rightarrow> exc + float_py" where
  "best_cosine query vectors = rbind (rmap (cosine query) vectors) (\<lambda>scores.
     Inr (case scores of [] \<Rightarrow> -1 | x # xs \<Rightarrow> foldl max x xs))"

fun pick_route :: "json \<Rightarrow> string list \<Rightarrow> route_vectors \<Rightarrow> (semantic_route \<times> float_py) option \<Rightarrow> exc + (semantic_route \<times> float_py) option" where
  "pick_route query names [] best = Inr best"
| "pick_route query names ((r, vectors) # rest) best = rbind (best_cosine query vectors) (\<lambda>score.
     pick_route query names rest (if sr_threshold r \<le> score \<and> (case best of None \<Rightarrow> -1 | Some b \<Rightarrow> snd b) < score \<and> sr_target_model r \<in> set names
       then Some (r, score) else best))"

text \<open>\<open>f"{x:.3f}"\<close> of a score that is not negative.\<close>

definition three_digits :: "float_py \<Rightarrow> string" where
  "three_digits x = (let n = round_half_even (x * 1000) in
     int_str (n div 1000) @ ''.'' @ int_str (n div 100 mod 10) @ int_str (n div 10 mod 10) @ int_str (n mod 10))"

definition route_decision :: "string option \<Rightarrow> string list \<Rightarrow> (semantic_route \<times> float_py) option \<Rightarrow> exc + routing_decision" where
  "route_decision dflt names best = (case best of
     Some (r, score) \<Rightarrow> Inr ((plain_decision (sr_target_model r) ''embeddings''
       [''route '' @ [CHR 0x27] @ sr_name r @ [CHR 0x27] @ '' ('' @ three_digits score @ '')''])\<lparr>chosen_score := Some score\<rparr>)
   | None \<Rightarrow> (case dflt of
       Some name \<Rightarrow> if name \<in> set names then Inr (plain_decision name ''embeddings'' [''below all route thresholds'']) else raise_py ValueError
     | None \<Rightarrow> raise_py ValueError))"

definition embeddings_select :: "semantic_routes \<Rightarrow> 'w embed option \<Rightarrow> (route_cache \<times> 'w) selector" where
  "embeddings_select em embedder ctx candidates s = (case embedder of
     None \<Rightarrow> (raise_py ValueError, s)
   | Some ask \<Rightarrow> (case ask (em_model em) [user_text ctx] (snd s) of
       (Inl e, w1) \<Rightarrow> (Inl e, fst s, w1)
     | (Inr [query], w1) \<Rightarrow> (case vectors_of em ask (fst s, w1) of
         (Inl e, s2) \<Rightarrow> (Inl e, s2)
       | (Inr entries, s2) \<Rightarrow> (rbind (pick_route query (map model_name candidates) entries None)
           (route_decision (ctx_default_model ctx) (map model_name candidates)), s2))
     | (Inr _, w1) \<Rightarrow> (raise_py ValueError, fst s, w1)))"

section \<open>Whole words\<close>

lemma starts_with_iff: "starts_with p s \<longleftrightarrow> (\<exists>t. s = p @ t)"
  by (metis append_eq_conv_conj append_take_drop_id starts_with_def)

lemma word_search_at: "word_search prev w s \<longleftrightarrow>
    (\<exists>u v. s = u @ w @ v \<and> ends_word prev u \<noteq> starts_word (w @ v) \<and> ends_word prev (u @ w) \<noteq> starts_word v)" (is "_ \<longleftrightarrow> ?R prev w s")
proof (induction prev w s rule: word_search.induct)
  case (1 prev w s)
  define here where "here \<longleftrightarrow> (\<exists>v. s = w @ v \<and> prev \<noteq> starts_word (w @ v) \<and> ends_word prev w \<noteq> starts_word v)"
  have step: "word_search prev w s \<longleftrightarrow> here \<or> (case s of [] \<Rightarrow> False | c # s' \<Rightarrow> word_search (is_word c) w s')"
    by (subst word_search.simps) (auto simp: starts_with_iff here_def)
  have first: "here \<longleftrightarrow> (\<exists>v. s = [] @ w @ v \<and> ends_word prev [] \<noteq> starts_word (w @ v) \<and> ends_word prev ([] @ w) \<noteq> starts_word v)"
    by (simp add: here_def ends_word_def)
  show ?case
  proof (cases s)
    case Nil
    then have "?R prev w s \<longleftrightarrow> here" unfolding first by auto
    with step Nil show ?thesis by simp
  next
    case (Cons c s')
    have edge: "ends_word prev (c # u) = ends_word (is_word c) u" for u by (simp add: ends_word_def)
    have "?R prev w s \<longleftrightarrow> here \<or> ?R (is_word c) w s'"
    proof
      assume "?R prev w s"
      then obtain u v where r: "s = u @ w @ v" "ends_word prev u \<noteq> starts_word (w @ v)" "ends_word prev (u @ w) \<noteq> starts_word v" by blast
      show "here \<or> ?R (is_word c) w s'"
      proof (cases u)
        case Nil
        with r first show ?thesis by auto
      next
        case u: (Cons d u')
        with r Cons have "s' = u' @ w @ v" "ends_word (is_word c) u' \<noteq> starts_word (w @ v)" "ends_word (is_word c) (u' @ w) \<noteq> starts_word v"
          using edge [of u'] edge [of "u' @ w"] by auto
        then show ?thesis by blast
      qed
    next
      assume "here \<or> ?R (is_word c) w s'"
      then show "?R prev w s"
      proof
        assume here
        then show ?thesis using first by blast
      next
        assume "?R (is_word c) w s'"
        then obtain u v where "s' = u @ w @ v" "ends_word (is_word c) u \<noteq> starts_word (w @ v)" "ends_word (is_word c) (u @ w) \<noteq> starts_word v" by blast
        with Cons edge [of u] edge [of "u @ w"] show ?thesis by (intro exI [of _ "c # u"] exI [of _ v]) simp
      qed
    qed
    then show ?thesis using step 1 Cons by simp
  qed
qed

lemma occurs_iff: "occurs p s \<longleftrightarrow> (\<exists>u v. s = u @ p @ v)"
proof (induction s)
  case Nil
  then show ?case by auto
next
  case (Cons c s)
  have "(\<exists>u v. c # s = u @ p @ v) \<longleftrightarrow> (\<exists>v. c # s = p @ v) \<or> (\<exists>u v. s = u @ p @ v)"
    by (metis append_Cons append_Nil list.sel(3) tl_append2 self_append_conv2)
  with Cons show ?case by (simp add: starts_with_iff)
qed

text \<open>
  A single word matches where it stands alone, with a word boundary on both sides; a phrase matches
  wherever it occurs.
\<close>

theorem keyword_whole_words:
  "keyword_matches text' keyword \<longleftrightarrow> (\<exists>u v. text' = u @ lower keyword @ v \<and>
     (CHR '' '' \<notin> set (lower keyword) \<longrightarrow> ends_word False u \<noteq> starts_word (lower keyword @ v) \<and>
      ends_word False (u @ lower keyword) \<noteq> starts_word v))"
proof (cases "CHR '' '' \<in> set (lower keyword)")
  case True
  then show ?thesis by (simp add: keyword_matches_def Let_def occurs_iff)
next
  case False
  then show ?thesis by (simp add: keyword_matches_def Let_def word_search_at)
qed

section \<open>A decision names a candidate\<close>

lemma complexity_chooses:
  assumes "complexity_select cx ctx candidates = Inr d"
  shows "chosen_name d \<in> set (map model_name candidates)" "chosen_score d \<noteq> None"
proof -
  have near: "c \<in> set candidates" if "nearest_tier_candidate tier candidates = Some c" for tier c
    using that find_Some_props [of "\<lambda>d. quality_tier d = quality_tier c" candidates c] by (simp add: nearest_tier_SomeD)
  obtain tier score signals where c: "classify cx (user_text ctx) (system_prompt ctx) = Inr (tier, score, signals)"
    using assms by (auto simp: complexity_select_def)
  define found where "found = find (\<lambda>c. JStr (model_name c) = dget (cx_tiers cx) (tier_value tier) \<and> truthy (dget (cx_tiers cx) (tier_value tier))) candidates"
  note eq = assms [unfolded complexity_select_def c rbind_simps prod.case Let_def, folded found_def]
  have "chosen_name d \<in> set (map model_name candidates) \<and> chosen_score d \<noteq> None"
  proof (cases found)
    case None
    then obtain n where "nearest_tier_candidate tier candidates = Some n" using eq by (cases "nearest_tier_candidate tier candidates") auto
    with eq None near show ?thesis by auto
  next
    case (Some m)
    then have "m \<in> set candidates" using find_Some_props [of _ candidates m] by (simp add: found_def)
    with eq Some show ?thesis by auto
  qed
  then show "chosen_name d \<in> set (map model_name candidates)" "chosen_score d \<noteq> None" by blast+
qed

lemma named_in: "named_in names picked = Inr name \<Longrightarrow> name \<in> set names"
  by (cases picked) (auto simp: named_in_def split: if_split_asm)

lemma judge_chooses: "judge_choice response candidates = Inr name \<Longrightarrow> name \<in> set (map model_name candidates)"
  unfolding judge_choice_def by (auto simp del: set_map dest!: named_in)

lemma judge_select_chooses:
  "judge_select j ask ctx candidates s = (Inr d, s') \<Longrightarrow> chosen_name d \<in> set (map model_name candidates)"
  by (auto simp: judge_select_def plain_decision_def split: option.split_asm prod.split_asm sum.split_asm dest!: judge_chooses)

lemma webhook_chooses: "parse_choice v names = Inr name \<Longrightarrow> name \<in> set names"
  by (auto simp: parse_choice_def split: json.split_asm option.split_asm if_split_asm)

lemma webhook_select_chooses:
  "webhook_select W wh i ctx candidates s = (Inr d, s') \<Longrightarrow> chosen_name d \<in> set (map model_name candidates)"
  by (auto simp: webhook_select_def plain_decision_def Let_def split: prod.split_asm sum.split_asm dest!: webhook_chooses)

lemma pick_route_member:
  "pick_route query names entries best = Inr (Some (r, x)) \<Longrightarrow> best = Some (r, x) \<or> sr_target_model r \<in> set names"
proof (induction query names entries best rule: pick_route.induct)
  case (2 query names r' vectors rest best)
  then show ?case by (cases "best_cosine query vectors") (fastforce split: if_split_asm)+
qed simp

lemma embeddings_select_chooses:
  assumes "embeddings_select em ask ctx candidates s = (Inr d, s')"
  shows "chosen_name d \<in> set (map model_name candidates)"
proof -
  from assms obtain query entries best where p: "pick_route query (map model_name candidates) entries None = Inr best"
    and d: "route_decision (ctx_default_model ctx) (map model_name candidates) best = Inr d"
    unfolding embeddings_select_def by (auto simp del: set_map split: option.split_asm prod.split_asm sum.split_asm list.split_asm)
  show ?thesis
  proof (cases best)
    case None
    with d show ?thesis by (auto simp: route_decision_def plain_decision_def split: option.split_asm if_split_asm)
  next
    case (Some rx)
    with p pick_route_member [of query "map model_name candidates" entries None "fst rx" "snd rx"] have "sr_target_model (fst rx) \<in> set (map model_name candidates)"
      by (cases rx) auto
    with d Some show ?thesis by (cases rx) (auto simp: route_decision_def plain_decision_def)
  qed
qed

lemma hybrid_select_chooses:
  assumes "hybrid_select hy escalation ctx candidates s = (Inr d, s')"
    and "\<And>escalate e s'. escalation = Some escalate \<Longrightarrow> escalate ctx candidates s = (Inr e, s') \<Longrightarrow> chosen_name e \<in> set (map model_name candidates)"
  shows "chosen_name d \<in> set (map model_name candidates)"
proof -
  obtain r where r: "complexity_select (hy_rule_based hy) ctx candidates = Inr r"
    using assms(1) by (cases "complexity_select (hy_rule_based hy) ctx candidates") (simp_all add: hybrid_select_def)
  show ?thesis
    using assms(1) assms(2) complexity_chooses(1) [OF r]
    by (auto simp: hybrid_select_def r Let_def split: sum.split_asm bool.split_asm option.split_asm prod.split_asm)
qed

section \<open>The gray zone\<close>

lemma uncertain_iff:
  assumes "\<forall>b \<in> set bs. \<exists>x. number_of b = Inr x"
  shows "is_uncertain margin score bs = Inr (\<exists>b \<in> set bs. \<exists>x. number_of b = Inr x \<and> \<bar>fsub score (rnd x)\<bar> \<le> margin)"
  using assms by (induction bs) auto

text \<open>
  The hybrid strategy asks its escalation exactly when the score lies within the margin of a tier
  boundary; otherwise it keeps the rule-based choice and asks nothing.
\<close>

theorem hybrid_escalates_in_gray_zone:
  assumes "complexity_select (hy_rule_based hy) ctx candidates = Inr d" "chosen_score d = Some score"
    and "\<forall>b \<in> set (map snd (hy_boundaries hy)). \<exists>x. number_of b = Inr x"
  shows "case hybrid_select hy (Some escalate) ctx candidates s of (res, s') \<Rightarrow>
    if \<exists>b \<in> set (map snd (hy_boundaries hy)). \<exists>x. number_of b = Inr x \<and> \<bar>fsub score (rnd x)\<bar> \<le> hy_margin hy
    then s' = snd (escalate ctx candidates s) \<and> (case fst (escalate ctx candidates s) of
        Inl e \<Rightarrow> res = Inl e | Inr e \<Rightarrow> \<exists>r. res = Inr r \<and> chosen_name r = chosen_name e \<and> chosen_score r = Some score \<and> chosen_tier r = chosen_tier d)
    else s' = s \<and> (\<exists>r. res = Inr r \<and> chosen_name r = chosen_name d \<and> chosen_score r = Some score \<and> chosen_tier r = chosen_tier d)"
proof -
  obtain res s' where e: "escalate ctx candidates s = (res, s')" by fastforce
  let ?near = "\<exists>b \<in> set (map snd (hy_boundaries hy)). \<exists>x. number_of b = Inr x \<and> \<bar>fsub score (rnd x)\<bar> \<le> hy_margin hy"
  note u = uncertain_iff [OF assms(3), of "hy_margin hy" score]
  show ?thesis
  proof (cases ?near)
    case True
    then have "is_uncertain (hy_margin hy) score (map snd (hy_boundaries hy)) = Inr True" using u by simp
    with True assms(1,2) e show ?thesis by (cases res) (simp_all add: hybrid_select_def)
  next
    case False
    then have "is_uncertain (hy_margin hy) score (map snd (hy_boundaries hy)) = Inr False" using u by simp
    with False assms(1,2) show ?thesis by (simp only: hybrid_select_def) simp
  qed
qed

section \<open>Sums of few small terms\<close>

text \<open>The error of a sum of at most eight terms of size at most one.\<close>

lemma rnd_within: "\<bar>x\<bar> \<le> 64 \<Longrightarrow> \<bar>rnd x - x\<bar> \<le> 64 * ulp1"
proof -
  assume "\<bar>x\<bar> \<le> 64"
  then have "ulp1 * \<bar>x\<bar> \<le> ulp1 * 64" using ulp1(1) by (intro mult_left_mono) simp_all
  with rnd_err [of x] show ?thesis by simp
qed

lemma cs_add_near:
  assumes "\<bar>fst acc\<bar> \<le> 16" "\<bar>x\<bar> \<le> 1" "\<bar>snd acc\<bar> \<le> 1"
  shows "\<bar>fst (cs_add acc x) - (fst acc + x)\<bar> \<le> 64 * ulp1 \<and> \<bar>snd (cs_add acc x) - snd acc\<bar> \<le> 256 * ulp1"
proof -
  define t where "t = fadd (fst acc) x"
  have u: "0 < ulp1" "ulp1 \<le> 1 / 1024" by (simp_all add: ulp1_def)
  have t: "\<bar>t - (fst acc + x)\<bar> \<le> 64 * ulp1" using assms rnd_within [of "fst acc + x"] by (simp add: t_def fadd_def)
  define c where "c = (if \<bar>x\<bar> \<le> \<bar>fst acc\<bar> then fadd (fsub (fst acc) t) x else fadd (fsub x t) (fst acc))"
  have c: "\<bar>c\<bar> \<le> 192 * ulp1"
  proof (cases "\<bar>x\<bar> \<le> \<bar>fst acc\<bar>")
    case True
    have "\<bar>fst acc - t\<bar> \<le> 64" using t assms u by linarith
    from rnd_within [OF this] have "\<bar>fsub (fst acc) t + x\<bar> \<le> 128 * ulp1" using t unfolding fsub_def by linarith
    moreover have "128 * ulp1 \<le> 1" using u by linarith
    ultimately have "\<bar>fadd (fsub (fst acc) t) x - (fsub (fst acc) t + x)\<bar> \<le> 64 * ulp1" by (simp add: fadd_def rnd_within)
    with \<open>\<bar>fsub (fst acc) t + x\<bar> \<le> 128 * ulp1\<close> True show ?thesis unfolding c_def by simp
  next
    case False
    have "\<bar>x - t\<bar> \<le> 64" using t assms u by linarith
    from rnd_within [OF this] have "\<bar>fsub x t + fst acc\<bar> \<le> 128 * ulp1" using t unfolding fsub_def by linarith
    moreover have "128 * ulp1 \<le> 1" using u by linarith
    ultimately have "\<bar>fadd (fsub x t) (fst acc) - (fsub x t + fst acc)\<bar> \<le> 64 * ulp1" by (simp add: fadd_def rnd_within)
    with \<open>\<bar>fsub x t + fst acc\<bar> \<le> 128 * ulp1\<close> False show ?thesis unfolding c_def by simp
  qed
  have "\<bar>snd acc + c\<bar> \<le> 64" using c assms u by linarith
  from rnd_within [OF this] have "\<bar>fadd (snd acc) c - snd acc\<bar> \<le> 256 * ulp1" using c unfolding fadd_def by linarith
  moreover have "cs_add acc x = (t, fadd (snd acc) c)" by (simp add: cs_add_def t_def c_def Let_def)
  ultimately show ?thesis using t by simp
qed

lemma foldl_cs_near:
  assumes "\<forall>x \<in> set xs. \<bar>x\<bar> \<le> 1" "length xs \<le> 8"
  shows "\<bar>fst (foldl cs_add (0, 0) xs) - sum_list xs\<bar> \<le> of_nat (length xs) * 64 * ulp1 \<and>
    \<bar>snd (foldl cs_add (0, 0) xs)\<bar> \<le> of_nat (length xs) * 256 * ulp1 \<and> \<bar>sum_list xs\<bar> \<le> of_nat (length xs)"
  using assms
proof (induction xs rule: rev_induct)
  case (snoc x xs)
  define acc where "acc = foldl cs_add (0, 0) xs"
  define k :: rat where "k = of_nat (length xs)"
  have ih: "\<bar>fst acc - sum_list xs\<bar> \<le> k * 64 * ulp1" "\<bar>snd acc\<bar> \<le> k * 256 * ulp1" "\<bar>sum_list xs\<bar> \<le> k"
    using snoc by (auto simp: acc_def k_def)
  have k: "0 \<le> k" "k \<le> 7"
  proof -
    have "length xs \<le> 7" using snoc.prems by simp
    then have "(of_nat (length xs) :: rat) \<le> of_nat 7" by (simp only: of_nat_le_iff)
    then show "0 \<le> k" "k \<le> 7" by (simp_all add: k_def)
  qed
  have u: "0 < ulp1" "ulp1 \<le> 1 / 4096" by (simp_all add: ulp1_def)
  have "k * ulp1 \<le> 7 * ulp1" using k u by (intro mult_right_mono) simp_all
  with ih k u have "\<bar>fst acc\<bar> \<le> 16" "\<bar>snd acc\<bar> \<le> 1" by linarith+
  from cs_add_near [OF this(1) _ this(2), of x] snoc.prems ih
  have "\<bar>fst (cs_add acc x) - (sum_list xs + x)\<bar> \<le> (k + 1) * 64 * ulp1" "\<bar>snd (cs_add acc x)\<bar> \<le> (k + 1) * 256 * ulp1"
    by (simp_all add: algebra_simps) linarith+
  moreover have "\<bar>sum_list xs + x\<bar> \<le> k + 1" using ih snoc.prems by auto
  ultimately show ?case by (simp add: acc_def k_def algebra_simps)
qed simp

lemma fsum_near:
  assumes "\<forall>x \<in> set xs. \<bar>x\<bar> \<le> 1" "length xs \<le> 8"
  shows "\<bar>fsum xs - sum_list xs\<bar> \<le> 1 / 2 ^ 40"
proof -
  define acc where "acc = foldl cs_add (0, 0) xs"
  define k :: rat where "k = of_nat (length xs)"
  have near: "\<bar>fst acc - sum_list xs\<bar> \<le> k * 64 * ulp1" "\<bar>snd acc\<bar> \<le> k * 256 * ulp1" "\<bar>sum_list xs\<bar> \<le> k"
    using foldl_cs_near [OF assms] by (auto simp: acc_def k_def)
  have k: "0 \<le> k" "k \<le> 8" using assms(2) of_nat_le_iff [of "length xs" 8, where ?'a = rat] by (simp_all add: k_def)
  have u: "0 < ulp1" "ulp1 * 2 ^ 13 = 1 / 2 ^ 40" by (simp_all add: ulp1_def)
  have ku: "k * ulp1 \<le> 8 * ulp1" using k u by (intro mult_right_mono) simp_all
  have small: "ulp1 \<le> 1 / 4096" by (simp add: ulp1_def)
  have "\<bar>fsum xs - (fst acc + snd acc)\<bar> \<le> 64 * ulp1"
  proof (cases "snd acc = 0")
    case True
    then show ?thesis using u by (simp add: fsum_def acc_def)
  next
    case False
    have "\<bar>fst acc + snd acc\<bar> \<le> 64" using near k ku small by linarith
    from rnd_within [OF this] False show ?thesis by (simp add: fsum_def fadd_def acc_def Let_def)
  qed
  with near ku have "\<bar>fsum xs - sum_list xs\<bar> \<le> 4096 * ulp1" using u by linarith
  moreover have "4096 * ulp1 \<le> 1 / 2 ^ 40" using u by simp
  ultimately show ?thesis by linarith
qed

section \<open>What a system prompt can do\<close>

definition default_scoring :: "complexity \<Rightarrow> bool" where
  "default_scoring cx \<longleftrightarrow> cx_weights cx = default_dimension_weights \<and> cx_boundaries cx = default_tier_boundaries \<and>
     cx_thresholds cx = default_token_thresholds"

definition base_weight :: "string \<Rightarrow> rat" where
  "base_weight k = (if k = ''tokenCount'' then 1/10 else if k = ''codePresence'' then 3/10 else if k = ''reasoningMarkers'' \<or> k = ''technicalTerms'' then 1/4
     else if k = ''simpleIndicators'' then 1/20 else if k = ''multiStepPatterns'' then 3/100 else if k = ''questionComplexity'' then 1/50 else 0)"

lemma weighted_near:
  assumes "weighted_score default_dimension_weights d = Inr y" "\<bar>dm_score d\<bar> \<le> 1"
  shows "\<bar>y - dm_score d * base_weight (dm_name d)\<bar> \<le> 192 * ulp1 \<and> \<bar>y\<bar> \<le> 1"
proof -
  define b where "b = base_weight (dm_name d)"
  have b: "0 \<le> b" "b \<le> 1/2" by (simp_all add: b_def base_weight_def)
  have small: "0 < ulp1" "ulp1 \<le> 1 / 4096" by (simp_all add: ulp1_def)
  obtain w where w: "number_of (dget_or default_dimension_weights (dm_name d) (JInt 0)) = Inr w" "y = fmul (dm_score d) (rnd w)"
    using assms(1) by (auto simp: weighted_score_def)
  then have "w = rnd b \<or> w = b"
    by (auto simp: default_dimension_weights_def dget_or_def number_of_def base_weight_def b_def split: if_split_asm)
  moreover have rb: "\<bar>rnd b - b\<bar> \<le> 64 * ulp1" using b by (intro rnd_within) simp
  ultimately have w': "\<bar>w - b\<bar> \<le> 64 * ulp1" using small by auto
  then have "\<bar>rnd w - w\<bar> \<le> 64 * ulp1" using b small by (intro rnd_within) linarith
  with w' have v: "\<bar>rnd w - b\<bar> \<le> 128 * ulp1" by linarith
  have "\<bar>dm_score d * (rnd w - b)\<bar> \<le> 1 * (128 * ulp1)"
    unfolding abs_mult using assms(2) v by (intro mult_mono) simp_all
  then have near: "\<bar>dm_score d * rnd w - dm_score d * b\<bar> \<le> 128 * ulp1" by (simp add: right_diff_distrib)
  have "\<bar>dm_score d * b\<bar> \<le> 1 * (1/2)" unfolding abs_mult using assms(2) b by (intro mult_mono) simp_all
  then have half: "\<bar>dm_score d * b\<bar> \<le> 1/2" by simp
  with near small have "\<bar>dm_score d * rnd w\<bar> \<le> 64" by linarith
  from rnd_within [OF this] near have "\<bar>y - dm_score d * b\<bar> \<le> 192 * ulp1" unfolding w(2) fmul_def by linarith
  with half small show ?thesis unfolding b_def by auto
qed

lemma scores_near:
  assumes "rmap (weighted_score default_dimension_weights) ds = Inr terms" "\<forall>d \<in> set ds. \<bar>dm_score d\<bar> \<le> 1"
  shows "\<bar>sum_list terms - sum_list (map (\<lambda>d. dm_score d * base_weight (dm_name d)) ds)\<bar> \<le> of_nat (length ds) * (192 * ulp1) \<and>
    (\<forall>y \<in> set terms. \<bar>y\<bar> \<le> 1) \<and> length terms = length ds"
  using assms
proof (induction ds arbitrary: terms)
  case (Cons d ds)
  then obtain y ys where y: "weighted_score default_dimension_weights d = Inr y" "rmap (weighted_score default_dimension_weights) ds = Inr ys" "terms = y # ys"
    by auto
  from weighted_near [OF y(1)] Cons.prems(2) Cons.IH [OF y(2)] y(3) show ?case by (auto simp: algebra_simps abs_le_iff)
qed simp

lemma score_keywords_effect:
  assumes "score_keywords txt ks name label (low, high) (none, some, most) = Inr (d, n)" "low \<le> high"
  shows "\<exists>ms. matching txt ks = Inr ms \<and> n = length ms \<and> dm_name d = name \<and> dm_score d = (if high \<le> n then most else if low \<le> n then some else none)"
  using assms by (auto simp: score_keywords_def Let_def split: if_split_asm)

definition full_text :: "string \<Rightarrow> string option \<Rightarrow> string" where
  "full_text prompt system = lower ((case system of None \<Rightarrow> [] | Some s \<Rightarrow> s) @ '' '' @ prompt)"

text \<open>The score is what the numbers of matches say, up to the rounding.\<close>

definition ideal_score :: "int \<Rightarrow> nat \<Rightarrow> nat \<Rightarrow> nat \<Rightarrow> nat \<Rightarrow> bool \<Rightarrow> nat \<Rightarrow> rat" where
  "ideal_score tokens code markers technical simple steps questions =
     (if tokens < 15 then - 1/10 else if 400 < tokens then 1/10 else 0) + (if 2 \<le> code then 3/10 else if 1 \<le> code then 3/20 else 0) +
     (if 2 \<le> markers then 1/4 else if 1 \<le> markers then rnd (7/10) / 4 else 0) + (if 4 \<le> technical then 1/4 else if 2 \<le> technical then 1/8 else 0) +
     (if 1 \<le> simple then - 1/20 else 0) + (if steps then 3/200 else 0) + (if 3 < questions then 1/100 else 0)"

lemma classified:
  assumes "default_scoring cx" "classify cx prompt system = Inr (tier, score, signals)"
  shows "\<exists>code markers technical simple.
    matching (full_text prompt system) (cx_code cx) = Inr code \<and> matching (lower prompt) (cx_reasoning cx) = Inr markers \<and>
    matching (full_text prompt system) (cx_technical cx) = Inr technical \<and> matching (full_text prompt system) (cx_simple cx) = Inr simple \<and>
    \<bar>score - ideal_score (estimate_tokens prompt) (length code) (length markers) (length technical) (length simple)
        (multi_step (full_text prompt system)) (count_list prompt (CHR ''?''))\<bar> \<le> 1/512 \<and>
    (if 2 \<le> length markers then tier = REASONING else tier_for default_tier_boundaries score = Inr tier)"
proof -
  let ?full = "full_text prompt system"
  from assms(2) obtain ds n terms where ds: "dimensions_of cx prompt system = Inr (ds, n)"
    and terms: "rmap (weighted_score (cx_weights cx)) ds = Inr terms" and score: "score = fsum terms"
    and tier: "if 2 \<le> n then tier = REASONING else tier_for (cx_boundaries cx) score = Inr tier"
    by (auto simp: classify_def Let_def split: if_split_asm)
  from ds obtain tokens code c reasoning technical e simple g where parts:
    "token_dimension (cx_thresholds cx) (estimate_tokens prompt) = Inr tokens"
    "score_keywords ?full (cx_code cx) ''codePresence'' ''code'' (1, 2) (0, 1/2, 1) = Inr (code, c)"
    "score_keywords (lower prompt) (cx_reasoning cx) ''reasoningMarkers'' ''reasoning'' (1, 2) (0, rnd (7/10), 1) = Inr (reasoning, n)"
    "score_keywords ?full (cx_technical cx) ''technicalTerms'' ''technical'' (2, 4) (0, 1/2, 1) = Inr (technical, e)"
    "score_keywords ?full (cx_simple cx) ''simpleIndicators'' ''simple'' (1, 2) (0, -1, -1) = Inr (simple, g)"
    "ds = [tokens, code, reasoning, technical, simple, multi_step_dimension ?full, question_dimension prompt]"
    unfolding dimensions_of_def Let_def full_text_def by (auto split: prod.split_asm)
  have tok: "dm_name tokens = ''tokenCount'' \<and> dm_score tokens = (if estimate_tokens prompt < 15 then -1 else if 400 < estimate_tokens prompt then 1 else 0)"
    using parts(1) assms(1)
    by (auto simp: token_dimension_def default_scoring_def default_token_thresholds_def dget_def number_of_def split: if_split_asm)
  obtain cs where cod: "matching ?full (cx_code cx) = Inr cs" "dm_name code = ''codePresence''"
      "dm_score code = (if 2 \<le> length cs then 1 else if 1 \<le> length cs then 1/2 else 0)" using score_keywords_effect [OF parts(2)] by auto
  obtain rs where rea: "matching (lower prompt) (cx_reasoning cx) = Inr rs" "n = length rs" "dm_name reasoning = ''reasoningMarkers''"
      "dm_score reasoning = (if 2 \<le> length rs then 1 else if 1 \<le> length rs then rnd (7/10) else 0)" using score_keywords_effect [OF parts(3)] by auto
  obtain ts where tec: "matching ?full (cx_technical cx) = Inr ts" "dm_name technical = ''technicalTerms''"
      "dm_score technical = (if 4 \<le> length ts then 1 else if 2 \<le> length ts then 1/2 else 0)" using score_keywords_effect [OF parts(4)] by auto
  obtain ss where sim: "matching ?full (cx_simple cx) = Inr ss" "dm_name simple = ''simpleIndicators''"
      "dm_score simple = (if 1 \<le> length ss then -1 else 0)" using score_keywords_effect [OF parts(5)] by auto
  have mul: "dm_name (multi_step_dimension ?full) = ''multiStepPatterns''" "dm_score (multi_step_dimension ?full) = (if multi_step ?full then 1/2 else 0)"
    by (simp_all add: multi_step_dimension_def)
  have que: "dm_name (question_dimension prompt) = ''questionComplexity''" "dm_score (question_dimension prompt) = (if 3 < count_list prompt (CHR ''?'') then 1/2 else 0)"
    by (simp_all add: question_dimension_def Let_def)
  have seven: "\<bar>rnd (7/10 :: rat)\<bar> \<le> 1" 
  proof -
    have "\<bar>rnd (7/10 :: rat) - 7/10\<bar> \<le> 64 * ulp1" by (rule rnd_within) simp
    moreover have "64 * ulp1 \<le> 1/1024" by (simp add: ulp1_def)
    ultimately show ?thesis by linarith
  qed
  have "\<forall>d \<in> set ds. \<bar>dm_score d\<bar> \<le> 1" unfolding parts(6) using tok cod rea tec sim mul que seven by auto
  from scores_near [OF terms [unfolded conjunct1 [OF assms(1) [unfolded default_scoring_def]]] this]
  have near: "\<bar>sum_list terms - sum_list (map (\<lambda>d. dm_score d * base_weight (dm_name d)) ds)\<bar> \<le> 7 * (192 * ulp1)"
    "\<forall>y \<in> set terms. \<bar>y\<bar> \<le> 1" "length terms \<le> 8" by (simp_all add: parts(6))
  have "sum_list (map (\<lambda>d. dm_score d * base_weight (dm_name d)) ds) =
      ideal_score (estimate_tokens prompt) (length cs) (length rs) (length ts) (length ss) (multi_step ?full) (count_list prompt (CHR ''?''))"
    unfolding parts(6) ideal_score_def using tok cod rea tec sim mul que by (simp add: base_weight_def)
  moreover have "7 * (192 * ulp1) \<le> 1 / 1024" by (simp add: ulp1_def)
  moreover have "\<bar>fsum terms - sum_list terms\<bar> \<le> 1 / 1024" using fsum_near [OF near(2,3)] by (rule order_trans) simp
  ultimately have "\<bar>score - ideal_score (estimate_tokens prompt) (length cs) (length rs) (length ts) (length ss) (multi_step ?full) (count_list prompt (CHR ''?''))\<bar> \<le> 1/512"
    using near(1) unfolding score by linarith
  with cod(1) rea(1,2) tec(1) sim(1) tier assms(1) show ?thesis by (auto simp: default_scoring_def)
qed

lemma reasoning_boundary: "59/100 < rnd (3/5)" "rnd (3/5) < 61/100" "14/100 < rnd (3/20)" "rnd (3/20) < 16/100" "rnd (7/20) < 36/100"
proof -
  have near: "\<bar>rnd (3/5) - 3/5\<bar> \<le> 64 * ulp1" "\<bar>rnd (3/20) - 3/20\<bar> \<le> 64 * ulp1" "\<bar>rnd (7/20) - 7/20\<bar> \<le> 64 * ulp1"
    by (rule rnd_within; simp)+
  have "64 * ulp1 \<le> 1/1024" by (simp add: ulp1_def)
  with near show "59/100 < rnd (3/5)" "rnd (3/5) < 61/100" "14/100 < rnd (3/20)" "rnd (3/20) < 16/100" "rnd (7/20) < 36/100" by linarith+
qed

lemma tier_of_score:
  "tier_for default_tier_boundaries x = Inr (if x < rnd (3/20) then SIMPLE else if x < rnd (7/20) then MEDIUM else if x < rnd (3/5) then COMPLEX else REASONING)"
  by (simp add: tier_for_def default_tier_boundaries_def dget_def number_of_def)

text \<open>
  C17. With the default scoring, two reasoning markers in the user's text force the top tier whatever the
  system prompt says, and without any marker a text of at most 400 tokens stays below it whatever the
  system prompt says.
\<close>

theorem system_prompt_cannot_force_reasoning:
  assumes "default_scoring cx" "matching (lower prompt) (cx_reasoning cx) = Inr markers"
    and "classify cx prompt system = Inr (tier, score, signals)"
  shows "(2 \<le> length markers \<longrightarrow> tier = REASONING) \<and> (markers = [] \<and> estimate_tokens prompt \<le> 400 \<longrightarrow> tier \<noteq> REASONING)"
proof -
  obtain code technical simple :: "string list" where c: "\<bar>score - ideal_score (estimate_tokens prompt) (length code) (length markers) (length technical) (length simple)
        (multi_step (full_text prompt system)) (count_list prompt (CHR ''?''))\<bar> \<le> 1/512"
    "if 2 \<le> length markers then tier = REASONING else tier_for default_tier_boundaries score = Inr tier"
    using classified [OF assms(1,3)] assms(2) by auto
  have "tier \<noteq> REASONING" if "markers = []" "estimate_tokens prompt \<le> 400"
  proof -
    have "ideal_score (estimate_tokens prompt) (length code) (length markers) (length technical) (length simple)
        (multi_step (full_text prompt system)) (count_list prompt (CHR ''?'')) \<le> 23/40"
      using that by (simp add: ideal_score_def)
    with c(1) have "score < rnd (3/5)" using reasoning_boundary(1) by linarith
    then show ?thesis using c(2) that(1) by (auto simp: tier_of_score split: if_split_asm)
  qed
  with c(2) show ?thesis by auto
qed

text \<open>
  The bound on the length is needed: over 400 tokens without a marker, a system prompt that speaks of
  code and technology lifts the text from the lowest tier to the highest.
\<close>

lemma system_prompt_lifts_long_text:
  assumes "default_scoring cx" "400 < estimate_tokens prompt" "matching (lower prompt) (cx_reasoning cx) = Inr []"
    and "classify cx prompt None = Inr (tier, score, signals)" "classify cx prompt (Some system) = Inr (tier', score', signals')"
    and "matching (full_text prompt None) (cx_code cx) = Inr []" "matching (full_text prompt None) (cx_technical cx) = Inr []"
    and "matching (full_text prompt (Some system)) (cx_code cx) = Inr code" "2 \<le> length code"
    and "matching (full_text prompt (Some system)) (cx_technical cx) = Inr technical" "4 \<le> length technical"
    and "matching (full_text prompt (Some system)) (cx_simple cx) = Inr []"
  shows "tier = SIMPLE \<and> tier' = REASONING"
proof -
  obtain simple :: nat where a: "\<bar>score - ideal_score (estimate_tokens prompt) 0 0 0 simple (multi_step (full_text prompt None)) (count_list prompt (CHR ''?''))\<bar> \<le> 1/512"
    "tier_for default_tier_boundaries score = Inr tier" using classified [OF assms(1,4)] assms(3,6,7) by auto
  have b: "\<bar>score' - ideal_score (estimate_tokens prompt) (length code) 0 (length technical) 0 (multi_step (full_text prompt (Some system))) (count_list prompt (CHR ''?''))\<bar> \<le> 1/512"
    "tier_for default_tier_boundaries score' = Inr tier'" using classified [OF assms(1,5)] assms(3,8,10,12) by auto
  have "ideal_score (estimate_tokens prompt) 0 0 0 simple (multi_step (full_text prompt None)) (count_list prompt (CHR ''?'')) \<le> 1/8"
    using assms(2) by (simp add: ideal_score_def)
  moreover have "13/20 \<le> ideal_score (estimate_tokens prompt) (length code) 0 (length technical) 0 (multi_step (full_text prompt (Some system))) (count_list prompt (CHR ''?''))"
    using assms(2,9,11) by (simp add: ideal_score_def)
  ultimately have "score < rnd (3/20)" "rnd (3/5) \<le> score'" "\<not> score' < rnd (3/20)" "\<not> score' < rnd (7/20)"
    using a(1) b(1) reasoning_boundary by linarith+
  then show ?thesis using a(2) b(2) by (simp add: tier_of_score)
qed

section \<open>The best route\<close>

definition qualifies :: "json \<Rightarrow> string list \<Rightarrow> semantic_route \<times> json list \<Rightarrow> float_py \<Rightarrow> bool" where
  "qualifies query names entry x \<longleftrightarrow> best_cosine query (snd entry) = Inr x \<and> sr_threshold (fst entry) \<le> x \<and> sr_target_model (fst entry) \<in> set names"

lemma pick_route_best:
  assumes "pick_route query names entries best = Inr out" "\<forall>e \<in> set entries. -1 < sr_threshold (fst e)"
  shows "(out = best \<or> (\<exists>e \<in> set entries. \<exists>x. out = Some (fst e, x) \<and> qualifies query names e x)) \<and>
    (case best of Some (r, b) \<Rightarrow> \<exists>r' b'. out = Some (r', b') \<and> b \<le> b' | None \<Rightarrow> True) \<and>
    (\<forall>e \<in> set entries. \<forall>x. qualifies query names e x \<longrightarrow> (\<exists>r' b'. out = Some (r', b') \<and> x \<le> b'))"
  using assms
proof (induction query names entries best rule: pick_route.induct)
  case (1 query names best)
  then show ?case by (auto split: option.split)
next
  case (2 query names r vectors rest best)
  then obtain x where x: "best_cosine query vectors = Inr x" by auto
  define better where "better \<longleftrightarrow> sr_threshold r \<le> x \<and> (case best of None \<Rightarrow> -1 | Some b \<Rightarrow> snd b) < x \<and> sr_target_model r \<in> set names"
  have run: "pick_route query names rest (if better then Some (r, x) else best) = Inr out"
    using 2(2) x by (simp add: better_def)
  note ih = 2(1) [OF x, folded better_def, OF run]
  have self: "qualifies query names (r, vectors) y \<longleftrightarrow> y = x \<and> sr_threshold r \<le> x \<and> sr_target_model r \<in> set names" for y
    using x by (auto simp: qualifies_def)
  have pos: "-1 < sr_threshold r" using 2(3) by simp
  show ?case
  proof (cases better)
    case True
    with ih 2(3) have ih': "(out = Some (r, x) \<or> (\<exists>e \<in> set rest. \<exists>y. out = Some (fst e, y) \<and> qualifies query names e y))"
      "\<exists>r' b'. out = Some (r', b') \<and> x \<le> b'"
      "\<forall>e \<in> set rest. \<forall>y. qualifies query names e y \<longrightarrow> (\<exists>r' b'. out = Some (r', b') \<and> y \<le> b')" by auto
    from True have q: "qualifies query names (r, vectors) x" using self by (simp add: better_def)
    have "case best of Some (r, b) \<Rightarrow> \<exists>r' b'. out = Some (r', b') \<and> b \<le> b' | None \<Rightarrow> True"
      using True ih'(2) by (fastforce simp: better_def split: option.split)
    moreover have "\<exists>e \<in> set ((r, vectors) # rest). \<exists>y. out = Some (fst e, y) \<and> qualifies query names e y" using ih'(1) q by force
    ultimately show ?thesis using ih'(2,3) self by auto
  next
    case False
    with ih 2(3) have ih': "(out = best \<or> (\<exists>e \<in> set rest. \<exists>y. out = Some (fst e, y) \<and> qualifies query names e y))"
      "case best of Some (r, b) \<Rightarrow> \<exists>r' b'. out = Some (r', b') \<and> b \<le> b' | None \<Rightarrow> True"
      "\<forall>e \<in> set rest. \<forall>y. qualifies query names e y \<longrightarrow> (\<exists>r' b'. out = Some (r', b') \<and> y \<le> b')" by auto
    have "\<exists>r' b'. out = Some (r', b') \<and> y \<le> b'" if "qualifies query names (r, vectors) y" for y
    proof -
      from that self have y: "y = x" "sr_threshold r \<le> x" "sr_target_model r \<in> set names" by auto
      with False pos obtain b where "best = Some b" "x \<le> snd b" by (cases best) (auto simp: better_def)
      with ih'(2) y show ?thesis by (cases b) force
    qed
    then have "\<forall>e \<in> set ((r, vectors) # rest). \<forall>y. qualifies query names e y \<longrightarrow> (\<exists>r' b'. out = Some (r', b') \<and> y \<le> b')"
      using ih'(3) by auto
    moreover have "out = best \<or> (\<exists>e \<in> set ((r, vectors) # rest). \<exists>y. out = Some (fst e, y) \<and> qualifies query names e y)" using ih'(1) by auto
    ultimately show ?thesis using ih'(2) by blast
  qed
qed

text \<open>
  The route chosen for a text is one whose best utterance reaches its threshold and whose target is a
  candidate, and no route that does so is nearer; the default is left to texts no route qualifies for.
\<close>

theorem semantic_route_is_best:
  assumes "pick_route query names entries None = Inr out" "\<forall>e \<in> set entries. 0 < sr_threshold (fst e)"
  shows "case out of
      Some (r, score) \<Rightarrow> (\<exists>vectors. (r, vectors) \<in> set entries \<and> qualifies query names (r, vectors) score) \<and>
        (\<forall>e \<in> set entries. \<forall>x. qualifies query names e x \<longrightarrow> x \<le> score)
    | None \<Rightarrow> \<forall>e \<in> set entries. \<forall>x. \<not> qualifies query names e x"
proof -
  have "\<forall>e \<in> set entries. -1 < sr_threshold (fst e)" using assms(2) by force
  from pick_route_best [OF assms(1) this] show ?thesis by (cases out) fastforce+
qed

text \<open>Configured thresholds are positive, and the vectors of a route are asked for once.\<close>

lemma configured_thresholds:
  assumes "embeddings_strategy v = Inr em" "r \<in> set (em_routes em)"
  shows "0 < sr_threshold r"
proof -
  from assms obtain rs where "rmap parse_route rs = Inr (em_routes em)"
    by (auto simp: embeddings_strategy_def)
  from rmap_Inr_set [OF this assms(2)] obtain x where "parse_route x = Inr r" by blast
  then obtain w where "threshold_of w = Inr (sr_threshold r)" by (cases x) (auto simp: parse_route_def)
  then show ?thesis by (auto simp: threshold_of_def split: sum.split_asm if_split_asm dest: rnd_pos)
qed

definition sample_complexity :: complexity where
  "sample_complexity = \<lparr>cx_weights = default_dimension_weights, cx_boundaries = default_tier_boundaries, cx_thresholds = default_token_thresholds,
     cx_code = [], cx_reasoning = [JStr ''think'', JStr ''reason''], cx_technical = [], cx_simple = [], cx_tiers = []\<rparr>"

lemma default_weighted: "\<exists>terms. rmap (weighted_score default_dimension_weights) ds = Inr terms"
proof (induction ds)
  case (Cons d ds)
  have n: "\<forall>kv \<in> set default_dimension_weights. \<not> isl (number_of (snd kv))" by (simp add: default_dimension_weights_def number_of_def)
  have "\<not> isl (number_of (dget_or default_dimension_weights k (JInt 0)))" for k
  proof (cases "map_of default_dimension_weights k")
    case None
    then show ?thesis by (simp add: dget_or_def number_of_def)
  next
    case (Some v)
    then show ?thesis using n map_of_SomeD [OF Some] by (auto simp: dget_or_def)
  qed
  then obtain w where "number_of (dget_or default_dimension_weights (dm_name d) (JInt 0)) = Inr w" by (metis isl_def sum.exhaust)
  with Cons show ?case by (auto simp: weighted_score_def)
qed simp

theorem system_prompt_cannot_force_reasoning_witness:
  "\<exists>score signals. classify sample_complexity ''Think, reason!'' (Some ''be brief'') = Inr (REASONING, score, signals)"
proof -
  have "case dimensions_of sample_complexity ''Think, reason!'' (Some ''be brief'') of Inr (ds, n) \<Rightarrow> n = 2 | Inl e \<Rightarrow> False" by code_simp
  then obtain ds where ds: "dimensions_of sample_complexity ''Think, reason!'' (Some ''be brief'') = Inr (ds, 2)" by (auto split: sum.splits)
  have d: "default_scoring sample_complexity" by (simp add: default_scoring_def sample_complexity_def)
  obtain terms where t: "rmap (weighted_score (cx_weights sample_complexity)) ds = Inr terms"
    using default_weighted [of ds] by (auto simp: sample_complexity_def)
  then obtain tier score signals where c: "classify sample_complexity ''Think, reason!'' (Some ''be brief'') = Inr (tier, score, signals)"
    using ds by (auto simp: classify_def Let_def)
  have m: "matching (lower ''Think, reason!'') (cx_reasoning sample_complexity) = Inr [''think'', ''reason'']" by code_simp
  from system_prompt_cannot_force_reasoning [OF d m c] c show ?thesis by auto
qed
end
