(* ===== verification/Routing_Service.thy ===== *)
theory Routing_Service
  imports Completion_Prepare Routing_Strategies
begin

text \<open>
  The router service (\<open>application/routing/service.py\<close>): the validation of a router, the decision for
  a request with its fallback, the metered calls its strategies make, and the log of decisions. A
  decision never fails because a strategy does; it always names a candidate that can serve the
  request; and whatever a strategy asks of a provider is reserved, billed once and released.
\<close>

section \<open>Wiring and state\<close>

text \<open>
  What the constructor wires, over the \<open>services\<close> of the request: the resolver, \<open>models.get\<close>,
  \<open>uuid.UUID(s)\<close>, whether gateway and credentials are there, and the two provider calls. The clock
  readings and fates of a metered call are a function of how many calls were made before it.
\<close>

record metered_now =
  mn_key_gate :: gate_now
  mn_team_gate :: gate_now
  mn_settle :: dispatch_now
  mn_cut :: bool

record ('st, 'c) routing_ports =
  rp_resolver :: "alias_ports option"
  rp_model :: "uuid \<Rightarrow> exc + model option"
  rp_model_by_name :: "uuid option \<Rightarrow> json \<Rightarrow> exc + model option"
  rp_uuid :: "string \<Rightarrow> exc + uuid"
  rp_wired :: bool
  rp_chat :: provider_call
  rp_embeddings :: provider_call
  rp_webhook :: webhook_ports
  rp_now :: "nat \<Rightarrow> metered_now"

text \<open>\<open>timeout\<close> as a strategy's time budget raises it, and \<open>self._resolve_model\<close>, \<open>self._resolve_model_id\<close>.\<close>

abbreviation timed_out :: "exc + 'a" where
  "timed_out \<equiv> raise_py (OtherException ''TimeoutError'')"

definition router_model :: "('st, 'c) routing_ports \<Rightarrow> uuid option \<Rightarrow> json \<Rightarrow> exc + model option" where
  "router_model rp team name = (if \<not> truthy name then Inr None else (case rp_resolver rp of
     Some A \<Rightarrow> resolve_model A team name | None \<Rightarrow> rp_model_by_name rp team name))"

definition router_model_id :: "('st, 'c) routing_ports \<Rightarrow> uuid option \<Rightarrow> uuid option \<Rightarrow> exc + model option" where
  "router_model_id rp team i = (case i of
     None \<Rightarrow> Inr None
   | Some i \<Rightarrow> (case rp_resolver rp of
       Some A \<Rightarrow> resolve_model_id A team i
     | None \<Rightarrow> rbind (rp_model rp i) (\<lambda>found. Inr (case found of
         None \<Rightarrow> None | Some m \<Rightarrow> if md_team_id m = None \<or> md_team_id m = team then Some m else None))))"

definition as_uuid :: "('st, 'c) routing_ports \<Rightarrow> json \<Rightarrow> exc + uuid option" where
  "as_uuid rp v = (if v = JNull then Inr None else rbind (rp_uuid rp (py_str v)) (\<lambda>i. Inr (Some i)))"

definition id_or_name :: "('st, 'c) routing_ports \<Rightarrow> uuid option \<Rightarrow> uuid option \<Rightarrow> json \<Rightarrow> exc + model option" where
  "id_or_name rp team i name = (if i \<noteq> None then router_model_id rp team i else router_model rp team name)"

definition usable :: "model_type \<Rightarrow> model option \<Rightarrow> bool" where
  "usable expected found = (case found of None \<Rightarrow> False | Some m \<Rightarrow> md_enabled m \<and> md_type m = expected)"

section \<open>Provider calls of a strategy\<close>

text \<open>
  \<open>_metered_call\<close>: admitted for the team, settled and traced as the key's, released in the end. A cut
  while the provider is called is no \<open>Exception\<close> and leaves no trace.
\<close>

definition metered_call :: "'c services \<Rightarrow> 'st store_ops \<Rightarrow> bool \<Rightarrow> uuid option \<Rightarrow> uuid \<Rightarrow> model \<Rightarrow> string \<Rightarrow> string \<Rightarrow> body \<Rightarrow> exc + body \<Rightarrow>
    metered_now \<Rightarrow> ('st, 'c) world \<Rightarrow> (exc + body) \<times> ('st, 'c) world" where
  "metered_call sv so meter key team m alias op request answer mn w = (let
      called = (\<lambda>w. w\<lparr>wd_calls := wd_calls w @ [(md_id m, request)]\<rparr>) in
    if \<not> meter \<or> key = None then (if mn_cut mn then timed_out else answer, called w)
    else (case admit_call sv so team None m request False False (mn_key_gate mn) (mn_team_gate mn) w of
      (Inl e, w1) \<Rightarrow> (Inl e, w1)
    | (Inr reservation, w1) \<Rightarrow> (let
          ci = call_of team key m op (Some (usage_attribution team (JStr alias) m None)); dn = mn_settle mn; w2 = called w1;
          (res, w3) = (if mn_cut mn then (timed_out, w2) else (case answer of
              Inl e \<Rightarrow> (Inl e, w2\<lparr>wd_books := trace_error ci (dn_latency dn) (sv_error_name sv e) 0 0 dec_zero (dn_now dn) (wd_books w2)\<rparr>)
            | Inr response \<Rightarrow> (case settle_ok (sv_ports sv) ci response (dn_latency dn) (Some request) (dn_write dn) (dn_alerts dn) (wd_books w2, wd_alerts w2) of
                Inl e \<Rightarrow> (Inl e, w2)
              | Inr (_, b, r) \<Rightarrow> (Inr response, w2\<lparr>wd_books := b, wd_alerts := r\<rparr>))))
        in (res, release_held sv so reservation w3))))"

text \<open>The model a strategy calls, with its credential, or the error of a strategy that cannot be served.\<close>

definition served :: "model_type \<Rightarrow> model option \<Rightarrow> exc + model" where
  "served expected found = (case found of
     None \<Rightarrow> raise_py ValueError | Some m \<Rightarrow> if md_enabled m \<and> md_type m = expected then Inr m else raise_py ValueError)"

definition strategy_model :: "'c services \<Rightarrow> ('st, 'c) routing_ports \<Rightarrow> uuid option \<Rightarrow> uuid option \<Rightarrow> string \<Rightarrow> model_type \<Rightarrow> exc + uuid \<times> model \<times> body" where
  "strategy_model sv rp team i name expected = (case team of
     None \<Rightarrow> raise_py AssertionError
   | Some t \<Rightarrow> if \<not> rp_wired rp then raise_py ValueError else
       rbind (id_or_name rp (Some t) i (JStr name)) (\<lambda>found. rbind (served expected found) (\<lambda>m.
       rbind (sv_credential sv (md_credential_id m)) (\<lambda>values. case values of None \<Rightarrow> raise_py ValueError | Some v \<Rightarrow> Inr (t, m, v)))))"

definition judge_complete :: "'c services \<Rightarrow> 'st store_ops \<Rightarrow> ('st, 'c) routing_ports \<Rightarrow> bool \<Rightarrow> uuid option \<Rightarrow> uuid option \<Rightarrow> uuid option \<Rightarrow>
    string \<Rightarrow> body \<Rightarrow> ('st, 'c) world \<Rightarrow> (exc + body) \<times> ('st, 'c) world" where
  "judge_complete sv so rp meter key team i name request w = (case strategy_model sv rp team i name Chat of
     Inl e \<Rightarrow> (Inl e, w)
   | Inr (t, m, values) \<Rightarrow> metered_call sv so meter key t m name ''routing.judge'' request (rp_chat rp request m values) (rp_now rp (length (wd_calls w))) w)"

definition embed_texts :: "'c services \<Rightarrow> 'st store_ops \<Rightarrow> ('st, 'c) routing_ports \<Rightarrow> bool \<Rightarrow> uuid option \<Rightarrow> uuid option \<Rightarrow> uuid option \<Rightarrow>
    ('st, 'c) world embed" where
  "embed_texts sv so rp meter key team i name texts w = (case strategy_model sv rp team i name Embeddings of
     Inl e \<Rightarrow> (Inl e, w)
   | Inr (t, m, values) \<Rightarrow> (let request = [(''model'', JStr name), (''input'', JList (map JStr texts))] in
       case metered_call sv so meter key t m name ''routing.embeddings'' request (rp_embeddings rp request m values) (rp_now rp (length (wd_calls w))) w of
         (Inl e, w1) \<Rightarrow> (Inl e, w1)
       | (Inr response, w1) \<Rightarrow> (rbind (item_of (JObj response) ''data'') (\<lambda>d. rbind (iterate d) (rmap (\<lambda>item. item_of item ''embedding''))), w1)))"

section \<open>Building a strategy\<close>

text \<open>\<open>draw\<close> is \<open>random.random()\<close>, \<open>event\<close> the fresh id of a webhook call.\<close>

definition basic_strategy :: "'c services \<Rightarrow> 'st store_ops \<Rightarrow> ('st, 'c) routing_ports \<Rightarrow> bool \<Rightarrow> uuid option \<Rightarrow> uuid option \<Rightarrow> float_py \<Rightarrow> string \<Rightarrow>
    string \<Rightarrow> json \<Rightarrow> exc + (route_cache \<times> ('st, 'c) world) selector" where
  "basic_strategy sv so rp meter key team draw event name config =
    (if name = ''embeddings'' then
       rbind (as_dict config) (\<lambda>d. rbind (as_uuid rp (dget d ''embedding_model_id'')) (\<lambda>i. rbind (embeddings_strategy config) (\<lambda>em.
       Inr (embeddings_select em (Some (embed_texts sv so rp meter key team i))))))
     else if name = ''judge'' then
       rbind (as_dict config) (\<lambda>d. rbind (as_uuid rp (dget d ''judge_model_id'')) (\<lambda>i. rbind (judge_strategy config) (\<lambda>j.
       Inr (judge_select j (Some (\<lambda>model request (cache, w). case judge_complete sv so rp meter key team i model request w of (r, w1) \<Rightarrow> (r, cache, w1)))))))
     else if name = ''webhook'' then rbind (webhook_strategy (rp_webhook rp) config) (\<lambda>wh. Inr (webhook_select (rp_webhook rp) wh event))
     else if name = ''complexity'' then rbind (complexity_strategy config) (\<lambda>cx. Inr (\<lambda>ctx candidates s. (complexity_select cx ctx candidates, s)))
     else if name = ''weighted'' then Inr (\<lambda>ctx candidates s. (weighted_select draw candidates, s))
     else raise_py KeyError)"

definition build_strategy :: "'c services \<Rightarrow> 'st store_ops \<Rightarrow> ('st, 'c) routing_ports \<Rightarrow> bool \<Rightarrow> uuid option \<Rightarrow> uuid option \<Rightarrow> float_py \<Rightarrow> string \<Rightarrow>
    string \<Rightarrow> json \<Rightarrow> exc + (route_cache \<times> ('st, 'c) world) selector" where
  "build_strategy sv so rp meter key team draw event name config =
    (if name = ''hybrid'' then rbind (hybrid_strategy config) (\<lambda>shell.
       rbind (basic_strategy sv so rp meter key team draw event (hy_escalation_name shell) (hy_escalation_config shell)) (\<lambda>escalation.
       Inr (hybrid_select shell (Some escalation))))
     else basic_strategy sv so rp meter key team draw event name config)"

section \<open>The decision\<close>

text \<open>
  \<open>_run_strategy\<close>: \<open>late\<close>, the time budget runs out after what the strategy asked was answered. Any
  failure leads to the default model if it is capable, else to the first capable candidate.
\<close>

definition fallback_decision :: "router_config \<Rightarrow> candidate list \<Rightarrow> exc + routing_decision" where
  "fallback_decision router able = (if rt_default_model router \<in> set (map model_name able)
     then Inr (plain_decision (rt_default_model router) (rt_strategy router) [''fallback''])
     else case able of [] \<Rightarrow> raise_py IndexError
       | c # _ \<Rightarrow> Inr (plain_decision (model_name c) (rt_strategy router) [''fallback'', ''default_model skipped: lacks required capability'']))"

record route_now =
  ro_draw :: float_py
  ro_event :: string
  ro_late :: bool
  ro_record_id :: uuid
  ro_recorded :: bool

definition attempt_strategy :: "'c services \<Rightarrow> 'st store_ops \<Rightarrow> ('st, 'c) routing_ports \<Rightarrow> bool \<Rightarrow> route_now \<Rightarrow> string \<Rightarrow> json \<Rightarrow> json \<Rightarrow>
    uuid option \<Rightarrow> (route_cache \<times> ('st, 'c) world) selector" where
  "attempt_strategy sv so rp meter rn name config budget key ctx able s =
    (case build_strategy sv so rp meter key (ctx_team_id ctx) (ro_draw rn) (ro_event rn) name config of
       Inl e \<Rightarrow> (Inl e, s)
     | Inr strategy \<Rightarrow> (case number_of budget of
         Inl e \<Rightarrow> (Inl e, s)
       | Inr _ \<Rightarrow> (case strategy ctx able s of (r, s') \<Rightarrow> (if ro_late rn then timed_out else r, s'))))"

definition default_time_budget_ms :: int where
  "default_time_budget_ms = 2000"

definition run_strategy :: "'c services \<Rightarrow> 'st store_ops \<Rightarrow> ('st, 'c) routing_ports \<Rightarrow> bool \<Rightarrow> route_now \<Rightarrow> router_config \<Rightarrow> routing_context \<Rightarrow>
    candidate list \<Rightarrow> route_cache \<times> ('st, 'c) world \<Rightarrow> (exc + routing_decision \<times> bool) \<times> route_cache \<times> ('st, 'c) world" where
  "run_strategy sv so rp meter rn router ctx able s =
    (let fallen = rbind (fallback_decision router able) (\<lambda>d. Inr (d, True)) in
     case attempt_strategy sv so rp meter rn (rt_strategy router) (JObj (rt_strategy_config router))
         (dget_or (rt_strategy_config router) ''time_budget_ms'' (JInt default_time_budget_ms)) (ctx_api_key_id ctx) ctx able s of
       (Inl e, s') \<Rightarrow> (fallen, s')
     | (Inr d, s') \<Rightarrow> (if chosen_name d \<in> set (map model_name able) then Inr (d, False) else fallen, s'))"

section \<open>Who may use a revision\<close>

definition uses_prompt_webhook :: "string option \<Rightarrow> body \<Rightarrow> bool" where
  "uses_prompt_webhook name config \<longleftrightarrow> name = Some ''webhook'' \<or> name = Some ''hybrid'' \<and> dget config ''escalation_strategy'' = JStr ''webhook''"

definition bound_model :: "('st, 'c) routing_ports \<Rightarrow> uuid \<Rightarrow> body \<Rightarrow> string \<Rightarrow> string \<Rightarrow> bool \<Rightarrow> exc + model option" where
  "bound_model rp team config id_key name_key strict = (if truthy (dget config id_key)
     then rbind (as_uuid rp (dget config id_key)) (router_model_id rp (Some team))
     else if \<not> strict then router_model rp (Some team) (dget config name_key) else Inr None)"

definition basic_access :: "('st, 'c) routing_ports \<Rightarrow> uuid \<Rightarrow> bool \<Rightarrow> string \<Rightarrow> json \<Rightarrow> exc + unit" where
  "basic_access rp team strict name config =
    (if name = ''judge'' then rbind (as_dict config) (\<lambda>d. rbind (bound_model rp team d ''judge_model_id'' ''judge_model'' strict) (\<lambda>m.
       if usable Chat m then Inr () else raise_exc (Routing InvalidRouterConfig) []))
     else if name = ''embeddings'' then rbind (as_dict config) (\<lambda>d. rbind (bound_model rp team d ''embedding_model_id'' ''embedding_model'' strict) (\<lambda>m.
       if usable Embeddings m then Inr () else raise_exc (Routing InvalidRouterConfig) []))
     else Inr ())"

definition validate_bound_strategy_access :: "('st, 'c) routing_ports \<Rightarrow> uuid \<Rightarrow> bool \<Rightarrow> string \<Rightarrow> json \<Rightarrow> exc + unit" where
  "validate_bound_strategy_access rp team strict name config = (if name = ''hybrid''
     then rbind (hybrid_strategy config) (\<lambda>shell. basic_access rp team strict (hy_escalation_name shell) (hy_escalation_config shell))
     else basic_access rp team strict name config)"

definition validate_revision_access :: "('st, 'c) routing_ports \<Rightarrow> router_config \<Rightarrow> uuid \<Rightarrow> exc + unit" where
  "validate_revision_access rp router team = (if rt_revision_id router = None then Inr () else
     rbind (each (\<lambda>c. rbind (router_model_id rp (Some team) (model_id c)) (\<lambda>m.
       if usable Chat m then Inr () else raise_exc (Routing InvalidRouterConfig) [model_name c])) (rt_candidates router)) (\<lambda>_.
     rbind (validate_bound_strategy_access rp team True (rt_strategy router) (JObj (rt_strategy_config router))) (\<lambda>_.
     case rt_shadow_strategy router of None \<Rightarrow> Inr ()
     | Some shadow \<Rightarrow> validate_bound_strategy_access rp team True shadow (dget_or (rt_strategy_config router) ''shadow'' (JObj [])))))"

section \<open>The log of decisions\<close>

record decision_record =
  dr_id :: uuid
  dr_team_id :: "uuid option"
  dr_router_id :: uuid
  dr_router_name :: string
  dr_strategy :: string
  dr_chosen_model :: string
  dr_tier :: "quality_tier option"
  dr_score :: "float_py option"
  dr_signals :: "string list"
  dr_is_shadow :: bool
  dr_fallback_used :: bool
  dr_api_key_id :: "uuid option"
  dr_chosen_input_cost :: "float_py option"
  dr_chosen_output_cost :: "float_py option"
  dr_alt_input_cost :: "float_py option"
  dr_alt_output_cost :: "float_py option"
  dr_prompt_tokens :: "int option"
  dr_completion_tokens :: "int option"
  dr_user_text :: "string option"
  dr_system_prompt :: "string option"
  dr_router_revision_id :: "uuid option"
  dr_chosen_model_id :: "uuid option"
  dr_attempts :: int
  dr_failover_used :: bool

definition cost_or_zero :: "float_py option \<Rightarrow> float_py" where
  "cost_or_zero c = (case c of None \<Rightarrow> 0 | Some x \<Rightarrow> x)"

definition unit_cost :: "candidate \<Rightarrow> float_py" where
  "unit_cost c = fadd (cost_or_zero (input_cost_per_token c)) (cost_or_zero (output_cost_per_token c))"

text \<open>\<open>max(priced, key=...)\<close>: the first of the largest.\<close>

definition dearest :: "candidate list \<Rightarrow> candidate option" where
  "dearest cs = foldl (\<lambda>b c. case b of None \<Rightarrow> Some c | Some d \<Rightarrow> if unit_cost d < unit_cost c then Some c else Some d) None
     (filter (\<lambda>c. input_cost_per_token c \<noteq> None \<or> output_cost_per_token c \<noteq> None) cs)"

definition distillation_text :: "routing_decision \<Rightarrow> routing_context \<Rightarrow> string option \<times> string option" where
  "distillation_text d ctx = (if chosen_strategy d = ''judge'' \<or> list_ex (occurs ''escalated'') (chosen_signals d)
     then (Some (user_text ctx), system_prompt ctx) else (None, None))"

definition decision_entry :: "router_config \<Rightarrow> routing_decision \<Rightarrow> bool \<Rightarrow> bool \<Rightarrow> uuid option \<Rightarrow> uuid \<Rightarrow> routing_context \<Rightarrow> decision_record" where
  "decision_entry router d shadow fallback key i ctx = (case distillation_text d ctx of (user, system) \<Rightarrow>
     \<lparr>dr_id = i, dr_team_id = ctx_team_id ctx, dr_router_id = rt_id router, dr_router_name = rt_name router, dr_strategy = chosen_strategy d,
      dr_chosen_model = chosen_name d, dr_tier = chosen_tier d, dr_score = chosen_score d, dr_signals = chosen_signals d,
      dr_is_shadow = shadow, dr_fallback_used = fallback, dr_api_key_id = key, dr_chosen_input_cost = None, dr_chosen_output_cost = None,
      dr_alt_input_cost = None, dr_alt_output_cost = None, dr_prompt_tokens = None, dr_completion_tokens = None, dr_user_text = user,
      dr_system_prompt = system, dr_router_revision_id = rt_revision_id router, dr_chosen_model_id = chosen_id d, dr_attempts = 1,
      dr_failover_used = False\<rparr>)"

definition priced_entry :: "candidate list \<Rightarrow> decision_record \<Rightarrow> decision_record" where
  "priced_entry candidates r = (let chosen = find (\<lambda>c. model_name c = dr_chosen_model r) candidates; alt = dearest candidates in
     r\<lparr>dr_chosen_input_cost := Option.bind chosen input_cost_per_token, dr_chosen_output_cost := Option.bind chosen output_cost_per_token,
       dr_alt_input_cost := map_option (\<lambda>c. cost_or_zero (input_cost_per_token c)) alt,
       dr_alt_output_cost := map_option (\<lambda>c. cost_or_zero (output_cost_per_token c)) alt\<rparr>)"

text \<open>The state of one request's service: what strategies share, the log, \<open>last_decision_record_id\<close>, and the shadow runs it started.\<close>

record ('st, 'c) routing_world =
  rw_state :: "route_cache \<times> ('st, 'c) world"
  rw_log :: "decision_record list"
  rw_last :: "uuid option"
  rw_shadows :: "(router_config \<times> routing_context \<times> candidate list \<times> uuid option) list"

definition persist_decision :: "route_now \<Rightarrow> router_config \<Rightarrow> routing_decision \<Rightarrow> bool \<Rightarrow> uuid option \<Rightarrow> candidate list \<Rightarrow> routing_context \<Rightarrow>
    ('st, 'c) routing_world \<Rightarrow> ('st, 'c) routing_world" where
  "persist_decision rn router d fallback key able ctx W = (if ro_recorded rn
     then W\<lparr>rw_log := rw_log W @ [priced_entry able (decision_entry router d False fallback key (ro_record_id rn) ctx)],
       rw_last := Some (ro_record_id rn)\<rparr>
     else W)"

text \<open>What is attached to the decision once the request is over; \<open>ok\<close>: the update did not fail.\<close>

definition update_last :: "bool \<Rightarrow> (decision_record \<Rightarrow> decision_record) \<Rightarrow> ('st, 'c) routing_world \<Rightarrow> ('st, 'c) routing_world" where
  "update_last ok f W = (case rw_last W of
     None \<Rightarrow> W
   | Some i \<Rightarrow> if ok then W\<lparr>rw_log := map (\<lambda>r. if dr_id r = i then f r else r) (rw_log W)\<rparr> else W)"

definition record_decision_usage :: "bool \<Rightarrow> int \<Rightarrow> int \<Rightarrow> ('st, 'c) routing_world \<Rightarrow> ('st, 'c) routing_world" where
  "record_decision_usage ok prompt completion = update_last ok (\<lambda>r. r\<lparr>dr_prompt_tokens := Some prompt, dr_completion_tokens := Some completion\<rparr>)"

definition record_failover :: "bool \<Rightarrow> int \<Rightarrow> bool \<Rightarrow> ('st, 'c) routing_world \<Rightarrow> ('st, 'c) routing_world" where
  "record_failover ok attempts used = update_last ok (\<lambda>r. r\<lparr>dr_attempts := attempts, dr_failover_used := used\<rparr>)"

section \<open>Routing a request\<close>

definition route_context :: "router_config \<Rightarrow> body \<Rightarrow> uuid \<Rightarrow> uuid option \<Rightarrow> exc + routing_context" where
  "route_context router request team key = rbind (build_routing_context request (Some team) key) (\<lambda>ctx.
     Inr (ctx\<lparr>ctx_default_model := Some (rt_default_model router)\<rparr>))"

text \<open>The context of a request and the candidates that can serve it, of which there is at least one.\<close>

definition able_candidates :: "router_config \<Rightarrow> body \<Rightarrow> uuid \<Rightarrow> uuid option \<Rightarrow> exc + routing_context \<times> candidate list" where
  "able_candidates router request team key = rbind (route_context router request team key) (\<lambda>ctx.
     let able = filter_candidates ctx (rt_candidates router) in
     if able = [] then raise_exc (Routing NoRoutableCandidate) [rt_name router] else Inr (ctx, able))"

definition single_candidate :: "candidate \<Rightarrow> routing_decision" where
  "single_candidate c = plain_decision (model_name c) ''capability-filter'' [''single capable candidate'']"

definition decide :: "'c services \<Rightarrow> 'st store_ops \<Rightarrow> ('st, 'c) routing_ports \<Rightarrow> bool \<Rightarrow> route_now \<Rightarrow> router_config \<Rightarrow> routing_context \<Rightarrow>
    candidate list \<Rightarrow> route_cache \<times> ('st, 'c) world \<Rightarrow> (exc + routing_decision \<times> bool) \<times> route_cache \<times> ('st, 'c) world" where
  "decide sv so rp meter rn router ctx able s = (case able of
     [c] \<Rightarrow> (Inr (single_candidate c, False), s) | _ \<Rightarrow> run_strategy sv so rp meter rn router ctx able s)"

definition route_guard :: "('st, 'c) routing_ports \<Rightarrow> router_config \<Rightarrow> uuid \<Rightarrow> exc + unit" where
  "route_guard rp router team = rbind (validate_revision_access rp router team) (\<lambda>_.
     if uses_prompt_webhook (Some (rt_strategy router)) (rt_strategy_config router) \<and> rt_grant_id router \<noteq> None \<and> \<not> rt_ack_active_prompt_egress router
     then raise_exc (Routing InvalidRouterConfig) [] else Inr ())"

definition route :: "'c services \<Rightarrow> 'st store_ops \<Rightarrow> ('st, 'c) routing_ports \<Rightarrow> bool \<Rightarrow> bool \<Rightarrow> route_now \<Rightarrow> router_config \<Rightarrow> body \<Rightarrow> uuid \<Rightarrow>
    uuid option \<Rightarrow> ('st, 'c) routing_world \<Rightarrow> (exc + routing_decision) \<times> ('st, 'c) routing_world" where
  "route sv so rp meter shadow_log rn router request team key W =
    (case rbind (route_guard rp router team) (\<lambda>_. able_candidates router request team key) of
       Inl e \<Rightarrow> (Inl e, W)
     | Inr (ctx, able) \<Rightarrow> (case decide sv so rp meter rn router ctx able (rw_state W) of (res, s') \<Rightarrow>
         (let W1 = W\<lparr>rw_state := s'\<rparr> in case res of
            Inl e \<Rightarrow> (Inl e, W1)
          | Inr (d, fallback) \<Rightarrow> (case find (\<lambda>c. model_name c = chosen_name d) able of
              None \<Rightarrow> (raise_exc (Routing InvalidRouterConfig) [rt_name router], W1)
            | Some c \<Rightarrow> (let d' = d\<lparr>chosen_id := model_id c\<rparr>; W2 = persist_decision rn router d' fallback key able ctx W1
                in (Inr d', if rt_shadow_strategy router \<noteq> None \<and> shadow_log
                  then W2\<lparr>rw_shadows := rw_shadows W2 @ [(router, ctx, able, key)]\<rparr> else W2))))))"

text \<open>The playground's choice, which records nothing and asks nobody outside.\<close>

definition external_preview_strategies :: "string list" where
  "external_preview_strategies = [''embeddings'', ''judge'', ''webhook'', ''hybrid'']"

definition select_preview :: "'c services \<Rightarrow> 'st store_ops \<Rightarrow> ('st, 'c) routing_ports \<Rightarrow> bool \<Rightarrow> route_now \<Rightarrow> router_config \<Rightarrow> body \<Rightarrow> uuid \<Rightarrow>
    route_cache \<times> ('st, 'c) world \<Rightarrow> (exc + routing_decision) \<times> route_cache \<times> ('st, 'c) world" where
  "select_preview sv so rp meter rn router request team s = (case able_candidates router request team None of
     Inl e \<Rightarrow> (Inl e, s)
   | Inr (ctx, able) \<Rightarrow> (case able of
       [c] \<Rightarrow> (Inr (single_candidate c), s)
     | _ \<Rightarrow> if rt_strategy router \<in> set external_preview_strategies
         then (Inr (plain_decision (case find (\<lambda>c. model_name c = rt_default_model router) able of Some c \<Rightarrow> model_name c | None \<Rightarrow> model_name (hd able))
           (rt_strategy router) [''preview: external strategy skipped'']), s)
         else (case run_strategy sv so rp meter rn router ctx able s of (r, s') \<Rightarrow> (rbind r (\<lambda>(d, _). Inr d), s'))))"

section \<open>Shadow runs\<close>

text \<open>
  \<open>_shadow_select\<close> and \<open>_run_shadow\<close>, a task of its own: without a meter, on repositories of its own when
  they are wired (\<open>live\<close> re-reads the router of a grant), every failure swallowed.
\<close>

definition shadow_router :: "(uuid \<Rightarrow> uuid option \<Rightarrow> exc + router_config option) \<Rightarrow> router_config \<Rightarrow> routing_context \<Rightarrow> json \<Rightarrow> exc + router_config" where
  "shadow_router live router ctx config = (case rt_grant_id router of
     None \<Rightarrow> Inr router
   | Some g \<Rightarrow> rbind (live g (ctx_team_id ctx)) (\<lambda>found. case found of
       None \<Rightarrow> raise_exc (Routing InvalidRouterConfig) []
     | Some r \<Rightarrow> if rt_revision_id r \<noteq> rt_revision_id router \<or> \<not> rt_enabled r then raise_exc (Routing InvalidRouterConfig) []
         else rbind (as_dict config) (\<lambda>d. if uses_prompt_webhook (rt_shadow_strategy r) d \<and> \<not> rt_ack_shadow_prompt_egress r
           then raise_exc (Routing InvalidRouterConfig) [] else Inr r)))"

definition shadow_select :: "'c services \<Rightarrow> 'st store_ops \<Rightarrow> ('st, 'c) routing_ports \<Rightarrow> (uuid \<Rightarrow> uuid option \<Rightarrow> exc + router_config option) option \<Rightarrow>
    route_now \<Rightarrow> router_config \<Rightarrow> json \<Rightarrow> (route_cache \<times> ('st, 'c) world) selector" where
  "shadow_select sv so rp live rn router config ctx able s =
    (case rbind (as_dict config) (\<lambda>d. rbind (case live of None \<Rightarrow> Inr router | Some get \<Rightarrow> shadow_router get router ctx config) (\<lambda>r.
         case rt_shadow_strategy r of None \<Rightarrow> raise_py KeyError | Some name \<Rightarrow> Inr (name, dget_or d ''time_budget_ms'' (JInt default_time_budget_ms)))) of
       Inl e \<Rightarrow> (Inl e, s)
     | Inr (name, budget) \<Rightarrow> attempt_strategy sv so rp False rn name config budget None ctx able s)"

definition run_shadow :: "'c services \<Rightarrow> 'st store_ops \<Rightarrow> ('st, 'c) routing_ports \<Rightarrow> (uuid \<Rightarrow> uuid option \<Rightarrow> exc + router_config option) option \<Rightarrow>
    route_now \<Rightarrow> router_config \<times> routing_context \<times> candidate list \<times> uuid option \<Rightarrow> ('st, 'c) routing_world \<Rightarrow> ('st, 'c) routing_world" where
  "run_shadow sv so rp live rn task W = (case task of (router, ctx, able, key) \<Rightarrow>
     (case shadow_select sv so rp live rn router (dget_or (rt_strategy_config router) ''shadow'' (JObj [])) ctx able (rw_state W) of
        (Inl e, s') \<Rightarrow> W\<lparr>rw_state := s'\<rparr>
      | (Inr d, s') \<Rightarrow> (case find (\<lambda>c. model_name c = chosen_name d) able of
          None \<Rightarrow> W\<lparr>rw_state := s'\<rparr>
        | Some c \<Rightarrow> if ro_recorded rn
            then W\<lparr>rw_state := s', rw_log := rw_log W @ [decision_entry router (d\<lparr>chosen_id := model_id c\<rparr>) True False key (ro_record_id rn) ctx]\<rparr>
            else W\<lparr>rw_state := s'\<rparr>)))"

section \<open>A strategy never fails a request\<close>

lemma fallback_chooses: "able \<noteq> [] \<Longrightarrow> \<exists>d. fallback_decision router able = Inr d \<and> chosen_name d \<in> set (map model_name able)"
  by (cases able) (auto simp: fallback_decision_def plain_decision_def)

lemma run_strategy_chooses:
  assumes "able \<noteq> []" "run_strategy sv so rp meter rn router ctx able s = (res, s')"
  shows "\<exists>d fallback. res = Inr (d, fallback) \<and> chosen_name d \<in> set (map model_name able)"
proof -
  obtain r s1 where r: "attempt_strategy sv so rp meter rn (rt_strategy router) (JObj (rt_strategy_config router))
      (dget_or (rt_strategy_config router) ''time_budget_ms'' (JInt default_time_budget_ms)) (ctx_api_key_id ctx) ctx able s = (r, s1)" using prod.exhaust by blast
  show ?thesis using assms(2) fallback_chooses [OF assms(1), of router] r
    by (cases r) (auto simp: run_strategy_def Let_def split: if_split_asm)
qed

lemma able_candidates_props:
  assumes "able_candidates router request team key = Inr (ctx, able)"
  shows "able \<noteq> []" "able = filter_candidates ctx (rt_candidates router)" "ctx_team_id ctx = Some team"
proof -
  from assms obtain c where "build_routing_context request (Some team) key = Inr c" "ctx = c\<lparr>ctx_default_model := Some (rt_default_model router)\<rparr>"
    and able: "able = filter_candidates ctx (rt_candidates router)" "able \<noteq> []"
    by (auto simp: able_candidates_def route_context_def Let_def split: if_split_asm)
  then show "able \<noteq> []" "able = filter_candidates ctx (rt_candidates router)" "ctx_team_id ctx = Some team"
    by (auto simp: build_routing_context_def)
qed

lemma decide_chooses:
  assumes "able \<noteq> []" "decide sv so rp meter rn router ctx able s = (res, s')"
  shows "\<exists>d fallback. res = Inr (d, fallback) \<and> chosen_name d \<in> set (map model_name able)"
  using assms run_strategy_chooses [OF assms(1), of sv so rp meter rn router ctx s res s']
  by (auto simp: decide_def single_candidate_def plain_decision_def split: list.split_asm)

text \<open>
  C7. Whatever a strategy answers, raises, or lets its time run out on, a routed request is refused only
  where its configuration or the request itself is at fault, before any strategy runs; otherwise the
  decision names a candidate that passed the capability filters, by its identity.
\<close>

theorem route_survives_strategy:
  assumes "route sv so rp meter shadow_log rn router request team key W = (res, W')"
  shows "case res of
      Inl e \<Rightarrow> W' = W \<and> (route_guard rp router team = Inl e \<or> able_candidates router request team key = Inl e)
    | Inr d \<Rightarrow> \<exists>ctx able c. able_candidates router request team key = Inr (ctx, able) \<and> c \<in> set (rt_candidates router) \<and> capable ctx c \<and>
        chosen_name d = model_name c \<and> chosen_id d = model_id c"
proof (cases "rbind (route_guard rp router team) (\<lambda>_. able_candidates router request team key)")
  case (Inl e)
  with assms show ?thesis by (auto simp: route_def rbind_eq_Inl)
next
  case (Inr x)
  then obtain ctx able where x: "x = (ctx, able)" "able_candidates router request team key = Inr (ctx, able)" by (cases x) auto
  note able = able_candidates_props [OF x(2)]
  obtain r s' where r: "decide sv so rp meter rn router ctx able (rw_state W) = (r, s')" using prod.exhaust by blast
  from decide_chooses [OF able(1) r] obtain d fallback where d: "r = Inr (d, fallback)" "chosen_name d \<in> set (map model_name able)" by blast
  then obtain c where c: "find (\<lambda>c. model_name c = chosen_name d) able = Some c"
    by (cases "find (\<lambda>c. model_name c = chosen_name d) able") (auto simp: find_None_iff)
  then have "c \<in> set able" "model_name c = chosen_name d" using find_Some_props by fastforce+
  then have "c \<in> set (rt_candidates router)" "capable ctx c" by (simp_all add: able(2) filter_candidates_def)
  moreover have "res = Inr (d\<lparr>chosen_id := model_id c\<rparr>)"
    using assms Inr x(1) r d c by (auto simp: route_def Let_def)
  ultimately show ?thesis using x(2) \<open>model_name c = chosen_name d\<close> by auto
qed

section \<open>What strategies spend\<close>

text \<open>Every reservation is given back, and no more is billed than was called.\<close>

definition spends :: "float_py \<Rightarrow> (mem_store, 'c) world \<Rightarrow> (mem_store, 'c) world \<Rightarrow> bool" where
  "spends t w w' \<longleftrightarrow> claims_kept t (wd_store w) (wd_store w') \<and> (\<exists>calls evs. wd_calls w' = wd_calls w @ calls \<and>
     all_events (wd_books w') = all_events (wd_books w) + mset evs \<and> length evs \<le> length calls)"

definition spends_well :: "float_py \<Rightarrow> ((mem_store, 'c) world \<Rightarrow> 'x \<times> (mem_store, 'c) world) \<Rightarrow> bool" where
  "spends_well t f \<longleftrightarrow> (\<forall>w. wf_mem (wd_store w) \<longrightarrow> spends t w (snd (f w)))"

lemma spends_refl: "wf_mem (wd_store w) \<Longrightarrow> spends t w w"
  by (auto simp: spends_def claims_kept_refl intro!: exI [of _ "[]"])

lemma spends_wf: "spends t w w' \<Longrightarrow> wf_mem (wd_store w')"
  by (simp add: spends_def claims_kept_def)

lemma spends_trans: "spends t w w' \<Longrightarrow> spends t w' w'' \<Longrightarrow> spends t w w''"
proof -
  assume a: "spends t w w'" "spends t w' w''"
  then obtain c1 e1 c2 e2 where "wd_calls w' = wd_calls w @ c1" "all_events (wd_books w') = all_events (wd_books w) + mset e1" "length e1 \<le> length c1"
    "wd_calls w'' = wd_calls w' @ c2" "all_events (wd_books w'') = all_events (wd_books w') + mset e2" "length e2 \<le> length c2"
    by (auto simp: spends_def)
  moreover have "claims_kept t (wd_store w) (wd_store w'')" using a claims_kept_trans by (auto simp: spends_def)
  ultimately show ?thesis unfolding spends_def by (intro conjI exI [of _ "c1 @ c2"] exI [of _ "e1 @ e2"]) auto
qed

lemma spends_unbilled: "unbilled w w' \<Longrightarrow> claims_kept t (wd_store w) (wd_store w') \<Longrightarrow> spends t w w'"
  by (auto simp: spends_def unbilled_def intro!: exI [of _ "[]"])

lemma spends_called:
  assumes "wd_calls w' = wd_calls w @ [c]" "all_events (wd_books w') = all_events (wd_books w) + mset evs" "length evs \<le> 1"
    and "claims_kept t (wd_store w) (wd_store w')"
  shows "spends t w w'"
  unfolding spends_def using assms by (intro conjI exI [of _ "[c]"] exI [of _ evs]) auto

definition timely_calls :: "'c services \<Rightarrow> ('st, 'd) routing_ports \<Rightarrow> float_py \<Rightarrow> bool" where
  "timely_calls sv rp t \<longleftrightarrow> (\<forall>n. gate_in_time mem_expiry (sv_ports sv) (mn_key_gate (rp_now rp n)) t \<and>
     gate_in_time mem_expiry (sv_ports sv) (mn_team_gate (rp_now rp n)) t)"

lemma metered_call_effect:
  fixes w w' :: "(mem_store, 'c) world"
  assumes "wf_mem (wd_store w)" "honest_rates m" "gate_in_time mem_expiry (sv_ports sv) (mn_key_gate mn) t"
    "gate_in_time mem_expiry (sv_ports sv) (mn_team_gate mn) t"
    and "metered_call sv memory_store meter key team m alias op request answer mn w = (res, w')"
  shows "spends t w w' \<and> (meter \<and> key \<noteq> None \<and> (\<exists>x. res = Inr x) \<longrightarrow> (\<exists>ev. all_events (wd_books w') = add_mset ev (all_events (wd_books w))))"
proof (cases "meter \<and> key \<noteq> None")
  case False
  with assms(5) have "w' = w\<lparr>wd_calls := wd_calls w @ [(md_id m, request)]\<rparr>" by (auto simp: metered_call_def Let_def)
  then have "spends t w w'" using assms(1) by (intro spends_called [of w' w "(md_id m, request)" "[]"]) (simp_all add: claims_kept_refl)
  with False show ?thesis by blast
next
  case True
  obtain r w1 where a: "admit_call sv memory_store team None m request False False (mn_key_gate mn) (mn_team_gate mn) w = (r, w1)" by fastforce
  note eff = admit_call_effect [OF assms(1-4) a]
  show ?thesis
  proof (cases r)
    case (Inl e)
    with True a eff assms(5) show ?thesis by (auto simp: metered_call_def intro: spends_unbilled)
  next
    case (Inr reservation)
    define ci where "ci = call_of team key m op (Some (usage_attribution team (JStr alias) m None))"
    define w2 where "w2 = w1\<lparr>wd_calls := wd_calls w1 @ [(md_id m, request)]\<rparr>"
    obtain w3 evs where w3: "w' = release_held sv memory_store reservation w3" "wd_store w3 = wd_store w1" "wd_calls w3 = wd_calls w2"
      "all_events (wd_books w3) = all_events (wd_books w1) + mset evs" "length evs \<le> 1" "(\<exists>x. res = Inr x) \<longrightarrow> length evs = 1"
    proof (cases "mn_cut mn")
      case cut: True
      with True a Inr assms(5) have "w' = release_held sv memory_store reservation w2" "res = timed_out" by (auto simp: metered_call_def w2_def Let_def)
      then show ?thesis using that [of w2 "[]"] by (simp add: w2_def)
    next
      case uncut: False
      show ?thesis
      proof (cases answer)
        case (Inl e)
        with True a Inr assms(5) uncut have "res = Inl e" "w' = release_held sv memory_store reservation
            (w2\<lparr>wd_books := trace_error ci (dn_latency (mn_settle mn)) (sv_error_name sv e) 0 0 dec_zero (dn_now (mn_settle mn)) (wd_books w2)\<rparr>)"
          by (auto simp: metered_call_def w2_def ci_def Let_def)
        then show ?thesis using that [of _ "[]"] by (simp add: w2_def)
      next
        case (Inr response)
        note resp = Inr
        show ?thesis
        proof (cases "settle_ok (sv_ports sv) ci response (dn_latency (mn_settle mn)) (Some request) (dn_write (mn_settle mn)) (dn_alerts (mn_settle mn)) (wd_books w2, wd_alerts w2)")
          case (Inl e)
          with True a \<open>r = Inr reservation\<close> assms(5) uncut resp have "res = Inl e" "w' = release_held sv memory_store reservation w2"
            by (auto simp: metered_call_def w2_def ci_def Let_def)
          then show ?thesis using that [of w2 "[]"] by (simp add: w2_def)
        next
          case (Inr x)
          obtain p c cost b rows where x: "x = ((p, c, cost), b, rows)" by (metis prod.exhaust)
          with True a \<open>r = Inr reservation\<close> assms(5) uncut resp Inr have "w' = release_held sv memory_store reservation (w2\<lparr>wd_books := b, wd_alerts := rows\<rparr>)"
            by (auto simp: metered_call_def w2_def ci_def Let_def)
          moreover from settle_ok_books(1) [OF Inr [unfolded x]] obtain ev where "all_events b = add_mset ev (all_events (wd_books w2))" by blast
          ultimately show ?thesis using that [of _ "[ev]"] by (simp add: w2_def)
        qed
      qed
    qed
    from eff Inr have held: "unbilled w w1" "claims_taken t (wd_store w) reservation (wd_store w3)" "reservation \<noteq> None \<longrightarrow> mp_store_wired (sv_ports sv)"
      using w3(2) by auto
    have "claims_kept t (wd_store w) (wd_store w')" using released_claims [OF held(2,3)] w3(1) by simp
    moreover have ev: "all_events (wd_books w') = all_events (wd_books w) + mset evs" using w3(1,4) held(1) by (simp add: release_held_def unbilled_def)
    moreover have "wd_calls w' = wd_calls w @ [(md_id m, request)]" using w3(1,3) held(1) by (simp add: release_held_def unbilled_def w2_def)
    ultimately have "spends t w w'" using w3(5) by (intro spends_called)
    moreover have "\<exists>ev. all_events (wd_books w') = add_mset ev (all_events (wd_books w))" if "\<exists>x. res = Inr x"
      using ev w3(6) that by (auto simp: length_Suc_conv)
    ultimately show ?thesis by blast
  qed
qed

definition strategy_catalog :: "('st, 'c) routing_ports \<Rightarrow> model \<Rightarrow> bool" where
  "strategy_catalog rp m \<longleftrightarrow> (\<exists>team i name. id_or_name rp team i name = Inr (Some m))"

definition honest_routing :: "'c services \<Rightarrow> ('st, 'd) routing_ports \<Rightarrow> float_py \<Rightarrow> bool" where
  "honest_routing sv rp t \<longleftrightarrow> timely_calls sv rp t \<and> (\<forall>m. strategy_catalog rp m \<longrightarrow> honest_rates m)"

lemma strategy_model_catalog: "strategy_model sv rp team i name expected = Inr (t', m, v) \<Longrightarrow> strategy_catalog rp m"
  unfolding strategy_catalog_def
  by (auto simp: strategy_model_def served_def split: option.split_asm if_split_asm)

lemma metered_call_spends:
  fixes w :: "(mem_store, 'c) world"
  assumes "honest_routing sv rp t" "strategy_catalog rp m" "wf_mem (wd_store w)"
  shows "spends t w (snd (metered_call sv memory_store meter key team m alias op request answer (rp_now rp n) w))"
  using metered_call_effect [OF assms(3), of m sv "rp_now rp n" t meter key team "alias" "op" request answer] assms(1,2)
  unfolding honest_routing_def timely_calls_def by (metis prod.collapse)

lemma judge_complete_spends:
  "honest_routing sv rp t \<Longrightarrow> spends_well t (judge_complete sv memory_store rp meter key team i name request)"
  unfolding spends_well_def judge_complete_def
  by (auto split: sum.split prod.split simp: spends_refl metered_call_spends strategy_model_catalog)

lemma embed_texts_spends:
  assumes "honest_routing sv rp t"
  shows "spends_well t (embed_texts sv memory_store rp meter key team i name texts)"
  unfolding spends_well_def
proof (intro allI impI)
  fix w :: "(mem_store, 'a) world"
  assume wf: "wf_mem (wd_store w)"
  show "spends t w (snd (embed_texts sv memory_store rp meter key team i name texts w))"
  proof (cases "strategy_model sv rp team i name Embeddings")
    case (Inl e)
    with wf show ?thesis by (simp add: embed_texts_def spends_refl)
  next
    case (Inr x)
    obtain t' m v where x: "x = (t', m, v)" by (cases x)
    let ?request = "[(''model'', JStr name), (''input'', JList (map JStr texts))]"
    obtain r w1 where r: "metered_call sv memory_store meter key t' m name ''routing.embeddings'' ?request (rp_embeddings rp ?request m v) (rp_now rp (length (wd_calls w))) w = (r, w1)"
      by fastforce
    have "spends t w w1" using metered_call_spends [OF assms strategy_model_catalog wf] Inr x r by (metis snd_conv)
    with Inr x r show ?thesis by (cases r) (simp_all add: embed_texts_def Let_def)
  qed
qed

text \<open>A selector that spends well on the shared state.\<close>

definition selector_spends :: "float_py \<Rightarrow> (route_cache \<times> (mem_store, 'c) world) selector \<Rightarrow> bool" where
  "selector_spends t sel \<longleftrightarrow> (\<forall>ctx candidates cache w. wf_mem (wd_store w) \<longrightarrow> spends t w (snd (snd (sel ctx candidates (cache, w)))))"

lemma embed_routes_spends:
  assumes "\<And>texts. spends_well t (ask model texts)" "wf_mem (wd_store w)"
  shows "spends t w (snd (embed_routes ask model rs w))"
  using assms(2)
proof (induction rs arbitrary: w)
  case Nil
  then show ?case by (simp add: spends_refl)
next
  case (Cons r rs)
  obtain res w1 where a: "ask model (sr_utterances r) w = (res, w1)" by fastforce
  have s: "spends t w w1" using assms(1) Cons.prems a unfolding spends_well_def by (metis snd_conv)
  show ?case
  proof (cases res)
    case (Inl e)
    with a s show ?thesis by simp
  next
    case (Inr vs)
    with a s Cons.IH [OF spends_wf [OF s]] show ?thesis by (auto split: prod.split sum.split intro: spends_trans)
  qed
qed

lemma vectors_of_spends:
  assumes "\<And>texts. spends_well t (ask (em_model em) texts)" "wf_mem (wd_store w)"
  shows "spends t w (snd (snd (vectors_of em ask (cache, w))))"
  using embed_routes_spends [of t ask "em_model em", OF assms] spends_refl [OF assms(2), of t]
  by (auto simp: vectors_of_def Let_def split: option.split prod.split sum.split) (metis snd_conv)+

lemma embeddings_select_spends:
  assumes "\<And>model texts. spends_well t (ask model texts)"
  shows "selector_spends t (embeddings_select em (Some ask))"
  unfolding selector_spends_def
proof (intro allI impI)
  fix ctx :: routing_context and candidates :: "candidate list" and cache and w :: "(mem_store, 'a) world"
  assume wf: "wf_mem (wd_store w)"
  obtain res w1 where a: "ask (em_model em) [user_text ctx] w = (res, w1)" by fastforce
  have s: "spends t w w1" using assms wf a unfolding spends_well_def by (metis snd_conv)
  have v: "spends t w (snd (snd (vectors_of em ask (cache, w1))))"
    using spends_trans [OF s vectors_of_spends [OF assms spends_wf [OF s]]] .
  show "spends t w (snd (snd (embeddings_select em (Some ask) ctx candidates (cache, w))))"
  proof (cases "\<exists>query. res = Inr [query]")
    case True
    then obtain query where "res = Inr [query]" by blast
    with a v show ?thesis by (auto simp: embeddings_select_def split: sum.split prod.split_asm prod.split) 
  next
    case False
    with a s show ?thesis by (auto simp: embeddings_select_def split: sum.split list.split)
  qed
qed

lemma judge_select_spends:
  fixes ask :: "string \<Rightarrow> body \<Rightarrow> (mem_store, 'a) world \<Rightarrow> (exc + body) \<times> (mem_store, 'a) world"
  assumes "\<And>model request. spends_well t (ask model request)"
  shows "selector_spends t (judge_select j (Some (\<lambda>model request (cache, w). case ask model request w of (r, w1) \<Rightarrow> (r, cache, w1))))"
  unfolding selector_spends_def
proof (intro allI impI)
  fix ctx :: routing_context and candidates :: "candidate list" and cache and w :: "(mem_store, 'a) world"
  assume wf: "wf_mem (wd_store w)"
  obtain res w1 where a: "ask (rj_model j) (judge_request j ctx candidates) w = (res, w1)" by fastforce
  have "spends t w w1" using assms wf a unfolding spends_well_def by (metis snd_conv)
  with a show "spends t w (snd (snd (judge_select j (Some (\<lambda>model request (cache, w). case ask model request w of (r, w1) \<Rightarrow> (r, cache, w1))) ctx candidates (cache, w))))"
    by (cases res) (simp_all add: judge_select_def)
qed

lemma hybrid_select_spends:
  assumes "selector_spends t sel"
  shows "selector_spends t (hybrid_select hy (Some sel))"
  unfolding selector_spends_def
proof (intro allI impI)
  fix ctx :: routing_context and candidates :: "candidate list" and cache and w :: "(mem_store, 'a) world"
  assume wf: "wf_mem (wd_store w)"
  then have "spends t w (snd (snd (sel ctx candidates (cache, w))))" using assms by (simp add: selector_spends_def)
  then show "spends t w (snd (snd (hybrid_select hy (Some sel) ctx candidates (cache, w))))"
    using spends_refl [OF wf, of t]
    by (auto simp: hybrid_select_def Let_def split: sum.split bool.split prod.split)
qed

lemma basic_strategy_spends:
  assumes "honest_routing sv rp t" "basic_strategy sv memory_store rp meter key team draw event name config = Inr sel"
  shows "selector_spends t sel"
proof -
  have pure: "selector_spends t (\<lambda>ctx candidates s. (f ctx candidates, s))" for f :: "routing_context \<Rightarrow> candidate list \<Rightarrow> exc + routing_decision"
    by (simp add: selector_spends_def spends_refl)
  have quiet: "selector_spends t (webhook_select W wh e)" for W wh e
    by (auto simp: selector_spends_def webhook_select_def Let_def spends_refl split: sum.split)
  consider i em where "sel = embeddings_select em (Some (embed_texts sv memory_store rp meter key team i))"
    | i j where "sel = judge_select j (Some (\<lambda>model request (cache, w). case judge_complete sv memory_store rp meter key team i model request w of (r, w1) \<Rightarrow> (r, cache, w1)))"
    | W wh e where "sel = webhook_select W wh e"
    | f where "sel = (\<lambda>ctx candidates s. (f ctx candidates, s))"
    using assms(2) by (auto simp: basic_strategy_def split: if_split_asm)
  then show ?thesis
  proof cases
    case 1
    show ?thesis unfolding 1 by (rule embeddings_select_spends) (rule embed_texts_spends [OF assms(1)])
  next
    case 2
    show ?thesis unfolding 2 by (rule judge_select_spends) (rule judge_complete_spends [OF assms(1)])
  next
    case 3
    show ?thesis unfolding 3 by (rule quiet)
  next
    case 4
    show ?thesis unfolding 4 by (rule pure)
  qed
qed

lemma build_strategy_spends:
  assumes "honest_routing sv rp t" "build_strategy sv memory_store rp meter key team draw event name config = Inr sel"
  shows "selector_spends t sel"
  using assms(2) basic_strategy_spends [OF assms(1)]
  by (auto simp: build_strategy_def split: if_split_asm intro: hybrid_select_spends)

lemma attempt_strategy_spends:
  assumes "honest_routing sv rp t" "wf_mem (wd_store (snd s))"
  shows "spends t (snd s) (snd (snd (attempt_strategy sv memory_store rp meter rn name config budget key ctx able s)))"
proof (cases "build_strategy sv memory_store rp meter key (ctx_team_id ctx) (ro_draw rn) (ro_event rn) name config")
  case (Inl e)
  with assms(2) show ?thesis by (simp add: attempt_strategy_def spends_refl)
next
  case (Inr sel)
  from build_strategy_spends [OF assms(1) Inr] assms(2) have "spends t (snd s) (snd (snd (sel ctx able s)))"
    by (cases s) (simp add: selector_spends_def)
  with Inr assms(2) show ?thesis by (auto simp: attempt_strategy_def spends_refl split: sum.split prod.split)
qed

lemma decide_spends:
  assumes "honest_routing sv rp t" "wf_mem (wd_store (snd s))" "decide sv memory_store rp meter rn router ctx able s = (res, s')"
  shows "spends t (snd s) (snd s')"
proof (cases "\<exists>c. able = [c]")
  case True
  with assms(2,3) show ?thesis by (auto simp: decide_def spends_refl)
next
  case False
  with assms(3) have r: "run_strategy sv memory_store rp meter rn router ctx able s = (res, s')"
    by (auto simp: decide_def split: list.split_asm)
  obtain x s1 where a: "attempt_strategy sv memory_store rp meter rn (rt_strategy router) (JObj (rt_strategy_config router))
      (dget_or (rt_strategy_config router) ''time_budget_ms'' (JInt default_time_budget_ms)) (ctx_api_key_id ctx) ctx able s = (x, s1)" using prod.exhaust by blast
  then have "s1 = s'" using r by (cases x) (simp_all add: run_strategy_def Let_def)
  with attempt_strategy_spends [OF assms(1,2), of meter rn "rt_strategy router" "JObj (rt_strategy_config router)" _ "ctx_api_key_id ctx" ctx able] a
  show ?thesis by (metis snd_conv)
qed

text \<open>
  C6. A routing decision leaves no reservation of its strategy's calls behind and bills at most once per
  provider call it made, whether it decides, falls back, is refused or runs out of time.
\<close>

theorem routing_spends_what_it_calls:
  fixes W :: "(mem_store, 'c) routing_world"
  assumes "honest_routing sv rp t" "wf_mem (wd_store (snd (rw_state W)))"
    and "route sv memory_store rp meter shadow_log rn router request team key W = (res, W')"
  shows "claims_kept t (wd_store (snd (rw_state W))) (wd_store (snd (rw_state W'))) \<and>
    (\<exists>calls evs. wd_calls (snd (rw_state W')) = wd_calls (snd (rw_state W)) @ calls \<and>
      all_events (wd_books (snd (rw_state W'))) = all_events (wd_books (snd (rw_state W))) + mset evs \<and> length evs \<le> length calls)"
proof -
  have "spends t (snd (rw_state W)) (snd (rw_state W'))"
  proof (cases "rbind (route_guard rp router team) (\<lambda>_. able_candidates router request team key)")
    case (Inl e)
    with assms(2,3) show ?thesis by (simp add: route_def spends_refl)
  next
    case (Inr x)
    obtain ctx able where x: "x = (ctx, able)" by (cases x)
    obtain r s' where r: "decide sv memory_store rp meter rn router ctx able (rw_state W) = (r, s')" using prod.exhaust by blast
    have "rw_state W' = s'"
      using assms(3) Inr x r by (auto simp: route_def persist_decision_def Let_def split: sum.split_asm option.split_asm prod.split_asm if_split_asm)
    with decide_spends [OF assms(1,2) r] show ?thesis by simp
  qed
  then show ?thesis by (simp add: spends_def)
qed

section \<open>A judged request\<close>

text \<open>A router over two models, one of which also judges, for a call that is metered.\<close>

definition judging_router :: router_config where
  "judging_router = sample_router\<lparr>rt_strategy := ''judge'', rt_strategy_config := [(''judge_model'', JStr ''b'')]\<rparr>"

definition verdict_of :: "string \<Rightarrow> body" where
  "verdict_of name = [(''choices'', JList [JObj [(''message'', JObj [(''content'', JStr name)])]])]"

definition judging_ports :: "exc + body \<Rightarrow> (mem_store, unit) routing_ports" where
  "judging_ports answer = \<lparr>rp_resolver = None, rp_model = (\<lambda>_. Inr None), rp_model_by_name = (\<lambda>_ _. Inr (Some priced_model)), rp_uuid = Inr, rp_wired = True,
     rp_chat = (\<lambda>_ _ _. answer), rp_embeddings = (\<lambda>_ _ _. answer),
     rp_webhook = \<lparr>wp_hostname = (\<lambda>_. Inr None), wp_literal_blocked = (\<lambda>_. True), wp_netloc = (\<lambda>_. Inr []), wp_encode = (\<lambda>_. []),
       wp_mac = (\<lambda>_ _. []), wp_time = 0, wp_post = (\<lambda>_ _ _. raise_py ValueError)\<rparr>,
     rp_now = (\<lambda>_. \<lparr>mn_key_gate = sample_gate, mn_team_gate = sample_gate, mn_settle = sample_now, mn_cut = False\<rparr>)\<rparr>"

definition judging_now :: route_now where
  "judging_now = \<lparr>ro_draw = 0, ro_event = ''e'', ro_late = False, ro_record_id = ''d'', ro_recorded = True\<rparr>"

definition judged_request :: body where
  "judged_request = [(''messages'', JList [JObj [(''role'', JStr ''user''), (''content'', JStr ''hi'')]])]"

definition judging_world :: "(mem_store, unit) routing_world" where
  "judging_world = \<lparr>rw_state = ([], sample_world), rw_log = [], rw_last = None, rw_shadows = []\<rparr>"

theorem route_survives_strategy_witness:
  "\<exists>d W'. route stocked_services memory_store (judging_ports (raise_exc (Upstream UpstreamUnavailable) [])) True False judging_now judging_router
      judged_request ''t'' (Some ''k'') judging_world = (Inr d, W') \<and> chosen_name d \<in> {''a'', ''b''}"
proof -
  let ?rp = "judging_ports (raise_exc (Upstream UpstreamUnavailable) [])"
  obtain res W' where r: "route stocked_services memory_store ?rp True False judging_now judging_router judged_request ''t'' (Some ''k'') judging_world = (res, W')"
    by (metis prod.exhaust)
  have g: "route_guard ?rp judging_router ''t'' = Inr ()"
    by (simp add: route_guard_def validate_revision_access_def uses_prompt_webhook_def judging_router_def sample_router_def)
  have "isl (able_candidates judging_router judged_request ''t'' (Some ''k'')) = False" by code_simp
  then obtain x where a: "able_candidates judging_router judged_request ''t'' (Some ''k'') = Inr x" 
    by (cases "able_candidates judging_router judged_request ''t'' (Some ''k'')") simp_all
  have c: "model_name ` set (rt_candidates judging_router) = {''a'', ''b''}" by (simp add: judging_router_def sample_router_def sample_candidate_def)
  from route_survives_strategy [OF r] g a have "\<exists>d c. res = Inr d \<and> c \<in> set (rt_candidates judging_router) \<and> chosen_name d = model_name c"
    by (cases res) auto
  with c r show ?thesis by (metis image_eqI)
qed

theorem routing_spends_what_it_calls_witness:
  "\<exists>calls evs W'. snd (route stocked_services memory_store (judging_ports (Inr (verdict_of ''{}''))) True False judging_now judging_router
      judged_request ''t'' (Some ''k'') judging_world) = W' \<and> claims_kept 10 [] (wd_store (snd (rw_state W'))) \<and>
    wd_calls (snd (rw_state W')) = calls \<and> all_events (wd_books (snd (rw_state W'))) = mset evs \<and> length evs \<le> length calls"
proof -
  let ?rp = "judging_ports (Inr (verdict_of ''{}''))"
  obtain res W' where r: "route stocked_services memory_store ?rp True False judging_now judging_router judged_request ''t'' (Some ''k'') judging_world = (res, W')"
    by (metis prod.exhaust)
  have "m = priced_model" if "strategy_catalog ?rp m" for m
    using that by (auto simp: strategy_catalog_def id_or_name_def router_model_def router_model_id_def judging_ports_def split: if_split_asm option.split_asm)
  then have "honest_routing stocked_services ?rp 10"
    using priced_model_honest sample_timely
    by (auto simp: honest_routing_def timely_calls_def timely_def sample_prepare_def judging_ports_def)
  moreover have "wf_mem (wd_store (snd (rw_state judging_world)))" by (simp add: judging_world_def sample_world_def wf_mem_def)
  ultimately show ?thesis using routing_spends_what_it_calls [OF _ _ r, of 10] r
    by (auto simp: judging_world_def sample_world_def empty_books_def all_events_def)
qed

end
