(* ===== verification/Router_Admin.thy ===== *)
theory Router_Admin
  imports Routing_Service
begin

text \<open>
  The administration of routers in \<open>application/routing/service.py\<close>: what a router must satisfy to be
  saved, the identities of models that are bound into it, and its extension to other teams. A router
  that is saved passes the check that guards every request, and its strategy can be built.
\<close>

section \<open>Validating a router\<close>

abbreviation bad_router :: "exc + 'a" where
  "bad_router \<equiv> raise_exc (Routing InvalidRouterConfig) []"

text \<open>\<open>STRATEGIES\<close>, and the constructors it holds, called for their errors only.\<close>

definition strategies :: "string list" where
  "strategies = [''complexity'', ''webhook'', ''embeddings'', ''judge'', ''hybrid'', ''weighted'']"

definition construct :: "webhook_ports \<Rightarrow> string \<Rightarrow> json \<Rightarrow> exc + unit" where
  "construct W name config =
    (if name = ''complexity'' then rbind (complexity_strategy config) (\<lambda>_. Inr ())
     else if name = ''webhook'' then rbind (webhook_strategy W config) (\<lambda>_. Inr ())
     else if name = ''embeddings'' then rbind (embeddings_strategy config) (\<lambda>_. Inr ())
     else if name = ''judge'' then rbind (judge_strategy config) (\<lambda>_. Inr ())
     else if name = ''hybrid'' then rbind (hybrid_strategy config) (\<lambda>_. Inr ())
     else Inr ())"

definition strategy_shape :: "webhook_ports \<Rightarrow> string \<Rightarrow> json \<Rightarrow> exc + unit" where
  "strategy_shape W name config = (if name \<notin> set strategies then bad_router else
     case construct W name config of Inl _ \<Rightarrow> bad_router | Inr _ \<Rightarrow> Inr ())"

definition shadow_config :: "router_config \<Rightarrow> json" where
  "shadow_config router = dget_or (rt_strategy_config router) ''shadow'' (JObj [])"

definition router_shape :: "router_config \<Rightarrow> exc + unit" where
  "router_shape router = (let names = map model_name (rt_candidates router) in
     if rt_candidates router = [] then bad_router
     else if \<not> distinct names then bad_router
     else if rt_default_model router \<notin> set names then bad_router
     else if rt_failover_enabled router \<and> (rt_max_attempts router < 1 \<or> int (length (rt_candidates router)) < rt_max_attempts router \<or>
       (case rt_overall_deadline_ms router of None \<Rightarrow> False | Some ms \<Rightarrow> ms \<le> 0)) then bad_router
     else Inr ())"

text \<open>The model a candidate names, whose identity, origin and owner are bound into it.\<close>

definition bind_candidate :: "('st, 'c) routing_ports \<Rightarrow> uuid option \<Rightarrow> candidate \<Rightarrow> exc + candidate" where
  "bind_candidate rp team c = rbind (if model_id c \<noteq> None \<and> rp_resolver rp \<noteq> None then router_model_id rp team (model_id c)
       else router_model rp team (JStr (model_name c))) (\<lambda>found. case found of
     None \<Rightarrow> bad_router
   | Some m \<Rightarrow> if \<not> usable Chat (Some m) then bad_router
       else Inr (c\<lparr>model_id := Some (md_id m),
         model_origin := Some (if md_team_id m = None then ''global'' else if md_team_id m = team then ''own'' else ''extended''),
         source_team_id := (if md_origin_team_id m \<noteq> None then md_origin_team_id m else md_team_id m)\<rparr>))"

text \<open>\<open>_validate_strategy_deps\<close>; an escalation is a judge or a webhook, so a hybrid goes one level deep.\<close>

definition judge_deps :: "('st, 'c) routing_ports \<Rightarrow> uuid option \<Rightarrow> body \<Rightarrow> exc + unit" where
  "judge_deps rp team config = rbind (as_uuid rp (dget config ''judge_model_id'')) (\<lambda>i.
     rbind (id_or_name rp team i (dget config ''judge_model'')) (\<lambda>found. if usable Chat found then Inr () else bad_router))"

definition route_targets :: "string list \<Rightarrow> json \<Rightarrow> exc + unit" where
  "route_targets names v = rbind (iterate v) (each (\<lambda>r. rbind (as_dict r) (\<lambda>d.
     if dget d ''target_model'' \<in> JStr ` set names then Inr () else bad_router)))"

definition embeddings_deps :: "('st, 'c) routing_ports \<Rightarrow> uuid option \<Rightarrow> string list \<Rightarrow> body \<Rightarrow> exc + unit" where
  "embeddings_deps rp team names config = rbind (as_uuid rp (dget config ''embedding_model_id'')) (\<lambda>i.
     rbind (id_or_name rp team i (dget config ''embedding_model'')) (\<lambda>found. if \<not> usable Embeddings found then bad_router
       else route_targets names (dget_or config ''routes'' (JList []))))"

definition weighted_deps :: "candidate list \<Rightarrow> exc + unit" where
  "weighted_deps = each (\<lambda>c. case weight c of None \<Rightarrow> bad_router | Some w \<Rightarrow> if w \<le> 0 then bad_router else Inr ())"

definition basic_deps :: "('st, 'c) routing_ports \<Rightarrow> router_config \<Rightarrow> string \<Rightarrow> json \<Rightarrow> exc + unit" where
  "basic_deps rp router name config =
    (if name = ''embeddings'' then rbind (as_dict config) (embeddings_deps rp (rt_team_id router) (map model_name (rt_candidates router)))
     else if name = ''judge'' then rbind (as_dict config) (judge_deps rp (rt_team_id router))
     else if name = ''weighted'' then weighted_deps (rt_candidates router)
     else Inr ())"

definition strategy_deps :: "('st, 'c) routing_ports \<Rightarrow> router_config \<Rightarrow> string \<Rightarrow> json \<Rightarrow> exc + unit" where
  "strategy_deps rp router name config = (if name = ''hybrid''
     then rbind (hybrid_strategy config) (\<lambda>shell. basic_deps rp router (hy_escalation_name shell) (hy_escalation_config shell))
     else basic_deps rp router name config)"

section \<open>Binding the models a strategy calls\<close>

definition found_model :: "model option \<Rightarrow> exc + model" where
  "found_model found = (case found of None \<Rightarrow> raise_py AssertionError | Some m \<Rightarrow> Inr m)"

definition bind_model :: "('st, 'c) routing_ports \<Rightarrow> uuid option \<Rightarrow> string \<Rightarrow> string \<Rightarrow> body \<Rightarrow> exc + body" where
  "bind_model rp team id_key name_key config = rbind (as_uuid rp (dget config id_key)) (\<lambda>i.
     rbind (id_or_name rp team i (dget config name_key)) (\<lambda>found. rbind (found_model found) (\<lambda>m.
     Inr (dict_put id_key (JStr (md_id m)) config))))"

text \<open>\<open>{**route, "target_model_id": str(candidate_ids[route["target_model"]])}\<close>.\<close>

definition bind_route :: "(string, uuid option) dict \<Rightarrow> json \<Rightarrow> exc + json" where
  "bind_route ids r = (case r of
     JObj d \<Rightarrow> rbind (item_of r ''target_model'') (\<lambda>t. case t of
       JStr name \<Rightarrow> (case map_of ids name of
           None \<Rightarrow> raise_py KeyError
         | Some i \<Rightarrow> Inr (JObj (dict_put ''target_model_id'' (JStr (case i of None \<Rightarrow> ''None'' | Some i \<Rightarrow> i)) d)))
     | _ \<Rightarrow> raise_py KeyError)
   | _ \<Rightarrow> raise_py TypeError)"

definition bind_basic :: "('st, 'c) routing_ports \<Rightarrow> uuid option \<Rightarrow> (string, uuid option) dict \<Rightarrow> string \<Rightarrow> json \<Rightarrow> exc + body" where
  "bind_basic rp team ids name config = rbind (dict_py config) (\<lambda>bound.
     if name = ''judge'' then bind_model rp team ''judge_model_id'' ''judge_model'' bound
     else if name = ''embeddings'' then
       rbind (bind_model rp team ''embedding_model_id'' ''embedding_model'' bound) (\<lambda>bound.
       rbind (iterate (dget_or bound ''routes'' (JList []))) (\<lambda>routes. rbind (rmap (bind_route ids) routes) (\<lambda>routes.
       Inr (dict_put ''routes'' (JList routes) bound))))
     else Inr bound)"

definition bind_strategy_refs :: "('st, 'c) routing_ports \<Rightarrow> uuid option \<Rightarrow> (string, uuid option) dict \<Rightarrow> string \<Rightarrow> json \<Rightarrow> exc + body" where
  "bind_strategy_refs rp team ids name config = (if name = ''hybrid''
     then rbind (dict_py config) (\<lambda>bound. rbind (hybrid_strategy config) (\<lambda>shell.
       rbind (bind_basic rp team ids (hy_escalation_name shell) (hy_escalation_config shell)) (\<lambda>escalation.
       Inr (dict_put ''escalation'' (JObj escalation) bound))))
     else bind_basic rp team ids name config)"

definition bind_shadow_refs :: "('st, 'c) routing_ports \<Rightarrow> router_config \<Rightarrow> (string, uuid option) dict \<Rightarrow> body \<Rightarrow> exc + body" where
  "bind_shadow_refs rp router ids config = (case rt_shadow_strategy router of
     None \<Rightarrow> Inr config
   | Some name \<Rightarrow> rbind (bind_strategy_refs rp (rt_team_id router) ids name (shadow_config router)) (\<lambda>shadow.
       Inr (dict_put ''shadow'' (JObj shadow) config)))"

text \<open>
  \<open>_validate\<close>: shapes, the name where no resolver keeps the namespace, the candidates, what the
  strategies rest on, and the router with the identities bound.
\<close>

definition for_shadow :: "router_config \<Rightarrow> (string \<Rightarrow> exc + unit) \<Rightarrow> exc + unit" where
  "for_shadow router f = (case rt_shadow_strategy router of None \<Rightarrow> Inr () | Some name \<Rightarrow> f name)"

definition name_free :: "('st, 'c) routing_ports \<Rightarrow> router_config \<Rightarrow> exc + unit" where
  "name_free rp router = (case rp_resolver rp of
     Some _ \<Rightarrow> Inr ()
   | None \<Rightarrow> rbind (rp_model_by_name rp (rt_team_id router) (JStr (rt_name router))) (\<lambda>found.
       if found \<noteq> None then raise_exc (Routing RouterNameExists) [rt_name router] else Inr ()))"

definition validate_router :: "('st, 'c) routing_ports \<Rightarrow> router_config \<Rightarrow> exc + router_config" where
  "validate_router rp router =
    rbind (strategy_shape (rp_webhook rp) (rt_strategy router) (JObj (rt_strategy_config router))) (\<lambda>_.
    rbind (for_shadow router (\<lambda>name. strategy_shape (rp_webhook rp) name (shadow_config router))) (\<lambda>_.
    rbind (router_shape router) (\<lambda>_.
    rbind (name_free rp router) (\<lambda>_.
    rbind (rmap (bind_candidate rp (rt_team_id router)) (rt_candidates router)) (\<lambda>bound.
    rbind (strategy_deps rp router (rt_strategy router) (JObj (rt_strategy_config router))) (\<lambda>_.
    rbind (for_shadow router (\<lambda>name. strategy_deps rp router name (shadow_config router))) (\<lambda>_. let
      ids = map (\<lambda>c. (model_name c, model_id c)) bound in
    rbind (bind_strategy_refs rp (rt_team_id router) ids (rt_strategy router) (JObj (rt_strategy_config router))) (\<lambda>config.
    rbind (bind_shadow_refs rp router ids config) (\<lambda>config.
    Inr (router\<lparr>rt_candidates := bound, rt_default_model_id := Option.bind (map_of ids (rt_default_model router)) (\<lambda>i. i),
      rt_strategy_config := config\<rparr>))))))))))"

section \<open>Bindings that last\<close>

text \<open>
  What the validation and the request rest on: the resolver is wired, a model read by its identity has
  that identity, and the text of an identity is parsed back to it.
\<close>

definition identities_kept :: "('st, 'c) routing_ports \<Rightarrow> alias_ports \<Rightarrow> bool" where
  "identities_kept rp A \<longleftrightarrow> rp_resolver rp = Some A \<and> (\<forall>i m. ap_model A i = Inr (Some m) \<longrightarrow> md_id m = i \<and> i \<noteq> [] \<and> rp_uuid rp i = Inr i)"

lemma place_values: "snd ` set (place reserved declared d b) \<subseteq> insert b (snd ` set d)"
  unfolding place_def Let_def using set_dict_put by fastforce

lemma foldl_place_values: "snd ` set (foldl (place reserved declared) d bs) \<subseteq> snd ` set d \<union> set bs"
proof (induction bs arbitrary: d)
  case (Cons b bs)
  from Cons.IH [of "place reserved declared d b"] place_values [of reserved declared d b] show ?case by auto
qed simp

lemma merge_values: "snd ` set (dict_merge d kvs) \<subseteq> snd ` set d \<union> snd ` set kvs"
proof (induction kvs arbitrary: d)
  case (Cons kv kvs)
  obtain k v where kv: "kv = (k, v)" by fastforce
  have "snd ` set (dict_put k v d) \<subseteq> insert v (snd ` set d)" using set_dict_put by fastforce
  with Cons.IH [of "dict_put k v d"] kv show ?case by auto
qed simp

lemma effective_bindings_explicit: "map_of (effective_bindings explicit reserved team) a = Some b \<Longrightarrow> b \<in> set explicit"
proof -
  assume "map_of (effective_bindings explicit reserved team) a = Some b"
  then have "b \<in> snd ` set (effective_bindings explicit reserved team)" by (metis map_of_SomeD rev_image_eqI snd_conv)
  also have "\<dots> \<subseteq> set explicit"
    unfolding effective_bindings_def Let_def
    by (rule order.trans [OF foldl_place_values]) (auto simp: image_image dest!: subsetD [OF merge_values])
  finally show ?thesis .
qed

lemma resolved_model:
  assumes "resolve_model A team v = Inr (Some m)"
  shows "\<exists>i. ap_model A i = Inr (Some m) \<and> resolve_model_id A team i = Inr (Some m)"
proof -
  obtain x where x: "resolve_alias A team v = Inr (Some x)" "rc_kind x = Model_Callable" "as_model x = Inr m"
    using assms by (auto simp: resolve_model_def split: option.split_asm if_split_asm)
  obtain explicit reserved where s: "ap_snapshot A team = Inr (explicit, reserved)"
    using x(1) by (auto simp: resolve_alias_def)
  obtain a b where ab: "map_of (effective_bindings explicit reserved team) a = Some b" "load_callable A a b = Inr (Some x)"
    using x(1) s by (auto simp: resolve_alias_def split: if_split_asm json.split_asm option.split_asm)
  then have b: "rc_binding x = b" "load_resource A b = Inr (Some (rc_resource x))" by (auto simp: load_callable_def)
  with x(2,3) have "ab_kind b = Model_Callable" "ap_model A (ab_resource_id b) = Inr (Some m)"
    by (auto simp: rc_kind_def load_resource_def as_model_def split: callable_resource.split_asm if_split_asm)
  with effective_bindings_explicit [OF ab(1)] s show ?thesis by (auto simp: resolve_model_id_def)
qed

lemma model_found_again:
  assumes "identities_kept rp A" "id_or_name rp team i name = Inr (Some m)"
  shows "md_id m \<noteq> [] \<and> rp_uuid rp (md_id m) = Inr (md_id m) \<and> router_model_id rp team (Some (md_id m)) = Inr (Some m)"
proof -
  have "\<exists>j. ap_model A j = Inr (Some m) \<and> resolve_model_id A team j = Inr (Some m)"
  proof (cases i)
    case None
    with assms show ?thesis
      by (auto simp: id_or_name_def router_model_def identities_kept_def split: if_split_asm dest: resolved_model)
  next
    case (Some j)
    with assms have j: "resolve_model_id A team j = Inr (Some m)" by (simp add: id_or_name_def router_model_id_def identities_kept_def)
    then have "ap_model A j = Inr (Some m)" by (auto simp: resolve_model_id_def split: if_split_asm)
    with j show ?thesis by blast
  qed
  then obtain j where j: "ap_model A j = Inr (Some m)" "resolve_model_id A team j = Inr (Some m)" by blast
  then have "md_id m = j \<and> j \<noteq> [] \<and> rp_uuid rp j = Inr j" using assms(1) by (simp add: identities_kept_def)
  with j(2) assms(1) show ?thesis by (simp add: router_model_id_def identities_kept_def)
qed

lemma candidate_bound:
  assumes "identities_kept rp A" "bind_candidate rp team c = Inr c'"
  shows "model_name c' = model_name c \<and> (\<exists>m. usable Chat (Some m) \<and> router_model_id rp team (model_id c') = Inr (Some m))"
proof -
  have "id_or_name rp team (model_id c) (JStr (model_name c)) = (if model_id c \<noteq> None \<and> rp_resolver rp \<noteq> None then router_model_id rp team (model_id c)
       else router_model rp team (JStr (model_name c)))" using assms(1) by (simp add: id_or_name_def identities_kept_def)
  with assms(2) obtain m where m: "id_or_name rp team (model_id c) (JStr (model_name c)) = Inr (Some m)" "usable Chat (Some m)"
    "model_id c' = Some (md_id m)" "model_name c' = model_name c"
    by (auto simp: bind_candidate_def split: option.split_asm if_split_asm)
  with model_found_again [OF assms(1) m(1)] show ?thesis by auto
qed

lemma model_bound:
  assumes "identities_kept rp A" "bind_model rp team id_key name_key config = Inr b"
  shows "\<exists>i m. as_uuid rp (dget config id_key) = Inr i \<and> id_or_name rp team i (dget config name_key) = Inr (Some m) \<and>
    b = dict_put id_key (JStr (md_id m)) config \<and> md_id m \<noteq> [] \<and> rp_uuid rp (md_id m) = Inr (md_id m) \<and>
    router_model_id rp team (Some (md_id m)) = Inr (Some m)"
proof -
  obtain i found m where "as_uuid rp (dget config id_key) = Inr i" "id_or_name rp team i (dget config name_key) = Inr found"
    "found_model found = Inr m" "b = dict_put id_key (JStr (md_id m)) config"
    using assms(2) by (auto simp: bind_model_def)
  moreover from this have "found = Some m" by (auto simp: found_model_def split: option.split_asm)
  ultimately show ?thesis using model_found_again [OF assms(1)] by blast
qed

lemma bound_model_kept:
  assumes "dget b id_key = JStr i" "i \<noteq> []" "rp_uuid rp i = Inr i" "router_model_id rp (Some team) (Some i) = Inr (Some m)"
  shows "bound_model rp team b id_key name_key True = Inr (Some m)"
  using assms by (simp add: bound_model_def as_uuid_def py_str_def)

text \<open>What is bound into a configuration is none of the entries the constructors read.\<close>

lemma config_of_obj [simp]: "config_of (JObj d) = Inr d"
  by (cases d) (simp_all add: config_of_def py_or_def)

lemma dict_py_obj [simp]: "dict_py (JObj d) = Inr d"
  by (simp add: dict_py_def)

lemma as_dict_Inr [simp]: "as_dict v = Inr d \<longleftrightarrow> v = JObj d"
  by (cases v) (auto simp: as_dict_def)

lemma dget_or_put: "dget_or (dict_put k v d) k' w = (if k' = k then v else dget_or d k' w)"
  by (simp add: dget_or_def dict_simps)

lemma map_of_put: "map_of (dict_put k v d) k' = (if k' = k then Some v else map_of d k')"
  by (simp add: dict_simps)

lemma reads_put:
  assumes "k \<noteq> k'"
  shows "dget (dict_put k v d) k' = dget d k'" "dget_or (dict_put k v d) k' w = dget_or d k' w"
    "overlaid x (dict_put k v d) k' = overlaid x d k'" "word_list (dict_put k v d) k' ws = word_list d k' ws"
  using assms by (auto simp: dget_put dget_or_put overlaid_def word_list_def)

definition bound_keys :: "string set" where
  "bound_keys = {''shadow'', ''escalation'', ''judge_model_id'', ''embedding_model_id'', ''target_model_id''}"

lemma complexity_put: "k \<in> bound_keys \<Longrightarrow> complexity_strategy (JObj (dict_put k v d)) = complexity_strategy (JObj d)"
proof -
  assume "k \<in> bound_keys"
  then have n: "k \<noteq> ''dimension_weights''"
    "k \<noteq> ''tier_boundaries''"
    "k \<noteq> ''token_thresholds''"
    "k \<noteq> ''code_keywords''"
    "k \<noteq> ''reasoning_keywords''"
    "k \<noteq> ''technical_keywords''"
    "k \<noteq> ''simple_keywords''"
    "k \<noteq> ''tiers''" by (auto simp: bound_keys_def)
  show ?thesis unfolding complexity_strategy_def config_of_obj rbind_simps json.case reads_put [OF n(1)] reads_put [OF n(2)] reads_put [OF n(3)] reads_put [OF n(4)] reads_put [OF n(5)] reads_put [OF n(6)] reads_put [OF n(7)] reads_put [OF n(8)] ..
qed

lemma judge_put: "k \<in> bound_keys \<Longrightarrow> judge_strategy (JObj (dict_put k v d)) = judge_strategy (JObj d)"
proof -
  assume "k \<in> bound_keys"
  then have n: "k \<noteq> ''judge_model''"
    "k \<noteq> ''char_budget''" by (auto simp: bound_keys_def)
  show ?thesis unfolding judge_strategy_def config_of_obj rbind_simps json.case reads_put [OF n(1)] reads_put [OF n(2)] ..
qed

lemma webhook_put: "k \<in> bound_keys \<Longrightarrow> webhook_strategy W (JObj (dict_put k v d)) = webhook_strategy W (JObj d)"
proof -
  assume "k \<in> bound_keys"
  then have n: "k \<noteq> ''url''"
    "k \<noteq> ''timeout_ms''"
    "k \<noteq> ''bearer_token''"
    "k \<noteq> ''signing_secret''" by (auto simp: bound_keys_def)
  show ?thesis unfolding webhook_strategy_def config_of_obj rbind_simps json.case reads_put [OF n(1)] reads_put [OF n(2)] reads_put [OF n(3)] reads_put [OF n(4)] ..
qed

lemma embeddings_put: "k \<in> bound_keys \<Longrightarrow> embeddings_strategy (JObj (dict_put k v d)) = embeddings_strategy (JObj d)"
proof -
  assume "k \<in> bound_keys"
  then have n: "k \<noteq> ''embedding_model''"
    "k \<noteq> ''routes''" by (auto simp: bound_keys_def)
  show ?thesis unfolding embeddings_strategy_def config_of_obj rbind_simps json.case reads_put [OF n(1)] reads_put [OF n(2)] ..
qed

lemma parse_route_put: "k \<in> bound_keys \<Longrightarrow> parse_route (JObj (dict_put k v d)) = parse_route (JObj d)"
proof -
  assume "k \<in> bound_keys"
  then have n: "k \<noteq> ''name''"
    "k \<noteq> ''target_model''"
    "k \<noteq> ''utterances''"
    "k \<noteq> ''threshold''" by (auto simp: bound_keys_def)
  show ?thesis unfolding parse_route_def config_of_obj rbind_simps json.case reads_put [OF n(1)] reads_put [OF n(2)] reads_put [OF n(3)] reads_put [OF n(4)] ..
qed

lemma hybrid_put_shadow: "hybrid_strategy (JObj (dict_put ''shadow'' v d)) = hybrid_strategy (JObj d)"
proof -
  have n: "''shadow'' \<noteq> ''escalation_strategy''" "''shadow'' \<noteq> ''margin''" "''shadow'' \<noteq> ''tier_boundaries''" "''shadow'' \<noteq> ''escalation''"
    and k: "''shadow'' \<in> bound_keys" by (simp_all add: bound_keys_def)
  show ?thesis unfolding hybrid_strategy_def config_of_obj rbind_simps complexity_put [OF k]
      reads_put [OF n(1)] reads_put [OF n(2)] reads_put [OF n(3)] reads_put [OF n(4)] ..
qed

lemma hybrid_put_escalation:
  assumes "hybrid_strategy (JObj d) = Inr hy"
  shows "hybrid_strategy (JObj (dict_put ''escalation'' v d)) = Inr (hy\<lparr>hy_escalation_config := v\<rparr>)"
proof -
  obtain name margin cx boundaries where h: "dget d ''escalation_strategy'' = JStr name" "name \<in> {''judge'', ''webhook''}"
    "number_of (dget_or d ''margin'' (JFloat default_margin)) = Inr margin" "\<not> margin \<le> 0" "complexity_strategy (JObj d) = Inr cx"
    "overlaid default_tier_boundaries d ''tier_boundaries'' = Inr boundaries"
    "hy = \<lparr>hy_escalation_name = name, hy_escalation_config = dget_or d ''escalation'' (JObj []), hy_margin = rnd margin, hy_rule_based = cx, hy_boundaries = boundaries\<rparr>"
    using assms by (auto simp: hybrid_strategy_def split: json.split_asm if_split_asm sum.split_asm)
  have "overlaid default_tier_boundaries (dict_put ''escalation'' v d) ''tier_boundaries'' = Inr boundaries"
    using h(6) by (simp add: reads_put)
  with h show ?thesis unfolding hybrid_strategy_def by (auto simp: dget_put dget_or_put complexity_put bound_keys_def)
qed

lemma hybrid_obj: "hybrid_strategy v = Inr hy \<Longrightarrow> \<exists>d. v = JObj d"
proof (rule ccontr)
  assume h: "hybrid_strategy v = Inr hy" "\<nexists>d. v = JObj d"
  then obtain config where c: "config_of v = Inr config" by (auto simp: hybrid_strategy_def)
  with h(2) have "config = []" by (cases v) (auto simp: config_of_def py_or_def split: if_split_asm)
  with h(1) c show False by (simp add: hybrid_strategy_def dget_def)
qed

lemma basic_access_put_shadow: "basic_access rp team strict name (JObj (dict_put ''shadow'' v d)) = basic_access rp team strict name (JObj d)"
  by (simp add: basic_access_def bound_model_def as_dict_def dget_put)

lemma access_put_shadow:
  "validate_bound_strategy_access rp team strict name (JObj (dict_put ''shadow'' v d)) = validate_bound_strategy_access rp team strict name (JObj d)"
  by (simp add: validate_bound_strategy_access_def hybrid_put_shadow basic_access_put_shadow)

lemma basic_refs_accessible:
  assumes "identities_kept rp A" "rt_team_id router = Some team" "basic_deps rp router name config = Inr ()"
    and "bind_basic rp (Some team) ids name config = Inr b"
  shows "basic_access rp team True name (JObj b) = Inr ()"
proof -
  consider (judge) "name = ''judge''" | (embeddings) "name = ''embeddings''" | (other) "name \<noteq> ''judge''" "name \<noteq> ''embeddings''" by blast
  then show ?thesis
  proof cases
    case judge
    with assms(3) obtain d i found where d: "config = JObj d" "as_uuid rp (dget d ''judge_model_id'') = Inr i"
      "id_or_name rp (Some team) i (dget d ''judge_model'') = Inr found" "usable Chat found"
      by (auto simp: basic_deps_def judge_deps_def assms(2) split: if_split_asm)
    with judge assms(4) have "bind_model rp (Some team) ''judge_model_id'' ''judge_model'' d = Inr b" by (simp add: bind_basic_def)
    from model_bound [OF assms(1) this] d(2,3) obtain m where m: "found = Some m" "b = dict_put ''judge_model_id'' (JStr (md_id m)) d"
      "md_id m \<noteq> []" "rp_uuid rp (md_id m) = Inr (md_id m)" "router_model_id rp (Some team) (Some (md_id m)) = Inr (Some m)" by auto
    then have "bound_model rp team b ''judge_model_id'' ''judge_model'' True = Inr (Some m)"
      by (intro bound_model_kept [of b _ "md_id m"]) (simp_all add: dget_put)
    with judge d(4) m(1) show ?thesis by (simp add: basic_access_def as_dict_def)
  next
    case embeddings
    with assms(3) obtain d i found where d: "config = JObj d" "as_uuid rp (dget d ''embedding_model_id'') = Inr i"
      "id_or_name rp (Some team) i (dget d ''embedding_model'') = Inr found" "usable Embeddings found"
      by (auto simp: basic_deps_def embeddings_deps_def assms(2) split: if_split_asm)
    with embeddings assms(4) obtain b0 rs where b: "bind_model rp (Some team) ''embedding_model_id'' ''embedding_model'' d = Inr b0"
      "b = dict_put ''routes'' (JList rs) b0" by (auto simp: bind_basic_def)
    from model_bound [OF assms(1) b(1)] d(2,3) obtain m where m: "found = Some m" "b0 = dict_put ''embedding_model_id'' (JStr (md_id m)) d"
      "md_id m \<noteq> []" "rp_uuid rp (md_id m) = Inr (md_id m)" "router_model_id rp (Some team) (Some (md_id m)) = Inr (Some m)" by auto
    then have "bound_model rp team b ''embedding_model_id'' ''embedding_model'' True = Inr (Some m)"
      by (intro bound_model_kept [of b _ "md_id m"]) (simp_all add: dget_put b(2))
    with embeddings d(4) m(1) show ?thesis by (simp add: basic_access_def as_dict_def)
  next
    case other
    then show ?thesis by (simp add: basic_access_def)
  qed
qed

lemma refs_accessible:
  assumes "identities_kept rp A" "rt_team_id router = Some team" "strategy_deps rp router name config = Inr ()"
    and "bind_strategy_refs rp (Some team) ids name config = Inr b"
  shows "validate_bound_strategy_access rp team True name (JObj b) = Inr ()"
proof (cases "name = ''hybrid''")
  case True
  with assms(3,4) obtain hy d e where h: "hybrid_strategy config = Inr hy" "dict_py config = Inr d"
    "basic_deps rp router (hy_escalation_name hy) (hy_escalation_config hy) = Inr ()"
    "bind_basic rp (Some team) ids (hy_escalation_name hy) (hy_escalation_config hy) = Inr e" "b = dict_put ''escalation'' (JObj e) d"
    by (auto simp: strategy_deps_def bind_strategy_refs_def)
  with hybrid_obj [OF h(1)] have "config = JObj d" by auto
  with h(1) have "hybrid_strategy (JObj b) = Inr (hy\<lparr>hy_escalation_config := JObj e\<rparr>)"
    unfolding h(5) by (simp add: hybrid_put_escalation)
  with True basic_refs_accessible [OF assms(1,2) h(3,4)] show ?thesis by (simp add: validate_bound_strategy_access_def)
next
  case False
  with assms show ?thesis by (simp add: strategy_deps_def bind_strategy_refs_def validate_bound_strategy_access_def basic_refs_accessible)
qed

section \<open>A saved router can be used\<close>

lemma validated:
  assumes "validate_router rp router = Inr r"
  obtains bound ids config config' where
    "strategy_shape (rp_webhook rp) (rt_strategy router) (JObj (rt_strategy_config router)) = Inr ()" "router_shape router = Inr ()"
    "rmap (bind_candidate rp (rt_team_id router)) (rt_candidates router) = Inr bound"
    "strategy_deps rp router (rt_strategy router) (JObj (rt_strategy_config router)) = Inr ()"
    "for_shadow router (\<lambda>name. strategy_deps rp router name (shadow_config router)) = Inr ()"
    "bind_strategy_refs rp (rt_team_id router) ids (rt_strategy router) (JObj (rt_strategy_config router)) = Inr config"
    "bind_shadow_refs rp router ids config = Inr config'" "ids = map (\<lambda>c. (model_name c, model_id c)) bound"
    "r = router\<lparr>rt_candidates := bound, rt_default_model_id := Option.bind (map_of ids (rt_default_model router)) (\<lambda>i. i), rt_strategy_config := config'\<rparr>"
proof -
  from assms obtain u1 u2 u3 u4 u6 u7 :: unit and bound config config' where v:
    "strategy_shape (rp_webhook rp) (rt_strategy router) (JObj (rt_strategy_config router)) = Inr u1" "router_shape router = Inr u3"
    "rmap (bind_candidate rp (rt_team_id router)) (rt_candidates router) = Inr bound"
    "strategy_deps rp router (rt_strategy router) (JObj (rt_strategy_config router)) = Inr u6"
    "for_shadow router (\<lambda>name. strategy_deps rp router name (shadow_config router)) = Inr u7"
    "bind_strategy_refs rp (rt_team_id router) (map (\<lambda>c. (model_name c, model_id c)) bound) (rt_strategy router) (JObj (rt_strategy_config router)) = Inr config"
    "bind_shadow_refs rp router (map (\<lambda>c. (model_name c, model_id c)) bound) config = Inr config'"
    "router\<lparr>rt_candidates := bound, rt_default_model_id := Option.bind (map_of (map (\<lambda>c. (model_name c, model_id c)) bound) (rt_default_model router)) (\<lambda>i. i),
      rt_strategy_config := config'\<rparr> = r"
    unfolding validate_router_def Let_def rbind_eq_Inr sum.inject by blast
  show ?thesis by (rule that [OF _ _ v(3) _ _ v(6,7) refl]) (use v in simp_all)
qed

lemma candidates_bound:
  assumes "identities_kept rp A" "rmap (bind_candidate rp team) cs = Inr bound"
  shows "map model_name bound = map model_name cs \<and> (\<forall>c \<in> set bound. \<exists>m. usable Chat (Some m) \<and> router_model_id rp team (model_id c) = Inr (Some m))"
  using assms(2)
proof (induction cs arbitrary: bound)
  case (Cons c cs)
  then obtain c' cs' where "bind_candidate rp team c = Inr c'" "rmap (bind_candidate rp team) cs = Inr cs'" "bound = c' # cs'" by auto
  with Cons.IH candidate_bound [OF assms(1)] show ?case by auto
qed simp

lemma shadow_refs:
  assumes "identities_kept rp A" "rt_team_id router = Some team" "for_shadow router (\<lambda>name. strategy_deps rp router name (shadow_config router)) = Inr ()"
    and "bind_shadow_refs rp router ids config = Inr config'"
  shows "(config' = config \<and> rt_shadow_strategy router = None) \<or> (\<exists>shadow name. rt_shadow_strategy router = Some name \<and> config' = dict_put ''shadow'' (JObj shadow) config \<and>
    validate_bound_strategy_access rp team True name (JObj shadow) = Inr ())"
proof (cases "rt_shadow_strategy router")
  case None
  with assms(4) show ?thesis by (simp add: bind_shadow_refs_def)
next
  case (Some name)
  with assms obtain shadow where s: "bind_strategy_refs rp (Some team) ids name (shadow_config router) = Inr shadow" "config' = dict_put ''shadow'' (JObj shadow) config"
    "strategy_deps rp router name (shadow_config router) = Inr ()" by (auto simp: bind_shadow_refs_def for_shadow_def)
  with Some refs_accessible [OF assms(1,2) s(3,1)] show ?thesis by blast
qed

lemma route_bound: "bind_route ids x = Inr y \<Longrightarrow> \<exists>d i. x = JObj d \<and> y = JObj (dict_put ''target_model_id'' i d)"
proof (cases x)
  case (JObj d)
  assume "bind_route ids x = Inr y"
  with JObj obtain t where "(case t of JStr name \<Rightarrow> (case map_of ids name of None \<Rightarrow> raise_py KeyError
       | Some i \<Rightarrow> Inr (JObj (dict_put ''target_model_id'' (JStr (case i of None \<Rightarrow> ''None'' | Some i \<Rightarrow> i)) d))) | _ \<Rightarrow> raise_py KeyError) = Inr y"
    by (auto simp: bind_route_def)
  then obtain i where "y = JObj (dict_put ''target_model_id'' i d)" by (cases t) (auto split: option.split_asm)
  with JObj show ?thesis by blast
qed (simp_all add: bind_route_def)

lemma routes_bound:
  "rmap (bind_route ids) rs = Inr rs' \<Longrightarrow> rmap parse_route rs' = rmap parse_route rs"
proof (induction rs arbitrary: rs')
  case (Cons x rs)
  then obtain y ys where y: "bind_route ids x = Inr y" "rmap (bind_route ids) rs = Inr ys" "rs' = y # ys" by auto
  from route_bound [OF y(1)] have "parse_route y = parse_route x" by (auto simp: parse_route_put bound_keys_def)
  with Cons.IH [OF y(2)] y(3) show ?case by simp
qed simp

lemma embeddings_routes:
  assumes "embeddings_strategy (JObj d) = Inr em" "rbind (iterate (dget_or d ''routes'' (JList []))) (rmap (bind_route ids)) = Inr rs"
  shows "embeddings_strategy (JObj (dict_put ''routes'' (JList rs) d)) = Inr em"
proof -
  obtain model xs where m: "nonempty_str (dget d ''embedding_model'') = Inr model" "nonempty_list (dget d ''routes'') = Inr xs"
    "rmap parse_route xs = Inr (em_routes em)" "em_model em = model"
    using assms(1) by (auto simp: embeddings_strategy_def)
  then have d: "dget d ''routes'' = JList xs" "xs \<noteq> []" by (auto simp: nonempty_list_def split: json.split_asm if_split_asm list.split_asm)
  then have "dget_or d ''routes'' (JList []) = JList xs" by (auto simp: dget_def dget_or_def split: option.splits)
  with assms(2) have r: "rmap (bind_route ids) xs = Inr rs" by simp
  from routes_bound [OF r] m(3) have p: "rmap parse_route rs = Inr (em_routes em)" by simp
  from rmap_Inr_length [OF r] d(2) have "nonempty_list (JList rs) = Inr rs" by (cases rs) (auto simp: nonempty_list_def)
  with m(1,4) p show ?thesis by (simp add: embeddings_strategy_def dget_put)
qed

lemma strategies_cases:
  assumes "name \<in> set strategies"
  shows "name = ''complexity'' \<or> name = ''webhook'' \<or> name = ''embeddings'' \<or> name = ''judge'' \<or> name = ''hybrid'' \<or> name = ''weighted''"
  using assms by (simp only: strategies_def list.set insert_iff empty_iff simp_thms)

lemma bound_strategy_builds:
  assumes "identities_kept rp A" "name \<in> set strategies" "name \<noteq> ''hybrid''" "construct (rp_webhook rp) name (JObj d) = Inr ()"
    and "bind_basic rp team ids name (JObj d) = Inr b" "b' = b \<or> b' = dict_put ''shadow'' v b"
  shows "\<exists>sel. basic_strategy sv so rp meter key team' draw event name (JObj b') = Inr sel"
proof -
  have k: "''shadow'' \<in> bound_keys" "''judge_model_id'' \<in> bound_keys" "''embedding_model_id'' \<in> bound_keys" by (simp_all add: bound_keys_def)
  consider "name = ''judge''" | "name = ''embeddings''" | "name = ''complexity''" | "name = ''webhook''" | "name = ''weighted''"
    using strategies_cases [OF assms(2)] assms(3) by argo
  then show ?thesis
  proof cases
    case 1
    with assms(5) have "bind_model rp team ''judge_model_id'' ''judge_model'' d = Inr b" by (simp add: bind_basic_def)
    from model_bound [OF assms(1) this] obtain m :: model where m: "b = dict_put ''judge_model_id'' (JStr (md_id m)) d" "rp_uuid rp (md_id m) = Inr (md_id m)"
      by auto
    obtain j where j: "judge_strategy (JObj d) = Inr j" using assms(4) unfolding 1 construct_def by auto
    have "judge_strategy (JObj b) = judge_strategy (JObj d)" unfolding m(1) by (rule judge_put [OF k(2)])
    with j have "judge_strategy (JObj b') = Inr j" using assms(6) judge_put [OF k(1)] by metis
    moreover have "as_uuid rp (dget b' ''judge_model_id'') = Inr (Some (md_id m))" using m assms(6) by (auto simp: dget_put as_uuid_def py_str_def)
    ultimately show ?thesis using 1 by (simp add: basic_strategy_def as_dict_def)
  next
    case 2
    with assms(5) obtain b0 rs where b: "bind_model rp team ''embedding_model_id'' ''embedding_model'' d = Inr b0"
      "rbind (iterate (dget_or b0 ''routes'' (JList []))) (rmap (bind_route ids)) = Inr rs" "b = dict_put ''routes'' (JList rs) b0"
      by (auto simp: bind_basic_def)
    from model_bound [OF assms(1) b(1)] obtain m :: model where m: "b0 = dict_put ''embedding_model_id'' (JStr (md_id m)) d" "rp_uuid rp (md_id m) = Inr (md_id m)"
      by auto
    obtain em where em: "embeddings_strategy (JObj d) = Inr em" using assms(4) unfolding 2 construct_def by auto
    then have "embeddings_strategy (JObj b0) = Inr em" unfolding m(1) embeddings_put [OF k(3)] .
    from embeddings_routes [OF this b(2)] have "embeddings_strategy (JObj b') = Inr em" using assms(6) embeddings_put [OF k(1)] unfolding b(3) by metis
    moreover have "as_uuid rp (dget b' ''embedding_model_id'') = Inr (Some (md_id m))" using m b(3) assms(6) by (auto simp: dget_put as_uuid_def py_str_def)
    ultimately show ?thesis using 2 by (simp add: basic_strategy_def as_dict_def)
  next
    case 3
    with assms(4,5,6) k show ?thesis by (auto simp: construct_def bind_basic_def basic_strategy_def complexity_put)
  next
    case 4
    with assms(4,5,6) k show ?thesis by (auto simp: construct_def bind_basic_def basic_strategy_def webhook_put)
  next
    case 5
    then show ?thesis by (simp add: basic_strategy_def)
  qed
qed

text \<open>
  C8. A router that is saved for a team passes, for that team, the access check that guards every request
  of its revisions; its candidates keep their names and its default is one of them, by identity; and
  its strategy can be built, if it is not the hybrid one.
\<close>

theorem saved_router_serves:
  assumes "identities_kept rp A" "rt_team_id router = Some team" "validate_router rp router = Inr r"
  shows "validate_revision_access rp (r\<lparr>rt_revision_id := revision\<rparr>) team = Inr () \<and>
    map model_name (rt_candidates r) = map model_name (rt_candidates router) \<and>
    (\<exists>c \<in> set (rt_candidates r). model_name c = rt_default_model r \<and> model_id c = rt_default_model_id r \<and> model_id c \<noteq> None) \<and>
    (rt_strategy r \<noteq> ''hybrid'' \<longrightarrow>
      (\<exists>sel. build_strategy sv so rp meter key (Some team) draw event (rt_strategy r) (JObj (rt_strategy_config r)) = Inr sel))"
  using assms(3)
proof (rule validated)
  fix bound ids config config'
  assume v: "strategy_shape (rp_webhook rp) (rt_strategy router) (JObj (rt_strategy_config router)) = Inr ()" "router_shape router = Inr ()"
    "rmap (bind_candidate rp (rt_team_id router)) (rt_candidates router) = Inr bound"
    "strategy_deps rp router (rt_strategy router) (JObj (rt_strategy_config router)) = Inr ()"
    "for_shadow router (\<lambda>name. strategy_deps rp router name (shadow_config router)) = Inr ()"
    "bind_strategy_refs rp (rt_team_id router) ids (rt_strategy router) (JObj (rt_strategy_config router)) = Inr config"
    "bind_shadow_refs rp router ids config = Inr config'" "ids = map (\<lambda>c. (model_name c, model_id c)) bound"
    and r: "r = router\<lparr>rt_candidates := bound, rt_default_model_id := Option.bind (map_of ids (rt_default_model router)) (\<lambda>i. i), rt_strategy_config := config'\<rparr>"
  note cs = candidates_bound [OF assms(1) v(3)]
  note access = refs_accessible [OF assms(1,2) v(4) v(6) [unfolded assms(2)]]
  have sh: "config' = config \<or> (\<exists>shadow. config' = dict_put ''shadow'' (JObj shadow) config)"
    "case rt_shadow_strategy router of None \<Rightarrow> True | Some name \<Rightarrow> validate_bound_strategy_access rp team True name (dget_or config' ''shadow'' (JObj [])) = Inr ()"
    using shadow_refs [OF assms(1,2) v(5,7)] by (auto simp: dget_or_put)
  have "validate_bound_strategy_access rp team True (rt_strategy router) (JObj config') = Inr ()"
    using sh(1) access by (auto simp: access_put_shadow)
  with cs sh(2) have a: "validate_revision_access rp (r\<lparr>rt_revision_id := revision\<rparr>) team = Inr ()"
    by (auto simp: validate_revision_access_def r assms(2) split: option.splits)
  have "rt_default_model router \<in> set (map model_name bound)" "distinct (map model_name bound)"
    using v(2) cs by (auto simp: router_shape_def Let_def split: if_split_asm)
  then obtain c where c: "c \<in> set bound" "model_name c = rt_default_model router" by auto
  then have "map_of ids (rt_default_model router) = Some (model_id c)"
    using \<open>distinct (map model_name bound)\<close> v(8) by (intro map_of_is_SomeI) (force simp: comp_def)+
  moreover have "model_id c \<noteq> None"
  proof
    assume "model_id c = None"
    then have "router_model_id rp (rt_team_id router) (model_id c) = Inr None" by (simp add: router_model_id_def)
    with cs c(1) show False by fastforce
  qed
  ultimately have d: "\<exists>c \<in> set (rt_candidates r). model_name c = rt_default_model r \<and> model_id c = rt_default_model_id r \<and> model_id c \<noteq> None"
    using c by (auto simp: r)
  have "\<exists>sel. build_strategy sv so rp meter key (Some team) draw event (rt_strategy r) (JObj (rt_strategy_config r)) = Inr sel" if h: "rt_strategy r \<noteq> ''hybrid''"
  proof -
    have s: "rt_strategy router \<in> set strategies" "construct (rp_webhook rp) (rt_strategy router) (JObj (rt_strategy_config router)) = Inr ()"
      using v(1) by (auto simp: strategy_shape_def split: if_split_asm sum.split_asm)
    have "bind_basic rp (rt_team_id router) ids (rt_strategy router) (JObj (rt_strategy_config router)) = Inr config"
      using v(6) h r by (simp add: bind_strategy_refs_def)
    moreover obtain v where v: "config' = config \<or> config' = dict_put ''shadow'' v config" using sh(1) by auto
    ultimately have "\<exists>sel. basic_strategy sv so rp meter key (Some team) draw event (rt_strategy router) (JObj config') = Inr sel"
      using h r by (intro bound_strategy_builds [OF assms(1) s(1) _ s(2) _ v]) simp_all
    with h r show ?thesis by (simp add: build_strategy_def)
  qed
  with a cs d show ?thesis by (simp add: r)
qed

definition admin_binding :: "string \<Rightarrow> alias_binding" where
  "admin_binding i = \<lparr>ab_id = i, ab_team_id = Some ''t'', ab_alias = i, ab_kind = Model_Callable, ab_resource_id = i, ab_origin = Own,
     ab_source_team_id = None, ab_router_grant_id = None, ab_router_revision_id = None\<rparr>"

definition admin_aliases :: alias_ports where
  "admin_aliases = \<lparr>ap_snapshot = (\<lambda>_. Inr ([admin_binding ''a'', admin_binding ''b''], [])),
     ap_model = (\<lambda>i. if i = ''a'' \<or> i = ''b'' then Inr (Some (sample_model\<lparr>md_id := i, md_team_id := Some ''t''\<rparr>)) else Inr None), ap_router = (\<lambda>_. Inr None),
     ap_router_for_grant = (\<lambda>_ _. Inr None), ap_router_revision = (\<lambda>_ _. Inr None)\<rparr>"

definition admin_ports :: "(mem_store, unit) routing_ports" where
  "admin_ports = (judging_ports (Inr []))\<lparr>rp_resolver := Some admin_aliases\<rparr>"

lemma admin_kept: "identities_kept admin_ports admin_aliases"
  by (auto simp: identities_kept_def admin_ports_def judging_ports_def admin_aliases_def split: if_split_asm)

theorem saved_router_serves_witness:
  "\<exists>r sel. validate_router admin_ports judging_router = Inr r \<and>
    validate_revision_access admin_ports (r\<lparr>rt_revision_id := Some ''v1''\<rparr>) ''t'' = Inr () \<and> rt_default_model_id r = Some ''a'' \<and>
    build_strategy stocked_services memory_store admin_ports True (Some ''k'') (Some ''t'') 0 ''e'' (rt_strategy r) (JObj (rt_strategy_config r)) = Inr sel"
proof -
  have "case validate_router admin_ports judging_router of Inr r \<Rightarrow> rt_default_model_id r = Some ''a'' \<and> rt_strategy r = ''judge'' | Inl e \<Rightarrow> False"
    by code_simp
  then obtain r where r: "validate_router admin_ports judging_router = Inr r" "rt_default_model_id r = Some ''a''" "rt_strategy r = ''judge''"
    by (auto split: sum.splits)
  have t: "rt_team_id judging_router = Some ''t''" by (simp add: judging_router_def sample_router_def)
  from saved_router_serves [OF admin_kept t r(1), of "Some ''v1''" stocked_services memory_store True "Some ''k''" 0 "''e''"] r show ?thesis by auto
qed

text \<open>
  The exception is real: the configuration a hybrid router escalates with is not constructed when it is
  saved, so one whose webhook has no address is accepted, and the strategy of no request can be built.
\<close>

definition hybrid_router :: router_config where
  "hybrid_router = sample_router\<lparr>rt_strategy := ''hybrid'', rt_strategy_config := [(''escalation_strategy'', JStr ''webhook''), (''margin'', JInt 1)]\<rparr>"

lemma hybrid_saved_never_builds:
  "\<exists>r e. validate_router admin_ports hybrid_router = Inr r \<and>
    build_strategy stocked_services memory_store admin_ports True (Some ''k'') (Some ''t'') 0 ''e'' (rt_strategy r) (JObj (rt_strategy_config r)) = Inl e"
proof -
  have "case validate_router admin_ports hybrid_router of
      Inr r \<Rightarrow> \<not> isl (hybrid_strategy (JObj (rt_strategy_config r))) \<and> rt_strategy r = ''hybrid'' \<and>
        (case hybrid_strategy (JObj (rt_strategy_config r)) of Inr hy \<Rightarrow> hy_escalation_name hy = ''webhook'' \<and> hy_escalation_config hy = JObj [] | Inl e \<Rightarrow> False)
    | Inl e \<Rightarrow> False"
    by code_simp
  then obtain r hy where r: "validate_router admin_ports hybrid_router = Inr r" "hybrid_strategy (JObj (rt_strategy_config r)) = Inr hy"
    "rt_strategy r = ''hybrid''" "hy_escalation_name hy = ''webhook''" "hy_escalation_config hy = JObj []"
    by (auto split: sum.splits)
  then show ?thesis by (auto simp: build_strategy_def basic_strategy_def webhook_strategy_def dget_def)
qed

section \<open>Extending a router to other teams\<close>

text \<open>\<open>_slug\<close>: runs of characters other than ASCII letters and digits become one hyphen, none at the ends.\<close>

definition slug_char :: "char \<Rightarrow> bool" where
  "slug_char c \<longleftrightarrow> (let n = of_char c :: nat in 48 \<le> n \<and> n \<le> 57 \<or> 65 \<le> n \<and> n \<le> 90 \<or> 97 \<le> n \<and> n \<le> 122)"

function hyphenated :: "string \<Rightarrow> string" where
  "hyphenated [] = []"
| "hyphenated (c # cs) = (if slug_char c then c # hyphenated cs else CHR ''-'' # hyphenated (dropWhile (\<lambda>c. \<not> slug_char c) cs))"
  by pat_completeness auto
termination
  by (relation "measure length") (auto simp: le_imp_less_Suc length_dropWhile_le)

definition slug :: "string \<Rightarrow> string" where
  "slug s = (let trim = (\<lambda>s. rev (dropWhile (\<lambda>c. c = CHR ''-'') (rev (dropWhile (\<lambda>c. c = CHR ''-'') s)))); t = lower (trim (hyphenated s)) in
     if t = [] then ''team'' else t)"

text \<open>
  \<open>_disambiguate\<close>: the router's own name, else \<open>name-label\<close>, \<open>name-label-2\<close>, ... \<open>taken\<close> are the names the
  team's slots hold, which the repository is asked for one at a time.
\<close>

definition grant_alias :: "string \<Rightarrow> string \<Rightarrow> nat \<Rightarrow> string" where
  "grant_alias base label n = (if n < 2 then base @ ''-'' @ label else base @ ''-'' @ label @ ''-'' @ int_str (int n))"

lemma grant_alias_inj: "inj_on (grant_alias base label) {1..}"
proof (rule inj_onI)
  fix m n assume mn: "m \<in> {1..}" "n \<in> {1..}" "grant_alias base label m = grant_alias base label n"
  show "m = n"
  proof (cases "m < 2 \<or> n < 2")
    case True
    with mn show ?thesis by (auto simp: grant_alias_def split: if_splits)
  next
    case False
    with mn have "digits_str (int m) = digits_str (int n)" by (simp add: grant_alias_def int_str_def)
    then show ?thesis using digits_value_str [of "int m"] digits_value_str [of "int n"] by simp
  qed
qed

lemma fewer_taken:
  assumes "inj_on f {1..}" "f (Suc n) \<in> set taken"
  shows "card {m. Suc n < m \<and> f m \<in> set taken} < card {m. n < m \<and> f m \<in> set taken}"
proof (rule psubset_card_mono)
  have "finite (f ` {m. n < m \<and> f m \<in> set taken})" by (rule finite_subset [of _ "set taken"]) auto
  moreover have "inj_on f {m. n < m \<and> f m \<in> set taken}" by (rule inj_on_subset [OF assms(1)]) auto
  ultimately show "finite {m. n < m \<and> f m \<in> set taken}" by (rule finite_imageD)
  show "{m. Suc n < m \<and> f m \<in> set taken} \<subset> {m. n < m \<and> f m \<in> set taken}" using assms(2) by auto
qed

function free_alias :: "string list \<Rightarrow> string \<Rightarrow> string \<Rightarrow> nat \<Rightarrow> string" where
  "free_alias taken base label n = (if grant_alias base label (Suc n) \<in> set taken then free_alias taken base label (Suc n)
     else grant_alias base label (Suc n))"
  by pat_completeness auto
termination
  by (relation "measure (\<lambda>(taken, base, label, n). card {m. n < m \<and> grant_alias base label m \<in> set taken})")
    (simp_all add: fewer_taken [OF grant_alias_inj])

declare free_alias.simps [simp del]

definition disambiguate :: "string list \<Rightarrow> string \<Rightarrow> string \<Rightarrow> string" where
  "disambiguate taken base label = (if base \<notin> set taken then base else free_alias taken base label 0)"

record router_grant =
  rg_id :: uuid
  rg_router_id :: uuid
  rg_team_id :: uuid
  rg_alias :: string
  rg_created_at :: datetime
  rg_revision_id :: "uuid option"
  rg_revision_number :: "int option"
  rg_ack_active_prompt_egress :: bool
  rg_ack_shadow_prompt_egress :: bool

text \<open>\<open>extend\<close>, up to the insertion of the grants: \<open>existing\<close>, the teams that hold one already; \<open>fresh\<close>, the id and time of each new one.\<close>

definition shadow_webhook :: "router_config \<Rightarrow> exc + bool" where
  "shadow_webhook router = (if rt_shadow_strategy router = Some ''hybrid'' \<and> \<not> is_obj (shadow_config router) then raise_py AttributeError
     else Inr (uses_prompt_webhook (rt_shadow_strategy router) (dict_part (shadow_config router))))"

definition prompt_egress :: "router_config \<Rightarrow> bool \<Rightarrow> bool \<Rightarrow> exc + unit" where
  "prompt_egress router active shadow = rbind (shadow_webhook router) (\<lambda>outside.
     if uses_prompt_webhook (Some (rt_strategy router)) (rt_strategy_config router) \<and> \<not> active then bad_router
     else if outside \<and> \<not> shadow then bad_router else Inr ())"

definition grant_for :: "('st, 'c) routing_ports \<Rightarrow> (uuid \<Rightarrow> string list) \<Rightarrow> (uuid \<Rightarrow> uuid \<times> datetime) \<Rightarrow> router_config \<Rightarrow> string \<Rightarrow> bool \<Rightarrow> bool \<Rightarrow>
    uuid \<Rightarrow> exc + router_grant" where
  "grant_for rp taken fresh router label active shadow team = rbind (validate_revision_access rp router team) (\<lambda>_.
     Inr \<lparr>rg_id = fst (fresh team), rg_router_id = rt_id router, rg_team_id = team, rg_alias = disambiguate (taken team) (rt_name router) label,
       rg_created_at = snd (fresh team), rg_revision_id = rt_revision_id router, rg_revision_number = rt_revision_number router,
       rg_ack_active_prompt_egress = active, rg_ack_shadow_prompt_egress = shadow\<rparr>)"

definition extend_router :: "('st, 'c) routing_ports \<Rightarrow> (uuid \<Rightarrow> string list) \<Rightarrow> (uuid \<Rightarrow> uuid \<times> datetime) \<Rightarrow> uuid list \<Rightarrow> router_config \<Rightarrow> string \<Rightarrow>
    uuid list \<Rightarrow> bool \<Rightarrow> bool \<Rightarrow> exc + router_grant list" where
  "extend_router rp taken fresh existing router source_label teams active shadow = rbind (prompt_egress router active shadow) (\<lambda>_.
     rmap (grant_for rp taken fresh router (slug source_label) active shadow)
       (filter (\<lambda>team. Some team \<noteq> rt_team_id router \<and> team \<notin> set existing) teams))"

text \<open>What \<open>upgrade_grant\<close> checks of a revision before it stages the grant of a team on it.\<close>

definition upgrade_checks :: "('st, 'c) routing_ports \<Rightarrow> router_config \<Rightarrow> router_grant \<Rightarrow> bool \<Rightarrow> bool \<Rightarrow> exc + unit" where
  "upgrade_checks rp revision grant active shadow = rbind (validate_revision_access rp revision (rg_team_id grant)) (\<lambda>_.
     if uses_prompt_webhook (Some (rt_strategy revision)) (rt_strategy_config revision) \<and> \<not> active then bad_router
     else rbind (shadow_webhook revision) (\<lambda>outside. if outside \<and> \<not> shadow then bad_router else Inr ()))"

lemma free_alias_least:
  "\<exists>k. free_alias taken base label n = grant_alias base label (Suc (n + k)) \<and> grant_alias base label (Suc (n + k)) \<notin> set taken \<and>
     (\<forall>j < k. grant_alias base label (Suc (n + j)) \<in> set taken)"
proof (induction taken base label n rule: free_alias.induct)
  case (1 taken base label n)
  show ?case
  proof (cases "grant_alias base label (Suc n) \<in> set taken")
    case True
    with 1 obtain k where k: "free_alias taken base label (Suc n) = grant_alias base label (Suc (Suc n + k))"
      "grant_alias base label (Suc (Suc n + k)) \<notin> set taken" "\<forall>j < k. grant_alias base label (Suc (Suc n + j)) \<in> set taken" by blast
    have "grant_alias base label (Suc (n + j)) \<in> set taken" if "j < Suc k" for j
      using that k(3) True by (cases j) auto
    with True k(1,2) show ?thesis by (intro exI [of _ "Suc k"]) (simp add: free_alias.simps [of taken base label n])
  next
    case False
    then show ?thesis by (intro exI [of _ 0]) (simp add: free_alias.simps [of taken base label n])
  qed
qed

text \<open>
  C40. The search for an alias ends whatever names are taken: the router keeps its name where that is free,
  and otherwise gets the first free one of \<open>name-label\<close>, \<open>name-label-2\<close> and so on.
\<close>

theorem disambiguation_ends:
  "disambiguate taken base label \<notin> set taken \<and> (disambiguate taken base label \<noteq> base \<longrightarrow> base \<in> set taken \<and>
     (\<exists>n. disambiguate taken base label = grant_alias base label (Suc n) \<and> (\<forall>j < n. grant_alias base label (Suc j) \<in> set taken)))"
  using free_alias_least [of taken base label 0] by (auto simp: disambiguate_def)

theorem disambiguation_ends_witness:
  "disambiguate [''smart'', ''smart-ops''] ''smart'' (slug ''Ops!'') = ''smart-ops-2''"
proof -
  have s: "slug ''Ops!'' = ''ops''" by code_simp
  have a: "grant_alias ''smart'' ''ops'' (Suc 0) = ''smart-ops''" "grant_alias ''smart'' ''ops'' (Suc (Suc 0)) = ''smart-ops-2''" by code_simp+
  let ?d = "disambiguate [''smart'', ''smart-ops''] ''smart'' ''ops''"
  from disambiguation_ends [of "[''smart'', ''smart-ops'']" "''smart''" "''ops''"] have "?d \<noteq> ''smart''" "?d \<noteq> ''smart-ops''" by auto
  then obtain n where n: "?d = grant_alias ''smart'' ''ops'' (Suc n)" "\<forall>j < n. grant_alias ''smart'' ''ops'' (Suc j) \<in> {''smart'', ''smart-ops''}"
    using disambiguation_ends [of "[''smart'', ''smart-ops'']" "''smart''" "''ops''"] by auto
  have "n \<noteq> 0" using n(1) a(1) \<open>?d \<noteq> ''smart-ops''\<close> by (cases n) auto
  moreover have "\<not> 1 < n" using n(2) a(2) by auto
  ultimately have "n = 1" by linarith
  with n(1) a(2) s show ?thesis by simp
qed

text \<open>
  C18. A router is extended only to teams that are not its own and hold no grant of it; each may use every
  model the revision is bound to, gets an alias that is free there, and a webhook is told the prompts
  of other teams only where that was acknowledged.
\<close>

theorem extension_is_governed:
  assumes "extend_router rp taken fresh existing router source_label teams active shadow = Inr gs"
  shows "map rg_team_id gs = filter (\<lambda>team. Some team \<noteq> rt_team_id router \<and> team \<notin> set existing) teams \<and>
    (\<forall>g \<in> set gs. validate_revision_access rp router (rg_team_id g) = Inr () \<and> rg_alias g \<notin> set (taken (rg_team_id g)) \<and>
       rg_revision_id g = rt_revision_id router) \<and>
    (uses_prompt_webhook (Some (rt_strategy router)) (rt_strategy_config router) \<longrightarrow> active \<and> (\<forall>g \<in> set gs. rg_ack_active_prompt_egress g)) \<and>
    (shadow_webhook router = Inr True \<longrightarrow> shadow)"
proof -
  have free: "disambiguate t b l \<notin> set t" for t b l using free_alias_least [of t b l 0] by (auto simp: disambiguate_def)
  have one: "rg_team_id g = team \<and> validate_revision_access rp router team = Inr () \<and> rg_alias g \<notin> set (taken team) \<and>
      rg_revision_id g = rt_revision_id router \<and> rg_ack_active_prompt_egress g = active"
    if "grant_for rp taken fresh router label active shadow team = Inr g" for label team g
    using that free by (auto simp: grant_for_def)
  have "map rg_team_id gs = ts \<and> (\<forall>g \<in> set gs. validate_revision_access rp router (rg_team_id g) = Inr () \<and> rg_alias g \<notin> set (taken (rg_team_id g)) \<and>
      rg_revision_id g = rt_revision_id router \<and> rg_ack_active_prompt_egress g = active)"
    if "rmap (grant_for rp taken fresh router label active shadow) ts = Inr gs" for label ts
    using that
  proof (induction ts arbitrary: gs)
    case (Cons t ts)
    then obtain g gs' where "grant_for rp taken fresh router label active shadow t = Inr g"
      "rmap (grant_for rp taken fresh router label active shadow) ts = Inr gs'" "gs = g # gs'" by auto
    with Cons.IH [of gs'] one show ?case by auto
  qed simp
  with assms show ?thesis by (auto simp: extend_router_def prompt_egress_def split: if_split_asm)
qed

definition shared_router :: router_config where
  "shared_router = judging_router\<lparr>rt_candidates := map (\<lambda>n. (sample_candidate n)\<lparr>model_id := Some n\<rparr>) [''a'', ''b''],
     rt_strategy_config := [(''judge_model_id'', JStr ''b'')], rt_revision_id := Some ''v1''\<rparr>"

theorem extension_is_governed_witness:
  "\<exists>g. extend_router admin_ports (\<lambda>_. [''smart'']) (\<lambda>team. (team, dn_now sample_now)) [''u''] shared_router ''Ops'' [''t'', ''u'', ''v''] False False = Inr [g] \<and>
    rg_team_id g = ''v'' \<and> rg_alias g \<noteq> ''smart'' \<and> validate_revision_access admin_ports shared_router ''v'' = Inr ()"
proof -
  let ?gs = "extend_router admin_ports (\<lambda>_. [''smart'']) (\<lambda>team. (team, dn_now sample_now)) [''u''] shared_router ''Ops'' [''t'', ''u'', ''v''] False False"
  have "validate_revision_access admin_ports shared_router ''v'' = Inr ()" by code_simp
  moreover have t: "rt_team_id shared_router = Some ''t''" by (simp add: shared_router_def judging_router_def sample_router_def)
  moreover have "prompt_egress shared_router False False = Inr ()" by code_simp
  ultimately obtain gs where gs: "?gs = Inr gs" by (simp add: extend_router_def grant_for_def)
  from extension_is_governed [OF gs] t have "map rg_team_id gs = [''v'']" by simp
  then obtain g where g: "gs = [g]" "rg_team_id g = ''v''" by (cases gs) auto
  with extension_is_governed [OF gs] gs show ?thesis by auto
qed
end
