(* ===== verification/Spec2Isabelle.thy ===== *)
theory Spec2Isabelle
  imports Pricing Budget_Math Reservation_Memory Circuit_Breaker Rate_Limiter Routing Responses_Policy Meter_Streams
    Guardrail_Chain Response_Cache Completion_Dispatch Callable_Aliases Completion_Prepare Completion_Failover
    Completion_Streams Router_Admin
begin

text \<open>
  LiteStar Gateway: a gateway in front of LLM providers. A client calls an OpenAI-shaped endpoint
  (chat completions, Responses, embeddings, images) or a provider-native one (Anthropic Messages,
  Gemini generateContent); the gateway resolves the alias it names to a model or a router, checks and
  bounds the request, screens it with guardrails, reserves its pessimistic cost against the budgets of
  the team and the key, calls the provider, settles what was really used, screens and caches the
  answer, and moves to another model when a provider fails. This development models that path: the
  domain rules and the application services under \<open>src/litestar_gateway/\<close>, with the in-memory
  adapters of their ports. Every theory names its files.

  \<^bold>\<open>The parts and how they build on each other.\<close>

  \<^item> \<open>Gateway_Prelude\<close>: errors as sums (\<open>rbind\<close>, \<open>rmap\<close>, \<open>each\<close>), Python dicts as association lists in
    insertion order, digits, sorting keys. \<open>Domain_Errors\<close>: the exception classes with their
    hierarchy, HTTP status and failover eligibility; every raise of the source is an \<open>Inl\<close>.
  \<^item> \<open>Python_Floats\<close> (binary64 as rationals rounded by \<open>rnd\<close>), \<open>Python_Decimal\<close> (the decimal module as
    far as money uses it), \<open>Python_Sum\<close> (compensated \<open>sum\<close>), \<open>Python_Json\<close> (parsing and printing).
  \<^item> Money: \<open>Pricing\<close> (\<open>domain/money.py\<close>, \<open>domain/pricing.py\<close>), \<open>Budget_Math\<close> (\<open>domain/budget.py\<close>),
    \<open>Usage_Accounting\<close>, \<open>Meter_Admission\<close>, \<open>Meter_Settlement\<close>, \<open>Meter_Streams\<close> (\<open>application/usage_meter.py\<close>).
  \<^item> Shared state: \<open>Reservation_Store\<close> and \<open>Reservation_Memory\<close>, \<open>Circuit_Breaker\<close>, \<open>Rate_Limiter\<close>,
    \<open>Response_Cache\<close>: the port as a locale with its laws where a client relies on it, the in-memory
    adapter as functions on an explicit state, and the interpretation that discharges the laws.
  \<^item> Requests: \<open>Model_Entities\<close>, \<open>Vertex_Call_Id\<close>, \<open>Chat_Tool_Policy\<close>, \<open>Request_Limits\<close>,
    \<open>Responses_Policy\<close> (\<open>domain/chat_tool_policy.py\<close>, \<open>domain/request_policy.py\<close>).
  \<^item> Guardrails: \<open>Guardrail_Payloads\<close>, \<open>Guardrail_Chain\<close> (\<open>application/guardrails/\<close>, \<open>domain/guardrail*.py\<close>).
  \<^item> Naming and routing: \<open>Callable_Aliases\<close>, \<open>Routing\<close> (\<open>application/callable_aliases.py\<close>, \<open>domain/routing.py\<close>);
    \<open>Routing_Strategies\<close>, the six ways to choose a candidate (\<open>application/routing/\<close>), whose signed
    webhook calls are \<open>Webhook_Signature\<close> (\<open>domain/webhook_signature.py\<close>); \<open>Routing_Service\<close>, the decision
    for a request with its fallback, metered calls and log, and \<open>Router_Admin\<close>, the validation of a
    router, the binding of its models and its extension to teams (\<open>application/routing/service.py\<close>).
  \<^item> The service (\<open>application/completion_service.py\<close>): \<open>Completion_Dispatch\<close> is one provider call with
    its cache tiers, settlement and release; \<open>Completion_Prepare\<close> everything before it and the
    endpoints that answer at once; \<open>Completion_Failover\<close> chat completions with their failover
    chain; \<open>Completion_Streams\<close> the streaming endpoints over \<open>Meter_Streams\<close>, with the chain that stops
    at the first byte.

  \<^bold>\<open>State.\<close> The service is a set of functions on a record \<open>world\<close> of what its collaborators keep (books,
  alert rows, reservations, cache, provider calls, limiter), passed and returned explicitly; the
  breaker's state stands beside it. Clock readings, fresh ids, the fate of each database write, what
  a provider answers and where a deadline cuts a call are arguments, so a theorem holds for every
  interleaving of them. Repositories are functions in the records \<open>services\<close>, \<open>alias_ports\<close>,
  \<open>callable_ports\<close>, \<open>meter_ports\<close>, each of which may raise.

  \<^bold>\<open>What is shown.\<close> Money is exact to a single rounding and never a credit; admission overshoots a
  limit by at most one reservation and a reservation covers its settlement; the breaker grants one
  trial; the limiter counts fixed windows; tool replays, ceilings and stateless native requests hold
  on whatever is accepted; a guardrail chain refines its pipeline specification and closed rules are
  never skipped; cached answers are screened answers of the same tenant; each dispatch settles once
  and releases once, and so does the whole call on every path, streamed or not, over retries too; a
  replayed stream carries the stored answer. A router that was saved can be used by its team, a
  strategy that fails never fails the request it routes, and what strategies call is reserved, billed
  and released like any other call.

  \<^bold>\<open>Bounds and fuel.\<close> JSON parsing has fuel \<open>2 * length + 2\<close>, which every step consumes at most one
  of per character and value; \<open>exp10\<close> searches within the exponents of binary64; \<open>ancestors 3\<close> walks
  the exception hierarchy, which is three deep (lemma \<open>ancestors_enough\<close>); \<open>shortest_digits\<close> tries up to
  17 digits, enough for binary64; \<open>pieces\<close> has the length of the text as fuel; the semantic cache
  sweeps a constant number of entries as the source does; \<open>free_slot\<close> and \<open>free_alias\<close> terminate by the
  finite set of taken names; the keyword and pattern searches recurse on the text, and the square root
  of a cosine is an integer root of a scaled number, rounded once.

  \<^bold>\<open>Not modelled.\<close> The HTTP layer (Litestar controllers, schemas, sessions, SSO, SCIM), SQLAlchemy
  persistence and migrations, the Redis adapters, provider SDK calls and the network, configuration
  and start-up, key management, notifications and reconcilers, logging: input and output around
  the logic above. Of the logic itself the wire translations of the provider adapters, the egress
  policy, the administration of teams, keys and users, and the statistics of the routing service are
  left; \<open>PROJECT.json\<close> lists every part with its status. The completion service takes the routing
  service as a parameter (\<open>cp_route\<close>); a decision is modelled beside it, over the same \<open>world\<close>. Two
  simplifications stand throughout: strings are lists of 8-bit characters, and floats are finite.
\<close>

end
